(* ===== verification/Prelude.thy ===== *)
theory Prelude
  imports Main "HOL-Library.Word"
begin

unbundle bit_operations_syntax

text \<open>
  Shared vocabulary of the development: the machine integer types of \<^verbatim>\<open>misc.h\<close>, the guest
  error codes of \<^verbatim>\<open>kernel/errno.h\<close>, wrap-around arithmetic on natural numbers, bounded
  memory copies in which an out-of-range access is the value \<^const>\<open>None\<close>, and the list
  lemmas the components use.
\<close>

named_theorems wrap_simps \<open>wrap-around arithmetic that does not wrap\<close>
named_theorems copy_simps \<open>memory copies inside their buffers\<close>

type_synonym byte = "8 word"
type_synonym u16 = "16 word"
type_synonym u32 = "32 word"
type_synonym u64 = "64 word"

section \<open>Guest error codes\<close>

abbreviation (input) EPERM :: int where "EPERM \<equiv> - 1"
abbreviation (input) ENOENT :: int where "ENOENT \<equiv> - 2"
abbreviation (input) ESRCH :: int where "ESRCH \<equiv> - 3"
abbreviation (input) EINTR :: int where "EINTR \<equiv> - 4"
abbreviation (input) EBADF :: int where "EBADF \<equiv> - 9"
abbreviation (input) ECHILD :: int where "ECHILD \<equiv> - 10"
abbreviation (input) EAGAIN :: int where "EAGAIN \<equiv> - 11"
abbreviation (input) ENOMEM :: int where "ENOMEM \<equiv> - 12"
abbreviation (input) EACCES :: int where "EACCES \<equiv> - 13"
abbreviation (input) EFAULT :: int where "EFAULT \<equiv> - 14"
abbreviation (input) EBUSY :: int where "EBUSY \<equiv> - 16"
abbreviation (input) EEXIST :: int where "EEXIST \<equiv> - 17"
abbreviation (input) ENOTDIR :: int where "ENOTDIR \<equiv> - 20"
abbreviation (input) EXDEV :: int where "EXDEV \<equiv> - 18"
abbreviation (input) ENXIO :: int where "ENXIO \<equiv> - 6"
abbreviation (input) EISDIR :: int where "EISDIR \<equiv> - 21"
abbreviation (input) EINVAL :: int where "EINVAL \<equiv> - 22"
abbreviation (input) EMFILE :: int where "EMFILE \<equiv> - 24"
abbreviation (input) ENAMETOOLONG :: int where "ENAMETOOLONG \<equiv> - 36"
abbreviation (input) ENOSYS :: int where "ENOSYS \<equiv> - 38"
abbreviation (input) ELOOP :: int where "ELOOP \<equiv> - 40"
abbreviation (input) ETIMEDOUT :: int where "ETIMEDOUT \<equiv> - 110"

section \<open>Flags and wrap-around arithmetic\<close>

text \<open>\<^verbatim>\<open>flags & MASK\<close> used as a condition.\<close>

definition has_flag :: "u32 \<Rightarrow> u32 \<Rightarrow> bool" where
  "has_flag flags m \<longleftrightarrow> flags AND m \<noteq> 0"

text \<open>Unsigned 32-bit and 64-bit results, and the two's complement value of a signed one.\<close>

definition w32 :: "nat \<Rightarrow> nat" where
  "w32 n = n mod 2 ^ 32"

definition w64 :: "nat \<Rightarrow> nat" where
  "w64 n = n mod 2 ^ 64"

definition sub64 :: "nat \<Rightarrow> nat \<Rightarrow> nat" where
  "sub64 a b = w64 (a + (2 ^ 64 - w64 b))"

definition s32 :: "int \<Rightarrow> int" where
  "s32 i = (i + 2 ^ 31) mod 2 ^ 32 - 2 ^ 31"

definition s64 :: "int \<Rightarrow> int" where
  "s64 i = (i + 2 ^ 63) mod 2 ^ 64 - 2 ^ 63"

section \<open>Bounded copies\<close>

text \<open>
  \<open>put_bytes buf i xs\<close> is \<^verbatim>\<open>memcpy(&buf[i], xs, n)\<close> and \<open>get_bytes buf i n\<close> the bytes
  \<^verbatim>\<open>memcpy(_, &buf[i], n)\<close> reads; both are \<^const>\<open>None\<close> when the access leaves the buffer.
\<close>

definition put_bytes :: "'a list \<Rightarrow> nat \<Rightarrow> 'a list \<Rightarrow> 'a list option" where
  "put_bytes buf i xs =
     (if i + length xs \<le> length buf
      then Some (take i buf @ xs @ drop (i + length xs) buf) else None)"

definition get_bytes :: "'a list \<Rightarrow> nat \<Rightarrow> nat \<Rightarrow> 'a list option" where
  "get_bytes buf i n = (if i + n \<le> length buf then Some (take n (drop i buf)) else None)"

section \<open>Lemmas\<close>

lemma has_flag_0 [simp]: "\<not> has_flag 0 m"
  by (simp add: has_flag_def)

lemma w32_id [wrap_simps]: "n < 2 ^ 32 \<Longrightarrow> w32 n = n"
  by (simp add: w32_def)

lemma w64_id [wrap_simps]: "n < 2 ^ 64 \<Longrightarrow> w64 n = n"
  by (simp add: w64_def)

lemma sub64_id [wrap_simps]:
  assumes "b \<le> a" and "a < 2 ^ 64"
  shows "sub64 a b = a - b"
proof -
  have b: "w64 b = b" using assms by (simp add: w64_def)
  have "sub64 a b = ((a - b) + 2 ^ 64) mod 2 ^ 64"
    using assms unfolding sub64_def b w64_def by (simp add: add.commute)
  also have "\<dots> = a - b" using assms by (simp only: mod_add_self2) simp
  finally show ?thesis .
qed

lemma s32_id [wrap_simps]: "- (2 ^ 31) \<le> i \<Longrightarrow> i < 2 ^ 31 \<Longrightarrow> s32 i = i"
  by (simp add: s32_def)

lemma s64_id [wrap_simps]: "- (2 ^ 63) \<le> i \<Longrightarrow> i < 2 ^ 63 \<Longrightarrow> s64 i = i"
  by (simp add: s64_def)

lemma s32_range: "- (2 ^ 31) \<le> s32 i \<and> s32 i < 2 ^ 31"
  using pos_mod_bound [of "2 ^ 32" "i + 2 ^ 31"] pos_mod_sign [of "2 ^ 32" "i + 2 ^ 31"]
  by (simp add: s32_def)

lemma s64_range: "- (2 ^ 63) \<le> s64 i \<and> s64 i < 2 ^ 63"
  using pos_mod_bound [of "2 ^ 64" "i + 2 ^ 63"] pos_mod_sign [of "2 ^ 64" "i + 2 ^ 63"]
  by (simp add: s64_def)

lemma put_bytes_Some [copy_simps]:
  "i + length xs \<le> length buf \<Longrightarrow>
   put_bytes buf i xs = Some (take i buf @ xs @ drop (i + length xs) buf)"
  by (simp add: put_bytes_def)

lemma get_bytes_Some [copy_simps]:
  "i + n \<le> length buf \<Longrightarrow> get_bytes buf i n = Some (take n (drop i buf))"
  by (simp add: get_bytes_def)

lemma put_bytes_ex: "i + length xs \<le> length buf \<Longrightarrow> \<exists>b. put_bytes buf i xs = Some b"
  by (simp add: put_bytes_def)

lemma put_bytes_length: "put_bytes buf i xs = Some buf' \<Longrightarrow> length buf' = length buf"
  by (auto simp: put_bytes_def split: if_splits)

lemma put_bytes_nth:
  assumes "put_bytes buf i xs = Some buf'" and "j < length buf"
  shows "buf' ! j = (if i \<le> j \<and> j < i + length xs then xs ! (j - i) else buf ! j)"
  using assms by (auto simp: put_bytes_def nth_append split: if_splits)

lemma get_bytes_nth:
  assumes "get_bytes buf i n = Some ys" and "j < n"
  shows "ys ! j = buf ! (i + j)"
  using assms by (auto simp: get_bytes_def split: if_splits)

lemma get_bytes_length: "get_bytes buf i n = Some ys \<Longrightarrow> length ys = n"
  by (auto simp: get_bytes_def split: if_splits)

lemma mod_add_if:
  fixes a b c :: nat
  assumes "a < c" and "b \<le> c"
  shows "(a + b) mod c = (if a + b < c then a + b else a + b - c)"
proof (cases "a + b < c")
  case True
  then show ?thesis by simp
next
  case False
  then have "a + b = (a + b - c) + c" by simp
  moreover have "a + b - c < c" using assms False by linarith
  ultimately show ?thesis using False by (metis mod_add_self2 mod_less)
qed

end
