(* ===== verification/Fifo.thy ===== *)
theory Fifo
  imports Prelude
begin

text \<open>
  The circular byte buffer of \<^verbatim>\<open>util/fifo.c\<close>. A \<open>fifo\<close> is the C structure with
  its buffer as a byte list; an access outside the buffer, and a remainder by a zero
  capacity, give \<^const>\<open>None\<close>. The specification is the sequence of stored bytes,
  \<open>fifo_content\<close>.
\<close>

section \<open>Definitions\<close>

record fifo =
  fifo_buf :: "byte list"
  fifo_cap :: nat
  fifo_len :: nat
  fifo_start :: nat

abbreviation (input) FIFO_OVERWRITE :: u32 where "FIFO_OVERWRITE \<equiv> 1"

abbreviation (input) FIFO_PEEK :: u32 where "FIFO_PEEK \<equiv> 1"

abbreviation (input) FIFO_LAST :: u32 where "FIFO_LAST \<equiv> 2"

text \<open>\<^verbatim>\<open>malloc\<close> leaves the buffer's bytes unspecified: they are the argument \<open>junk\<close>.\<close>

definition fifo_init :: "byte list \<Rightarrow> fifo" where
  "fifo_init junk = \<lparr>fifo_buf = junk, fifo_cap = length junk, fifo_len = 0, fifo_start = 0\<rparr>"

definition fifo_capacity :: "fifo \<Rightarrow> nat" where
  "fifo_capacity f = fifo_cap f"

definition fifo_size :: "fifo \<Rightarrow> nat" where
  "fifo_size f = fifo_len f"

definition fifo_remaining :: "fifo \<Rightarrow> nat" where
  "fifo_remaining f = sub64 (fifo_cap f) (fifo_len f)"

definition fifo_discard :: "fifo \<Rightarrow> nat \<Rightarrow> fifo" where
  "fifo_discard f n =
     (let excess = sub64 n (fifo_remaining f)
      in f\<lparr>fifo_start := w64 (fifo_start f + excess) mod fifo_cap f,
           fifo_len := sub64 (fifo_len f) excess\<rparr>)"

definition fifo_append :: "fifo \<Rightarrow> byte list \<Rightarrow> fifo option" where
  "fifo_append f data =
     (if fifo_cap f = 0 then None else
      let n = length data;
          tail = w64 (fifo_start f + fifo_len f) mod fifo_cap f;
          first = min (sub64 (fifo_cap f) tail) n
      in case put_bytes (fifo_buf f) tail (take first data) of None \<Rightarrow> None
         | Some buf1 \<Rightarrow>
       (case put_bytes buf1 0 (drop first data) of None \<Rightarrow> None
        | Some buf2 \<Rightarrow>
          Some (f\<lparr>fifo_buf := buf2, fifo_len := w64 (fifo_len f + n)\<rparr>)))"

definition fifo_write :: "fifo \<Rightarrow> byte list \<Rightarrow> u32 \<Rightarrow> (int \<times> fifo) option" where
  "fifo_write f data flags =
     (if length data > fifo_remaining f
      then if \<not> has_flag flags FIFO_OVERWRITE then Some (1, f)
           else if fifo_cap f = 0 then None
           else map_option (\<lambda>f'. (0, f')) (fifo_append (fifo_discard f (length data)) data)
      else map_option (\<lambda>f'. (0, f')) (fifo_append f data))"

text \<open>
  The result of a read is the return value, the bytes copied to the caller and the buffer.
  The first chunk's length is computed from \<open>fifo->start\<close>, also when \<open>FIFO_LAST\<close> has
  moved the local \<open>start\<close>.
\<close>

definition fifo_read :: "fifo \<Rightarrow> nat \<Rightarrow> u32 \<Rightarrow> (int \<times> byte list \<times> fifo) option" where
  "fifo_read f n flags =
     (if n > fifo_size f then Some (1, [], f)
      else if fifo_cap f = 0 \<and> (has_flag flags FIFO_LAST \<or> \<not> has_flag flags FIFO_PEEK) then None
      else
        let start = (if has_flag flags FIFO_LAST
                     then w64 (fifo_start f + sub64 (fifo_len f) n) mod fifo_cap f
                     else fifo_start f);
            first = min (sub64 (fifo_cap f) (fifo_start f)) n
        in case (get_bytes (fifo_buf f) start first, get_bytes (fifo_buf f) 0 (n - first)) of
             (Some part1, Some part2) \<Rightarrow>
               Some (0, part1 @ part2,
                 if has_flag flags FIFO_PEEK then f
                 else f\<lparr>fifo_start := w64 (start + n) mod fifo_cap f,
                        fifo_len := sub64 (fifo_len f) n\<rparr>)
           | _ \<Rightarrow> None)"

definition fifo_flush :: "fifo \<Rightarrow> fifo" where
  "fifo_flush f = f\<lparr>fifo_len := 0\<rparr>"

text \<open>Well-formed buffers and the byte sequence they hold.\<close>

definition fifo_wf :: "fifo \<Rightarrow> bool" where
  "fifo_wf f \<longleftrightarrow> 0 < fifo_cap f \<and> fifo_cap f < 2 ^ 63 \<and> length (fifo_buf f) = fifo_cap f \<and>
     fifo_len f \<le> fifo_cap f \<and> fifo_start f < fifo_cap f"

definition fifo_content :: "fifo \<Rightarrow> byte list" where
  "fifo_content f =
     map (\<lambda>i. fifo_buf f ! ((fifo_start f + i) mod fifo_cap f)) [0..<fifo_len f]"

section \<open>Lemmas\<close>

lemma fifo_wf_init: "0 < length junk \<Longrightarrow> length junk < 2 ^ 63 \<Longrightarrow> fifo_wf (fifo_init junk)"
  by (simp add: fifo_wf_def fifo_init_def)

lemma fifo_content_init [simp]: "fifo_content (fifo_init junk) = []"
  by (simp add: fifo_content_def fifo_init_def)

lemma length_fifo_content [simp]: "length (fifo_content f) = fifo_len f"
  by (simp add: fifo_content_def)

lemma fifo_content_nth:
  "i < fifo_len f \<Longrightarrow> fifo_content f ! i = fifo_buf f ! ((fifo_start f + i) mod fifo_cap f)"
  by (simp add: fifo_content_def)

lemma fifo_remaining_wf: "fifo_wf f \<Longrightarrow> fifo_remaining f = fifo_cap f - fifo_len f"
  by (simp add: fifo_remaining_def fifo_wf_def wrap_simps)

lemma fifo_content_drop:
  assumes "k \<le> fifo_len f"
  shows "fifo_content (f\<lparr>fifo_start := (fifo_start f + k) mod fifo_cap f,
                         fifo_len := fifo_len f - k\<rparr>) = drop k (fifo_content f)"
  using assms
  by (intro nth_equalityI) (auto simp: fifo_content_def mod_add_left_eq add.assoc)

lemma fifo_discard_wf:
  assumes "fifo_wf f" and "n \<le> fifo_cap f" and "fifo_remaining f < n"
  shows "fifo_discard f n =
    f\<lparr>fifo_start := (fifo_start f + (n - fifo_remaining f)) mod fifo_cap f,
      fifo_len := fifo_len f - (n - fifo_remaining f)\<rparr>"
proof -
  have "w64 (fifo_start f + (n - fifo_remaining f)) = fifo_start f + (n - fifo_remaining f)"
    by (rule w64_id) (use assms in \<open>auto simp: fifo_wf_def\<close>)
  moreover have "sub64 n (fifo_remaining f) = n - fifo_remaining f"
    by (rule sub64_id) (use assms in \<open>auto simp: fifo_wf_def\<close>)
  moreover have "sub64 (fifo_len f) (n - fifo_remaining f) = fifo_len f - (n - fifo_remaining f)"
    by (rule sub64_id) (use assms in \<open>auto simp: fifo_wf_def fifo_remaining_wf\<close>)
  ultimately show ?thesis by (simp add: fifo_discard_def Let_def)
qed

text \<open>Two chunks written at the tail are one write modulo the capacity.\<close>

lemma fifo_two_chunks:
  assumes "length buf = c" and "t < c" and "length xs \<le> c"
    and "put_bytes buf t (take (min (c - t) (length xs)) xs) = Some b1"
    and "put_bytes b1 0 (drop (min (c - t) (length xs)) xs) = Some b2"
    and "i < length xs"
  shows "b2 ! ((t + i) mod c) = xs ! i"
proof -
  have l1: "length b1 = c" using put_bytes_length [OF assms(4)] assms(1) by simp
  show ?thesis
  proof (cases "t + i < c")
    case True
    have "b2 ! (t + i) = b1 ! (t + i)"
      using put_bytes_nth [OF assms(5), of "t + i"] l1 True assms(3) by auto
    also have "\<dots> = xs ! i"
      using put_bytes_nth [OF assms(4), of "t + i"] assms(1,6) True by auto
    finally show ?thesis using True by simp
  next
    case False
    then have m: "(t + i) mod c = t + i - c"
      using assms(2,3,6) by (simp add: mod_add_if)
    have "b2 ! (t + i - c) = xs ! i"
      using put_bytes_nth [OF assms(5), of "t + i - c"] l1 False assms(2,3,6) by auto
    then show ?thesis using m by simp
  qed
qed

lemma fifo_two_chunks_other:
  assumes "length buf = c" and "t < c" and "length xs \<le> c"
    and "put_bytes buf t (take (min (c - t) (length xs)) xs) = Some b1"
    and "put_bytes b1 0 (drop (min (c - t) (length xs)) xs) = Some b2"
    and "length xs \<le> i" and "i < c"
  shows "b2 ! ((t + i) mod c) = buf ! ((t + i) mod c)"
proof -
  have l1: "length b1 = c" using put_bytes_length [OF assms(4)] assms(1) by simp
  have m: "(t + i) mod c = (if t + i < c then t + i else t + i - c)"
    using assms(2,7) by (simp add: mod_add_if)
  have "b2 ! ((t + i) mod c) = b1 ! ((t + i) mod c)"
    using put_bytes_nth [OF assms(5), of "(t + i) mod c"] l1 m assms(2,6,7) by auto
  also have "\<dots> = buf ! ((t + i) mod c)"
    using put_bytes_nth [OF assms(4), of "(t + i) mod c"] m assms(1,2,6,7) by auto
  finally show ?thesis .
qed

text \<open>Appending to a buffer with room.\<close>

lemma fifo_append_wf:
  assumes wf: "fifo_wf f" and room: "fifo_len f + length xs \<le> fifo_cap f"
  obtains f' where "fifo_append f xs = Some f'" and "fifo_wf f'"
    and "fifo_content f' = fifo_content f @ xs"
    and "fifo_cap f' = fifo_cap f"
proof -
  let ?c = "fifo_cap f"
  define t where "t = (fifo_start f + fifo_len f) mod fifo_cap f"
  let ?k = "min (?c - t) (length xs)"
  from wf have c: "0 < ?c" "?c < 2 ^ 63" "length (fifo_buf f) = ?c" "fifo_start f < ?c"
    by (auto simp: fifo_wf_def)
  then have t: "t < ?c" by (simp add: t_def)
  have w: "w64 (fifo_start f + fifo_len f) = fifo_start f + fifo_len f"
    and s: "sub64 ?c t = ?c - t" and n: "w64 (fifo_len f + length xs) = fifo_len f + length xs"
    using c t room by (simp_all add: w64_id sub64_id)
  obtain b1 where b1: "put_bytes (fifo_buf f) t (take ?k xs) = Some b1"
    using put_bytes_ex [of t "take ?k xs" "fifo_buf f"] c(3) t by fastforce
  obtain b2 where b2: "put_bytes b1 0 (drop ?k xs) = Some b2"
    using put_bytes_ex [of 0 "drop ?k xs" b1] put_bytes_length [OF b1] c(3) room t by fastforce
  let ?f = "f\<lparr>fifo_buf := b2, fifo_len := fifo_len f + length xs\<rparr>"
  have len: "length b2 = ?c"
    using put_bytes_length [OF b1] put_bytes_length [OF b2] c(3) by simp
  have "fifo_content ?f ! i = (fifo_content f @ xs) ! i"
    if "i < fifo_len f + length xs" for i
  proof (cases "i < fifo_len f")
    case False
    then obtain j where "i = fifo_len f + j"
      using nat_le_iff_add [of "fifo_len f" i] by auto
    then have j: "i = fifo_len f + j" "j < length xs" using that by simp_all
    have "b2 ! ((t + j) mod ?c) = xs ! j"
      using fifo_two_chunks [OF c(3) t _ b1 b2 j(2)] room by simp
    then show ?thesis using j by (simp add: fifo_content_def nth_append mod_add_left_eq add.assoc t_def)
  next
    case True
    let ?i = "?c - fifo_len f + i"
    have "(t + ?i) mod ?c = (fifo_start f + fifo_len f + ?i) mod ?c"
      by (simp add: mod_add_left_eq t_def)
    also have "fifo_start f + fifo_len f + ?i = fifo_start f + i + ?c" using room by simp
    finally have m: "(t + ?i) mod ?c = (fifo_start f + i) mod ?c" by simp
    have "b2 ! ((t + ?i) mod ?c) = fifo_buf f ! ((t + ?i) mod ?c)"
      using fifo_two_chunks_other [OF c(3) t _ b1 b2, of ?i] room True by simp
    then show ?thesis using True that m by (simp add: fifo_content_def nth_append)
  qed
  then have "fifo_content ?f = fifo_content f @ xs"
    by (intro nth_equalityI) auto
  moreover have "fifo_append f xs = Some ?f"
    using c(1) b1 b2 by (simp add: fifo_append_def Let_def w n t_def [symmetric] s)
  moreover have "fifo_wf ?f" using wf len room by (simp add: fifo_wf_def)
  ultimately show ?thesis using that by simp
qed

text \<open>
  The bytes a read takes out of the buffer, for a chunk that starts at \<open>fifo_start\<close>.
\<close>

lemma fifo_read_chunks:
  assumes wf: "fifo_wf f" and n: "n \<le> fifo_len f"
  shows "get_bytes (fifo_buf f) (fifo_start f) (min (fifo_cap f - fifo_start f) n) =
           Some (take (min (fifo_cap f - fifo_start f) n) (fifo_content f))"
    and "get_bytes (fifo_buf f) 0 (n - min (fifo_cap f - fifo_start f) n) =
           Some (drop (min (fifo_cap f - fifo_start f) n) (take n (fifo_content f)))"
proof -
  let ?k = "min (fifo_cap f - fifo_start f) n"
  from wf have c: "length (fifo_buf f) = fifo_cap f" "fifo_start f < fifo_cap f"
    "fifo_len f \<le> fifo_cap f"
    by (auto simp: fifo_wf_def)
  have "take ?k (drop (fifo_start f) (fifo_buf f)) = take ?k (fifo_content f)"
    using c n by (intro nth_equalityI) (auto simp: fifo_content_def)
  then show "get_bytes (fifo_buf f) (fifo_start f) ?k = Some (take ?k (fifo_content f))"
    using c by (simp add: get_bytes_def)
  have "take (n - ?k) (fifo_buf f) = drop ?k (take n (fifo_content f))"
    using c n by (intro nth_equalityI) (auto simp: fifo_content_def mod_add_if)
  then show "get_bytes (fifo_buf f) 0 (n - ?k) = Some (drop ?k (take n (fifo_content f)))"
    using c n by (simp add: get_bytes_def)
qed

lemma fifo_wf_drop:
  "fifo_wf f \<Longrightarrow> k \<le> fifo_len f \<Longrightarrow>
   fifo_wf (f\<lparr>fifo_start := (fifo_start f + k) mod fifo_cap f, fifo_len := fifo_len f - k\<rparr>)"
  by (auto simp: fifo_wf_def)

lemma fifo_write_spec:
  assumes wf: "fifo_wf f" and n: "length xs \<le> fifo_cap f"
    and ok: "length xs \<le> fifo_cap f - fifo_len f \<or> has_flag flags FIFO_OVERWRITE"
  obtains f' where "fifo_write f xs flags = Some (0, f')" and "fifo_wf f'"
    and "fifo_content f' =
           drop (fifo_len f + length xs - fifo_cap f) (fifo_content f) @ xs"
    and "fifo_cap f' = fifo_cap f"
proof (cases "length xs > fifo_remaining f")
  case False
  then have room: "fifo_len f + length xs \<le> fifo_cap f"
    using wf by (auto simp: fifo_remaining_wf fifo_wf_def)
  then show ?thesis using fifo_append_wf [OF wf room] False that
    by (auto simp: fifo_write_def)
next
  case True
  let ?e = "length xs - fifo_remaining f"
  let ?g = "f\<lparr>fifo_start := (fifo_start f + ?e) mod fifo_cap f, fifo_len := fifo_len f - ?e\<rparr>"
  have e: "?e \<le> fifo_len f" "?e = fifo_len f + length xs - fifo_cap f"
    using wf n by (auto simp: fifo_remaining_wf fifo_wf_def)
  have "has_flag flags FIFO_OVERWRITE" using ok True wf by (auto simp: fifo_remaining_wf)
  moreover have "fifo_wf ?g" using wf e(1) by (rule fifo_wf_drop)
  moreover have "fifo_len ?g + length xs \<le> fifo_cap ?g"
    using wf n e by (auto simp: fifo_wf_def)
  ultimately show ?thesis
    using fifo_append_wf [of ?g xs] True that fifo_discard_wf [OF wf n True]
      fifo_content_drop [OF e(1)] e(2) wf
    by (auto simp: fifo_write_def fifo_wf_def)
qed

lemma fifo_write_refuses:
  assumes "fifo_wf f" and "length xs > fifo_cap f - fifo_len f"
    and "\<not> has_flag flags FIFO_OVERWRITE"
  shows "fifo_write f xs flags = Some (1, f)"
  using assms by (simp add: fifo_write_def fifo_remaining_wf)

lemma fifo_read_spec:
  assumes wf: "fifo_wf f" and n: "n \<le> fifo_len f" and last: "\<not> has_flag flags FIFO_LAST"
  obtains f' where "fifo_read f n flags = Some (0, take n (fifo_content f), f')" and "fifo_wf f'"
    and "fifo_content f' =
           (if has_flag flags FIFO_PEEK then fifo_content f else drop n (fifo_content f))"
    and "fifo_cap f' = fifo_cap f"
proof -
  let ?k = "min (fifo_cap f - fifo_start f) n"
  let ?g = "f\<lparr>fifo_start := (fifo_start f + n) mod fifo_cap f, fifo_len := fifo_len f - n\<rparr>"
  from wf n have s: "sub64 (fifo_cap f) (fifo_start f) = fifo_cap f - fifo_start f"
    "sub64 (fifo_len f) n = fifo_len f - n" "w64 (fifo_start f + n) = fifo_start f + n"
    by (auto simp: fifo_wf_def intro!: w64_id sub64_id)
  have bytes: "take ?k (fifo_content f) @ drop ?k (take n (fifo_content f)) = take n (fifo_content f)"
    by (metis append_take_drop_id min.cobounded2 min_def take_take)
  have "fifo_read f n flags =
    Some (0, take n (fifo_content f), if has_flag flags FIFO_PEEK then f else ?g)"
    using wf n last fifo_read_chunks [OF wf n] bytes
    by (simp add: fifo_read_def fifo_size_def s Let_def fifo_wf_def del: min_less_iff_disj)
  then show ?thesis
    using that [of "if has_flag flags FIFO_PEEK then f else ?g"] wf n
      fifo_wf_drop [OF wf n] fifo_content_drop [OF n] by auto
qed

text \<open>
  \<open>FIFO_LAST\<close> with \<open>FIFO_PEEK\<close>: the flags of \<^verbatim>\<open>SYSLOG_ACTION_READ_ALL\<close>.
\<close>

lemma fifo_last_start:
  assumes "fifo_wf f" and "n \<le> fifo_len f"
  shows "w64 (fifo_start f + sub64 (fifo_len f) n) = fifo_start f + (fifo_len f - n)"
    and "sub64 (fifo_cap f) (fifo_start f) = fifo_cap f - fifo_start f"
proof -
  have "sub64 (fifo_len f) n = fifo_len f - n"
    by (rule sub64_id) (use assms in \<open>auto simp: fifo_wf_def\<close>)
  moreover have "w64 (fifo_start f + (fifo_len f - n)) = fifo_start f + (fifo_len f - n)"
    by (rule w64_id) (use assms in \<open>auto simp: fifo_wf_def\<close>)
  ultimately show "w64 (fifo_start f + sub64 (fifo_len f) n) = fifo_start f + (fifo_len f - n)"
    by simp
  show "sub64 (fifo_cap f) (fifo_start f) = fifo_cap f - fifo_start f"
    by (rule sub64_id) (use assms in \<open>auto simp: fifo_wf_def\<close>)
qed

lemma fifo_read_last_unfold:
  assumes "fifo_wf f" and "n \<le> fifo_len f"
    and "has_flag flags FIFO_LAST" and "has_flag flags FIFO_PEEK"
  shows "fifo_read f n flags =
    (let start = (fifo_start f + (fifo_len f - n)) mod fifo_cap f;
         k = min (fifo_cap f - fifo_start f) n
     in if start + k \<le> fifo_cap f
        then Some (0, take k (drop start (fifo_buf f)) @ take (n - k) (fifo_buf f), f) else None)"
proof -
  have "n - min (fifo_cap f - fifo_start f) n \<le> fifo_cap f"
    using assms by (auto simp: fifo_wf_def)
  then show ?thesis
    using assms by (simp add: fifo_read_def fifo_last_start fifo_size_def get_bytes_def Let_def fifo_wf_def)
qed

text \<open>
  C25. Writing at most a buffer's worth of bytes. With room, or with \<^verbatim>\<open>FIFO_OVERWRITE\<close>, the
  write succeeds and the buffer then holds the most recent bytes of the old content followed
  by the new, as many as it can hold; otherwise it is refused and nothing changes.
\<close>

theorem fifo_write_correct:
  assumes "fifo_wf f" and "length xs \<le> fifo_cap f"
  shows "\<exists>rc f'. fifo_write f xs flags = Some (rc, f') \<and> fifo_wf f' \<and> fifo_cap f' = fifo_cap f \<and>
    (if length xs \<le> fifo_cap f - fifo_len f \<or> has_flag flags FIFO_OVERWRITE
     then rc = 0 \<and> fifo_content f' =
       drop (fifo_len f + length xs - fifo_cap f) (fifo_content f) @ xs
     else rc = 1 \<and> f' = f)"
proof (cases "length xs \<le> fifo_cap f - fifo_len f \<or> has_flag flags FIFO_OVERWRITE")
  case True
  then obtain f' where "fifo_write f xs flags = Some (0, f')" "fifo_wf f'"
    "fifo_content f' = drop (fifo_len f + length xs - fifo_cap f) (fifo_content f) @ xs"
    "fifo_cap f' = fifo_cap f" using fifo_write_spec [OF assms] by blast
  then show ?thesis using True by auto
next
  case False
  then show ?thesis using fifo_write_refuses [OF assms(1), of xs flags] assms(1) by auto
qed

theorem fifo_write_correct_witness:
  "\<exists>f'. fifo_write \<lparr>fifo_buf = [7, 8, 9], fifo_cap = 3, fifo_len = 3, fifo_start = 1\<rparr> [4, 5] 1 =
      Some (0, f') \<and> fifo_wf f' \<and> fifo_content f' = [7, 4, 5]"
proof -
  let ?f = "\<lparr>fifo_buf = [7, 8, 9], fifo_cap = 3, fifo_len = 3, fifo_start = 1\<rparr>"
  have "fifo_wf ?f" "length [4, 5 :: byte] \<le> fifo_cap ?f" "has_flag 1 FIFO_OVERWRITE"
    by (simp_all add: fifo_wf_def has_flag_def)
  moreover have "fifo_content ?f = [8, 9, 7]" by (simp add: fifo_content_def upt_rec)
  ultimately show ?thesis using fifo_write_correct [of ?f "[4, 5]" 1] by auto
qed

text \<open>
  Reading without \<^verbatim>\<open>FIFO_LAST\<close> returns the oldest bytes in order and removes them, or
  keeps them with \<^verbatim>\<open>FIFO_PEEK\<close>; asking for more than is stored is refused.
\<close>

theorem fifo_read_correct:
  assumes "fifo_wf f" and "\<not> has_flag flags FIFO_LAST"
  shows "\<exists>rc xs f'. fifo_read f n flags = Some (rc, xs, f') \<and> fifo_wf f' \<and>
    (if n \<le> fifo_len f
     then rc = 0 \<and> xs = take n (fifo_content f) \<and> fifo_content f' =
       (if has_flag flags FIFO_PEEK then fifo_content f else drop n (fifo_content f))
     else rc = 1 \<and> f' = f)"
proof (cases "n \<le> fifo_len f")
  case True
  then obtain f' where "fifo_read f n flags = Some (0, take n (fifo_content f), f')" "fifo_wf f'"
    "fifo_content f' = (if has_flag flags FIFO_PEEK then fifo_content f else drop n (fifo_content f))"
    using fifo_read_spec [OF assms(1) _ assms(2)] by blast
  then show ?thesis using True by auto
next
  case False
  then show ?thesis using assms(1) by (simp add: fifo_read_def fifo_size_def)
qed

theorem fifo_read_correct_witness:
  "\<exists>f'. fifo_read \<lparr>fifo_buf = [7, 8, 9], fifo_cap = 3, fifo_len = 3, fifo_start = 1\<rparr> 2 0 =
      Some (0, [8, 9], f') \<and> fifo_content f' = [7]"
proof -
  let ?f = "\<lparr>fifo_buf = [7, 8, 9], fifo_cap = 3, fifo_len = 3, fifo_start = 1\<rparr>"
  have "fifo_wf ?f" by (simp add: fifo_wf_def)
  moreover have "fifo_content ?f = [8, 9, 7]" by (simp add: fifo_content_def upt_rec)
  ultimately show ?thesis using fifo_read_correct [of ?f 0 2] by auto
qed

text \<open>
  While the stored bytes do not wrap around the end of the buffer, reading the last
  \<open>n\<close> bytes returns exactly those and leaves the buffer as it was.
\<close>

theorem fifo_read_last_unwrapped:
  assumes "fifo_wf f" and "n \<le> fifo_len f" and "fifo_start f + fifo_len f \<le> fifo_cap f"
    and "has_flag flags FIFO_LAST" and "has_flag flags FIFO_PEEK"
  shows "fifo_read f n flags = Some (0, drop (fifo_len f - n) (fifo_content f), f)"
proof (cases "n = 0")
  case True
  then show ?thesis using assms
    by (simp add: fifo_read_last_unfold Let_def fifo_wf_def less_imp_le)
next
  case False
  let ?s = "fifo_start f + (fifo_len f - n)"
  have s: "?s mod fifo_cap f = ?s" "min (fifo_cap f - fifo_start f) n = n"
    "length (fifo_buf f) = fifo_cap f"
    using assms False by (auto simp: fifo_wf_def)
  have "take n (drop ?s (fifo_buf f)) = drop (fifo_len f - n) (fifo_content f)"
    using assms False s(3) by (intro nth_equalityI) (auto simp: fifo_content_def add.assoc)
  then show ?thesis using assms s by (simp add: fifo_read_last_unfold Let_def)
qed

theorem fifo_read_last_unwrapped_witness:
  "fifo_read \<lparr>fifo_buf = [7, 8, 9, 0], fifo_cap = 4, fifo_len = 3, fifo_start = 0\<rparr> 2 3 =
   Some (0, [8, 9], \<lparr>fifo_buf = [7, 8, 9, 0], fifo_cap = 4, fifo_len = 3, fifo_start = 0\<rparr>)"
proof -
  let ?f = "\<lparr>fifo_buf = [7, 8, 9, 0], fifo_cap = 4, fifo_len = 3, fifo_start = 0\<rparr>"
  have "fifo_read ?f 2 3 = Some (0, drop (fifo_len ?f - 2) (fifo_content ?f), ?f)"
    by (rule fifo_read_last_unwrapped)
      (simp_all add: fifo_wf_def has_flag_def)
  then show ?thesis by (simp add: fifo_content_def upt_rec)
qed

text \<open>
  Once the stored bytes wrap, the first chunk is sized from the wrong start: the read
  leaves the buffer exactly when the moved start plus that chunk passes the capacity.
\<close>

theorem fifo_read_last_overrun:
  assumes "fifo_wf f" and "n \<le> fifo_len f"
    and "has_flag flags FIFO_LAST" and "has_flag flags FIFO_PEEK"
  shows "fifo_read f n flags = None \<longleftrightarrow>
    fifo_cap f < (fifo_start f + (fifo_len f - n)) mod fifo_cap f + min (fifo_cap f - fifo_start f) n"
  using assms by (auto simp: fifo_read_last_unfold Let_def)

theorem fifo_read_last_overrun_witness:
  "fifo_read \<lparr>fifo_buf = [1, 2, 3, 4], fifo_cap = 4, fifo_len = 4, fifo_start = 1\<rparr> 2 3 = None"
  by (subst fifo_read_last_overrun)
    (simp_all add: fifo_wf_def has_flag_def)

end
