(* ===== verification/Log.thy ===== *)
theory Log
  imports Fifo
begin

text \<open>
  The kernel message log of \<^verbatim>\<open>kernel/log.c\<close>: the \<^verbatim>\<open>printk\<close> line buffer, the circular log
  (a \<open>fifo\<close> of \<open>2 ^ 20\<close> bytes written with \<open>FIFO_OVERWRITE\<close>) and the
  \<^verbatim>\<open>syslog\<close> system call. The interface the log needs of its store is the locale
  \<open>bounded_log\<close>; the circular buffer of \<open>Fifo\<close> is an instance.
\<close>

section \<open>Definitions\<close>

text \<open>
  \<open>printk_buf\<close> holds the C string of the static buffer in \<^verbatim>\<open>ish_vprintk\<close>, of 16384 bytes.
\<close>

record klog =
  log_buf :: fifo
  log_max_since_clear :: nat
  printk_buf :: "byte list"
  printk_buf_size :: nat

definition LOG_BUF_SHIFT :: nat where "LOG_BUF_SHIFT = 20"

definition klog_init :: klog where
  "klog_init = \<lparr>log_buf = fifo_init (replicate (2 ^ LOG_BUF_SHIFT) 0), log_max_since_clear = 0,
     printk_buf = [], printk_buf_size = 0\<rparr>"

text \<open>
  \<open>syslog_read\<close> gives the return value, the bytes written to the user buffer and the log.
  \<open>junk n\<close> is the content of the block \<^verbatim>\<open>malloc(n)\<close> returns, \<open>fail\<close> tells whether
  \<^verbatim>\<open>user_write\<close> faults. The result of \<^verbatim>\<open>fifo_read\<close> is not looked at.
\<close>

definition syslog_read ::
  "klog \<Rightarrow> (nat \<Rightarrow> byte list) \<Rightarrow> bool \<Rightarrow> int \<Rightarrow> u32 \<Rightarrow> (int \<times> byte list \<times> klog) option" where
  "syslog_read k junk fail len flags =
     (if len < 0 then Some (EINVAL, [], k)
      else
        let n = (if has_flag flags FIFO_LAST then min (nat len) (log_max_since_clear k)
                 else min (nat len) (fifo_capacity (log_buf k)))
        in case fifo_read (log_buf k) n flags of
             None \<Rightarrow> None
           | Some (rc, bytes, f) \<Rightarrow>
               let k' = k\<lparr>log_buf := f\<rparr>; buf = (if rc = 0 then bytes else junk n)
               in Some (if fail then (EFAULT, [], k') else (int n, buf, k')))"

definition do_syslog ::
  "klog \<Rightarrow> (nat \<Rightarrow> byte list) \<Rightarrow> bool \<Rightarrow> int \<Rightarrow> int \<Rightarrow> (int \<times> byte list \<times> klog) option" where
  "do_syslog k junk fail type len =
     (if type = 2 then syslog_read k junk fail len 0
      else if type = 3 then syslog_read k junk fail len (FIFO_LAST OR FIFO_PEEK)
      else if type = 4 then
        (case syslog_read k junk fail len (FIFO_LAST OR FIFO_PEEK) of
           None \<Rightarrow> None
         | Some (res, bytes, k') \<Rightarrow>
             if res < 0 then Some (res, bytes, k')
             else Some (0, bytes, k'\<lparr>log_max_since_clear := 0\<rparr>))
      else if type = 5 then Some (0, [], k\<lparr>log_max_since_clear := 0\<rparr>)
      else if type = 9 then Some (int (fifo_size (log_buf k)), [], k)
      else if type = 10 then Some (int (fifo_capacity (log_buf k)), [], k)
      else if type \<in> {0, 1, 6, 7, 8} then Some (0, [], k)
      else Some (EINVAL, [], k))"

definition log_buf_append :: "klog \<Rightarrow> byte list \<Rightarrow> klog option" where
  "log_buf_append k msg =
     (case fifo_write (log_buf k) msg FIFO_OVERWRITE of
        None \<Rightarrow> None
      | Some (_, f) \<Rightarrow>
          let m = w64 (log_max_since_clear k + length msg)
          in Some (k\<lparr>log_buf := f, log_max_since_clear := min m (fifo_capacity f)\<rparr>))"

text \<open>The copy of each line on the host's standard output is not modelled.\<close>

definition output_line :: "klog \<Rightarrow> byte list \<Rightarrow> klog option" where
  "output_line k line =
     (case log_buf_append k line of None \<Rightarrow> None | Some k' \<Rightarrow> log_buf_append k' [10])"

text \<open>The loop over the newlines: \<open>b\<close> is the string from the loop's pointer on.\<close>

function printk_lines :: "klog \<Rightarrow> nat \<Rightarrow> byte list \<Rightarrow> (klog \<times> nat \<times> byte list) option" where
  "printk_lines k n b =
     (if 10 \<in> set b then
        let line = takeWhile (\<lambda>c. c \<noteq> 10) b
        in case output_line k line of
             None \<Rightarrow> None
           | Some k' \<Rightarrow> printk_lines k' (sub64 n (length line + 1)) (drop (length line + 1) b)
      else Some (k, n, b))"
  by pat_completeness auto
termination
  by (relation "measure (\<lambda>(k, n, b). length b)") (auto dest: length_pos_if_in_set)

declare printk_lines.simps [simp del]

text \<open>\<open>msg\<close> is the formatted message; writing past the static buffer is \<^const>\<open>None\<close>.\<close>

definition ish_vprintk :: "klog \<Rightarrow> byte list \<Rightarrow> klog option" where
  "ish_vprintk k msg =
     (if printk_buf_size k + length msg \<ge> 16384 then None
      else
        case printk_lines k (w64 (printk_buf_size k + length msg))
               (take (printk_buf_size k) (printk_buf k) @ msg) of
          None \<Rightarrow> None
        | Some (k', n, rest) \<Rightarrow> Some (k'\<lparr>printk_buf := rest, printk_buf_size := n\<rparr>))"

definition klog_wf :: "klog \<Rightarrow> bool" where
  "klog_wf k \<longleftrightarrow> fifo_wf (log_buf k) \<and> fifo_cap (log_buf k) = 2 ^ LOG_BUF_SHIFT \<and>
     log_max_since_clear k \<le> 2 ^ LOG_BUF_SHIFT \<and>
     printk_buf_size k = length (printk_buf k) \<and> length (printk_buf k) < 16384 \<and>
     10 \<notin> set (printk_buf k)"

text \<open>The part of the invariant that concerns the circular log alone.\<close>

definition log_store_wf :: "klog \<Rightarrow> bool" where
  "log_store_wf k \<longleftrightarrow> fifo_wf (log_buf k) \<and> fifo_cap (log_buf k) = 2 ^ LOG_BUF_SHIFT \<and>
     log_max_since_clear k \<le> 2 ^ LOG_BUF_SHIFT"

text \<open>The last \<open>n\<close> elements of a list, and a text up to its last newline.\<close>

definition last_n :: "nat \<Rightarrow> 'a list \<Rightarrow> 'a list" where
  "last_n n xs = drop (length xs - n) xs"

definition after_newline :: "byte list \<Rightarrow> byte list" where
  "after_newline xs = rev (takeWhile (\<lambda>c. c \<noteq> 10) (rev xs))"

definition complete_lines :: "byte list \<Rightarrow> byte list" where
  "complete_lines xs = take (length xs - length (after_newline xs)) xs"

section \<open>Lemmas on texts\<close>

lemma last_n_append: "last_n n (last_n n xs @ ys) = last_n n (xs @ ys)"
  by (cases "n \<le> length xs") (auto simp: last_n_def add.commute)

section \<open>A store that keeps the most recent bytes\<close>

locale bounded_log =
  fixes append :: "'q \<Rightarrow> 'a list \<Rightarrow> 'q option"
    and content :: "'q \<Rightarrow> 'a list"
    and bound :: "'q \<Rightarrow> nat"
    and ok :: "'q \<Rightarrow> bool"
  assumes append_ok: "ok q \<Longrightarrow> length xs \<le> bound q \<Longrightarrow> \<exists>q'. append q xs = Some q'"
    and append_keeps: "ok q \<Longrightarrow> length xs \<le> bound q \<Longrightarrow> append q xs = Some q' \<Longrightarrow>
      ok q' \<and> bound q' = bound q \<and> content q' = last_n (bound q) (content q @ xs)"
begin

fun append_all :: "'q \<Rightarrow> 'a list list \<Rightarrow> 'q option" where
  "append_all q [] = Some q"
| "append_all q (m # ms) = (case append q m of None \<Rightarrow> None | Some q' \<Rightarrow> append_all q' ms)"

lemma append_all_keeps_most_recent:
  assumes "ok q" and "\<forall>m \<in> set ms. length m \<le> bound q" and "length (content q) \<le> bound q"
  shows "\<exists>q'. append_all q ms = Some q' \<and> ok q' \<and> bound q' = bound q \<and>
    content q' = last_n (bound q) (content q @ concat ms)"
  using assms
proof (induction ms arbitrary: q)
  case Nil
  then show ?case by (simp add: last_n_def)
next
  case (Cons m ms)
  then have m: "length m \<le> bound q" by simp
  obtain q' where q': "append q m = Some q'" using append_ok [OF Cons.prems(1) m] by blast
  have k: "ok q'" "bound q' = bound q" "content q' = last_n (bound q) (content q @ m)"
    using append_keeps [OF Cons.prems(1) m q'] by simp_all
  then have "length (content q') \<le> bound q'" by (simp add: last_n_def)
  then obtain q'' where "append_all q' ms = Some q''" "ok q''" "bound q'' = bound q"
    "content q'' = last_n (bound q) (content q' @ concat ms)"
    using Cons.IH [of q'] Cons.prems k by auto
  then show ?case using q' k by (simp add: last_n_append)
qed

end

interpretation circular_log: bounded_log
  "\<lambda>f xs. map_option snd (fifo_write f xs FIFO_OVERWRITE)" fifo_content fifo_cap fifo_wf
proof
  fix f :: fifo and xs :: "byte list"
  assume f: "fifo_wf f" and xs: "length xs \<le> fifo_cap f"
  have flag: "has_flag FIFO_OVERWRITE FIFO_OVERWRITE" by (simp add: has_flag_def)
  from fifo_write_spec [OF f xs, of FIFO_OVERWRITE] flag obtain f' where
    w: "fifo_write f xs FIFO_OVERWRITE = Some (0, f')" "fifo_wf f'" "fifo_cap f' = fifo_cap f"
    "fifo_content f' = drop (fifo_len f + length xs - fifo_cap f) (fifo_content f) @ xs"
    by blast
  then show "\<exists>q'. map_option snd (fifo_write f xs FIFO_OVERWRITE) = Some q'" by simp
  have "fifo_content f' = last_n (fifo_cap f) (fifo_content f @ xs)"
    using w(4) xs by (simp add: last_n_def)
  then show "map_option snd (fifo_write f xs FIFO_OVERWRITE) = Some q' \<Longrightarrow>
    fifo_wf q' \<and> fifo_cap q' = fifo_cap f \<and> fifo_content q' = last_n (fifo_cap f) (fifo_content f @ xs)"
    for q' using w by simp
qed

section \<open>The log\<close>

lemma klog_wf_init: "klog_wf klog_init"
  by (simp add: klog_wf_def klog_init_def fifo_wf_def fifo_init_def LOG_BUF_SHIFT_def)

lemma log_store_content_bound:
  "log_store_wf k \<Longrightarrow> length (fifo_content (log_buf k)) \<le> 2 ^ LOG_BUF_SHIFT"
  by (simp add: log_store_wf_def fifo_wf_def)

lemma log_buf_append_spec:
  assumes "log_store_wf k" and "length msg \<le> 2 ^ LOG_BUF_SHIFT"
  obtains k' where "log_buf_append k msg = Some k'" and "log_store_wf k'"
    and "fifo_content (log_buf k') =
           last_n (2 ^ LOG_BUF_SHIFT) (fifo_content (log_buf k) @ msg)"
proof -
  let ?f = "log_buf k"
  have f: "fifo_wf ?f" "length msg \<le> fifo_cap ?f" using assms by (auto simp: log_store_wf_def)
  obtain f' where f': "map_option snd (fifo_write ?f msg FIFO_OVERWRITE) = Some f'"
    using circular_log.append_ok [OF f] by blast
  then obtain r where r: "fifo_write ?f msg FIFO_OVERWRITE = Some (r, f')" by auto
  show ?thesis
    using that circular_log.append_keeps [OF f f'] assms(1)
    by (simp add: log_buf_append_def r log_store_wf_def fifo_capacity_def Let_def)
qed

lemma output_line_spec:
  assumes k: "log_store_wf k" and n: "length line \<le> 2 ^ LOG_BUF_SHIFT"
  obtains k' where "output_line k line = Some k'" and "log_store_wf k'"
    and "fifo_content (log_buf k') =
           last_n (2 ^ LOG_BUF_SHIFT) (fifo_content (log_buf k) @ line @ [10])"
proof -
  obtain k1 where k1: "log_buf_append k line = Some k1" "log_store_wf k1"
    "fifo_content (log_buf k1) = last_n (2 ^ LOG_BUF_SHIFT) (fifo_content (log_buf k) @ line)"
    using log_buf_append_spec [OF k n] by blast
  have "length [10 :: byte] \<le> 2 ^ LOG_BUF_SHIFT" by (simp add: LOG_BUF_SHIFT_def)
  from log_buf_append_spec [OF k1(2) this] obtain k2 where
    "log_buf_append k1 [10] = Some k2" "log_store_wf k2"
    "fifo_content (log_buf k2) = last_n (2 ^ LOG_BUF_SHIFT) (fifo_content (log_buf k1) @ [10])"
    by blast
  then show ?thesis using that k1 by (simp add: output_line_def last_n_append)
qed

lemma after_newline_no_newline: "10 \<notin> set (after_newline xs)"
  by (auto simp: after_newline_def dest: set_takeWhileD)

lemma after_newline_id: "10 \<notin> set xs \<Longrightarrow> after_newline xs = xs"
proof -
  assume "10 \<notin> set xs"
  then have "takeWhile (\<lambda>c. c \<noteq> 10) (rev xs) = rev xs" by (auto simp: takeWhile_eq_all_conv)
  then show ?thesis by (simp only: after_newline_def rev_rev_ident)
qed

lemma after_newline_Cons: "after_newline (xs @ 10 # ys) = after_newline ys"
proof (cases "10 \<in> set ys")
  case True
  then show ?thesis by (simp add: after_newline_def takeWhile_append1 [of 10])
next
  case False
  have "takeWhile (\<lambda>c. c \<noteq> 10) (rev ys @ 10 # rev xs) = rev ys"
    by (subst takeWhile_append2) (use False in auto)
  then show ?thesis using after_newline_id [OF False]
    by (simp only: after_newline_def rev_append rev.simps append_assoc append.simps rev_rev_ident)
qed

lemma complete_lines_none: "10 \<notin> set xs \<Longrightarrow> complete_lines xs = []"
  by (simp add: complete_lines_def after_newline_id)

lemma length_after_newline: "length (after_newline xs) \<le> length xs"
  by (simp add: after_newline_def length_takeWhile_le [of _ "rev xs", simplified])

lemma complete_lines_Cons: "complete_lines (xs @ 10 # ys) = xs @ 10 # complete_lines ys"
  using length_after_newline [of ys]
  by (simp add: complete_lines_def after_newline_Cons Suc_diff_le)

lemma split_first_newline:
  assumes "10 \<in> set (b :: byte list)"
  shows "b = takeWhile (\<lambda>c. c \<noteq> 10) b @ 10 # drop (length (takeWhile (\<lambda>c. c \<noteq> 10) b) + 1) b"
  using assms by (induction b) auto

lemma printk_lines_spec:
  assumes "log_store_wf k" and "length b \<le> 2 ^ LOG_BUF_SHIFT"
  shows "\<exists>k'. printk_lines k (length b) b = Some (k', length (after_newline b), after_newline b) \<and>
    log_store_wf k' \<and> fifo_content (log_buf k') =
      last_n (2 ^ LOG_BUF_SHIFT) (fifo_content (log_buf k) @ complete_lines b)"
  using assms
proof (induction b arbitrary: k rule: length_induct)
  case (1 b)
  show ?case
  proof (cases "10 \<in> set b")
    case False
    then show ?thesis
      using 1(2) log_store_content_bound [of k]
      by (simp add: printk_lines.simps [of k] after_newline_id complete_lines_none last_n_def)
  next
    case True
    define l where "l = takeWhile (\<lambda>c. c \<noteq> 10) b"
    define r where "r = drop (length l + 1) b"
    have b: "b = l @ 10 # r" using split_first_newline [OF True] by (simp add: l_def r_def)
    obtain k1 where k1: "output_line k l = Some k1" "log_store_wf k1"
      "fifo_content (log_buf k1) =
         last_n (2 ^ LOG_BUF_SHIFT) (fifo_content (log_buf k) @ l @ [10])"
      using output_line_spec [of k l] 1(2,3) b by auto
    have n: "sub64 (length b) (length l + 1) = length r"
      using 1(3) b by (subst sub64_id) (auto simp: LOG_BUF_SHIFT_def)
    have "printk_lines k (length b) b = printk_lines k1 (length r) r"
      using True k1(1) n by (simp add: printk_lines.simps [of k] l_def r_def Let_def)
    moreover obtain k2 where "printk_lines k1 (length r) r =
        Some (k2, length (after_newline r), after_newline r)" "log_store_wf k2"
      "fifo_content (log_buf k2) =
         last_n (2 ^ LOG_BUF_SHIFT) (fifo_content (log_buf k1) @ complete_lines r)"
      using 1(1) [rule_format, of r k1] k1(2) 1(3) b by auto
    ultimately show ?thesis
      using k1(3) by (simp add: b after_newline_Cons complete_lines_Cons last_n_append)
  qed
qed

text \<open>
  C21. \<^verbatim>\<open>printk\<close> with a message that fits its buffer always succeeds: the log then holds the
  last \<open>2 ^ 20\<close> bytes of what it held followed by every completed line, and exactly the
  unfinished line stays in the line buffer.
\<close>

theorem ish_vprintk_keeps_recent_lines:
  assumes "klog_wf k" and "length (printk_buf k) + length msg < 16384"
  shows "\<exists>k'. ish_vprintk k msg = Some k' \<and> klog_wf k' \<and>
    printk_buf k' = after_newline (printk_buf k @ msg) \<and>
    fifo_content (log_buf k') =
      last_n (2 ^ LOG_BUF_SHIFT) (fifo_content (log_buf k) @ complete_lines (printk_buf k @ msg))"
proof -
  let ?b = "printk_buf k @ msg"
  have k: "log_store_wf k" "printk_buf_size k = length (printk_buf k)"
    using assms(1) by (auto simp: klog_wf_def log_store_wf_def)
  have n: "length ?b \<le> 2 ^ LOG_BUF_SHIFT" using assms(2) by (simp add: LOG_BUF_SHIFT_def)
  obtain k1 where k1: "printk_lines k (length ?b) ?b =
      Some (k1, length (after_newline ?b), after_newline ?b)" "log_store_wf k1"
    "fifo_content (log_buf k1) =
       last_n (2 ^ LOG_BUF_SHIFT) (fifo_content (log_buf k) @ complete_lines ?b)"
    using printk_lines_spec [OF k(1) n] by blast
  have w: "w64 (printk_buf_size k + length msg) = length ?b"
    using assms(2) k(2) by (subst w64_id) auto
  have "length (after_newline ?b) < 16384"
    using length_after_newline [of ?b] assms(2) by simp
  then show ?thesis
    using k1 k(2) w assms(2) after_newline_no_newline [of ?b]
    by (simp add: ish_vprintk_def klog_wf_def log_store_wf_def)
qed

theorem ish_vprintk_keeps_recent_lines_witness:
  "\<exists>k'. ish_vprintk klog_init [104, 10, 105] = Some k' \<and> printk_buf k' = [105] \<and>
     fifo_content (log_buf k') = [104, 10]"
proof -
  have p: "printk_buf klog_init = []" "fifo_content (log_buf klog_init) = []"
    by (simp_all add: klog_init_def)
  have "length (printk_buf klog_init) + length [104 :: byte, 10, 105] < 16384"
    by (simp add: p)
  from ish_vprintk_keeps_recent_lines [OF klog_wf_init this] show ?thesis
    by (auto simp: p after_newline_def complete_lines_def last_n_def LOG_BUF_SHIFT_def)
qed

text \<open>
  A plain read of the log (\<^verbatim>\<open>SYSLOG_ACTION_READ\<close>) that asks for more bytes than the log
  holds, but no more than its capacity, ignores the failure of \<^verbatim>\<open>fifo_read\<close>: the call reports
  that many bytes and gives the caller the uninitialised content of the heap block.
\<close>

theorem do_syslog_leaks_heap:
  assumes "klog_wf k" and "fifo_len (log_buf k) < n" and "n \<le> 2 ^ LOG_BUF_SHIFT"
  shows "do_syslog k junk False 2 (int n) = Some (int n, junk n, k)"
  using assms
  by (simp add: do_syslog_def syslog_read_def klog_wf_def fifo_capacity_def fifo_read_def fifo_size_def)

theorem do_syslog_leaks_heap_witness:
  "do_syslog klog_init (\<lambda>n. replicate n 0xAA) False 2 3 = Some (3, [0xAA, 0xAA, 0xAA], klog_init)"
  using do_syslog_leaks_heap [OF klog_wf_init, of 3 "\<lambda>n. replicate n 0xAA"]
  by (simp add: klog_init_def fifo_init_def LOG_BUF_SHIFT_def numeral_3_eq_3)

end
