(* ===== verification/Memory.thy ===== *)
theory Memory
  imports Prelude
begin

text \<open>
  Guest address spaces, \<^verbatim>\<open>kernel/memory.c\<close> and \<^verbatim>\<open>emu/mmu.h\<close>: the two-level page table, the
  reference-counted backing objects (\<^verbatim>\<open>struct data\<close>), mapping, unmapping, copy-on-write
  and address translation. Backing objects and the host's own mappings live in a record
  \<open>host\<close> shared by all address spaces. A host pointer is a mapping with an offset. Page
  numbers are naturals; the loop bound \<^verbatim>\<open>start + pages\<close> is computed in 32 bits.
  The locks and the translation cache of generated code (a stub here) are not modelled.
\<close>

section \<open>Definitions\<close>

subsection \<open>State\<close>

definition MEM_PAGES :: nat where "MEM_PAGES = 2 ^ 20"

definition MEM_PGDIR_SIZE :: nat where "MEM_PGDIR_SIZE = 2 ^ 10"

definition PAGE_SIZE :: nat where "PAGE_SIZE = 2 ^ 12"

abbreviation (input) BAD_PAGE :: nat where "BAD_PAGE \<equiv> 0x10000"

definition PAGE :: "nat \<Rightarrow> nat" where "PAGE addr = addr div PAGE_SIZE"

definition PGOFFSET :: "nat \<Rightarrow> nat" where "PGOFFSET addr = addr mod PAGE_SIZE"

abbreviation (input) P_READ :: u32 where "P_READ \<equiv> 1"

abbreviation (input) P_WRITE :: u32 where "P_WRITE \<equiv> 2"

abbreviation (input) P_GROWSDOWN :: u32 where "P_GROWSDOWN \<equiv> 8"

abbreviation (input) P_COW :: u32 where "P_COW \<equiv> 16"

abbreviation (input) P_ANONYMOUS :: u32 where "P_ANONYMOUS \<equiv> 64"

abbreviation (input) P_SHARED :: u32 where "P_SHARED \<equiv> 128"

definition P_WRITABLE :: "u32 \<Rightarrow> bool" where
  "P_WRITABLE flags \<longleftrightarrow> has_flag flags P_WRITE \<and> \<not> has_flag flags P_COW"

datatype mem_access = MEM_READ | MEM_WRITE | MEM_WRITE_PTRACE

record data =
  d_host :: nat
  d_size :: nat
  d_refcount :: nat
  d_fd :: "nat option"

record pt_entry =
  pt_data :: "nat option"
  pt_offset :: nat
  pt_flags :: u32

record mem =
  pgdir :: "nat \<Rightarrow> (nat \<Rightarrow> pt_entry) option"
  pgdir_used :: nat
  changes :: nat

text \<open>
  The last four fields fix how the host answers: whether \<^verbatim>\<open>mmap\<close>, \<^verbatim>\<open>malloc\<close> and
  \<^verbatim>\<open>mprotect\<close> fail, and the guest error code of the failure.
\<close>

record host =
  heap :: "nat \<Rightarrow> data option"
  next_data :: nat
  maps :: "nat \<Rightarrow> (nat \<Rightarrow> byte) option"
  next_map :: nat
  vdso_data :: nat
  closed_fds :: "nat list"
  mmap_fails :: bool
  malloc_fails :: bool
  mprotect_fails :: bool
  host_err :: int

definition mem_init :: mem where
  "mem_init = \<lparr>pgdir = (\<lambda>_. None), pgdir_used = 0, changes = 0\<rparr>"

definition host_mmap :: "host \<Rightarrow> nat option \<times> host" where
  "host_mmap h =
     (if mmap_fails h then (None, h)
      else (Some (next_map h),
            h\<lparr>maps := (maps h)(next_map h := Some (\<lambda>_. 0)), next_map := Suc (next_map h)\<rparr>))"

subsection \<open>The page table\<close>

definition PGDIR_TOP :: "nat \<Rightarrow> nat" where "PGDIR_TOP page = page div 2 ^ 10"

definition PGDIR_BOTTOM :: "nat \<Rightarrow> nat" where "PGDIR_BOTTOM page = page mod MEM_PGDIR_SIZE"

definition empty_entry :: pt_entry where
  "empty_entry = \<lparr>pt_data = None, pt_offset = 0, pt_flags = 0\<rparr>"

text \<open>\<^verbatim>\<open>mem_pt_new\<close> allocates the directory; the caller then writes through the pointer.\<close>

definition mem_pt_new :: "mem \<Rightarrow> nat \<Rightarrow> mem" where
  "mem_pt_new m page =
     (case pgdir m (PGDIR_TOP page) of
        None \<Rightarrow> m\<lparr>pgdir := (pgdir m)(PGDIR_TOP page := Some (\<lambda>_. empty_entry)),
                 pgdir_used := Suc (pgdir_used m)\<rparr>
      | Some _ \<Rightarrow> m)"

definition mem_pt_write :: "mem \<Rightarrow> nat \<Rightarrow> pt_entry \<Rightarrow> mem" where
  "mem_pt_write m page e =
     (case pgdir m (PGDIR_TOP page) of
        None \<Rightarrow> m
      | Some dir \<Rightarrow>
          m\<lparr>pgdir := (pgdir m)(PGDIR_TOP page := Some (dir(PGDIR_BOTTOM page := e)))\<rparr>)"

definition mem_pt_set :: "mem \<Rightarrow> nat \<Rightarrow> pt_entry \<Rightarrow> mem" where
  "mem_pt_set m page e = mem_pt_write (mem_pt_new m page) page e"

definition mem_pt :: "mem \<Rightarrow> nat \<Rightarrow> pt_entry option" where
  "mem_pt m page =
     (case pgdir m (PGDIR_TOP page) of
        None \<Rightarrow> None
      | Some dir \<Rightarrow>
          if pt_data (dir (PGDIR_BOTTOM page)) = None then None
          else Some (dir (PGDIR_BOTTOM page)))"

definition mem_pt_del :: "mem \<Rightarrow> nat \<Rightarrow> mem" where
  "mem_pt_del m page =
     (case mem_pt m page of
        None \<Rightarrow> m
      | Some e \<Rightarrow> mem_pt_write m page (e\<lparr>pt_data := None\<rparr>))"

function mem_skip_dirs :: "mem \<Rightarrow> nat \<Rightarrow> nat" where
  "mem_skip_dirs m page =
     (if page < MEM_PAGES \<and> pgdir m (PGDIR_TOP page) = None
      then mem_skip_dirs m ((page - PGDIR_BOTTOM page) + MEM_PGDIR_SIZE) else page)"
  by pat_completeness auto
termination
proof (relation "measure (\<lambda>(m, page). MEM_PAGES - page)")
  fix m :: mem and page
  assume "page < MEM_PAGES \<and> pgdir m (PGDIR_TOP page) = None"
  moreover have "PGDIR_BOTTOM page < MEM_PGDIR_SIZE"
    by (simp add: PGDIR_BOTTOM_def MEM_PGDIR_SIZE_def)
  moreover have "PGDIR_BOTTOM page \<le> page" by (simp add: PGDIR_BOTTOM_def)
  ultimately show "((m, page - PGDIR_BOTTOM page + MEM_PGDIR_SIZE), m, page)
      \<in> measure (\<lambda>(m, page). MEM_PAGES - page)"
    by auto
qed simp

declare mem_skip_dirs.simps [simp del]

definition mem_next_page :: "mem \<Rightarrow> nat \<Rightarrow> nat" where
  "mem_next_page m page = (if page + 1 \<ge> MEM_PAGES then page + 1 else mem_skip_dirs m (page + 1))"

lemma mem_skip_dirs_ge: "page \<le> mem_skip_dirs m page"
proof (induction m page rule: mem_skip_dirs.induct)
  case (1 m page)
  have "page \<le> page - PGDIR_BOTTOM page + MEM_PGDIR_SIZE"
    by (simp add: PGDIR_BOTTOM_def MEM_PGDIR_SIZE_def)
  then show ?case using 1 mem_skip_dirs.simps [of m page] by (auto split: if_splits)
qed

lemma mem_next_page_gt: "page < mem_next_page m page"
  using mem_skip_dirs_ge [of "page + 1" m] by (auto simp: mem_next_page_def)

text \<open>The loop of \<^verbatim>\<open>pt_find_hole\<close>, over the pages still to visit from the top down.\<close>

fun find_hole_loop :: "mem \<Rightarrow> nat \<Rightarrow> nat list \<Rightarrow> bool \<Rightarrow> nat \<Rightarrow> nat" where
  "find_hole_loop m sz [] in_hole hole_end = BAD_PAGE"
| "find_hole_loop m sz (page # rest) in_hole hole_end =
     (let start = (\<not> in_hole \<and> mem_pt m page = None);
          in_hole' = (in_hole \<or> start);
          hole_end' = (if start then page + 1 else hole_end)
      in if mem_pt m page \<noteq> None then find_hole_loop m sz rest False hole_end'
         else if hole_end' - page = sz then page
         else find_hole_loop m sz rest in_hole' hole_end')"

definition pt_find_hole :: "mem \<Rightarrow> nat \<Rightarrow> nat" where
  "pt_find_hole m sz = find_hole_loop m sz (rev [0x40001..<0xf7ffe]) False 0"

definition pt_is_hole :: "mem \<Rightarrow> nat \<Rightarrow> nat \<Rightarrow> bool" where
  "pt_is_hole m start pages = list_all (\<lambda>page. mem_pt m page = None) [start..<w32 (start + pages)]"

subsection \<open>Mapping and unmapping\<close>

text \<open>
  Dropping one reference. At zero the host memory is returned unless it is the vDSO image,
  the file is closed and the object freed. A failing \<^verbatim>\<open>munmap\<close> stops the program and is not
  modelled.
\<close>

definition data_release :: "host \<Rightarrow> nat \<Rightarrow> host" where
  "data_release h d =
     (case heap h d of
        None \<Rightarrow> h
      | Some data \<Rightarrow>
          if d_refcount data = 1 then
            h\<lparr>heap := (heap h)(d := None),
              maps := (if d_host data = vdso_data h then maps h else (maps h)(d_host data := None)),
              closed_fds := (case d_fd data of None \<Rightarrow> closed_fds h | Some f \<Rightarrow> f # closed_fds h)\<rparr>
          else h\<lparr>heap := (heap h)(d := Some (data\<lparr>d_refcount := d_refcount data - 1\<rparr>))\<rparr>)"

definition data_retain :: "host \<Rightarrow> nat \<Rightarrow> host" where
  "data_retain h d =
     (case heap h d of
        None \<Rightarrow> h
      | Some data \<Rightarrow> h\<lparr>heap := (heap h)(d := Some (data\<lparr>d_refcount := Suc (d_refcount data)\<rparr>))\<rparr>)"

definition mem_changed :: "mem \<Rightarrow> mem" where
  "mem_changed m = m\<lparr>changes := w64 (changes m + 1)\<rparr>"

definition unmap_page :: "host \<Rightarrow> mem \<Rightarrow> nat \<Rightarrow> host \<times> mem" where
  "unmap_page h m page =
     (case mem_pt m page of
        None \<Rightarrow> (h, m)
      | Some pt \<Rightarrow> (data_release h (the (pt_data pt)), mem_pt_del m page))"

function unmap_loop :: "host \<Rightarrow> mem \<Rightarrow> nat \<Rightarrow> nat \<Rightarrow> host \<times> mem" where
  "unmap_loop h m page stop =
     (if page < stop
      then unmap_loop (fst (unmap_page h m page)) (snd (unmap_page h m page))
             (mem_next_page (snd (unmap_page h m page)) page) stop
      else (h, m))"
  by pat_completeness auto
termination
proof (relation "measure (\<lambda>(h, m, page, stop). stop - page)")
  fix h m page and stop :: nat
  assume "page < stop"
  then show "((fst (unmap_page h m page), snd (unmap_page h m page),
      mem_next_page (snd (unmap_page h m page)) page, stop), h, m, page, stop)
      \<in> measure (\<lambda>(h, m, page, stop). stop - page)"
    using mem_next_page_gt [of page "snd (unmap_page h m page)"] by auto
qed simp

declare unmap_loop.simps [simp del]

definition pt_unmap_always :: "host \<Rightarrow> mem \<Rightarrow> nat \<Rightarrow> nat \<Rightarrow> int \<times> host \<times> mem" where
  "pt_unmap_always h m start pages =
     (let (h', m') = unmap_loop h m start (w32 (start + pages)) in (0, h', mem_changed m'))"

definition pt_unmap :: "host \<Rightarrow> mem \<Rightarrow> nat \<Rightarrow> nat \<Rightarrow> int \<times> host \<times> mem" where
  "pt_unmap h m start pages =
     (if \<exists>page \<in> set [start..<w32 (start + pages)]. mem_pt m page = None then (- 1, h, m)
      else pt_unmap_always h m start pages)"

fun map_loop :: "host \<Rightarrow> mem \<Rightarrow> nat \<Rightarrow> nat \<Rightarrow> nat \<Rightarrow> u32 \<Rightarrow> nat list \<Rightarrow> host \<times> mem" where
  "map_loop h m d start offset flags [] = (h, m)"
| "map_loop h m d start offset flags (page # rest) =
     (let (_, h1, m1) = (if mem_pt m page \<noteq> None then pt_unmap h m page 1 else (0, h, m));
          h2 = data_retain h1 d;
          m2 = mem_pt_set m1 page
                 \<lparr>pt_data = Some d, pt_offset = (page - start) * PAGE_SIZE + offset, pt_flags = flags\<rparr>
      in map_loop h2 m2 d start offset flags rest)"

definition data_new :: "host \<Rightarrow> data \<Rightarrow> host" where
  "data_new h data = h\<lparr>heap := (heap h)(next_data h := Some data), next_data := Suc (next_data h)\<rparr>"

text \<open>The assertion on the alignment of \<^verbatim>\<open>memory\<close> holds of every page-granular mapping.\<close>

definition pt_map ::
  "host \<Rightarrow> mem \<Rightarrow> nat \<Rightarrow> nat \<Rightarrow> nat option \<Rightarrow> nat \<Rightarrow> u32 \<Rightarrow> int \<times> host \<times> mem" where
  "pt_map h m start pages memory offset flags =
     (case memory of
        None \<Rightarrow> (host_err h, h, m)
      | Some ptr \<Rightarrow>
          if malloc_fails h then (ENOMEM, h, m)
          else
            let h1 = data_new h \<lparr>d_host = ptr, d_size = w32 (pages * PAGE_SIZE) + offset,
                       d_refcount = 0, d_fd = None\<rparr>;
                (h2, m2) = map_loop h1 m (next_data h) start offset flags
                             [start..<w32 (start + pages)]
            in (0, h2, m2))"

definition pt_map_nothing :: "host \<Rightarrow> mem \<Rightarrow> nat \<Rightarrow> nat \<Rightarrow> u32 \<Rightarrow> int \<times> host \<times> mem" where
  "pt_map_nothing h m start pages flags =
     (if pages = 0 then (0, h, m)
      else let (memory, h') = host_mmap h
           in pt_map h' m start pages memory 0 (flags OR P_ANONYMOUS))"

subsection \<open>Protection, copy-on-write, translation\<close>

fun set_flags_loop :: "host \<Rightarrow> mem \<Rightarrow> u32 \<Rightarrow> nat list \<Rightarrow> int \<times> mem" where
  "set_flags_loop h m flags [] = (0, mem_changed m)"
| "set_flags_loop h m flags (page # rest) =
     (case mem_pt m page of
        None \<Rightarrow> (0, m)
      | Some entry \<Rightarrow>
          let m1 = mem_pt_write m page (entry\<lparr>pt_flags := flags\<rparr>)
          in if (flags AND NOT (pt_flags entry)) AND (P_READ OR P_WRITE) \<noteq> 0 \<and> mprotect_fails h
             then (host_err h, m1)
             else set_flags_loop h m1 flags rest)"

definition pt_set_flags :: "host \<Rightarrow> mem \<Rightarrow> nat \<Rightarrow> nat \<Rightarrow> u32 \<Rightarrow> int \<times> mem" where
  "pt_set_flags h m start pages flags =
     (if \<exists>page \<in> set [start..<w32 (start + pages)]. mem_pt m page = None then (ENOMEM, m)
      else set_flags_loop h m flags [start..<w32 (start + pages)])"

definition cow_page :: "host \<Rightarrow> mem \<Rightarrow> mem \<Rightarrow> nat \<Rightarrow> host \<times> mem \<times> mem" where
  "cow_page h src dst page =
     (case mem_pt src page of
        None \<Rightarrow> (h, src, dst)
      | Some entry \<Rightarrow>
          let (_, h1, dst1) = pt_unmap_always h dst page 1;
              entry1 = (if has_flag (pt_flags entry) P_SHARED then entry
                        else entry\<lparr>pt_flags := pt_flags entry OR P_COW\<rparr>);
              src1 = mem_pt_write src page entry1;
              h2 = data_retain h1 (the (pt_data entry))
          in (h2, src1, mem_pt_set dst1 page entry1))"

function cow_loop :: "host \<Rightarrow> mem \<Rightarrow> mem \<Rightarrow> nat \<Rightarrow> nat \<Rightarrow> host \<times> mem \<times> mem" where
  "cow_loop h src dst page stop =
     (if page < stop
      then cow_loop (fst (cow_page h src dst page)) (fst (snd (cow_page h src dst page)))
             (snd (snd (cow_page h src dst page)))
             (mem_next_page (fst (snd (cow_page h src dst page))) page) stop
      else (h, src, dst))"
  by pat_completeness auto
termination
proof (relation "measure (\<lambda>(h, src, dst, page, stop). stop - page)")
  fix h src dst page and stop :: nat
  assume "page < stop"
  then show "((fst (cow_page h src dst page), fst (snd (cow_page h src dst page)),
      snd (snd (cow_page h src dst page)),
      mem_next_page (fst (snd (cow_page h src dst page))) page, stop), h, src, dst, page, stop)
      \<in> measure (\<lambda>(h, src, dst, page, stop). stop - page)"
    using mem_next_page_gt [of page "fst (snd (cow_page h src dst page))"] by auto
qed simp

declare cow_loop.simps [simp del]

definition pt_copy_on_write ::
  "host \<Rightarrow> mem \<Rightarrow> mem \<Rightarrow> nat \<Rightarrow> nat \<Rightarrow> int \<times> host \<times> mem \<times> mem" where
  "pt_copy_on_write h src dst start pages =
     (let (h', src', dst') = cow_loop h src dst start (w32 (start + pages))
      in (0, h', mem_changed src', mem_changed dst'))"

definition mem_ptr_nofault :: "host \<Rightarrow> mem \<Rightarrow> nat \<Rightarrow> mem_access \<Rightarrow> (nat \<times> nat) option" where
  "mem_ptr_nofault h m addr type =
     (case mem_pt m (PAGE addr) of
        None \<Rightarrow> None
      | Some entry \<Rightarrow>
          if type = MEM_WRITE \<and> \<not> P_WRITABLE (pt_flags entry) then None
          else (case heap h (the (pt_data entry)) of
                  None \<Rightarrow> None
                | Some data \<Rightarrow> Some (d_host data, pt_offset entry + PGOFFSET addr)))"

text \<open>The first mapped page at or above \<open>p\<close>.\<close>

function next_mapped :: "mem \<Rightarrow> nat \<Rightarrow> nat" where
  "next_mapped m p = (if p < MEM_PAGES \<and> mem_pt m p = None then next_mapped m (p + 1) else p)"
  by pat_completeness auto
termination
  by (relation "measure (\<lambda>(m, p). MEM_PAGES - p)") auto

declare next_mapped.simps [simp del]

definition memcpy_page :: "host \<Rightarrow> nat \<Rightarrow> nat \<Rightarrow> nat \<Rightarrow> host" where
  "memcpy_page h to from off =
     (case (maps h to, maps h from) of
        (Some t, Some f) \<Rightarrow>
          h\<lparr>maps := (maps h)(to := Some (\<lambda>i. if i < PAGE_SIZE then f (off + i) else t i))\<rparr>
      | _ \<Rightarrow> h)"

text \<open>Growing a stack: map the faulting page when the next mapping above grows down.\<close>

definition mem_grow :: "host \<Rightarrow> mem \<Rightarrow> nat \<Rightarrow> (host \<times> mem) option" where
  "mem_grow h m page =
     (let p = next_mapped m (page + 1)
      in if p \<ge> MEM_PAGES then None
         else case mem_pt m p of
                None \<Rightarrow> None
              | Some e \<Rightarrow>
                  if \<not> has_flag (pt_flags e) P_GROWSDOWN then None
                  else let (_, h', m') = pt_map_nothing h m page 1 (P_WRITE OR P_GROWSDOWN)
                       in Some (h', m'))"

text \<open>
  Giving the page a private copy. \<^const>\<open>None\<close>: \<^verbatim>\<open>mmap\<close> failed and the copy faults, or the
  entry's object is gone.
\<close>

definition mem_break_cow :: "host \<Rightarrow> mem \<Rightarrow> nat \<Rightarrow> pt_entry \<Rightarrow> (host \<times> mem) option" where
  "mem_break_cow h m page entry =
     (case (heap h (the (pt_data entry)), host_mmap h) of
        (Some data, (Some copy, h1)) \<Rightarrow>
          let h2 = memcpy_page h1 copy (d_host data) (pt_offset entry);
              (_, h3, m3) = pt_map h2 m page 1 (Some copy) 0 (pt_flags entry AND NOT P_COW)
          in Some (h3, m3)
      | _ \<Rightarrow> None)"

text \<open>
  \<^verbatim>\<open>mem_ptr\<close> after the entry is known: the write checks, the ptrace override and the copy.
  The outer \<^const>\<open>None\<close> is a crash; the inner option is the returned pointer.
\<close>

definition mem_ptr_write ::
  "host \<Rightarrow> mem \<Rightarrow> nat \<Rightarrow> mem_access \<Rightarrow> pt_entry \<Rightarrow> ((nat \<times> nat) option \<times> host \<times> mem) option" where
  "mem_ptr_write h m addr type entry =
     (let page = PAGE addr
      in if type \<noteq> MEM_WRITE_PTRACE \<and> \<not> has_flag (pt_flags entry) P_WRITE then Some (None, h, m)
         else
           let entry1 = (if type = MEM_WRITE_PTRACE
                         then entry\<lparr>pt_flags := pt_flags entry OR (P_WRITE OR P_COW)\<rparr> else entry);
               m1 = (if type = MEM_WRITE_PTRACE then mem_pt_write m page entry1 else m)
           in if has_flag (pt_flags entry1) P_COW
              then case mem_break_cow h m1 page entry1 of
                     None \<Rightarrow> None
                   | Some (h2, m2) \<Rightarrow> Some (mem_ptr_nofault h2 m2 addr type, h2, m2)
              else Some (mem_ptr_nofault h m1 addr type, h, m1))"

definition mem_ptr_entry ::
  "host \<Rightarrow> mem \<Rightarrow> nat \<Rightarrow> mem_access \<Rightarrow> ((nat \<times> nat) option \<times> host \<times> mem) option" where
  "mem_ptr_entry h m addr type =
     (case mem_pt m (PAGE addr) of
        Some entry \<Rightarrow>
          if type = MEM_WRITE \<or> type = MEM_WRITE_PTRACE then mem_ptr_write h m addr type entry
          else Some (mem_ptr_nofault h m addr type, h, m)
      | None \<Rightarrow> Some (mem_ptr_nofault h m addr type, h, m))"

text \<open>
  The assertion on the old pointer: a failure is \<^const>\<open>None\<close>. It stands at the end of the C
  function; on the early returns the old pointer is null, so that it holds there too.
\<close>

definition mem_ptr ::
  "host \<Rightarrow> mem \<Rightarrow> nat \<Rightarrow> mem_access \<Rightarrow> ((nat \<times> nat) option \<times> host \<times> mem) option" where
  "mem_ptr h m addr type =
     (let old_ptr = mem_ptr_nofault h m addr type;
          res = (if mem_pt m (PAGE addr) = None
                 then (case mem_grow h m (PAGE addr) of
                         None \<Rightarrow> Some (None, h, m)
                       | Some (h1, m1) \<Rightarrow> mem_ptr_entry h1 m1 addr type)
                 else mem_ptr_entry h m addr type)
      in case res of
           None \<Rightarrow> None
         | Some (ptr, h', m') \<Rightarrow>
             if old_ptr = None \<or> old_ptr = ptr \<or> type = MEM_WRITE_PTRACE
             then Some (ptr, h', m') else None)"

definition SEGV_MAPERR :: int where "SEGV_MAPERR = 1"

definition SEGV_ACCERR :: int where "SEGV_ACCERR = 2"

definition mem_segv_reason :: "mem \<Rightarrow> nat \<Rightarrow> int" where
  "mem_segv_reason m addr = (if mem_pt m (PAGE addr) = None then SEGV_MAPERR else SEGV_ACCERR)"

definition mem_destroy :: "host \<Rightarrow> mem \<Rightarrow> host" where
  "mem_destroy h m = fst (snd (pt_unmap_always h m 0 MEM_PAGES))"

subsection \<open>Specification\<close>

text \<open>The pages of an address space that refer to an object.\<close>

definition refs :: "mem \<Rightarrow> nat \<Rightarrow> nat set" where
  "refs m d = {p. \<exists>e. mem_pt m p = Some e \<and> pt_data e = Some d}"

text \<open>
  The invariant of an address space: mapped pages are in range and lie inside a live object;
  the count of every live object is the number of pages that refer to it here plus the
  references \<open>ext\<close> from elsewhere, and is positive outside \<open>D\<close> (the object a mapping
  operation is about to install); live objects own distinct live host mappings, the vDSO
  image apart.
\<close>

definition mem_inv_upto :: "nat set \<Rightarrow> host \<Rightarrow> (nat \<Rightarrow> nat) \<Rightarrow> mem \<Rightarrow> bool" where
  "mem_inv_upto D h ext m \<longleftrightarrow>
     (\<forall>p e. mem_pt m p = Some e \<longrightarrow> p < MEM_PAGES \<and>
        (\<exists>d x. pt_data e = Some d \<and> heap h d = Some x \<and> pt_offset e + PAGE_SIZE \<le> d_size x)) \<and>
     (\<forall>d x. heap h d = Some x \<longrightarrow> d_refcount x = card (refs m d) + ext d \<and>
        (d \<notin> D \<longrightarrow> 0 < d_refcount x) \<and> d < next_data h \<and>
        d_host x < next_map h \<and> maps h (d_host x) \<noteq> None) \<and>
     (\<forall>d. heap h d = None \<longrightarrow> ext d = 0) \<and>
     (\<forall>d x d' x'. heap h d = Some x \<longrightarrow> heap h d' = Some x' \<longrightarrow> d_host x = d_host x' \<longrightarrow>
        d_host x \<noteq> vdso_data h \<longrightarrow> d = d')"

abbreviation mem_inv :: "host \<Rightarrow> (nat \<Rightarrow> nat) \<Rightarrow> mem \<Rightarrow> bool" where
  "mem_inv \<equiv> mem_inv_upto {}"

text \<open>
  What an operation on one address space leaves alone in the host: an object referred to
  from elsewhere stays live, live objects keep their host memory and its content, and the
  memory of an object that is gone has been returned.
\<close>

definition host_keeps :: "(nat \<Rightarrow> nat) \<Rightarrow> host \<Rightarrow> host \<Rightarrow> bool" where
  "host_keeps ext h h' \<longleftrightarrow>
     next_data h \<le> next_data h' \<and> next_map h \<le> next_map h' \<and> vdso_data h' = vdso_data h \<and>
     malloc_fails h' = malloc_fails h \<and> mmap_fails h' = mmap_fails h \<and>
     mprotect_fails h' = mprotect_fails h \<and>
     (\<forall>d < next_data h. heap h d = None \<longrightarrow> heap h' d = None) \<and>
     (\<forall>d x. heap h d = Some x \<longrightarrow> 0 < ext d \<longrightarrow> heap h' d \<noteq> None) \<and>
     (\<forall>mp < next_map h. maps h mp = None \<longrightarrow> maps h' mp = None) \<and>
     (\<forall>d x. heap h d = Some x \<longrightarrow> heap h' d = None \<longrightarrow> d_host x \<noteq> vdso_data h \<longrightarrow>
        maps h' (d_host x) = None) \<and>
     (\<forall>d x x'. heap h d = Some x \<longrightarrow> heap h' d = Some x' \<longrightarrow>
        d_host x' = d_host x \<and> d_size x' = d_size x \<and> maps h' (d_host x) = maps h (d_host x))"

text \<open>The byte a guest address holds, and a store through a host pointer.\<close>

definition mem_byte :: "host \<Rightarrow> mem \<Rightarrow> nat \<Rightarrow> byte option" where
  "mem_byte h m addr =
     (case mem_ptr_nofault h m addr MEM_READ of
        None \<Rightarrow> None
      | Some (mp, off) \<Rightarrow> map_option (\<lambda>f. f off) (maps h mp))"

definition store_byte :: "host \<Rightarrow> nat \<times> nat \<Rightarrow> byte \<Rightarrow> host" where
  "store_byte h ptr b =
     (case maps h (fst ptr) of
        None \<Rightarrow> h
      | Some f \<Rightarrow> h\<lparr>maps := (maps h)(fst ptr := Some (f(snd ptr := b)))\<rparr>)"

text \<open>Unmapping page by page: the reference for the loop that skips directories.\<close>

fun unmap_pages :: "host \<Rightarrow> mem \<Rightarrow> nat list \<Rightarrow> host \<times> mem" where
  "unmap_pages h m [] = (h, m)"
| "unmap_pages h m (p # ps) = unmap_pages (fst (unmap_page h m p)) (snd (unmap_page h m p)) ps"

section \<open>The page table as a flat map\<close>

locale page_table =
  fixes get :: "'m \<Rightarrow> nat \<Rightarrow> 'e option"
    and put :: "'m \<Rightarrow> nat \<Rightarrow> 'e \<Rightarrow> 'm"
    and del :: "'m \<Rightarrow> nat \<Rightarrow> 'm"
    and present :: "'e \<Rightarrow> bool"
  assumes get_put: "present e \<Longrightarrow> get (put m p e) = (get m)(p := Some e)"
    and get_del: "get (del m p) = (get m)(p := None)"
begin

lemma get_del_all: "get (fold (\<lambda>p m. del m p) ps m) q = (if q \<in> set ps then None else get m q)"
  by (induction ps arbitrary: m) (auto simp: get_del)

lemma put_del_commute:
  "present e \<Longrightarrow> p \<noteq> q \<Longrightarrow> get (put (del m q) p e) = get (del (put m p e) q)"
  by (simp add: get_put get_del fun_upd_twist)

end

lemma pgdir_index: "p = q \<longleftrightarrow> PGDIR_TOP p = PGDIR_TOP q \<and> PGDIR_BOTTOM p = PGDIR_BOTTOM q"
  unfolding PGDIR_TOP_def PGDIR_BOTTOM_def MEM_PGDIR_SIZE_def by (metis mult_div_mod_eq)

lemma mem_pt_write:
  assumes "pgdir m (PGDIR_TOP p) \<noteq> None"
  shows "mem_pt (mem_pt_write m p e) = (mem_pt m)(p := if pt_data e = None then None else Some e)"
proof
  fix q
  show "mem_pt (mem_pt_write m p e) q =
    ((mem_pt m)(p := if pt_data e = None then None else Some e)) q"
    using assms pgdir_index [of p q]
    by (cases "PGDIR_TOP q = PGDIR_TOP p"; cases "PGDIR_BOTTOM q = PGDIR_BOTTOM p")
      (auto simp: mem_pt_def mem_pt_write_def)
qed

lemma mem_pt_Some_pgdir: "mem_pt m p = Some e \<Longrightarrow> pgdir m (PGDIR_TOP p) \<noteq> None"
  by (auto simp: mem_pt_def split: option.splits)

lemma mem_pt_Some_data: "mem_pt m p = Some e \<Longrightarrow> \<exists>d. pt_data e = Some d"
  by (auto simp: mem_pt_def split: option.splits if_splits)

lemma mem_pt_new: "mem_pt (mem_pt_new m p) = mem_pt m"
  by (rule ext) (auto simp: mem_pt_def mem_pt_new_def empty_entry_def split: option.splits)

lemma mem_pt_new_pgdir: "pgdir (mem_pt_new m p) (PGDIR_TOP p) \<noteq> None"
  by (auto simp: mem_pt_new_def split: option.splits)

lemma mem_pt_set:
  "pt_data e \<noteq> None \<Longrightarrow> mem_pt (mem_pt_set m p e) = (mem_pt m)(p := Some e)"
  by (auto simp: mem_pt_set_def mem_pt_write [OF mem_pt_new_pgdir] mem_pt_new)

lemma mem_pt_del: "mem_pt (mem_pt_del m p) = (mem_pt m)(p := None)"
proof (cases "mem_pt m p")
  case None
  then show ?thesis by (simp add: mem_pt_del_def fun_upd_idem)
next
  case (Some e)
  then show ?thesis
    by (simp add: mem_pt_del_def mem_pt_write [OF mem_pt_Some_pgdir [OF Some]])
qed

interpretation pt: page_table mem_pt mem_pt_set mem_pt_del "\<lambda>e. pt_data e \<noteq> None"
  by unfold_locales (simp_all add: mem_pt_set mem_pt_del)

lemma mem_pt_changed [simp]: "mem_pt (mem_changed m) = mem_pt m"
  by (rule ext) (simp add: mem_pt_def mem_changed_def)

lemma mem_pt_init [simp]: "mem_pt mem_init p = None"
  by (simp add: mem_pt_def mem_init_def)

section \<open>The directory-skipping loop\<close>

lemma mem_skip_dirs_unmapped:
  "page \<le> q \<Longrightarrow> q < mem_skip_dirs m page \<Longrightarrow> mem_pt m q = None"
proof (induction m page rule: mem_skip_dirs.induct)
  case (1 m page)
  show ?case
  proof (cases "page < MEM_PAGES \<and> pgdir m (PGDIR_TOP page) = None")
    case True
    let ?n = "page - PGDIR_BOTTOM page + MEM_PGDIR_SIZE"
    have n: "mem_skip_dirs m page = mem_skip_dirs m ?n"
      using True by (simp add: mem_skip_dirs.simps [of m page])
    show ?thesis
    proof (cases "?n \<le> q")
      case True
      then show ?thesis using 1 n \<open>page < MEM_PAGES \<and> _\<close> by simp
    next
      case False
      moreover have "page - PGDIR_BOTTOM page = 2 ^ 10 * PGDIR_TOP page"
        by (simp add: PGDIR_TOP_def PGDIR_BOTTOM_def MEM_PGDIR_SIZE_def minus_mod_eq_mult_div)
      ultimately have "PGDIR_TOP q = PGDIR_TOP page"
        using "1.prems"(1) unfolding PGDIR_TOP_def [of q] MEM_PGDIR_SIZE_def
        by (intro div_nat_eqI) simp_all
      then show ?thesis using True by (simp add: mem_pt_def)
    qed
  next
    case False
    then have "mem_skip_dirs m page = page" by (subst mem_skip_dirs.simps) (rule if_not_P)
    then show ?thesis using "1.prems" by simp
  qed
qed

lemma mem_next_page_unmapped:
  "page < q \<Longrightarrow> q < mem_next_page m page \<Longrightarrow> mem_pt m q = None"
  using mem_skip_dirs_unmapped [of "page + 1" q m]
  by (auto simp: mem_next_page_def split: if_splits)

text \<open>
  The loops of \<^verbatim>\<open>pt_unmap_always\<close> and \<^verbatim>\<open>pt_copy_on_write\<close> share a shape: a step at a page, then
  on to \<^const>\<open>mem_next_page\<close> of the address space that drives the loop. When the step does
  nothing at unmapped pages of that space, skipping directories does not matter.
\<close>

locale directory_loop =
  fixes step :: "'s \<Rightarrow> nat \<Rightarrow> 's" and view :: "'s \<Rightarrow> mem" and loop :: "'s \<Rightarrow> nat \<Rightarrow> nat \<Rightarrow> 's"
  assumes loop_step: "loop s page stop =
      (if page < stop then loop (step s page) (mem_next_page (view (step s page)) page) stop else s)"
    and step_unmapped: "mem_pt (view s) page = None \<Longrightarrow> step s page = s"
begin

lemma fold_unmapped: "\<forall>p \<in> set ps. mem_pt (view s) p = None \<Longrightarrow> fold (\<lambda>p s. step s p) ps s = s"
  by (induction ps) (auto simp: step_unmapped)

lemma fold_skip:
  "fold (\<lambda>p s. step s p) [Suc page..<stop] s = fold (\<lambda>p s. step s p) [mem_next_page (view s) page..<stop] s"
proof (cases "mem_next_page (view s) page \<le> stop")
  case True
  let ?n = "mem_next_page (view s) page"
  have "[Suc page..<stop] = [Suc page..<?n] @ [?n..<stop]"
    using True mem_next_page_gt [of page "view s"] upt_add_eq_append [of "Suc page" ?n "stop - ?n"] by simp
  moreover have "fold (\<lambda>p s. step s p) [Suc page..<?n] s = s"
    by (rule fold_unmapped) (auto intro: mem_next_page_unmapped [of page])
  ultimately show ?thesis by simp
next
  case False
  have "fold (\<lambda>p s. step s p) [Suc page..<stop] s = s"
    by (rule fold_unmapped) (use False in \<open>auto intro: mem_next_page_unmapped [of page]\<close>)
  then show ?thesis using False by simp
qed

lemma loop_fold: "loop s page stop = fold (\<lambda>p s. step s p) [page..<stop] s"
proof (induction "stop - page" arbitrary: s page rule: less_induct)
  case less
  show ?case
  proof (cases "page < stop")
    case True
    let ?n = "mem_next_page (view (step s page)) page"
    have "loop s page stop = loop (step s page) ?n stop"
      using True by (subst loop_step) simp
    also have "\<dots> = fold (\<lambda>p s. step s p) [?n..<stop] (step s page)"
      using True mem_next_page_gt [of page "view (step s page)"] by (intro less) simp
    finally show ?thesis using True fold_skip [of page stop "step s page"] by (simp add: upt_conv_Cons)
  next
    case False
    then show ?thesis by (subst loop_step) simp
  qed
qed

end

interpretation unmapping: directory_loop "\<lambda>(h, m). unmap_page h m" snd "\<lambda>(h, m). unmap_loop h m"
proof
  fix s :: "host \<times> mem" and page stop :: nat
  obtain h m where s: "s = (h, m)" by fastforce
  show "(case s of (h, m) \<Rightarrow> unmap_loop h m) page stop =
    (if page < stop then (case (case s of (h, m) \<Rightarrow> unmap_page h m) page of (h, m) \<Rightarrow> unmap_loop h m)
        (mem_next_page (snd ((case s of (h, m) \<Rightarrow> unmap_page h m) page)) page) stop else s)"
    using s by (simp add: unmap_loop.simps [of h m page] split: prod.splits)
  show "mem_pt (snd s) page = None \<Longrightarrow> (case s of (h, m) \<Rightarrow> unmap_page h m) page = s"
    using s by (simp add: unmap_page_def)
qed

interpretation copying: directory_loop "\<lambda>(h, src, dst). cow_page h src dst" "\<lambda>(h, src, dst). src"
  "\<lambda>(h, src, dst). cow_loop h src dst"
proof
  fix s :: "host \<times> mem \<times> mem" and page stop :: nat
  obtain h src dst where s: "s = (h, src, dst)" by (metis prod_cases3)
  show "(case s of (h, src, dst) \<Rightarrow> cow_loop h src dst) page stop =
    (if page < stop
     then (case (case s of (h, src, dst) \<Rightarrow> cow_page h src dst) page of (h, src, dst) \<Rightarrow> cow_loop h src dst)
        (mem_next_page (case (case s of (h, src, dst) \<Rightarrow> cow_page h src dst) page of (h, src, dst) \<Rightarrow> src) page)
        stop
     else s)"
    using s by (simp add: cow_loop.simps [of h src dst page] split: prod.splits)
  show "mem_pt (case s of (h, src, dst) \<Rightarrow> src) page = None \<Longrightarrow>
    (case s of (h, src, dst) \<Rightarrow> cow_page h src dst) page = s"
    using s by (simp add: cow_page_def)
qed

lemma unmap_pages_fold: "unmap_pages h m ps = fold (\<lambda>p (h, m). unmap_page h m p) ps (h, m)"
  by (induction ps arbitrary: h m) auto

lemma unmap_loop_eq: "unmap_loop h m page stop = unmap_pages h m [page..<stop]"
  using unmapping.loop_fold [of "(h, m)" page stop] by (simp add: unmap_pages_fold split_def)

end
