(* ===== verification/Memory_Inv.thy ===== *)
theory Memory_Inv
  imports Memory
begin

text \<open>
  The invariant of address spaces: reference counts are exact, no page refers to a freed
  object, and what one address space does leaves the objects of the others alone.
\<close>

section \<open>Reference counts\<close>

lemma mem_inv_page:
  assumes "mem_inv_upto D h ext m" and "mem_pt m p = Some e"
  obtains d x where "p < MEM_PAGES" and "pt_data e = Some d" and "heap h d = Some x"
    and "pt_offset e + PAGE_SIZE \<le> d_size x"
  using assms unfolding mem_inv_upto_def by blast

lemma mem_inv_data:
  assumes "mem_inv_upto D h ext m" and "heap h d = Some x"
  shows "d_refcount x = card (refs m d) + ext d" and "d \<notin> D \<Longrightarrow> 0 < d_refcount x"
    and "d < next_data h" and "d_host x < next_map h" and "\<exists>f. maps h (d_host x) = Some f"
proof -
  have "\<forall>d x. heap h d = Some x \<longrightarrow> d_refcount x = card (refs m d) + ext d \<and>
      (d \<notin> D \<longrightarrow> 0 < d_refcount x) \<and> d < next_data h \<and>
      d_host x < next_map h \<and> maps h (d_host x) \<noteq> None"
    using assms(1) unfolding mem_inv_upto_def by blast
  with assms(2) show "d_refcount x = card (refs m d) + ext d" and "d \<notin> D \<Longrightarrow> 0 < d_refcount x"
    and "d < next_data h" and "d_host x < next_map h" and "\<exists>f. maps h (d_host x) = Some f"
    by blast+
qed

lemma mem_inv_free: "mem_inv_upto D h ext m \<Longrightarrow> heap h d = None \<Longrightarrow> ext d = 0"
  unfolding mem_inv_upto_def by blast

lemma mem_inv_inj:
  assumes "mem_inv_upto D h ext m" and "heap h d = Some x" and "heap h d' = Some x'"
    and "d_host x = d_host x'" and "d_host x \<noteq> vdso_data h"
  shows "d = d'"
  using assms unfolding mem_inv_upto_def by blast

lemma mem_inv_outside: "mem_inv_upto D h ext m \<Longrightarrow> MEM_PAGES \<le> p \<Longrightarrow> mem_pt m p = None"
  by (cases "mem_pt m p") (auto elim: mem_inv_page)

lemma refs_subset: "mem_inv_upto D h ext m \<Longrightarrow> refs m d \<subseteq> {..<MEM_PAGES}"
  unfolding refs_def by (auto elim: mem_inv_page)

lemma finite_refs: "mem_inv_upto D h ext m \<Longrightarrow> finite (refs m d)"
  by (rule finite_subset [OF refs_subset]) auto

lemma refs_None: "mem_inv_upto D h ext m \<Longrightarrow> heap h d = None \<Longrightarrow> refs m d = {}"
  unfolding refs_def by (auto elim: mem_inv_page)

lemma refs_upd_None: "mem_pt m' = (mem_pt m)(p := None) \<Longrightarrow> refs m' d = refs m d - {p}"
  by (auto simp: refs_def split: if_splits)

lemma refs_upd_Some:
  "mem_pt m' = (mem_pt m)(p := Some e) \<Longrightarrow>
   refs m' d = (if pt_data e = Some d then insert p (refs m d) else refs m d - {p})"
  by (auto simp: refs_def split: if_splits)

lemma mem_inv_empty:
  assumes "heap h = (\<lambda>_. None)"
  shows "mem_inv h (\<lambda>_. 0) mem_init"
  using assms by (simp add: mem_inv_upto_def)

lemma mem_inv_cong: "mem_pt m' = mem_pt m \<Longrightarrow> mem_inv_upto D h ext m' = mem_inv_upto D h ext m"
  by (simp add: mem_inv_upto_def refs_def)

lemma host_keeps_refl: "host_keeps ext h h"
  by (simp add: host_keeps_def)

lemma host_keeps_live:
  "host_keeps ext h h' \<Longrightarrow> heap h d = Some x \<Longrightarrow> 0 < ext d \<Longrightarrow> \<exists>y. heap h' d = Some y"
  unfolding host_keeps_def by (elim conjE) blast

lemma host_keeps_freed:
  "host_keeps ext h h' \<Longrightarrow> heap h d = Some x \<Longrightarrow> heap h' d = None \<Longrightarrow> d_host x \<noteq> vdso_data h \<Longrightarrow>
   maps h' (d_host x) = None"
  unfolding host_keeps_def by (elim conjE) blast

lemma host_keeps_same:
  assumes "host_keeps ext h h'" and "heap h d = Some x" and "heap h' d = Some x'"
  shows "d_host x' = d_host x" and "d_size x' = d_size x"
    and "maps h' (d_host x) = maps h (d_host x)"
  using assms unfolding host_keeps_def by (elim conjE, blast)+

lemma host_keeps_trans:
  assumes "host_keeps ext h1 h2" and "host_keeps ext h2 h3"
    and "\<And>d x. heap h1 d = Some x \<Longrightarrow> d < next_data h1 \<and> d_host x < next_map h1"
  shows "host_keeps ext h1 h3"
proof -
  have live: "\<exists>y. heap h2 d = Some y" if "heap h1 d = Some x" "heap h3 d = Some z" for d x z
  proof (rule ccontr)
    assume "\<nexists>y. heap h2 d = Some y"
    moreover have "d < next_data h2"
      using assms(1) assms(3) [OF that(1)] by (auto simp: host_keeps_def)
    ultimately show False using assms(2) that(2) by (auto simp: host_keeps_def)
  qed
  show ?thesis unfolding host_keeps_def
  proof (intro conjI allI impI)
    fix d x assume "heap h1 d = Some x" "0 < ext d"
    then show "heap h3 d \<noteq> None"
      using host_keeps_live [OF assms(1)] host_keeps_live [OF assms(2)] by blast
  next
    fix d x z assume xz: "heap h1 d = Some x" "heap h3 d = Some z"
    then obtain y where y: "heap h2 d = Some y" using live by blast
    have "d_host y = d_host x \<and> d_size y = d_size x \<and> maps h2 (d_host x) = maps h1 (d_host x)"
      using assms(1) xz(1) y unfolding host_keeps_def by blast
    moreover have "d_host z = d_host y \<and> d_size z = d_size y \<and> maps h3 (d_host y) = maps h2 (d_host y)"
      using assms(2) xz(2) y unfolding host_keeps_def by blast
    ultimately show "d_host z = d_host x" "d_size z = d_size x"
      "maps h3 (d_host x) = maps h1 (d_host x)" by simp_all
  next
    fix d assume "d < next_data h1" "heap h1 d = None"
    then show "heap h3 d = None" using assms(1,2) unfolding host_keeps_def
      by (meson order_less_le_trans)
  next
    fix mp assume "mp < next_map h1" "maps h1 mp = None"
    then show "maps h3 mp = None" using assms(1,2) unfolding host_keeps_def
      by (meson order_less_le_trans)
  next
    fix d x assume x: "heap h1 d = Some x" "heap h3 d = None" "d_host x \<noteq> vdso_data h1"
    have lt: "d_host x < next_map h2" and v: "vdso_data h2 = vdso_data h1"
      using assms(1) assms(3) [OF x(1)] unfolding host_keeps_def by linarith+
    show "maps h3 (d_host x) = None"
    proof (cases "heap h2 d")
      case None
      then have "maps h2 (d_host x) = None" using assms(1) x unfolding host_keeps_def by blast
      then show ?thesis using assms(2) lt unfolding host_keeps_def by blast
    next
      case (Some y)
      then have "d_host y = d_host x" using assms(1) x(1) unfolding host_keeps_def by blast
      then show ?thesis using assms(2) Some x(2,3) v unfolding host_keeps_def by metis
    qed
  qed (use assms(1,2) in \<open>auto simp: host_keeps_def\<close>)
qed

lemma host_keeps_trans_inv:
  "mem_inv_upto D h1 ext' m \<Longrightarrow> host_keeps ext h1 h2 \<Longrightarrow> host_keeps ext h2 h3 \<Longrightarrow>
   host_keeps ext h1 h3"
  by (rule host_keeps_trans) (auto dest: mem_inv_data(3,4))

text \<open>The host's own mappings may change as long as live objects keep theirs.\<close>

lemma mem_inv_maps:
  assumes inv: "mem_inv_upto D h ext m" and h': "heap h' = heap h" "next_data h \<le> next_data h'"
    "next_map h \<le> next_map h'" "vdso_data h' = vdso_data h"
    and maps: "\<And>d x. heap h d = Some x \<Longrightarrow> maps h' (d_host x) \<noteq> None"
  shows "mem_inv_upto D h' ext m"
proof -
  have "d_refcount x = card (refs m d) + ext d \<and> (d \<notin> D \<longrightarrow> 0 < d_refcount x) \<and> d < next_data h' \<and>
      d_host x < next_map h' \<and> maps h' (d_host x) \<noteq> None" if "heap h d = Some x" for d x
    using mem_inv_data [OF inv that] maps [OF that] h'(2,3) by simp
  then show ?thesis using inv unfolding mem_inv_upto_def h'(1,4) by (elim conjE) (intro conjI, blast+)
qed

text \<open>Changing the page table and one count together.\<close>

lemma mem_inv_recount:
  assumes inv: "mem_inv_upto D h ext m" and x: "heap h d = Some x"
    and pages: "\<And>q e. mem_pt m' q = Some e \<Longrightarrow> q < MEM_PAGES \<and>
      (\<exists>d x. pt_data e = Some d \<and> heap h d = Some x \<and> pt_offset e + PAGE_SIZE \<le> d_size x)"
    and refs: "\<And>q. q \<noteq> d \<Longrightarrow> refs m' q = refs m q"
    and ext: "\<And>q. q \<noteq> d \<Longrightarrow> ext' q = ext q"
    and n: "n = card (refs m' d) + ext' d" and pos: "d \<notin> D' \<Longrightarrow> 0 < n"
    and D: "\<And>q. q \<noteq> d \<Longrightarrow> q \<notin> D' \<Longrightarrow> q \<notin> D"
  shows "mem_inv_upto D' (h\<lparr>heap := (heap h)(d := Some (x\<lparr>d_refcount := n\<rparr>))\<rparr>) ext' m'"
proof -
  let ?h = "h\<lparr>heap := (heap h)(d := Some (x\<lparr>d_refcount := n\<rparr>))\<rparr>"
  note dx = mem_inv_data [OF inv x]
  have data: "d_refcount x1 = card (refs m' q) + ext' q \<and> (q \<notin> D' \<longrightarrow> 0 < d_refcount x1) \<and>
      q < next_data ?h \<and> d_host x1 < next_map ?h \<and> maps ?h (d_host x1) \<noteq> None"
    if q: "heap ?h q = Some x1" for q x1
  proof (cases "q = d")
    case True
    then show ?thesis using q n pos dx(3,4,5) by auto
  next
    case False
    then have q': "heap h q = Some x1" using q by simp
    show ?thesis
      using mem_inv_data [OF inv q'] refs [OF False] ext [OF False] D [OF False] by simp
  qed
  show ?thesis
    unfolding mem_inv_upto_def
  proof (intro conjI allI impI)
    fix q e assume q: "mem_pt m' q = Some e"
    show "q < MEM_PAGES" using pages [OF q] by simp
    obtain d' x' where "pt_data e = Some d'" "heap h d' = Some x'"
      "pt_offset e + PAGE_SIZE \<le> d_size x'" using pages [OF q] by blast
    then show "\<exists>d' x'. pt_data e = Some d' \<and> heap ?h d' = Some x' \<and>
        pt_offset e + PAGE_SIZE \<le> d_size x'"
      using x by (cases "d' = d") auto
  next
    fix q assume "heap ?h q = None"
    then have "q \<noteq> d" "heap h q = None" by (simp_all split: if_splits)
    then show "ext' q = 0" using mem_inv_free [OF inv, of q] ext [of q] by simp
  next
    fix q x1 q' x2
    assume "heap ?h q = Some x1" "heap ?h q' = Some x2"
      "d_host x1 = d_host x2" "d_host x1 \<noteq> vdso_data ?h"
    then obtain y1 y2 where "heap h q = Some y1" "heap h q' = Some y2"
      "d_host y1 = d_host y2" "d_host y1 \<noteq> vdso_data h"
      using x by (auto split: if_splits)
    then show "q = q'" using mem_inv_inj [OF inv] by blast
  qed (use data in blast)+
qed

text \<open>Unmapping one page keeps the invariant and the rest of the host.\<close>

lemma unmap_page_map: "mem_pt (snd (unmap_page h m p)) = (mem_pt m)(p := None)"
  by (auto simp: unmap_page_def mem_pt_del fun_upd_idem split: option.splits)

lemma data_release_inv:
  assumes inv: "mem_inv_upto D h ext m" and p: "p \<in> refs m d" and D: "d \<notin> D"
    and m': "mem_pt m' = (mem_pt m)(p := None)"
  shows "mem_inv_upto D (data_release h d) ext m'" and "host_keeps ext h (data_release h d)"
proof -
  obtain e where e: "mem_pt m p = Some e" "pt_data e = Some d" using p by (auto simp: refs_def)
  obtain x where x: "heap h d = Some x" using mem_inv_page [OF inv e(1)] e(2) by force
  note dx = mem_inv_data [OF inv x]
  have fin: "finite (refs m d)" using inv by (rule finite_refs)
  have card: "card (refs m d) = Suc (card (refs m d - {p}))"
    using fin p by (metis card_Suc_Diff1)
  have r: "refs m' q = refs m q - {p}" for q using m' by (rule refs_upd_None)
  have rq: "refs m' q = refs m q" if "q \<noteq> d" for q
    using r [of q] e that by (auto simp: refs_def)
  have other: "q < MEM_PAGES \<and> (\<exists>d x. pt_data e = Some d \<and> heap h d = Some x \<and>
      pt_offset e + PAGE_SIZE \<le> d_size x)" if "mem_pt m' q = Some e" for q e
    using mem_inv_page [OF inv, of q e] that m' by (fastforce split: if_splits)
  show "mem_inv_upto D (data_release h d) ext m'"
  proof (cases "d_refcount x = 1")
    case True
    then have "card (refs m d - {p}) = 0" and z2: "ext d = 0" using dx(1) card by linarith+
    then have "refs m d - {p} = {}" using fin by (simp only: card_0_eq finite_Diff)
    then have z: "refs m d = {p}" "ext d = 0" using p z2 by auto
    have nod: "pt_data e' \<noteq> Some d" if "mem_pt m' q = Some e'" for q e'
      using z(1) m' that by (auto simp: refs_def split: if_splits)
    have host: "d_host x' \<noteq> d_host x \<or> d_host x = vdso_data h"
      if "heap h q = Some x'" "q \<noteq> d" for q x'
      using mem_inv_inj [OF inv x that(1)] that(2) by metis
    show ?thesis
      unfolding mem_inv_upto_def
    proof (intro conjI allI impI)
      fix q e' assume q: "mem_pt m' q = Some e'"
      show "q < MEM_PAGES" using other [OF q] by simp
      show "\<exists>d' x'. pt_data e' = Some d' \<and> heap (data_release h d) d' = Some x' \<and>
          pt_offset e' + PAGE_SIZE \<le> d_size x'"
        using other [OF q] nod [OF q] x True by (auto simp: data_release_def)
    next
      fix q x' assume "heap (data_release h d) q = Some x'"
      then have q: "heap h q = Some x'" "q \<noteq> d"
        using x True by (auto simp: data_release_def split: if_splits)
      note dq = mem_inv_data [OF inv q(1)]
      show "d_refcount x' = card (refs m' q) + ext q" using dq(1) rq [OF q(2)] by simp
      show "q \<notin> D \<Longrightarrow> 0 < d_refcount x'" using dq(2) .
      show "q < next_data (data_release h d)" "d_host x' < next_map (data_release h d)"
        using dq x True by (auto simp: data_release_def)
      show "maps (data_release h d) (d_host x') \<noteq> None"
        using dq(5) host [OF q] x True by (auto simp: data_release_def)
    next
      fix q assume "heap (data_release h d) q = None"
      then show "ext q = 0"
        using z(2) mem_inv_free [OF inv] x True by (auto simp: data_release_def split: if_splits)
    next
      fix q x1 q' x2
      assume "heap (data_release h d) q = Some x1" "heap (data_release h d) q' = Some x2"
        "d_host x1 = d_host x2" "d_host x1 \<noteq> vdso_data (data_release h d)"
      then show "q = q'" using mem_inv_inj [OF inv] x True
        by (auto simp: data_release_def split: if_splits)
    qed
  next
    case False
    then have rc: "data_release h d =
        h\<lparr>heap := (heap h)(d := Some (x\<lparr>d_refcount := d_refcount x - 1\<rparr>))\<rparr>"
      using x by (simp add: data_release_def)
    have "0 < d_refcount x - 1" using False dx(2) D by simp
    moreover have "d_refcount x - 1 = card (refs m' d) + ext d"
      using dx(1) card r by simp
    ultimately show ?thesis
      unfolding rc by (intro mem_inv_recount [OF inv x other rq]) auto
  qed
  have rel: "d_host x' \<noteq> d_host x \<or> d_host x = vdso_data h"
    if "heap h q = Some x'" "q \<noteq> d" for q x'
    using mem_inv_inj [OF inv x that(1)] that(2) by metis
  have "d_refcount x = 1 \<Longrightarrow> ext d = 0" using dx(1) card by simp
  then show "host_keeps ext h (data_release h d)"
    unfolding host_keeps_def
    by (intro conjI allI impI)
      (use x rel in \<open>auto simp: data_release_def split: if_splits\<close>)
qed

lemma unmap_page_inv:
  assumes inv: "mem_inv_upto D h ext m" and D: "\<forall>d \<in> D. p \<notin> refs m d"
  shows "mem_inv_upto D (fst (unmap_page h m p)) ext (snd (unmap_page h m p))"
    and "host_keeps ext h (fst (unmap_page h m p))"
proof -
  have "mem_inv_upto D (fst (unmap_page h m p)) ext (snd (unmap_page h m p)) \<and>
    host_keeps ext h (fst (unmap_page h m p))"
  proof (cases "mem_pt m p")
    case None
    then show ?thesis using inv by (simp add: unmap_page_def host_keeps_refl)
  next
    case (Some e)
    then obtain d where d: "pt_data e = Some d" using mem_pt_Some_data by blast
    then have "p \<in> refs m d" using Some by (auto simp: refs_def)
    then show ?thesis
      using data_release_inv [OF inv, of p d "mem_pt_del m p"] D Some d
      by (auto simp: unmap_page_def mem_pt_del)
  qed
  then show "mem_inv_upto D (fst (unmap_page h m p)) ext (snd (unmap_page h m p))"
    and "host_keeps ext h (fst (unmap_page h m p))" by simp_all
qed

lemma unmap_pages_map:
  "mem_pt (snd (unmap_pages h m ps)) q = (if q \<in> set ps then None else mem_pt m q)"
  by (induction ps arbitrary: h m) (auto simp: unmap_page_map)

lemma unmap_pages_inv:
  assumes "mem_inv_upto D h ext m" and "\<forall>d \<in> D. refs m d \<inter> set ps = {}"
  shows "mem_inv_upto D (fst (unmap_pages h m ps)) ext (snd (unmap_pages h m ps)) \<and>
    host_keeps ext h (fst (unmap_pages h m ps))"
  using assms
proof (induction ps arbitrary: h m)
  case Nil
  then show ?case by (simp add: host_keeps_refl)
next
  case (Cons p ps)
  let ?h = "fst (unmap_page h m p)" and ?m = "snd (unmap_page h m p)"
  have "mem_inv_upto D ?h ext ?m" and k: "host_keeps ext h ?h"
    using Cons.prems by (auto intro!: unmap_page_inv)
  moreover have "refs ?m d \<inter> set ps = {}" if "d \<in> D" for d
    using Cons.prems(2) that refs_upd_None [OF unmap_page_map, of h m p d] by auto
  ultimately have "mem_inv_upto D (fst (unmap_pages ?h ?m ps)) ext (snd (unmap_pages ?h ?m ps)) \<and>
    host_keeps ext ?h (fst (unmap_pages ?h ?m ps))"
    using Cons.IH by blast
  then show ?case
    using host_keeps_trans_inv [OF Cons.prems(1) k] by auto
qed

lemma pt_unmap_always_eq:
  "pt_unmap_always h m start pages =
     (0, fst (unmap_pages h m [start..<w32 (start + pages)]),
      mem_changed (snd (unmap_pages h m [start..<w32 (start + pages)])))"
  by (simp add: pt_unmap_always_def unmap_loop_eq split: prod.splits)

lemma w32_page: "p < MEM_PAGES \<Longrightarrow> w32 (p + n) = p + n" if "n \<le> MEM_PAGES" for n
  using that by (intro w32_id) (simp add: MEM_PAGES_def)

lemma pt_unmap_always_one:
  "p < MEM_PAGES \<Longrightarrow> pt_unmap_always h m p 1 =
     (0, fst (unmap_page h m p), mem_changed (snd (unmap_page h m p)))"
  using w32_page [of 1 p] by (simp add: pt_unmap_always_eq MEM_PAGES_def)

section \<open>Mapping\<close>

text \<open>One more page refers to a live object.\<close>

lemma data_retain_eq:
  "heap h d = Some x \<Longrightarrow>
   data_retain h d = h\<lparr>heap := (heap h)(d := Some (x\<lparr>d_refcount := Suc (d_refcount x)\<rparr>))\<rparr>"
  by (simp add: data_retain_def)

lemma data_retain_keeps: "host_keeps ext h (data_retain h d)"
  by (auto simp: host_keeps_def data_retain_def split: option.splits)

lemma data_retain_inv:
  assumes inv: "mem_inv_upto D h ext m" and x: "heap h d = Some x"
    and p: "p < MEM_PAGES" "mem_pt m p = None"
    and e: "pt_data e = Some d" "pt_offset e + PAGE_SIZE \<le> d_size x"
    and m': "mem_pt m' = (mem_pt m)(p := Some e)"
  shows "mem_inv_upto D (data_retain h d) ext m'"
proof -
  have r: "refs m' q = (if q = d then insert p (refs m q) else refs m q)" for q
    using refs_upd_Some [OF m', of q] p(2) e(1) by (auto simp: refs_def)
  have "p \<notin> refs m d" using p(2) by (simp add: refs_def)
  then have "card (refs m' d) = Suc (card (refs m d))"
    using r [of d] finite_refs [OF inv, of d] by simp
  then have n: "Suc (d_refcount x) = card (refs m' d) + ext d"
    using mem_inv_data(1) [OF inv x] by simp
  have pages: "q < MEM_PAGES \<and> (\<exists>d x. pt_data e' = Some d \<and> heap h d = Some x \<and>
      pt_offset e' + PAGE_SIZE \<le> d_size x)" if "mem_pt m' q = Some e'" for q e'
    using mem_inv_page [OF inv, of q e'] that m' p(1) e x by (fastforce split: if_splits)
  show ?thesis
    unfolding data_retain_eq [OF x]
    by (rule mem_inv_recount [OF inv x pages _ refl n]) (simp_all add: r)
qed

lemma unmap_page_heap:
  assumes "p \<notin> refs m d"
  shows "heap (fst (unmap_page h m p)) d = heap h d"
proof (cases "mem_pt m p")
  case (Some e)
  then obtain d' where "pt_data e = Some d'" using mem_pt_Some_data by blast
  then show ?thesis using Some assms
    by (auto simp: unmap_page_def refs_def data_release_def split: option.splits)
qed (simp add: unmap_page_def)

text \<open>The page entry the mapping loop installs, and one round of that loop.\<close>

abbreviation map_entry :: "nat \<Rightarrow> nat \<Rightarrow> nat \<Rightarrow> u32 \<Rightarrow> nat \<Rightarrow> pt_entry" where
  "map_entry d start offset flags page \<equiv>
     \<lparr>pt_data = Some d, pt_offset = (page - start) * PAGE_SIZE + offset, pt_flags = flags\<rparr>"

lemma map_loop_Cons:
  assumes "page < MEM_PAGES"
  obtains m2 where
    "map_loop h m d start offset flags (page # ps) =
       map_loop (data_retain (fst (unmap_page h m page)) d) m2 d start offset flags ps"
    and "mem_pt m2 = (mem_pt m)(page := Some (map_entry d start offset flags page))"
proof (cases "mem_pt m page")
  case None
  then show ?thesis
    using that [of "mem_pt_set m page (map_entry d start offset flags page)"]
    by (simp add: unmap_page_def mem_pt_set)
next
  case (Some e)
  then have "pt_unmap h m page 1 = (0, fst (unmap_page h m page), mem_changed (snd (unmap_page h m page)))"
    using assms w32_page [of 1 page] pt_unmap_always_one [of page h m]
    by (simp add: pt_unmap_def MEM_PAGES_def)
  then show ?thesis
    using that [of "mem_pt_set (mem_changed (snd (unmap_page h m page))) page
        (map_entry d start offset flags page)"] Some
    by (simp add: mem_pt_set unmap_page_map)
qed

lemma map_loop_inv:
  assumes "mem_inv_upto {d} h ext m" and "heap h d = Some x" and "distinct ps"
    and "\<forall>p \<in> set ps. p < MEM_PAGES \<and> p \<notin> refs m d \<and>
      (p - start) * PAGE_SIZE + offset + PAGE_SIZE \<le> d_size x"
    and "map_loop h m d start offset flags ps = (h', m')"
  shows "mem_inv_upto {d} h' ext m' \<and> host_keeps ext h h' \<and>
    (\<exists>y. heap h' d = Some y \<and> d_host y = d_host x \<and> d_size y = d_size x) \<and>
    (\<forall>q. mem_pt m' q =
      (if q \<in> set ps then Some (map_entry d start offset flags q) else mem_pt m q))"
  using assms
proof (induction ps arbitrary: h m x)
  case Nil
  then show ?case by (simp add: host_keeps_refl)
next
  case (Cons p ps)
  let ?h1 = "fst (unmap_page h m p)" and ?m1 = "snd (unmap_page h m p)"
  let ?e = "map_entry d start offset flags p" and ?h2 = "data_retain ?h1 d"
  let ?x = "x\<lparr>d_refcount := Suc (d_refcount x)\<rparr>"
  have p: "p < MEM_PAGES" "p \<notin> refs m d" using Cons.prems(4) by simp_all
  obtain m2 where loop: "map_loop ?h2 m2 d start offset flags ps = (h', m')"
    and m2: "mem_pt m2 = (mem_pt m)(p := Some ?e)"
    using map_loop_Cons [OF p(1), of h m d start offset flags ps] Cons.prems(5) by metis
  have inv1: "mem_inv_upto {d} ?h1 ext ?m1" and k1: "host_keeps ext h ?h1"
    using unmap_page_inv [OF Cons.prems(1), of p] p(2) by simp_all
  have x1: "heap ?h1 d = Some x" using unmap_page_heap [OF p(2)] Cons.prems(2) by simp
  have m2': "mem_pt m2 = (mem_pt ?m1)(p := Some ?e)" using m2 by (simp add: unmap_page_map)
  have inv2: "mem_inv_upto {d} ?h2 ext m2"
    using Cons.prems(4) by (intro data_retain_inv [OF inv1 x1 p(1) _ _ _ m2']) (simp_all add: unmap_page_map)
  have x2: "heap ?h2 d = Some ?x" using x1 by (simp add: data_retain_def)
  have refs: "refs m2 d \<subseteq> insert p (refs m d)"
    using refs_upd_Some [OF m2, of d] by auto
  have ih: "mem_inv_upto {d} h' ext m' \<and> host_keeps ext ?h2 h' \<and>
    (\<exists>y. heap h' d = Some y \<and> d_host y = d_host ?x \<and> d_size y = d_size ?x) \<and>
    (\<forall>q. mem_pt m' q =
      (if q \<in> set ps then Some (map_entry d start offset flags q) else mem_pt m2 q))"
    by (rule Cons.IH [OF inv2 x2 _ _ loop]) (use Cons.prems(3,4) refs in auto)
  note trans = host_keeps_trans_inv [OF Cons.prems(1)]
  have "host_keeps ext h h'"
    by (rule trans [OF trans [OF k1 data_retain_keeps]]) (use ih in blast)
  then show ?case using ih by (simp add: m2)
qed

text \<open>A host block that no live object owns, or the vDSO image: what \<^verbatim>\<open>pt_map\<close> may install.\<close>

definition host_block :: "host \<Rightarrow> nat \<Rightarrow> bool" where
  "host_block h ptr \<longleftrightarrow> ptr < next_map h \<and> maps h ptr \<noteq> None \<and>
     (ptr = vdso_data h \<or> (\<forall>d x. heap h d = Some x \<longrightarrow> d_host x \<noteq> ptr))"

lemma data_new_inv:
  assumes inv: "mem_inv h ext m" and "host_block h (d_host x)"
    and "d_refcount x = 0"
  shows "mem_inv_upto {next_data h} (data_new h x) ext m" and "host_keeps ext h (data_new h x)"
    and "refs m (next_data h) = {}"
proof -
  have none: "heap h (next_data h) = None"
    using mem_inv_data(3) [OF inv, of "next_data h"] by (cases "heap h (next_data h)") auto
  show r: "refs m (next_data h) = {}" using refs_None [OF inv none] .
  have z: "ext (next_data h) = 0" using mem_inv_free [OF inv none] .
  show "host_keeps ext h (data_new h x)"
    using none by (auto simp: host_keeps_def data_new_def)
  show "mem_inv_upto {next_data h} (data_new h x) ext m"
    unfolding mem_inv_upto_def
  proof (intro conjI allI impI)
    fix p e assume e: "mem_pt m p = Some e"
    show "p < MEM_PAGES" using mem_inv_page [OF inv e] by blast
    show "\<exists>d y. pt_data e = Some d \<and> heap (data_new h x) d = Some y \<and>
        pt_offset e + PAGE_SIZE \<le> d_size y"
      by (rule mem_inv_page [OF inv e]) (use none in \<open>auto simp: data_new_def\<close>)
  next
    fix d y assume y: "heap (data_new h x) d = Some y"
    have "d_refcount y = card (refs m d) + ext d \<and> (d \<notin> {next_data h} \<longrightarrow> 0 < d_refcount y) \<and>
      d < next_data (data_new h x) \<and> d_host y < next_map (data_new h x) \<and>
      maps (data_new h x) (d_host y) \<noteq> None"
      using y mem_inv_data [OF inv, of d y] assms(2,3) r z
      by (auto simp: data_new_def host_block_def split: if_splits)
    then show "d_refcount y = card (refs m d) + ext d" "d < next_data (data_new h x)"
      "d_host y < next_map (data_new h x)" "maps (data_new h x) (d_host y) \<noteq> None"
      "d \<notin> {next_data h} \<Longrightarrow> 0 < d_refcount y" by blast+
  next
    fix d assume "heap (data_new h x) d = None"
    then show "ext d = 0" using mem_inv_free [OF inv, of d] z
      by (auto simp: data_new_def split: if_splits)
  next
    fix d y d' y' assume "heap (data_new h x) d = Some y" "heap (data_new h x) d' = Some y'"
      "d_host y = d_host y'" "d_host y \<noteq> vdso_data (data_new h x)"
    then show "d = d'" using mem_inv_inj [OF inv, of d y d' y'] assms(2)
      by (auto simp: data_new_def host_block_def split: if_splits)
  qed
qed

lemma mem_inv_upto_positive:
  assumes "mem_inv_upto {d} h ext m" and "refs m d \<noteq> {}"
  shows "mem_inv h ext m"
proof -
  have "0 < card (refs m d)" using assms(2) finite_refs [OF assms(1)] by (simp add: card_gt_0_iff)
  then have "0 < d_refcount x" if "heap h q = Some x" for q x
    using mem_inv_data(1,2) [OF assms(1) that] by (cases "q = d") auto
  then show ?thesis using assms(1) unfolding mem_inv_upto_def by blast
qed

lemma mem_byte_eq:
  assumes "mem_inv_upto D h ext m" and "mem_pt m (PAGE addr) = Some e" and "pt_data e = Some d"
    and "heap h d = Some x" and "maps h (d_host x) = Some f"
  shows "mem_byte h m addr = Some (f (pt_offset e + PGOFFSET addr))"
  using assms by (simp add: mem_byte_def mem_ptr_nofault_def)

lemma mem_byte_keeps:
  assumes inv: "mem_inv_upto D h ext m" "mem_inv_upto D' h' ext' m'" and k: "host_keeps ext'' h h'"
    and pt: "mem_pt m' (PAGE addr) = mem_pt m (PAGE addr)"
  shows "mem_byte h' m' addr = mem_byte h m addr"
proof (cases "mem_pt m (PAGE addr)")
  case None
  then show ?thesis using pt by (simp add: mem_byte_def mem_ptr_nofault_def)
next
  case (Some e)
  obtain d x where d: "pt_data e = Some d" "heap h d = Some x" using mem_inv_page [OF inv(1) Some] .
  obtain y where y: "heap h' d = Some y"
    using mem_inv_page [OF inv(2), of "PAGE addr" e] pt Some d(1) by force
  obtain f where f: "maps h (d_host x) = Some f" using mem_inv_data(5) [OF inv(1) d(2)] by blast
  note same = host_keeps_same [OF k d(2) y]
  show ?thesis
    using mem_byte_eq [OF inv(1) Some d f] mem_byte_eq [OF inv(2) _ d(1) y, of addr f] pt Some same f
    by simp
qed

lemma pt_map_ok:
  assumes inv: "mem_inv h ext m" and blk: "host_block h ptr" and ok: "\<not> malloc_fails h"
    and pages: "0 < pages" "start + pages \<le> MEM_PAGES" "pages < MEM_PAGES"
  obtains h' m' y where "pt_map h m start pages (Some ptr) offset flags = (0, h', m')"
    and "mem_inv h' ext m'" and "host_keeps ext h h'"
    and "heap h' (next_data h) = Some y" and "d_host y = ptr" and "maps h' ptr = maps h ptr"
    and "mem_pt m' = (\<lambda>q. if start \<le> q \<and> q < start + pages
      then Some (map_entry (next_data h) start offset flags q) else mem_pt m q)"
proof -
  let ?d = "next_data h"
  let ?x = "\<lparr>d_host = ptr, d_size = w32 (pages * PAGE_SIZE) + offset, d_refcount = 0, d_fd = None\<rparr>"
  let ?h1 = "data_new h ?x" and ?ps = "[start..<w32 (start + pages)]"
  have w: "w32 (start + pages) = start + pages" "w32 (pages * PAGE_SIZE) = pages * PAGE_SIZE"
    using pages by (auto intro!: w32_id simp: MEM_PAGES_def PAGE_SIZE_def)
  have n: "mem_inv_upto {?d} ?h1 ext m" "host_keeps ext h ?h1" "refs m ?d = {}"
    using data_new_inv [OF inv, of ?x] blk by simp_all
  have x: "heap ?h1 ?d = Some ?x" by (simp add: data_new_def)
  obtain h' m' where loop: "map_loop ?h1 m ?d start offset flags ?ps = (h', m')" by fastforce
  have bound: "(p - start) * PAGE_SIZE + offset + PAGE_SIZE \<le> d_size ?x"
    if "start \<le> p" "p < start + pages" for p
  proof -
    have "Suc (p - start) * PAGE_SIZE \<le> pages * PAGE_SIZE"
      using that by (intro mult_le_mono1) simp
    then show ?thesis by (simp add: w)
  qed
  have *: "mem_inv_upto {?d} h' ext m' \<and> host_keeps ext ?h1 h' \<and>
    (\<exists>y. heap h' ?d = Some y \<and> d_host y = d_host ?x \<and> d_size y = d_size ?x) \<and>
    (\<forall>q. mem_pt m' q =
      (if q \<in> set ?ps then Some (map_entry ?d start offset flags q) else mem_pt m q))"
    by (rule map_loop_inv [OF n(1) x _ _ loop]) (use n(3) bound pages w in auto)
  then obtain y where y: "heap h' ?d = Some y" "d_host y = ptr" by auto
  have "maps h' ptr = maps h ptr"
    using host_keeps_same(3) [OF conjunct1 [OF conjunct2 [OF *]] x y(1)] by (simp add: data_new_def)
  note y = y this
  have pt: "mem_pt m' = (\<lambda>q. if start \<le> q \<and> q < start + pages
      then Some (map_entry ?d start offset flags q) else mem_pt m q)"
    using * w(1) by (intro ext) simp
  then have "start \<in> refs m' ?d" using pages(1) by (simp add: refs_def)
  then have "mem_inv h' ext m'" using mem_inv_upto_positive [of ?d h' ext m'] * by blast
  moreover have "host_keeps ext h h'" using host_keeps_trans_inv [OF inv n(2)] * by blast
  moreover have "pt_map h m start pages (Some ptr) offset flags = (0, h', m')"
    using ok loop by (simp add: pt_map_def Let_def)
  ultimately show thesis using that y pt by blast
qed

lemma host_mmap_ok:
  assumes inv: "mem_inv_upto D h ext m" and ok: "\<not> mmap_fails h"
  obtains h' where "host_mmap h = (Some (next_map h), h')" and "mem_inv_upto D h' ext m"
    and "host_keeps ext' h h'" and "host_block h' (next_map h)"
    and "maps h' (next_map h) = Some (\<lambda>_. 0)" and "next_data h' = next_data h" and "heap h' = heap h"
proof -
  let ?h = "h\<lparr>maps := (maps h)(next_map h := Some (\<lambda>_. 0)), next_map := Suc (next_map h)\<rparr>"
  have lt: "d_host x < next_map h" if "heap h d = Some x" for d x using mem_inv_data(4) [OF inv that] .
  have ne: "d_host x \<noteq> next_map h" if "heap h d = Some x" for d x using lt [OF that] by simp
  have "host_mmap h = (Some (next_map h), ?h)" using ok by (simp add: host_mmap_def)
  moreover have "mem_inv_upto D ?h ext m"
    by (rule mem_inv_maps [OF inv]) (use mem_inv_data(5) [OF inv] in auto)
  moreover have "host_keeps ext' h ?h" using ne by (auto simp: host_keeps_def)
  moreover have "host_block ?h (next_map h)" using ne by (auto simp: host_block_def)
  ultimately show thesis using that by simp
qed

section \<open>Finding a hole\<close>

text \<open>A range of \<open>n\<close> unmapped pages inside the window \<open>lo\<close>, \<open>hi\<close>.\<close>

definition hole_at :: "mem \<Rightarrow> nat \<Rightarrow> nat \<Rightarrow> nat \<Rightarrow> nat \<Rightarrow> bool" where
  "hole_at m lo hi n a \<longleftrightarrow> lo \<le> a \<and> a + n \<le> hi \<and> list_all (\<lambda>p. mem_pt m p = None) [a..<a + n]"

lemma hole_atD: "hole_at m lo hi n a \<Longrightarrow> a \<le> p \<Longrightarrow> p < a + n \<Longrightarrow> mem_pt m p = None"
  by (auto simp: hole_at_def list_all_iff)

lemma find_hole_loop_highest:
  assumes "lo \<le> k" and "he = (if in_hole then hole_end else k)" and "k \<le> he" and "he \<le> hi"
    and "\<forall>p. k \<le> p \<and> p < he \<longrightarrow> mem_pt m p = None" and "he - k < n"
    and "\<forall>a. hole_at m lo hi n a \<longrightarrow> a + n \<le> he"
    and "r = find_hole_loop m n (rev [lo..<k]) in_hole hole_end"
  shows "r = BAD_PAGE \<and> (\<forall>a. \<not> hole_at m lo hi n a) \<or>
    hole_at m lo hi n r \<and> (\<forall>a. hole_at m lo hi n a \<longrightarrow> a \<le> r)"
  using assms
proof (induction k arbitrary: in_hole hole_end he rule: dec_induct [consumes 1])
  case base
  have "\<not> hole_at m lo hi n a" for a
  proof
    assume a: "hole_at m lo hi n a"
    then have "lo \<le> a" by (simp add: hole_at_def)
    moreover have "a + n \<le> he" using base.prems(6) a by blast
    ultimately show False using base.prems(5) by linarith
  qed
  then show ?case using base.prems by simp
next
  case (step k)
  have list: "rev [lo..<Suc k] = k # rev [lo..<k]" using step.hyps(1) by simp
  show ?case
  proof (cases "mem_pt m k")
    case (Some e)
    have "a + n \<le> k" if a: "hole_at m lo hi n a" for a
    proof (rule ccontr)
      assume "\<not> a + n \<le> k"
      then have "k < a" using hole_atD [OF a, of k] Some by force
      moreover have "a + n \<le> he" using step.prems(6) a by blast
      ultimately show False using step.prems(2,5) by linarith
    qed
    then show ?thesis
      using step.IH [of k False hole_end] step.prems Some list by (simp add: Let_def)
  next
    case None
    have he: "he = (if \<not> in_hole then Suc k else hole_end)" using step.prems(1) by simp
    have free: "\<forall>p. k \<le> p \<and> p < he \<longrightarrow> mem_pt m p = None"
      using step.prems(4) None by (metis le_antisym not_less_eq_eq)
    show ?thesis
    proof (cases "he - k = n")
      case True
      then have "r = k" using step.prems(7) list None he by (simp add: Let_def split: if_splits)
      moreover have "hole_at m lo hi n k"
        using step.hyps(1) step.prems(2,3) True free by (auto simp: hole_at_def list_all_iff)
      moreover have "a \<le> k" if "hole_at m lo hi n a" for a
        using step.prems(2,6) that True by fastforce
      ultimately show ?thesis by blast
    next
      case False
      then have "r = find_hole_loop m n (rev [lo..<k]) True he"
        using step.prems(7) list None he by (simp add: Let_def split: if_splits)
      then show ?thesis
        using step.IH [of he True he] step.prems(2,3,5,6) free False by simp
    qed
  qed
qed

section \<open>Properties\<close>

text \<open>A host with nothing allocated, for the concrete instances.\<close>

definition host0 :: host where
  "host0 = \<lparr>heap = (\<lambda>_. None), next_data = 0, maps = (\<lambda>_. None), next_map = 1, vdso_data = 0,
     closed_fds = [], mmap_fails = False, malloc_fails = False, mprotect_fails = False,
     host_err = - 12\<rparr>"

lemma mem_inv_host0: "mem_inv host0 (\<lambda>_. 0) mem_init"
  by (rule mem_inv_empty) (simp add: host0_def)

lemma pt_map_nothing_ok:
  assumes inv: "mem_inv h ext m" and ok: "\<not> mmap_fails h" "\<not> malloc_fails h"
    and pages: "0 < pages" "start + pages \<le> MEM_PAGES" "pages < MEM_PAGES"
  obtains h' m' y where "pt_map_nothing h m start pages flags = (0, h', m')"
    and "mem_inv h' ext m'" and "host_keeps ext h h'"
    and "heap h' (next_data h) = Some y" and "maps h' (d_host y) = Some (\<lambda>_. 0)"
    and "mem_pt m' = (\<lambda>q. if start \<le> q \<and> q < start + pages
      then Some (map_entry (next_data h) start 0 (flags OR P_ANONYMOUS) q) else mem_pt m q)"
proof -
  obtain h1 where h1: "host_mmap h = (Some (next_map h), h1)" "mem_inv h1 ext m"
    "host_keeps ext h h1" "host_block h1 (next_map h)" "maps h1 (next_map h) = Some (\<lambda>_. 0)"
    "next_data h1 = next_data h" "heap h1 = heap h"
    by (rule host_mmap_ok [OF inv ok(1)])
  have ok1: "\<not> malloc_fails h1" using ok(2) h1(3) by (simp add: host_keeps_def)
  obtain h' m' y where r: "pt_map h1 m start pages (Some (next_map h)) 0 (flags OR P_ANONYMOUS) = (0, h', m')"
    "mem_inv h' ext m'" "host_keeps ext h1 h'" "heap h' (next_data h1) = Some y" "d_host y = next_map h"
    "maps h' (next_map h) = maps h1 (next_map h)"
    "mem_pt m' = (\<lambda>q. if start \<le> q \<and> q < start + pages
      then Some (map_entry (next_data h1) start 0 (flags OR P_ANONYMOUS) q) else mem_pt m q)"
    by (rule pt_map_ok [OF h1(2,4) ok1 pages])
  note r = r [unfolded h1(6)]
  have "pt_map_nothing h m start pages flags = (0, h', m')"
    using pages(1) h1(1) r(1) by (simp add: pt_map_nothing_def)
  then show thesis
    using that [of h' m' y] r h1(5,6) host_keeps_trans_inv [OF inv h1(3) r(3)] by simp
qed

text \<open>The same host after one page was mapped in an empty address space.\<close>

definition host1 :: host where "host1 = fst (snd (pt_map_nothing host0 mem_init 5 1 P_WRITE))"

definition mem1 :: mem where "mem1 = snd (snd (pt_map_nothing host0 mem_init 5 1 P_WRITE))"

lemma mem_inv_host1: "mem_inv host1 (\<lambda>_. 0) mem1"
  and host1_keeps: "host_keeps (\<lambda>_. 0) host0 host1"
  and mem1_pt: "mem_pt mem1 = (\<lambda>q. if q = 5 then Some (map_entry 0 5 0 (P_WRITE OR P_ANONYMOUS) q) else None)"
proof -
  have ok: "\<not> mmap_fails host0" "\<not> malloc_fails host0" "(0::nat) < 1" "5 + 1 \<le> MEM_PAGES"
    "1 < MEM_PAGES" by (simp_all add: host0_def MEM_PAGES_def)
  obtain h m y where r: "pt_map_nothing host0 mem_init 5 1 P_WRITE = (0, h, m)"
    "mem_inv h (\<lambda>_. 0) m" "host_keeps (\<lambda>_. 0) host0 h"
    "heap h (next_data host0) = Some y" "maps h (d_host y) = Some (\<lambda>_. 0)"
    "mem_pt m = (\<lambda>q. if 5 \<le> q \<and> q < 5 + 1
      then Some (map_entry (next_data host0) 5 0 (P_WRITE OR P_ANONYMOUS) q) else mem_pt mem_init q)"
    by (rule pt_map_nothing_ok [OF mem_inv_host0 ok])
  have "host1 = h" "mem1 = m" using r(1) by (simp_all add: host1_def mem1_def)
  moreover have "mem_pt m = (\<lambda>q. if q = 5 then Some (map_entry 0 5 0 (P_WRITE OR P_ANONYMOUS) q) else None)"
    using r(6) by (auto simp: host0_def)
  ultimately have "mem_inv host1 (\<lambda>_. 0) mem1 \<and> host_keeps (\<lambda>_. 0) host0 host1 \<and>
    mem_pt mem1 = (\<lambda>q. if q = 5 then Some (map_entry 0 5 0 (P_WRITE OR P_ANONYMOUS) q) else None)"
    using r(2,3) by simp
  then show "mem_inv host1 (\<lambda>_. 0) mem1" and "host_keeps (\<lambda>_. 0) host0 host1"
    and "mem_pt mem1 = (\<lambda>q. if q = 5 then Some (map_entry 0 5 0 (P_WRITE OR P_ANONYMOUS) q) else None)"
    by blast+
qed

text \<open>
  C22. Mapping fresh anonymous memory with \<^verbatim>\<open>pt_map_nothing\<close>: it returns 0, every byte of
  the range reads zero afterwards, every other byte of the address space is as before, the
  invariant (exact reference counts, no page on a freed object) is kept and so is every
  object another address space refers to.
\<close>

theorem pt_map_nothing_correct:
  assumes "mem_inv h ext m" and "\<not> mmap_fails h" and "\<not> malloc_fails h"
    and "0 < pages" and "start + pages \<le> MEM_PAGES" and "pages < MEM_PAGES"
  shows "\<exists>h' m'. pt_map_nothing h m start pages flags = (0, h', m') \<and>
    mem_inv h' ext m' \<and> host_keeps ext h h' \<and>
    (\<forall>addr. mem_byte h' m' addr =
       (if start \<le> PAGE addr \<and> PAGE addr < start + pages then Some 0 else mem_byte h m addr))"
proof -
  obtain h' m' y where r: "pt_map_nothing h m start pages flags = (0, h', m')"
    "mem_inv h' ext m'" "host_keeps ext h h'"
    "heap h' (next_data h) = Some y" "maps h' (d_host y) = Some (\<lambda>_. 0)"
    "mem_pt m' = (\<lambda>q. if start \<le> q \<and> q < start + pages
      then Some (map_entry (next_data h) start 0 (flags OR P_ANONYMOUS) q) else mem_pt m q)"
    by (rule pt_map_nothing_ok [OF assms])
  have "mem_byte h' m' addr =
    (if start \<le> PAGE addr \<and> PAGE addr < start + pages then Some 0 else mem_byte h m addr)" for addr
    using mem_byte_eq [OF r(2) _ _ r(4,5), of addr] mem_byte_keeps [OF assms(1) r(2,3), of addr]
    by (cases "start \<le> PAGE addr \<and> PAGE addr < start + pages") (auto simp: r(6))
  then show ?thesis using r by blast
qed

theorem pt_map_nothing_correct_witness:
  "\<exists>h' m'. pt_map_nothing host0 mem_init 5 2 P_WRITE = (0, h', m') \<and>
    mem_inv h' (\<lambda>_. 0) m' \<and> host_keeps (\<lambda>_. 0) host0 h' \<and>
    (\<forall>addr. mem_byte h' m' addr =
       (if 5 \<le> PAGE addr \<and> PAGE addr < 5 + 2 then Some 0 else mem_byte host0 mem_init addr))"
  using pt_map_nothing_correct [OF mem_inv_host0, of 2 5 P_WRITE]
  by (simp add: host0_def MEM_PAGES_def)

text \<open>
  C23. Unmapping a range: \<^verbatim>\<open>pt_unmap_always\<close> returns 0, the bytes of the range are no longer
  mapped, every other byte is as before, objects that lose their last reference are freed
  and no others are (the counts stay exact), and objects of other address spaces stay.
\<close>

theorem pt_unmap_always_correct:
  assumes "mem_inv h ext m" and "start + pages \<le> MEM_PAGES"
  shows "\<exists>h' m'. pt_unmap_always h m start pages = (0, h', m') \<and>
    mem_inv h' ext m' \<and> host_keeps ext h h' \<and>
    (\<forall>addr. mem_byte h' m' addr =
       (if start \<le> PAGE addr \<and> PAGE addr < start + pages then None else mem_byte h m addr))"
proof -
  let ?r = "unmap_pages h m [start..<start + pages]"
  have w: "w32 (start + pages) = start + pages"
    using assms(2) by (intro w32_id) (simp add: MEM_PAGES_def)
  have "mem_inv (fst ?r) ext (snd ?r) \<and> host_keeps ext h (fst ?r)"
    using assms(1) by (rule unmap_pages_inv) simp
  then have r: "mem_inv (fst ?r) ext (mem_changed (snd ?r))" "host_keeps ext h (fst ?r)"
    using mem_inv_cong [of "mem_changed (snd ?r)" "snd ?r"] by simp_all
  have "mem_byte (fst ?r) (mem_changed (snd ?r)) addr =
    (if start \<le> PAGE addr \<and> PAGE addr < start + pages then None else mem_byte h m addr)" for addr
    using mem_byte_keeps [OF assms(1) r, of addr]
    by (auto simp: unmap_pages_map mem_byte_def [of _ "mem_changed _"] mem_ptr_nofault_def)
  then show ?thesis using r w by (simp add: pt_unmap_always_eq)
qed

theorem pt_unmap_always_correct_witness:
  "\<exists>h' m'. pt_unmap_always host1 mem1 5 2 = (0, h', m') \<and>
    mem_inv h' (\<lambda>_. 0) m' \<and> host_keeps (\<lambda>_. 0) host1 h' \<and>
    (\<forall>addr. mem_byte h' m' addr =
       (if 5 \<le> PAGE addr \<and> PAGE addr < 5 + 2 then None else mem_byte host1 mem1 addr))"
  using pt_unmap_always_correct [OF mem_inv_host1, of 5 2] by (simp add: MEM_PAGES_def)

text \<open>
  The loop of \<^verbatim>\<open>pt_unmap_always\<close> jumps over page directories that are not allocated; it
  does what unmapping every page of the range in turn does.
\<close>

theorem unmap_loop_skips_nothing:
  "unmap_loop h m page stop = unmap_pages h m [page..<stop]"
  by (rule unmap_loop_eq)

text \<open>
  C24. Destroying the last address space leaks nothing: no backing object stays live and the
  host memory of each is returned, the vDSO image apart.
\<close>

theorem mem_destroy_frees_all:
  assumes "mem_inv h (\<lambda>_. 0) m"
  shows "heap (mem_destroy h m) d = None \<and>
    (heap h d = Some x \<and> d_host x \<noteq> vdso_data h \<longrightarrow> maps (mem_destroy h m) (d_host x) = None)"
proof -
  let ?r = "unmap_pages h m [0..<MEM_PAGES]"
  have eq: "mem_destroy h m = fst ?r"
    by (simp add: mem_destroy_def pt_unmap_always_eq w32_id MEM_PAGES_def)
  have r: "mem_inv (fst ?r) (\<lambda>_. 0) (snd ?r)" "host_keeps (\<lambda>_. 0) h (fst ?r)"
    using unmap_pages_inv [OF assms, of "[0..<MEM_PAGES]"] by simp_all
  have "mem_pt (snd ?r) q = None" for q
    using mem_inv_outside [OF assms, of q] by (simp add: unmap_pages_map)
  then have "refs (snd ?r) d = {}" by (simp add: refs_def)
  then have "heap (fst ?r) d = None"
    using mem_inv_data(1,2) [OF r(1), of d] by (cases "heap (fst ?r) d") auto
  then show ?thesis using host_keeps_freed [OF r(2)] eq by auto
qed

theorem mem_destroy_frees_all_witness:
  "heap (mem_destroy host1 mem1) 0 = None"
  using mem_destroy_frees_all [OF mem_inv_host1, of 0] by blast

text \<open>
  \<^verbatim>\<open>pt_find_hole\<close> returns the highest hole of the requested size between the pages
  0x40000 and 0xf7ffe, and \<^verbatim>\<open>BAD_PAGE\<close> exactly when there is none.
\<close>

theorem pt_find_hole_highest:
  assumes "0 < n"
  shows "pt_find_hole m n = BAD_PAGE \<and> (\<forall>a. \<not> hole_at m 0x40001 0xf7ffe n a) \<or>
    hole_at m 0x40001 0xf7ffe n (pt_find_hole m n) \<and>
    (\<forall>a. hole_at m 0x40001 0xf7ffe n a \<longrightarrow> a \<le> pt_find_hole m n)"
  unfolding pt_find_hole_def
  by (rule find_hole_loop_highest [OF _ refl _ _ _ _ _ refl]) (use assms in \<open>auto simp: hole_at_def\<close>)

theorem pt_find_hole_highest_witness:
  "pt_find_hole mem_init 3 = BAD_PAGE \<and> (\<forall>a. \<not> hole_at mem_init 0x40001 0xf7ffe 3 a) \<or>
    hole_at mem_init 0x40001 0xf7ffe 3 (pt_find_hole mem_init 3) \<and>
    (\<forall>a. hole_at mem_init 0x40001 0xf7ffe 3 a \<longrightarrow> a \<le> pt_find_hole mem_init 3)"
  by (rule pt_find_hole_highest) simp

end
