(* ===== verification/Memory_Cow.thy ===== *)
theory Memory_Cow
  imports Memory_Inv
begin

text \<open>
  Copy-on-write (\<^verbatim>\<open>pt_copy_on_write\<close>, the fork of an address space) and the faulting
  translation \<^verbatim>\<open>mem_ptr\<close>: translation never trips its assertion and never disturbs what the
  guest reads, and after a fork the two address spaces are isolated.
\<close>

section \<open>Two address spaces on one host\<close>

text \<open>Each space satisfies the invariant, with the pages of the other among the outside references.\<close>

definition fork_inv :: "host \<Rightarrow> (nat \<Rightarrow> nat) \<Rightarrow> mem \<Rightarrow> mem \<Rightarrow> bool" where
  "fork_inv h ext a b \<longleftrightarrow>
     mem_inv h (\<lambda>d. ext d + card (refs b d)) a \<and> mem_inv h (\<lambda>d. ext d + card (refs a d)) b"

lemma fork_inv_sym: "fork_inv h ext a b \<longleftrightarrow> fork_inv h ext b a"
  by (auto simp: fork_inv_def)

lemma mem_inv_other:
  assumes inv: "mem_inv h (\<lambda>d. ext d + card (refs a d)) b"
    and pages: "\<And>q e. mem_pt a q = Some e \<Longrightarrow> q < MEM_PAGES \<and>
      (\<exists>d x. pt_data e = Some d \<and> heap h d = Some x \<and> pt_offset e + PAGE_SIZE \<le> d_size x)"
  shows "mem_inv h (\<lambda>d. ext d + card (refs b d)) a"
proof -
  have "d_refcount x = card (refs a d) + (ext d + card (refs b d)) \<and> 0 < d_refcount x \<and>
      d < next_data h \<and> d_host x < next_map h \<and> maps h (d_host x) \<noteq> None"
    if "heap h d = Some x" for d x
    using mem_inv_data [OF inv that] by auto
  moreover have "ext d + card (refs b d) = 0" if "heap h d = None" for d
    using mem_inv_free [OF inv that] refs_None [OF inv that] by simp
  moreover have "d = d'" if "heap h d = Some x" "heap h d' = Some x'" "d_host x = d_host x'"
    "d_host x \<noteq> vdso_data h" for d x d' x'
    using mem_inv_inj [OF inv that] .
  ultimately show ?thesis
    using pages unfolding mem_inv_upto_def by (intro conjI) blast+
qed

text \<open>What one space does leaves the other one, and every byte of it, as it was.\<close>

lemma fork_inv_step:
  assumes f: "fork_inv h ext a b" and b': "mem_inv h' (\<lambda>d. ext d + card (refs a d)) b'"
    and k: "host_keeps (\<lambda>d. ext d + card (refs a d)) h h'"
  shows "fork_inv h' ext a b'" and "mem_byte h' a addr = mem_byte h a addr"
proof -
  have a: "mem_inv h (\<lambda>d. ext d + card (refs b d)) a" using f by (simp add: fork_inv_def)
  have pages: "q < MEM_PAGES \<and> (\<exists>d x. pt_data e = Some d \<and> heap h' d = Some x \<and>
      pt_offset e + PAGE_SIZE \<le> d_size x)" if q: "mem_pt a q = Some e" for q e
  proof -
    obtain d x where d: "q < MEM_PAGES" "pt_data e = Some d" "heap h d = Some x"
      "pt_offset e + PAGE_SIZE \<le> d_size x" by (rule mem_inv_page [OF a q])
    have "q \<in> refs a d" using q d(2) by (simp add: refs_def)
    then have "0 < ext d + card (refs a d)" using finite_refs [OF a, of d] by (auto simp: card_gt_0_iff)
    then obtain y where y: "heap h' d = Some y" using host_keeps_live [OF k d(3)] by auto
    show ?thesis using host_keeps_same(2) [OF k d(3) y] d y by auto
  qed
  have a': "mem_inv h' (\<lambda>d. ext d + card (refs b' d)) a" by (rule mem_inv_other [OF b' pages])
  then show "fork_inv h' ext a b'" using b' by (simp add: fork_inv_def)
  show "mem_byte h' a addr = mem_byte h a addr" by (rule mem_byte_keeps [OF a a' k refl])
qed

section \<open>Changing flags\<close>

lemma refs_flags:
  assumes "mem_pt m p = Some e" and "mem_pt m' = (mem_pt m)(p := Some (e\<lparr>pt_flags := f\<rparr>))"
  shows "refs m' d = refs m d"
  using assms by (auto simp: refs_def)

lemma mem_inv_flags:
  assumes inv: "mem_inv_upto D h ext m" and e: "mem_pt m p = Some e"
    and m': "mem_pt m' = (mem_pt m)(p := Some (e\<lparr>pt_flags := f\<rparr>))"
  shows "mem_inv_upto D h ext m'"
proof -
  have "q < MEM_PAGES \<and> (\<exists>d x. pt_data e' = Some d \<and> heap h d = Some x \<and>
      pt_offset e' + PAGE_SIZE \<le> d_size x)" if q: "mem_pt m' q = Some e'" for q e'
  proof (cases "q = p")
    case True
    then show ?thesis using m' q by (auto intro: mem_inv_page [OF inv e])
  next
    case False
    then show ?thesis using m' q by (auto elim: mem_inv_page [OF inv])
  qed
  moreover have r: "refs m' = refs m" by (rule ext) (rule refs_flags [OF e m'])
  ultimately show ?thesis
    using inv unfolding mem_inv_upto_def r by (elim conjE) (intro conjI, blast+)
qed

lemma mem_byte_flags:
  assumes e: "mem_pt m p = Some e" and m': "mem_pt m' = (mem_pt m)(p := Some (e\<lparr>pt_flags := f\<rparr>))"
  shows "mem_byte h m' addr = mem_byte h m addr"
  using assms by (cases "PAGE addr = p") (simp_all add: mem_byte_def mem_ptr_nofault_def split: option.splits)

lemma fork_inv_flags:
  assumes f: "fork_inv h ext a b" and e: "mem_pt a p = Some e"
    and a': "mem_pt a' = (mem_pt a)(p := Some (e\<lparr>pt_flags := g\<rparr>))"
  shows "fork_inv h ext a' b"
  using f mem_inv_flags [OF _ e a'] refs_flags [OF e a'] by (simp add: fork_inv_def)

section \<open>Forking\<close>

definition cow_entry :: "pt_entry \<Rightarrow> pt_entry" where
  "cow_entry e = (if has_flag (pt_flags e) P_SHARED then e else e\<lparr>pt_flags := pt_flags e OR P_COW\<rparr>)"

lemma cow_page_inv:
  assumes f: "fork_inv h ext src dst" and r: "cow_page h src dst p = (h', src', dst')"
  shows "fork_inv h' ext src' dst'" and "mem_byte h' src' addr = mem_byte h src addr"
    and "mem_pt src' q = (if q = p then map_option cow_entry (mem_pt src p) else mem_pt src q)"
    and "mem_pt dst' q = (if q = p \<and> mem_pt src p \<noteq> None
      then map_option cow_entry (mem_pt src p) else mem_pt dst q)"
proof -
  have "fork_inv h' ext src' dst' \<and> mem_byte h' src' addr = mem_byte h src addr \<and>
    mem_pt src' q = (if q = p then map_option cow_entry (mem_pt src p) else mem_pt src q) \<and>
    mem_pt dst' q = (if q = p \<and> mem_pt src p \<noteq> None
      then map_option cow_entry (mem_pt src p) else mem_pt dst q)"
  proof (cases "mem_pt src p")
    case None
    then show ?thesis using f r by (simp add: cow_page_def)
  next
    case (Some e)
    let ?h1 = "fst (unmap_page h dst p)" and ?d1 = "snd (unmap_page h dst p)"
    have src: "mem_inv h (\<lambda>d. ext d + card (refs dst d)) src"
      and dst: "mem_inv h (\<lambda>d. ext d + card (refs src d)) dst" using f by (simp_all add: fork_inv_def)
    obtain d where p: "p < MEM_PAGES" and d: "pt_data e = Some d" by (rule mem_inv_page [OF src Some])
    note u = unmap_page_inv [OF dst, of p, simplified]
    have f1: "fork_inv ?h1 ext src ?d1" and b1: "mem_byte ?h1 src addr = mem_byte h src addr"
      by (rule fork_inv_step [OF f u])+
    have ce: "\<exists>g. cow_entry e = e\<lparr>pt_flags := g\<rparr>"
      by (cases e) (auto simp: cow_entry_def intro: exI [of _ "pt_flags e"])
    then obtain g where g: "cow_entry e = e\<lparr>pt_flags := g\<rparr>" by blast
    have eq: "h' = data_retain ?h1 d" "src' = mem_pt_write src p (cow_entry e)"
      "dst' = mem_pt_set (mem_changed ?d1) p (cow_entry e)"
      using r Some d pt_unmap_always_one [OF p, of h dst] by (auto simp: cow_page_def cow_entry_def Let_def)
    have s: "mem_pt src' = (mem_pt src)(p := Some (e\<lparr>pt_flags := g\<rparr>))"
      using eq(2) g d by (simp add: mem_pt_write [OF mem_pt_Some_pgdir [OF Some]])
    have t: "mem_pt dst' = (mem_pt ?d1)(p := Some (e\<lparr>pt_flags := g\<rparr>))"
      using eq(3) g d by (simp add: mem_pt_set)
    have f2: "fork_inv ?h1 ext src' ?d1" by (rule fork_inv_flags [OF f1 Some s])
    then have i2: "mem_inv ?h1 (\<lambda>d. ext d + card (refs src' d)) ?d1"
      and i3: "mem_inv ?h1 (\<lambda>d. ext d + card (refs ?d1 d)) src'" by (simp_all add: fork_inv_def)
    have sp: "mem_pt src' p = Some (e\<lparr>pt_flags := g\<rparr>)" by (simp add: s)
    obtain x where x: "heap ?h1 d = Some x" "pt_offset e + PAGE_SIZE \<le> d_size x"
      by (rule mem_inv_page [OF i3 sp]) (use d in simp)
    have i4: "mem_inv h' (\<lambda>d. ext d + card (refs src' d)) dst'"
      unfolding eq(1) by (rule data_retain_inv [OF i2 x(1) p _ _ _ t]) (use d x in \<open>simp_all add: unmap_page_map\<close>)
    note k = data_retain_keeps [of "\<lambda>d. ext d + card (refs src' d)" ?h1 d, folded eq(1)]
    have "fork_inv h' ext src' dst'" and "mem_byte h' src' addr = mem_byte ?h1 src' addr"
      by (rule fork_inv_step [OF f2 i4 k])+
    then show ?thesis
      using b1 mem_byte_flags [OF Some s] s t Some g by (simp add: unmap_page_map)
  qed
  then show "fork_inv h' ext src' dst'" and "mem_byte h' src' addr = mem_byte h src addr"
    and "mem_pt src' q = (if q = p then map_option cow_entry (mem_pt src p) else mem_pt src q)"
    and "mem_pt dst' q = (if q = p \<and> mem_pt src p \<noteq> None
      then map_option cow_entry (mem_pt src p) else mem_pt dst q)" by blast+
qed

text \<open>All pages of a range, in any order of visits without repetition.\<close>

lemma cow_fold_inv:
  assumes "fork_inv h ext src dst" and "distinct ps"
    and "fold (\<lambda>p (h, src, dst). cow_page h src dst p) ps (h, src, dst) = (h', src', dst')"
  shows "fork_inv h' ext src' dst' \<and> (\<forall>addr. mem_byte h' src' addr = mem_byte h src addr) \<and>
    (\<forall>q. mem_pt src' q = (if q \<in> set ps then map_option cow_entry (mem_pt src q) else mem_pt src q)) \<and>
    (\<forall>q. mem_pt dst' q = (if q \<in> set ps \<and> mem_pt src q \<noteq> None
      then map_option cow_entry (mem_pt src q) else mem_pt dst q))"
  using assms
proof (induction ps arbitrary: h src dst)
  case Nil
  then show ?case by simp
next
  case (Cons p ps)
  obtain h1 s1 d1 where c: "cow_page h src dst p = (h1, s1, d1)" by (metis prod_cases3)
  note step = cow_page_inv [OF Cons.prems(1) c]
  have "fold (\<lambda>p (h, src, dst). cow_page h src dst p) ps (h1, s1, d1) = (h', src', dst')"
    using Cons.prems(3) c by simp
  from Cons.IH [OF step(1) _ this] Cons.prems(2)
  show ?case by (auto simp: step(2-4))
qed

lemma unmap_pages_host [simp]:
  "mmap_fails (fst (unmap_pages h m ps)) = mmap_fails h"
  "malloc_fails (fst (unmap_pages h m ps)) = malloc_fails h"
  by (induction ps arbitrary: h m)
    (auto simp: unmap_page_def data_release_def split: option.splits)

lemma cow_fold_host:
  "mmap_fails (fst (fold (\<lambda>p (h, src, dst). cow_page h src dst p) ps (h, src, dst))) = mmap_fails h \<and>
   malloc_fails (fst (fold (\<lambda>p (h, src, dst). cow_page h src dst p) ps (h, src, dst))) = malloc_fails h"
proof (induction ps arbitrary: h src dst)
  case (Cons p ps)
  obtain h1 s1 d1 where c: "cow_page h src dst p = (h1, s1, d1)" by (metis prod_cases3)
  then have "mmap_fails h1 = mmap_fails h" "malloc_fails h1 = malloc_fails h"
    by (auto simp: cow_page_def pt_unmap_always_eq data_retain_def Let_def split: option.splits)
  then show ?case using Cons.IH [of h1 s1 d1] c by simp
qed simp

lemma pt_copy_on_write_ok:
  assumes f: "fork_inv h ext src dst" and range: "start + pages \<le> MEM_PAGES"
  obtains h' src' dst' where "pt_copy_on_write h src dst start pages = (0, h', src', dst')"
    and "mmap_fails h' = mmap_fails h" and "malloc_fails h' = malloc_fails h"
    and "fork_inv h' ext src' dst'" and "\<forall>addr. mem_byte h' src' addr = mem_byte h src addr"
    and "\<forall>q. mem_pt src' q = (if start \<le> q \<and> q < start + pages
      then map_option cow_entry (mem_pt src q) else mem_pt src q)"
    and "\<forall>q. mem_pt dst' q = (if start \<le> q \<and> q < start + pages \<and> mem_pt src q \<noteq> None
      then map_option cow_entry (mem_pt src q) else mem_pt dst q)"
proof -
  have w: "w32 (start + pages) = start + pages"
    using range by (intro w32_id) (simp add: MEM_PAGES_def)
  obtain h' s d where c: "cow_loop h src dst start (start + pages) = (h', s, d)" by (metis prod_cases3)
  have l: "fold (\<lambda>p (h, src, dst). cow_page h src dst p) [start..<start + pages] (h, src, dst) = (h', s, d)"
    using copying.loop_fold [of "(h, src, dst)" start "start + pages"] c by (simp add: split_def)
  note r = cow_fold_inv [OF f distinct_upt l]
  have [simp]: "refs (mem_changed m) = refs m" for m by (rule HOL.ext) (simp add: refs_def)
  have "fork_inv h' ext (mem_changed s) (mem_changed d)"
    using r mem_inv_cong [of "mem_changed s" s] mem_inv_cong [of "mem_changed d" d]
    by (simp add: fork_inv_def)
  moreover have "mem_byte h' (mem_changed s) addr = mem_byte h' s addr" for addr
    by (simp add: mem_byte_def mem_ptr_nofault_def)
  ultimately show thesis
    using that [of h' "mem_changed s" "mem_changed d"] r c w l
      cow_fold_host [where ps = "[start..<start + pages]" and h = h and src = src and dst = dst]
    by (simp add: pt_copy_on_write_def)
qed

section \<open>Translation\<close>

text \<open>A store through a pointer that no page uses.\<close>

lemma mem_byte_store_other:
  assumes "\<And>e x. mem_pt m (PAGE a) = Some e \<Longrightarrow> heap h (the (pt_data e)) = Some x \<Longrightarrow> d_host x \<noteq> fst ptr"
  shows "mem_byte (store_byte h ptr v) m a = mem_byte h m a"
proof (cases "mem_pt m (PAGE a)")
  case (Some e)
  show ?thesis
  proof (cases "heap h (the (pt_data e))")
    case None
    then show ?thesis using Some
      by (auto simp: mem_byte_def mem_ptr_nofault_def store_byte_def split: option.splits)
  next
    fix x assume x: "heap h (the (pt_data e)) = Some x"
    then show ?thesis using assms [OF Some x] Some
      by (auto simp: mem_byte_def mem_ptr_nofault_def store_byte_def split: option.splits)
  qed
qed (simp add: mem_byte_def mem_ptr_nofault_def)

lemma memcpy_page_keeps:
  assumes inv: "mem_inv_upto D h ext m" and to: "to < next_map h"
    and ne: "\<And>d x. heap h d = Some x \<Longrightarrow> d_host x \<noteq> to"
    and mp: "maps h to = Some t" "maps h from = Some f"
  obtains h' where "memcpy_page h to from off = h'" and "mem_inv_upto D h' ext m"
    and "host_keeps ext' h h'" and "host_block h' to" and "heap h' = heap h"
    and "next_data h' = next_data h"
    and "maps h' to = Some (\<lambda>i. if i < PAGE_SIZE then f (off + i) else t i)"
proof -
  let ?h = "memcpy_page h to from off"
  have eq: "?h = h\<lparr>maps := (maps h)(to := Some (\<lambda>i. if i < PAGE_SIZE then f (off + i) else t i))\<rparr>"
    using mp by (simp add: memcpy_page_def)
  have "mem_inv_upto D ?h ext m"
    by (rule mem_inv_maps [OF inv]) (use mem_inv_data(5) [OF inv] in \<open>auto simp: eq\<close>)
  moreover have "host_keeps ext' h ?h" unfolding eq host_keeps_def using ne mp by auto
  moreover have "host_block ?h to" using to ne by (auto simp: eq host_block_def)
  ultimately show thesis using that [of ?h] by (simp add: eq)
qed

lemma PGOFFSET_less: "PGOFFSET addr < PAGE_SIZE"
  by (simp add: PGOFFSET_def PAGE_SIZE_def)

text \<open>Breaking the sharing of a page: the page gets a fresh object, and no byte changes.\<close>

lemma mem_break_cow_ok:
  assumes inv: "mem_inv h ext m" and e: "mem_pt m p = Some e"
    and ok: "\<not> mmap_fails h" "\<not> malloc_fails h"
  obtains h' m' y where "mem_break_cow h m p e = Some (h', m')"
    and "mem_inv h' ext m'" and "host_keeps ext h h'"
    and "heap h' (next_data h) = Some y" and "d_host y = next_map h"
    and "mem_pt m' = (mem_pt m)(p := Some (map_entry (next_data h) p 0 (pt_flags e AND NOT P_COW) p))"
    and "\<forall>addr. mem_byte h' m' addr = mem_byte h m addr"
proof -
  obtain d x where p: "p < MEM_PAGES" and d: "pt_data e = Some d" "heap h d = Some x"
    by (rule mem_inv_page [OF inv e])
  obtain f where f: "maps h (d_host x) = Some f" using mem_inv_data(5) [OF inv d(2)] by blast
  obtain h1 where h1: "host_mmap h = (Some (next_map h), h1)" "mem_inv h1 ext m"
    "host_keeps ext h h1" "host_block h1 (next_map h)" "maps h1 (next_map h) = Some (\<lambda>_. 0)"
    "next_data h1 = next_data h" "heap h1 = heap h"
    by (rule host_mmap_ok [OF inv ok(1)])
  have x1: "heap h1 d = Some x" using h1(7) d(2) by simp
  have f1: "maps h1 (d_host x) = Some f" using host_keeps_same(3) [OF h1(3) d(2) x1] f by simp
  have lt: "next_map h < next_map h1" using h1(4) by (simp add: host_block_def)
  have ne: "d_host z \<noteq> next_map h" if "heap h1 q = Some z" for q z
    using mem_inv_data(4) [OF inv, of q z] that h1(7) by simp
  obtain h2 where h2: "memcpy_page h1 (next_map h) (d_host x) (pt_offset e) = h2" "mem_inv h2 ext m"
    "host_keeps ext h1 h2" "host_block h2 (next_map h)" "heap h2 = heap h1" "next_data h2 = next_data h1"
    "maps h2 (next_map h) = Some (\<lambda>i. if i < PAGE_SIZE then f (pt_offset e + i) else 0)"
    by (rule memcpy_page_keeps [OF h1(2) lt ne h1(5) f1])
  have ok2: "\<not> malloc_fails h2" using ok(2) h1(3) h2(3) by (simp add: host_keeps_def)
  have pg: "0 < (1::nat)" "p + 1 \<le> MEM_PAGES" "1 < MEM_PAGES" using p by (simp_all add: MEM_PAGES_def)
  obtain h' m' y where r: "pt_map h2 m p 1 (Some (next_map h)) 0 (pt_flags e AND NOT P_COW) = (0, h', m')"
    "mem_inv h' ext m'" "host_keeps ext h2 h'" "heap h' (next_data h2) = Some y" "d_host y = next_map h"
    "maps h' (next_map h) = maps h2 (next_map h)"
    "mem_pt m' = (\<lambda>q. if p \<le> q \<and> q < p + 1
      then Some (map_entry (next_data h2) p 0 (pt_flags e AND NOT P_COW) q) else mem_pt m q)"
    by (rule pt_map_ok [OF h2(2,4) ok2 pg])
  have nd: "next_data h2 = next_data h" using h2(6) h1(6) by simp
  have pt: "mem_pt m' = (mem_pt m)(p := Some (map_entry (next_data h) p 0 (pt_flags e AND NOT P_COW) p))"
    unfolding r(7) nd by (intro HOL.ext) auto
  have k: "host_keeps ext h h'"
    using host_keeps_trans_inv [OF inv host_keeps_trans_inv [OF inv h1(3) h2(3)] r(3)] .
  have "mem_byte h' m' addr = mem_byte h m addr" for addr
  proof (cases "PAGE addr = p")
    case True
    then show ?thesis
      using mem_byte_eq [OF inv _ d f, of addr] mem_byte_eq [OF r(2) _ _ r(4), of addr] e r(5,6) h2(7)
        PGOFFSET_less [of addr] nd by (simp add: pt)
  next
    case False
    then show ?thesis using mem_byte_keeps [OF inv r(2) k, of addr] by (simp add: pt)
  qed
  moreover have "mem_break_cow h m p e = Some (h', m')"
    using h1(1) h2(1) d r(1) by (simp add: mem_break_cow_def Let_def)
  ultimately show thesis using that [of h' m' y] r(2,5) k pt r(4) nd by simp
qed

lemma has_flag_clear_cow:
  "has_flag (f AND NOT P_COW) P_WRITE = has_flag f P_WRITE" "\<not> has_flag (f AND NOT P_COW) P_COW"
proof -
  have "(f AND NOT 16) AND 2 = f AND (2 :: u32)" by (simp add: and.assoc)
  then show "has_flag (f AND NOT P_COW) P_WRITE = has_flag f P_WRITE"
    by (simp add: has_flag_def)
  have "(f AND NOT 16) AND 16 = (0 :: u32)" by (simp add: and.assoc)
  then show "\<not> has_flag (f AND NOT P_COW) P_COW" by (simp add: has_flag_def)
qed

lemma has_flag_set_write_cow:
  "has_flag (f OR (P_WRITE OR P_COW)) P_WRITE" "has_flag (f OR (P_WRITE OR P_COW)) P_COW"
  by (simp_all add: has_flag_def bit.conj_disj_distrib2)

lemma mem_byte_mapped: "mem_byte h m a \<noteq> None \<Longrightarrow> mem_pt m (PAGE a) \<noteq> None"
  by (auto simp: mem_byte_def mem_ptr_nofault_def split: option.splits)

lemma mem_ptr_nofault_byte:
  "mem_ptr_nofault h m addr type = Some (mp, off) \<Longrightarrow>
   mem_byte h m addr = map_option (\<lambda>f. f off) (maps h mp)"
  by (auto simp: mem_byte_def mem_ptr_nofault_def split: option.splits if_splits)

lemma mem_ptr_nofault_Some:
  assumes inv: "mem_inv_upto D h ext m" and e: "mem_pt m (PAGE addr) = Some e"
    and w: "type = MEM_WRITE \<Longrightarrow> P_WRITABLE (pt_flags e)"
  shows "\<exists>ptr. mem_ptr_nofault h m addr type = Some ptr"
proof -
  obtain d x where "pt_data e = Some d" "heap h d = Some x" by (rule mem_inv_page [OF inv e])
  then show ?thesis using e w by (auto simp: mem_ptr_nofault_def)
qed

text \<open>
  The part of \<^verbatim>\<open>mem_ptr\<close> after the entry is known: it succeeds, keeps the invariant and every
  byte, and returns a pointer whenever the access is permitted.
\<close>

lemma mem_ptr_entry_ok:
  assumes inv: "mem_inv h ext m" and e: "mem_pt m (PAGE addr) = Some e"
    and ok: "\<not> mmap_fails h" "\<not> malloc_fails h"
  obtains h' m' where "mem_ptr_entry h m addr type =
        Some (if type = MEM_WRITE \<and> \<not> has_flag (pt_flags e) P_WRITE then None
              else mem_ptr_nofault h' m' addr type, h', m')"
    and "mem_inv h' ext m'" and "host_keeps ext h h'"
    and "\<forall>a. mem_byte h' m' a = mem_byte h m a"
    and "type = MEM_WRITE \<and> \<not> has_flag (pt_flags e) P_WRITE \<or> (\<exists>ptr. mem_ptr_nofault h' m' addr type = Some ptr)"
    and "mem_ptr_nofault h m addr type = None \<or> type = MEM_WRITE_PTRACE \<or> h' = h \<and> m' = m"
proof (cases "type = MEM_READ \<or> type = MEM_WRITE \<and> (\<not> has_flag (pt_flags e) P_WRITE \<or> \<not> has_flag (pt_flags e) P_COW)")
  case True
  then have "mem_ptr_entry h m addr type =
      Some (if type = MEM_WRITE \<and> \<not> has_flag (pt_flags e) P_WRITE then None
            else mem_ptr_nofault h m addr type, h, m)"
    using e by (auto simp: mem_ptr_entry_def mem_ptr_write_def)
  moreover have "type = MEM_WRITE \<and> \<not> has_flag (pt_flags e) P_WRITE \<or>
      (\<exists>ptr. mem_ptr_nofault h m addr type = Some ptr)"
    using True mem_ptr_nofault_Some [OF inv e, of type] by (auto simp: P_WRITABLE_def)
  ultimately show ?thesis using that [of h m] inv by (simp add: host_keeps_refl)
next
  case False
  let ?f = "if type = MEM_WRITE_PTRACE then pt_flags e OR (P_WRITE OR P_COW) else pt_flags e"
  let ?e = "e\<lparr>pt_flags := ?f\<rparr>"
  let ?m = "if type = MEM_WRITE_PTRACE then mem_pt_write m (PAGE addr) ?e else m"
  have ty: "type = MEM_WRITE \<or> type = MEM_WRITE_PTRACE" using False by (cases type) auto
  have fl: "has_flag ?f P_WRITE" "has_flag ?f P_COW"
    using False ty has_flag_set_write_cow by auto
  have "pt_data e \<noteq> None" using mem_pt_Some_data [OF e] by auto
  then have m1: "mem_pt ?m = (mem_pt m)(PAGE addr := Some ?e)"
    using e by (auto simp: mem_pt_write [OF mem_pt_Some_pgdir [OF e]])
  note inv1 = mem_inv_flags [OF inv e m1] and b1 = mem_byte_flags [OF e m1]
  have e1: "mem_pt ?m (PAGE addr) = Some ?e" by (simp add: m1)
  obtain h' m' y where r: "mem_break_cow h ?m (PAGE addr) ?e = Some (h', m')"
    "mem_inv h' ext m'" "host_keeps ext h h'" "heap h' (next_data h) = Some y" "d_host y = next_map h"
    "mem_pt m' = (mem_pt ?m)(PAGE addr := Some (map_entry (next_data h) (PAGE addr) 0 (pt_flags ?e AND NOT P_COW) (PAGE addr)))"
    "\<forall>a. mem_byte h' m' a = mem_byte h ?m a"
    by (rule mem_break_cow_ok [OF inv1 e1 ok])
  have "mem_ptr_entry h m addr type = Some (mem_ptr_nofault h' m' addr type, h', m')"
    using e ty fl r(1) by (auto simp: mem_ptr_entry_def mem_ptr_write_def Let_def)
  moreover have "\<not> (type = MEM_WRITE \<and> \<not> has_flag (pt_flags e) P_WRITE)"
    using fl by auto
  moreover have "\<exists>ptr. mem_ptr_nofault h' m' addr type = Some ptr"
  proof (rule mem_ptr_nofault_Some [OF r(2)])
    show "mem_pt m' (PAGE addr) =
        Some (map_entry (next_data h) (PAGE addr) 0 (pt_flags ?e AND NOT P_COW) (PAGE addr))"
      by (simp add: r(6))
  qed (use fl has_flag_clear_cow [of ?f] in \<open>simp add: P_WRITABLE_def\<close>)
  moreover have "mem_ptr_nofault h m addr type = None \<or> type = MEM_WRITE_PTRACE"
    using ty fl e by (auto simp: mem_ptr_nofault_def P_WRITABLE_def)
  ultimately show ?thesis using that [of h' m'] r(2,3,7) b1 by auto
qed

lemma PAGE_less: "addr < 2 ^ 32 \<Longrightarrow> PAGE addr < MEM_PAGES"
  by (simp add: PAGE_def PAGE_SIZE_def MEM_PAGES_def less_mult_imp_div_less)

lemma mem_grow_ok:
  assumes inv: "mem_inv h ext m" and p: "p < MEM_PAGES" and ok: "\<not> mmap_fails h" "\<not> malloc_fails h"
    and n: "mem_pt m p = None" and g: "mem_grow h m p = Some (h', m')"
  shows "mem_inv h' ext m'" and "host_keeps ext h h'" and "mem_pt m' p \<noteq> None"
    and "mem_byte h m a \<noteq> None \<Longrightarrow> mem_byte h' m' a = mem_byte h m a"
proof -
  have pg: "0 < (1::nat)" "p + 1 \<le> MEM_PAGES" "1 < MEM_PAGES" using p by (simp_all add: MEM_PAGES_def)
  obtain h1 m1 y where r: "pt_map_nothing h m p 1 (P_WRITE OR P_GROWSDOWN) = (0, h1, m1)"
    "mem_inv h1 ext m1" "host_keeps ext h h1" "heap h1 (next_data h) = Some y"
    "maps h1 (d_host y) = Some (\<lambda>_. 0)"
    "mem_pt m1 = (\<lambda>q. if p \<le> q \<and> q < p + 1
      then Some (map_entry (next_data h) p 0 ((P_WRITE OR P_GROWSDOWN) OR P_ANONYMOUS) q) else mem_pt m q)"
    by (rule pt_map_nothing_ok [OF inv ok pg])
  have eq: "h' = h1" "m' = m1"
    using g r(1) by (auto simp: mem_grow_def Let_def split: if_splits option.splits)
  then show "mem_inv h' ext m'" "host_keeps ext h h'" "mem_pt m' p \<noteq> None" using r by simp_all
  show "mem_byte h' m' a = mem_byte h m a" if a: "mem_byte h m a \<noteq> None"
  proof -
    have "PAGE a \<noteq> p" using mem_byte_mapped [OF a] n by auto
    then have "mem_pt m1 (PAGE a) = mem_pt m (PAGE a)" by (auto simp: r(6))
    then show ?thesis using mem_byte_keeps [OF inv r(2,3), of a] eq by simp
  qed
qed

lemma mem_ptr_ok:
  assumes inv: "mem_inv h ext m" and ok: "\<not> mmap_fails h" "\<not> malloc_fails h" and addr: "addr < 2 ^ 32"
  shows "\<exists>r h' m'. mem_ptr h m addr type = Some (r, h', m') \<and>
    mem_inv h' ext m' \<and> host_keeps ext h h' \<and>
    (\<forall>a. mem_byte h m a \<noteq> None \<longrightarrow> mem_byte h' m' a = mem_byte h m a) \<and>
    (\<forall>ptr. r = Some ptr \<longrightarrow> mem_ptr_nofault h' m' addr type = Some ptr) \<and>
    (\<forall>mp off. r = Some (mp, off) \<longrightarrow> mem_byte h' m' addr = map_option (\<lambda>f. f off) (maps h' mp)) \<and>
    (\<forall>e. mem_pt m (PAGE addr) = Some e \<longrightarrow> (type = MEM_WRITE \<longrightarrow> has_flag (pt_flags e) P_WRITE) \<longrightarrow> r \<noteq> None)"
proof (cases "mem_pt m (PAGE addr)")
  case (Some e)
  let ?no = "type = MEM_WRITE \<and> \<not> has_flag (pt_flags e) P_WRITE"
  obtain h' m' where r: "mem_ptr_entry h m addr type =
        Some (if ?no then None else mem_ptr_nofault h' m' addr type, h', m')"
    "mem_inv h' ext m'" "host_keeps ext h h'" "\<forall>a. mem_byte h' m' a = mem_byte h m a"
    "?no \<or> (\<exists>ptr. mem_ptr_nofault h' m' addr type = Some ptr)"
    "mem_ptr_nofault h m addr type = None \<or> type = MEM_WRITE_PTRACE \<or> h' = h \<and> m' = m"
    by (rule mem_ptr_entry_ok [OF inv Some ok])
  have no: "?no \<Longrightarrow> mem_ptr_nofault h m addr type = None"
    using Some by (auto simp: mem_ptr_nofault_def P_WRITABLE_def)
  have "mem_ptr h m addr type = Some (if ?no then None else mem_ptr_nofault h' m' addr type, h', m')"
    using Some r(1,6) no by (auto simp: mem_ptr_def)
  then show ?thesis
    using r(2-5) mem_ptr_nofault_byte [of h' m' addr type] Some by (auto split: if_splits)
next
  case None
  have old: "mem_ptr_nofault h m addr type = None" using None by (simp add: mem_ptr_nofault_def)
  show ?thesis
  proof (cases "mem_grow h m (PAGE addr)")
    case None
    then show ?thesis
      using old inv \<open>mem_pt m (PAGE addr) = None\<close> by (simp add: mem_ptr_def host_keeps_refl)
  next
    case (Some hm)
    then obtain h1 m1 where g: "mem_grow h m (PAGE addr) = Some (h1, m1)" by (cases hm) auto
    note gr = mem_grow_ok [OF inv PAGE_less [OF addr] ok None g]
    obtain e where e: "mem_pt m1 (PAGE addr) = Some e" using gr(3) by blast
    have ok1: "\<not> mmap_fails h1" "\<not> malloc_fails h1" using ok gr(2) by (simp_all add: host_keeps_def)
    obtain h' m' where r: "mem_ptr_entry h1 m1 addr type =
        Some (if type = MEM_WRITE \<and> \<not> has_flag (pt_flags e) P_WRITE then None
              else mem_ptr_nofault h' m' addr type, h', m')"
      "mem_inv h' ext m'" "host_keeps ext h1 h'" "\<forall>a. mem_byte h' m' a = mem_byte h1 m1 a"
      by (rule mem_ptr_entry_ok [OF gr(1) e ok1])
    have "mem_ptr h m addr type = Some (if type = MEM_WRITE \<and> \<not> has_flag (pt_flags e) P_WRITE then None
              else mem_ptr_nofault h' m' addr type, h', m')"
      using None g r(1) old by (simp add: mem_ptr_def)
    moreover note host_keeps_trans_inv [OF inv gr(2) r(3)]
    ultimately show ?thesis
      using r(2,4) gr(4) mem_ptr_nofault_byte [of h' m' addr type] None by (auto split: if_splits)
  qed
qed

section \<open>Properties\<close>



text \<open>A write to a copy-on-write page lands in a block no other page uses.\<close>

lemma cow_write_private:
  assumes f: "fork_inv h ext a b" and e: "mem_pt b (PAGE addr) = Some e"
    and fl: "has_flag (pt_flags e) P_WRITE" "has_flag (pt_flags e) P_COW"
    and ok: "\<not> mmap_fails h" "\<not> malloc_fails h"
  shows "\<exists>ptr h' b'. mem_ptr h b addr MEM_WRITE = Some (Some ptr, h', b') \<and>
    (\<forall>x. mem_byte (store_byte h' ptr v) a x = mem_byte h a x) \<and>
    (\<forall>x. mem_byte (store_byte h' ptr v) b' x = (if x = addr then Some v else mem_byte h b x))"
proof -
  let ?ext = "\<lambda>d. ext d + card (refs a d)" and ?n = "next_map h"
  have a: "mem_inv h (\<lambda>d. ext d + card (refs b d)) a" and b: "mem_inv h ?ext b"
    using f by (simp_all add: fork_inv_def)
  obtain h' b' y where r: "mem_break_cow h b (PAGE addr) e = Some (h', b')"
    "mem_inv h' ?ext b'" "host_keeps ?ext h h'" "heap h' (next_data h) = Some y" "d_host y = ?n"
    "mem_pt b' = (mem_pt b)(PAGE addr := Some (map_entry (next_data h) (PAGE addr) 0 (pt_flags e AND NOT P_COW) (PAGE addr)))"
    "\<forall>x. mem_byte h' b' x = mem_byte h b x"
    by (rule mem_break_cow_ok [OF b e ok])
  have old: "d_host z \<noteq> ?n" if i: "mem_inv h ext' m" "mem_pt m q = Some g" "heap h' (the (pt_data g)) = Some z"
    for ext' m q g z
  proof -
    obtain d x where d: "pt_data g = Some d" "heap h d = Some x" by (rule mem_inv_page [OF i(1,2)])
    then have "d_host z = d_host x" using host_keeps_same(1) [OF r(3) d(2)] i(3) by simp
    then show ?thesis using mem_inv_data(4) [OF i(1) d(2)] by simp
  qed
  let ?ptr = "(?n, PGOFFSET addr)"
  have wr: "P_WRITABLE (pt_flags e AND NOT P_COW)" "\<not> P_WRITABLE (pt_flags e)"
    using fl has_flag_clear_cow [of "pt_flags e"] by (simp_all add: P_WRITABLE_def)
  have ptr: "mem_ptr h b addr MEM_WRITE = Some (Some ?ptr, h', b')"
    using e fl r(1,4,5) wr
    by (simp add: mem_ptr_def mem_ptr_entry_def mem_ptr_write_def mem_ptr_nofault_def r(6))
  have "mem_byte (store_byte h' ?ptr v) a x = mem_byte h a x" for x
    using mem_byte_store_other [of a x h' ?ptr v] old [OF a] fork_inv_step(2) [OF f r(2,3), of x] by simp
  moreover have "mem_byte (store_byte h' ?ptr v) b' x = (if x = addr then Some v else mem_byte h b x)" for x
  proof (cases "PAGE x = PAGE addr")
    case True
    obtain g where g: "maps h' ?n = Some g" using mem_inv_data(5) [OF r(2,4)] r(5) by auto
    have same: "PGOFFSET x = PGOFFSET addr \<longleftrightarrow> x = addr"
      using True mult_div_mod_eq [of PAGE_SIZE x] mult_div_mod_eq [of PAGE_SIZE addr]
      unfolding PAGE_def PGOFFSET_def by metis
    have "mem_byte (store_byte h' ?ptr v) b' x = Some ((g(PGOFFSET addr := v)) (PGOFFSET x))"
      using True r(4,5) g by (simp add: mem_byte_def mem_ptr_nofault_def store_byte_def r(6))
    moreover have "mem_byte h' b' x = Some (g (PGOFFSET x))"
      using True r(4,5) g by (simp add: mem_byte_def mem_ptr_nofault_def r(6))
    ultimately show ?thesis using same r(7) by simp
  next
    case False
    then show ?thesis
      using mem_byte_store_other [of b' x h' ?ptr v] old [OF b] r(7) by (auto simp: r(6))
  qed
  ultimately show ?thesis using ptr by blast
qed


lemma fork_inv_host1: "fork_inv host1 (\<lambda>_. 0) mem1 mem_init"
proof -
  have "refs mem_init d = {}" for d by (simp add: refs_def)
  then have i: "mem_inv host1 (\<lambda>d. 0 + card (refs mem_init d)) mem1" using mem_inv_host1 by simp
  moreover have "mem_inv host1 (\<lambda>d. 0 + card (refs mem1 d)) mem_init"
    by (rule mem_inv_other [OF i]) simp
  ultimately show ?thesis by (simp add: fork_inv_def)
qed


text \<open>
  \<^verbatim>\<open>pt_set_flags\<close> replaces all flags of a page, the copy-on-write mark included. When two
  address spaces share a page after a fork and one of them makes it readable and writable,
  its next write goes to the shared object: the other address space reads the new byte.
\<close>

theorem pt_set_flags_drops_cow:
  assumes inv: "mem_inv h ext a" and a: "mem_pt a (PAGE addr) = Some e"
    and b: "mem_pt b (PAGE addr) = Some e" and ok: "\<not> mprotect_fails h"
  shows "\<exists>ptr a'. pt_set_flags h a (PAGE addr) 1 (P_READ OR P_WRITE) = (0, a') \<and>
    mem_ptr h a' addr MEM_WRITE = Some (Some ptr, h, a') \<and>
    mem_byte (store_byte h ptr v) b addr = Some v"
proof -
  obtain d x where p: "PAGE addr < MEM_PAGES" and d: "pt_data e = Some d" "heap h d = Some x"
    by (rule mem_inv_page [OF inv a])
  obtain f where f: "maps h (d_host x) = Some f" using mem_inv_data(5) [OF inv d(2)] by blast
  let ?fl = "P_READ OR P_WRITE"
  let ?a = "mem_changed (mem_pt_write a (PAGE addr) (e\<lparr>pt_flags := ?fl\<rparr>))"
  have "w32 (PAGE addr + 1) = PAGE addr + 1"
    using p by (intro w32_id) (simp add: MEM_PAGES_def)
  then have "pt_set_flags h a (PAGE addr) 1 ?fl = (0, ?a)"
    using a ok by (simp add: pt_set_flags_def)
  moreover have pt: "mem_pt ?a (PAGE addr) = Some (e\<lparr>pt_flags := ?fl\<rparr>)"
    using d(1) by (simp add: mem_pt_write [OF mem_pt_Some_pgdir [OF a]])
  moreover have "has_flag ?fl P_WRITE" "\<not> has_flag ?fl P_COW"
    by (simp_all add: has_flag_def)
  ultimately show ?thesis
    using d f b
    by (simp add: mem_ptr_def mem_ptr_entry_def mem_ptr_write_def mem_ptr_nofault_def P_WRITABLE_def
        mem_byte_def store_byte_def)
qed

theorem pt_set_flags_drops_cow_witness:
  "\<exists>ptr a'. pt_set_flags host1 mem1 5 1 (P_READ OR P_WRITE) = (0, a') \<and>
    mem_ptr host1 a' 0x5010 MEM_WRITE = Some (Some ptr, host1, a') \<and>
    mem_byte (store_byte host1 ptr 7) mem1 0x5010 = Some 7"
proof -
  have page: "PAGE 0x5010 = 5" by (simp add: PAGE_def PAGE_SIZE_def)
  have e: "mem_pt mem1 (PAGE 0x5010) = Some (map_entry 0 5 0 (P_WRITE OR P_ANONYMOUS) 5)"
    by (simp add: mem1_pt page)
  have "\<not> mprotect_fails host1" using host1_keeps by (simp add: host_keeps_def host0_def)
  then show ?thesis using pt_set_flags_drops_cow [OF mem_inv_host1 e e, of 7] page by simp
qed

end
