(* ===== verification/User_Mem.thy ===== *)
theory User_Mem
  imports Memory_Cow
begin

text \<open>
  Copies between the kernel and guest memory, \<^verbatim>\<open>kernel/user.c\<close>. The guest address \<open>p\<close> is a
  32-bit variable while \<^verbatim>\<open>addr + count\<close> is computed in 64 bits, so the copy loops need not
  end: they are partial functions, and \<^const>\<open>None\<close> stands for a loop that does not return, an
  access outside the kernel buffer, or a crash of the translation.
\<close>

section \<open>Definitions\<close>

definition host_read :: "host \<Rightarrow> nat \<times> nat \<Rightarrow> nat \<Rightarrow> byte list option" where
  "host_read h ptr n =
     map_option (\<lambda>f. map (\<lambda>i. f (snd ptr + i)) [0..<n]) (maps h (fst ptr))"

definition host_write :: "host \<Rightarrow> nat \<times> nat \<Rightarrow> byte list \<Rightarrow> host option" where
  "host_write h ptr bs =
     map_option (\<lambda>f. h\<lparr>maps := (maps h)(fst ptr := Some (\<lambda>i.
         if snd ptr \<le> i \<and> i < snd ptr + length bs then bs ! (i - snd ptr) else f i))\<rparr>)
       (maps h (fst ptr))"

text \<open>\<^verbatim>\<open>chunk_end\<close>: the end of the page, in 32 bits, or the end of the copy.\<close>

definition chunk_end :: "nat \<Rightarrow> nat \<Rightarrow> nat" where
  "chunk_end p stop =
     (let e = w32 ((PAGE p + 1) * PAGE_SIZE) in if e > stop then w32 stop else e)"

definition sub32 :: "nat \<Rightarrow> nat \<Rightarrow> nat" where
  "sub32 a b = w32 (a + (2 ^ 32 - w32 b))"

partial_function (option) user_read_loop ::
  "host \<Rightarrow> mem \<Rightarrow> nat \<Rightarrow> nat \<Rightarrow> nat \<Rightarrow> byte list \<Rightarrow> (int \<times> byte list \<times> host \<times> mem) option" where
  "user_read_loop h m addr stop p buf =
     (if p < stop then
        (case mem_ptr h m p MEM_READ of
           None \<Rightarrow> None
         | Some (None, h', m') \<Rightarrow> Some (1, buf, h', m')
         | Some (Some ptr, h', m') \<Rightarrow>
             (case host_read h' ptr (sub32 (chunk_end p stop) p) of
                None \<Rightarrow> None
              | Some bs \<Rightarrow>
                  (case put_bytes buf (sub32 p addr) bs of
                     None \<Rightarrow> None
                   | Some buf' \<Rightarrow> user_read_loop h' m' addr stop (chunk_end p stop) buf')))
      else Some (0, buf, h, m))"

definition user_read_task ::
  "host \<Rightarrow> mem \<Rightarrow> nat \<Rightarrow> byte list \<Rightarrow> (int \<times> byte list \<times> host \<times> mem) option" where
  "user_read_task h m addr buf = user_read_loop h m addr (w64 (addr + length buf)) addr buf"

partial_function (option) user_write_loop ::
  "host \<Rightarrow> mem \<Rightarrow> mem_access \<Rightarrow> nat \<Rightarrow> nat \<Rightarrow> nat \<Rightarrow> byte list \<Rightarrow> (int \<times> host \<times> mem) option" where
  "user_write_loop h m type addr stop p buf =
     (if p < stop then
        (case mem_ptr h m p type of
           None \<Rightarrow> None
         | Some (None, h', m') \<Rightarrow> Some (1, h', m')
         | Some (Some ptr, h', m') \<Rightarrow>
             (case get_bytes buf (sub32 p addr) (sub32 (chunk_end p stop) p) of
                None \<Rightarrow> None
              | Some bs \<Rightarrow>
                  (case host_write h' ptr bs of
                     None \<Rightarrow> None
                   | Some h'' \<Rightarrow> user_write_loop h'' m' type addr stop (chunk_end p stop) buf)))
      else Some (0, h, m))"

definition user_write_task ::
  "host \<Rightarrow> mem \<Rightarrow> nat \<Rightarrow> byte list \<Rightarrow> bool \<Rightarrow> (int \<times> host \<times> mem) option" where
  "user_write_task h m addr buf ptrace =
     user_write_loop h m (if ptrace then MEM_WRITE_PTRACE else MEM_WRITE) addr
       (w64 (addr + length buf)) addr buf"

text \<open>
  \<open>i\<close> counts the bytes read; \<open>n\<close> is how many more the buffer takes. The result holds the
  buffer after the call.
\<close>

fun read_string_loop ::
  "host \<Rightarrow> mem \<Rightarrow> nat \<Rightarrow> nat \<Rightarrow> nat \<Rightarrow> byte list \<Rightarrow> (int \<times> byte list \<times> host \<times> mem) option" where
  "read_string_loop h m addr i 0 buf = Some (0, buf, h, m)"
| "read_string_loop h m addr i (Suc n) buf =
     (case get_bytes buf i 1 of
        None \<Rightarrow> None
      | Some cell \<Rightarrow>
          (case user_read_task h m (w32 (addr + i)) cell of
             None \<Rightarrow> None
           | Some (res, cell', h', m') \<Rightarrow>
               (case put_bytes buf i cell' of
                  None \<Rightarrow> None
                | Some buf' \<Rightarrow>
                    if res \<noteq> 0 then Some (1, buf', h', m')
                    else if cell' = [0] then Some (0, buf', h', m')
                    else read_string_loop h' m' addr (Suc i) n buf')))"

definition user_read_string ::
  "host \<Rightarrow> mem \<Rightarrow> nat \<Rightarrow> nat \<Rightarrow> byte list \<Rightarrow> (int \<times> byte list \<times> host \<times> mem) option" where
  "user_read_string h m addr max_len buf =
     (if addr = 0 then Some (1, buf, h, m) else read_string_loop h m addr 0 max_len buf)"

text \<open>The bytes of \<open>buf\<close> from position \<open>i\<close> on are \<open>bs\<close>; reading past them is \<^const>\<open>None\<close>.\<close>

fun write_string_loop ::
  "host \<Rightarrow> mem \<Rightarrow> nat \<Rightarrow> nat \<Rightarrow> byte list \<Rightarrow> (int \<times> host \<times> mem) option" where
  "write_string_loop h m addr i [] = None"
| "write_string_loop h m addr i (c # bs) =
     (case user_write_task h m (w32 (addr + i)) [c] False of
        None \<Rightarrow> None
      | Some (res, h', m') \<Rightarrow>
          if res \<noteq> 0 then Some (1, h', m')
          else if c = 0 then Some (0, h', m')
          else write_string_loop h' m' addr (Suc i) bs)"

definition user_write_string ::
  "host \<Rightarrow> mem \<Rightarrow> nat \<Rightarrow> byte list \<Rightarrow> (int \<times> host \<times> mem) option" where
  "user_write_string h m addr buf =
     (if addr = 0 then Some (1, h, m) else write_string_loop h m addr 0 buf)"

section \<open>Lemmas\<close>

lemma sub32_id: "b \<le> a \<Longrightarrow> a < 2 ^ 32 \<Longrightarrow> sub32 a b = a - b"
proof -
  assume a: "b \<le> a" "a < 2 ^ 32"
  then have "sub32 a b = ((a - b) + 2 ^ 32) mod 2 ^ 32"
    by (simp add: sub32_def w32_def add.commute)
  also have "\<dots> = a - b" using a by (simp only: mod_add_self2) simp
  finally show ?thesis .
qed

lemma page_bounds: "PAGE p * PAGE_SIZE \<le> p" "p < (PAGE p + 1) * PAGE_SIZE"
  using dividend_less_div_times [of PAGE_SIZE p] by (simp_all add: PAGE_def PAGE_SIZE_def)

text \<open>Below the last page a chunk is the rest of the page or of the copy.\<close>

lemma chunk_end_ok:
  assumes "p < stop" and "stop \<le> 2 ^ 32 - PAGE_SIZE"
  shows "chunk_end p stop = min ((PAGE p + 1) * PAGE_SIZE) stop" and "p < chunk_end p stop"
    and "chunk_end p stop \<le> stop" and "PGOFFSET p + (chunk_end p stop - p) \<le> PAGE_SIZE"
proof -
  let ?e = "(PAGE p + 1) * PAGE_SIZE"
  have "p < (MEM_PAGES - 1) * PAGE_SIZE" using assms by (simp add: MEM_PAGES_def PAGE_SIZE_def)
  then have "PAGE p < MEM_PAGES - 1" unfolding PAGE_def by (simp add: less_mult_imp_div_less)
  then have "?e \<le> (MEM_PAGES - 1) * PAGE_SIZE" by (intro mult_le_mono1) simp
  then have "w32 ?e = ?e" "w32 stop = stop"
    using assms(2) by (auto intro!: w32_id simp: MEM_PAGES_def PAGE_SIZE_def)
  then show eq: "chunk_end p stop = min ?e stop" by (simp add: chunk_end_def Let_def)
  show "p < chunk_end p stop" "chunk_end p stop \<le> stop" using eq assms page_bounds [of p] by simp_all
  have "PAGE p * PAGE_SIZE + PGOFFSET p = p" by (simp add: PAGE_def PGOFFSET_def)
  moreover have "min ?e stop \<le> PAGE p * PAGE_SIZE + PAGE_SIZE" by simp
  ultimately show "PGOFFSET p + (chunk_end p stop - p) \<le> PAGE_SIZE"
    unfolding eq using PGOFFSET_less [of p] by linarith
qed

text \<open>A pointer to a byte of a page serves the rest of the page.\<close>

lemma page_offset_add:
  assumes "PGOFFSET p + i < PAGE_SIZE"
  shows "PAGE (p + i) = PAGE p" and "PGOFFSET (p + i) = PGOFFSET p + i"
proof -
  have eq: "p + i = (PGOFFSET p + i) + PAGE p * PAGE_SIZE" by (simp add: PAGE_def PGOFFSET_def)
  have "PAGE (r + q * PAGE_SIZE) = q" "PGOFFSET (r + q * PAGE_SIZE) = r" if "r < PAGE_SIZE" for r q
    using that by (simp_all add: PAGE_def PGOFFSET_def)
  note this [OF assms, of "PAGE p"]
  then show "PAGE (p + i) = PAGE p" "PGOFFSET (p + i) = PGOFFSET p + i" by (simp_all only: eq)
qed

lemma mem_ptr_nofault_chunk:
  assumes "mem_ptr_nofault h m p type = Some (mp, off)" and "PGOFFSET p + i < PAGE_SIZE"
  shows "mem_ptr_nofault h m (p + i) MEM_READ = Some (mp, off + i)"
  using assms page_offset_add [OF assms(2)]
  by (auto simp: mem_ptr_nofault_def split: option.splits if_splits)

text \<open>
  One chunk of a read: the pointer, the bytes it gives and where they land. Everything the
  translation keeps is kept.
\<close>

lemma host_read_chunk:
  assumes inv: "mem_inv_upto D h ext m" and ptr: "mem_ptr_nofault h m p type = Some ptr"
    and n: "PGOFFSET p + n \<le> PAGE_SIZE"
  obtains bs where "host_read h ptr n = Some bs" and "length bs = n"
    and "\<forall>i < n. mem_byte h m (p + i) = Some (bs ! i)"
proof -
  obtain mp off where p: "ptr = (mp, off)" by fastforce
  obtain e where e: "mem_pt m (PAGE p) = Some e"
    using ptr by (auto simp: mem_ptr_nofault_def split: option.splits)
  obtain d x where d: "pt_data e = Some d" "heap h d = Some x" by (rule mem_inv_page [OF inv e])
  obtain f where f: "maps h (d_host x) = Some f" using mem_inv_data(5) [OF inv d(2)] by blast
  have mp: "maps h mp = Some f" using ptr p e d f by (auto simp: mem_ptr_nofault_def split: if_splits)
  let ?bs = "map (\<lambda>i. f (off + i)) [0..<n]"
  have "mem_byte h m (p + i) = Some (?bs ! i)" if "i < n" for i
    using mem_ptr_nofault_chunk [of h m p type mp off i] ptr p n that mp by (simp add: mem_byte_def)
  then show thesis using that [of ?bs] p mp by (simp add: host_read_def)
qed

lemma user_read_loop_ok:
  assumes "mem_inv h ext m" and "\<not> mmap_fails h" and "\<not> malloc_fails h"
    and "addr \<le> p" and "p \<le> addr + length buf" and "addr + length buf \<le> 2 ^ 32 - PAGE_SIZE"
  shows "\<exists>rc buf' h' m'. user_read_loop h m addr (addr + length buf) p buf = Some (rc, buf', h', m') \<and>
    mem_inv h' ext m' \<and> host_keeps ext h h' \<and>
    (\<forall>a. mem_byte h m a \<noteq> None \<longrightarrow> mem_byte h' m' a = mem_byte h m a) \<and>
    length buf' = length buf \<and> (rc = 0 \<or> rc = 1) \<and> take (p - addr) buf' = take (p - addr) buf \<and>
    (rc = 0 \<longrightarrow> (\<forall>a. p \<le> a \<and> a < addr + length buf \<longrightarrow> mem_byte h' m' a = Some (buf' ! (a - addr)))) \<and>
    ((\<forall>a. p \<le> a \<and> a < addr + length buf \<longrightarrow> mem_byte h m a \<noteq> None) \<longrightarrow> rc = 0)"
  using assms
proof (induction "addr + length buf - p" arbitrary: h m p buf rule: less_induct)
  case less
  let ?stop = "addr + length buf"
  show ?case
  proof (cases "p < ?stop")
    case False
    then show ?thesis using less.prems by (auto simp: user_read_loop.simps host_keeps_refl)
  next
    case True
    note ce = chunk_end_ok [OF True less.prems(6)]
    let ?q = "chunk_end p ?stop" and ?n = "chunk_end p ?stop - p"
    have lt: "p < 2 ^ 32" "?q < 2 ^ 32"
      using True ce(3) less.prems(6) by (simp_all add: PAGE_SIZE_def)
    obtain r h1 m1 where t: "mem_ptr h m p MEM_READ = Some (r, h1, m1)"
      "mem_inv h1 ext m1" "host_keeps ext h h1"
      "\<forall>a. mem_byte h m a \<noteq> None \<longrightarrow> mem_byte h1 m1 a = mem_byte h m a"
      "\<forall>ptr. r = Some ptr \<longrightarrow> mem_ptr_nofault h1 m1 p MEM_READ = Some ptr"
      "\<forall>e. mem_pt m (PAGE p) = Some e \<longrightarrow> r \<noteq> None"
      using mem_ptr_ok [OF less.prems(1-3) lt(1), of MEM_READ] by auto
    show ?thesis
    proof (cases r)
      case None
      then have "mem_pt m (PAGE p) = None" using t(6) by (cases "mem_pt m (PAGE p)") auto
      then have "mem_byte h m p = None" using mem_byte_mapped by blast
      moreover have "user_read_loop h m addr ?stop p buf = Some (1, buf, h1, m1)"
        using True t(1) None by (simp add: user_read_loop.simps)
      ultimately show ?thesis using t(2-4) True by auto
    next
      case (Some ptr)
      then have nf: "mem_ptr_nofault h1 m1 p MEM_READ = Some ptr" using t(5) by simp
      obtain bs where bs: "host_read h1 ptr ?n = Some bs" "length bs = ?n"
        "\<forall>i < ?n. mem_byte h1 m1 (p + i) = Some (bs ! i)"
        by (rule host_read_chunk [OF t(2) nf ce(4)])
      have idx: "sub32 ?q p = ?n" "sub32 p addr = p - addr"
        using ce(2) lt less.prems(4) by (simp_all add: sub32_id)
      have room: "p - addr + length bs \<le> length buf" using bs(2) ce(2,3) less.prems(4) by simp
      obtain buf1 where b1: "put_bytes buf (p - addr) bs = Some buf1" using put_bytes_ex [OF room] by blast
      note len = put_bytes_length [OF b1]
      have ok: "\<not> mmap_fails h1" "\<not> malloc_fails h1"
        using less.prems(2,3) t(3) by (simp_all add: host_keeps_def)
      have step: "user_read_loop h m addr ?stop p buf = user_read_loop h1 m1 addr ?stop ?q buf1"
        using True t(1) Some bs(1) b1 idx by (simp add: user_read_loop.simps [of h m])
      have dec: "?stop - ?q < ?stop - p" and aq: "addr \<le> ?q" using ce(2,3) less.prems(4) by simp_all
      note less.hyps [of buf1 ?q h1 m1, unfolded len, OF dec t(2) ok aq ce(3) less.prems(6)]
      then obtain rc buf' h' m' where ih: "user_read_loop h1 m1 addr ?stop ?q buf1 = Some (rc, buf', h', m')"
        "mem_inv h' ext m'" "host_keeps ext h1 h'"
        "\<forall>a. mem_byte h1 m1 a \<noteq> None \<longrightarrow> mem_byte h' m' a = mem_byte h1 m1 a"
        "length buf' = length buf" "rc = 0 \<or> rc = 1" "take (?q - addr) buf' = take (?q - addr) buf1"
        "rc = 0 \<longrightarrow> (\<forall>a. ?q \<le> a \<and> a < ?stop \<longrightarrow> mem_byte h' m' a = Some (buf' ! (a - addr)))"
        "(\<forall>a. ?q \<le> a \<and> a < ?stop \<longrightarrow> mem_byte h1 m1 a \<noteq> None) \<longrightarrow> rc = 0"
        by (elim exE conjE) (rule that, assumption+)
      have keep: "mem_byte h' m' a = mem_byte h m a" if "mem_byte h m a \<noteq> None" for a
        using t(4) ih(4) that by metis
      have "take (p - addr) buf' = take (p - addr) buf1"
        using arg_cong [OF ih(7), of "take (p - addr)"] ce(2) by (simp add: min.absorb1 diff_le_mono)
      moreover have "take (p - addr) buf1 = take (p - addr) buf"
        using b1 room by (auto simp: put_bytes_def)
      ultimately have pre: "take (p - addr) buf' = take (p - addr) buf" by simp
      have here: "mem_byte h' m' a = Some (buf' ! (a - addr))" if a: "p \<le> a" "a < ?q" for a
      proof -
        have "buf' ! (a - addr) = buf1 ! (a - addr)"
          using arg_cong [OF ih(7), of "\<lambda>xs. xs ! (a - addr)"] a less.prems(4) by simp
        also have "\<dots> = bs ! (a - p)"
          using put_bytes_nth [OF b1, of "a - addr"] a less.prems(4) bs(2) room by auto
        finally show ?thesis using bs(3) [rule_format, of "a - p"] ih(4) a by auto
      qed
      have all: "mem_byte h' m' a = Some (buf' ! (a - addr))"
        if "rc = 0" "p \<le> a" "a < ?stop" for a
        using here [of a] ih(8) that by (cases "a < ?q") auto
      have "rc = 0" if acc: "\<forall>a. p \<le> a \<and> a < ?stop \<longrightarrow> mem_byte h m a \<noteq> None"
        using ih(9) t(4) acc ce(2) by (metis less_imp_le order_trans)
      then show ?thesis
        using step ih(1,2,5,6) host_keeps_trans_inv [OF less.prems(1) t(3) ih(3)] keep pre all by auto
    qed
  qed
qed

section \<open>Properties\<close>

text \<open>
  C26. Reading guest memory into a kernel buffer: below the last page of the address space
  the copy ends, returns 0 or 1, keeps the address space, and on 0 the buffer holds exactly
  the guest's bytes; when all of them are mapped the result is 0.
\<close>

theorem user_read_task_correct:
  assumes "mem_inv h ext m" and "\<not> mmap_fails h" and "\<not> malloc_fails h"
    and "addr + length buf \<le> 2 ^ 32 - PAGE_SIZE"
  shows "\<exists>rc buf' h' m'. user_read_task h m addr buf = Some (rc, buf', h', m') \<and>
    mem_inv h' ext m' \<and> host_keeps ext h h' \<and> length buf' = length buf \<and> (rc = 0 \<or> rc = 1) \<and>
    (\<forall>a. mem_byte h m a \<noteq> None \<longrightarrow> mem_byte h' m' a = mem_byte h m a) \<and>
    (rc = 0 \<longrightarrow> (\<forall>i < length buf. mem_byte h' m' (addr + i) = Some (buf' ! i))) \<and>
    ((\<forall>i < length buf. mem_byte h m (addr + i) \<noteq> None) \<longrightarrow> rc = 0)"
proof -
  have w: "w64 (addr + length buf) = addr + length buf"
    using assms(4) by (intro w64_id) (simp add: PAGE_SIZE_def)
  obtain rc buf' h' m' where r: "user_read_loop h m addr (addr + length buf) addr buf = Some (rc, buf', h', m')"
    "mem_inv h' ext m'" "host_keeps ext h h'"
    "\<forall>a. mem_byte h m a \<noteq> None \<longrightarrow> mem_byte h' m' a = mem_byte h m a"
    "length buf' = length buf" "rc = 0 \<or> rc = 1"
    "rc = 0 \<longrightarrow> (\<forall>a. addr \<le> a \<and> a < addr + length buf \<longrightarrow> mem_byte h' m' a = Some (buf' ! (a - addr)))"
    "(\<forall>a. addr \<le> a \<and> a < addr + length buf \<longrightarrow> mem_byte h m a \<noteq> None) \<longrightarrow> rc = 0"
    using user_read_loop_ok [OF assms(1-3) order_refl le_add1 assms(4)]
    by (elim exE conjE) (rule that, assumption+)
  have "rc = 0" if "\<forall>i < length buf. mem_byte h m (addr + i) \<noteq> None"
    using r(8) that by (metis add_less_cancel_left le_add_diff_inverse)
  then show ?thesis using r(1-7) w by (auto simp: user_read_task_def)
qed

theorem user_read_task_correct_witness:
  "\<exists>rc buf' h' m'. user_read_task host1 mem1 0x5010 [9, 9, 9] = Some (rc, buf', h', m') \<and>
    mem_inv h' (\<lambda>_. 0) m' \<and> length buf' = 3"
proof -
  have "\<not> mmap_fails host1" "\<not> malloc_fails host1"
    using host1_keeps by (simp_all add: host_keeps_def host0_def)
  then show ?thesis
    using user_read_task_correct [OF mem_inv_host1, of "0x5010" "[9, 9, 9]"]
    by (auto simp: PAGE_SIZE_def)
qed

text \<open>
  In the last page of the address space the end of the page wraps to 0 in 32 bits, so the
  chunk is not cut to the requested count: when that page is mapped, a read that should stop
  before its end copies the whole rest of the page over the end of the kernel buffer.
\<close>

theorem user_read_task_overruns_last_page:
  assumes "mem_inv h ext m" and "\<not> mmap_fails h" and "\<not> malloc_fails h"
    and "2 ^ 32 - PAGE_SIZE \<le> addr" and "addr + length buf < 2 ^ 32" and "buf \<noteq> []"
    and "mem_byte h m addr \<noteq> None"
  shows "user_read_task h m addr buf = None"
proof -
  let ?stop = "addr + length buf"
  have lt: "addr < 2 ^ 32" and p: "addr < ?stop" using assms(5,6) by simp_all
  have w: "w64 ?stop = ?stop" using assms(5) by (intro w64_id) simp
  have "PAGE addr = MEM_PAGES - 1"
    using assms(4) lt unfolding PAGE_def MEM_PAGES_def by (intro div_nat_eqI) (simp_all add: PAGE_SIZE_def)
  then have ce: "chunk_end addr ?stop = 0"
    by (simp add: chunk_end_def MEM_PAGES_def PAGE_SIZE_def w32_def)
  have n: "sub32 0 addr = 2 ^ 32 - addr" "sub32 addr addr = 0"
    using lt assms(4) by (simp_all add: sub32_def w32_def PAGE_SIZE_def)
  obtain r h1 m1 where t: "mem_ptr h m addr MEM_READ = Some (r, h1, m1)"
    "\<forall>e. mem_pt m (PAGE addr) = Some e \<longrightarrow> r \<noteq> None"
    using mem_ptr_ok [OF assms(1-3) lt, of MEM_READ] by auto
  have "mem_pt m (PAGE addr) \<noteq> None" using assms(7) by (rule mem_byte_mapped)
  then obtain ptr where r: "r = Some ptr" using t(2) by blast
  have "put_bytes buf 0 bs = None" if "host_read h1 ptr (2 ^ 32 - addr) = Some bs" for bs
    using that assms(5) by (auto simp: host_read_def put_bytes_def)
  then show ?thesis
    using t(1) r p ce n
    by (auto simp: user_read_task_def w user_read_loop.simps [of h m] split: option.splits)
qed

theorem user_read_task_overruns_last_page_witness:
  "\<exists>h m. mem_byte h m 0xfffff010 = Some 0 \<and> user_read_task h m 0xfffff010 [9, 9] = None"
proof -
  have ok: "\<not> mmap_fails host0" "\<not> malloc_fails host0" "(0::nat) < 1" "0xfffff + 1 \<le> MEM_PAGES"
    "1 < MEM_PAGES" by (simp_all add: host0_def MEM_PAGES_def)
  obtain h m y where r: "pt_map_nothing host0 mem_init 0xfffff 1 P_WRITE = (0, h, m)"
    "mem_inv h (\<lambda>_. 0) m" "host_keeps (\<lambda>_. 0) host0 h"
    "heap h (next_data host0) = Some y" "maps h (d_host y) = Some (\<lambda>_. 0)"
    "mem_pt m = (\<lambda>q. if 0xfffff \<le> q \<and> q < 0xfffff + 1
      then Some (map_entry (next_data host0) 0xfffff 0 (P_WRITE OR P_ANONYMOUS) q) else mem_pt mem_init q)"
    by (rule pt_map_nothing_ok [OF mem_inv_host0 ok])
  have b: "mem_byte h m 0xfffff010 = Some 0"
    using mem_byte_eq [OF r(2) _ _ r(4,5), of "0xfffff010"] by (simp add: r(6) PAGE_def PAGE_SIZE_def)
  have "\<not> mmap_fails h" "\<not> malloc_fails h" using r(3) by (simp_all add: host_keeps_def host0_def)
  then have "user_read_task h m 0xfffff010 [9, 9] = None"
    using user_read_task_overruns_last_page [OF r(2), of "0xfffff010" "[9, 9]"] b
    by (simp add: PAGE_SIZE_def)
  then show ?thesis using b by blast
qed

end
