(* ===== verification/Float80.thy ===== *)
theory Float80
  imports Prelude "HOL-Library.Monad_Syntax"
begin

text \<open>
  The 80-bit floating point arithmetic of \<^verbatim>\<open>emu/float80.c\<close>. Significands are natural numbers
  with the reductions to 64 and 128 bits written out, the exponent field is reduced to 15
  bits on every assignment, and the thread's rounding mode is an argument. \<^const>\<open>None\<close> stands
  for a failed assertion and for a shift by the width of the operand or more, which C leaves
  undefined.
\<close>

section \<open>Definitions\<close>

datatype f80_rounding_mode = round_to_nearest | round_down | round_up | round_chop

record float80 =
  f_signif :: nat
  f_exp :: nat
  f_sign :: bool

abbreviation mk80 :: "nat \<Rightarrow> nat \<Rightarrow> bool \<Rightarrow> float80" where
  "mk80 s e n \<equiv> \<lparr>f_signif = s, f_exp = e, f_sign = n\<rparr>"

definition BIAS80 :: int where "BIAS80 = 0x3fff"

abbreviation (input) EXP_MAX :: nat where "EXP_MAX \<equiv> 0x7ffe"

definition EXP_MIN :: nat where "EXP_MIN = 1"

definition EXP_SPECIAL :: nat where "EXP_SPECIAL = 0x7fff"

definition EXP_DENORMAL :: nat where "EXP_DENORMAL = 0"

abbreviation (input) F80_NAN :: float80 where "F80_NAN \<equiv> mk80 0xc000000000000000 0x7fff False"

definition F80_INF :: float80 where "F80_INF = mk80 0x8000000000000000 0x7fff False"

definition bias :: "int \<Rightarrow> nat" where
  "bias e = nat ((e + BIAS80) mod 2 ^ 32)"

definition unbias :: "nat \<Rightarrow> int" where
  "unbias e = s32 (int e - BIAS80)"

definition unbias_denormal :: "nat \<Rightarrow> int" where
  "unbias_denormal e = (if e = EXP_DENORMAL then unbias EXP_MIN else unbias e)"

text \<open>An assignment to the 15-bit exponent field.\<close>

definition exp15 :: "int \<Rightarrow> nat" where
  "exp15 e = nat (e mod 2 ^ 15)"

abbreviation (input) CURSED_BIT :: nat where "CURSED_BIT \<equiv> 2 ^ 63"

text \<open>\<^verbatim>\<open>__builtin_clzl\<close> and \<^verbatim>\<open>__builtin_ctzl\<close>, undefined at 0.\<close>

fun bit_len :: "nat \<Rightarrow> nat" where
  "bit_len n = (if n = 0 then 0 else Suc (bit_len (n div 2)))"

declare bit_len.simps [simp del]

definition clzl :: "nat \<Rightarrow> nat option" where
  "clzl x = (if x = 0 then None else Some (64 - bit_len x))"

fun trailing_zeros :: "nat \<Rightarrow> nat" where
  "trailing_zeros n = (if n = 0 \<or> odd n then 0 else Suc (trailing_zeros (n div 2)))"

declare trailing_zeros.simps [simp del]

definition ctzl :: "nat \<Rightarrow> nat option" where
  "ctzl x = (if x = 0 then None else Some (trailing_zeros x))"

definition shl64 :: "nat \<Rightarrow> nat \<Rightarrow> nat option" where
  "shl64 x n = (if n < 64 then Some (x * 2 ^ n mod 2 ^ 64) else None)"

definition shl128 :: "nat \<Rightarrow> nat \<Rightarrow> nat option" where
  "shl128 x n = (if n < 128 then Some (x * 2 ^ n mod 2 ^ 128) else None)"

definition round_away_from_zero :: "f80_rounding_mode \<Rightarrow> bool \<Rightarrow> bool" where
  "round_away_from_zero m sign \<longleftrightarrow> m = round_up \<and> \<not> sign \<or> m = round_down \<and> sign"

text \<open>The bits shifted out below the guard bit are kept in a 64-bit variable.\<close>

definition u128_shift_right_round :: "f80_rounding_mode \<Rightarrow> nat \<Rightarrow> nat \<Rightarrow> bool \<Rightarrow> nat" where
  "u128_shift_right_round m i shift sign =
     (if shift = 0 then i
      else if shift > 127 then (if round_away_from_zero m sign \<and> i \<noteq> 0 then 1 else 0)
      else
        let guard = i div 2 ^ (shift - 1) mod 2;
            rest = i mod 2 ^ (shift - 1) mod 2 ^ 64;
            q = i div 2 ^ shift
        in if guard = 0 \<and> rest = 0 then q
           else if round_away_from_zero m sign then q + 1
           else if m = round_to_nearest \<and> guard = 1 then
             (if rest \<noteq> 0 then q + 1 else if odd q then q + 1 else q)
           else q)"

definition f80_shift_left :: "float80 \<Rightarrow> nat \<Rightarrow> float80 option" where
  "f80_shift_left f shift = do {
     s \<leftarrow> shl64 (f_signif f) shift;
     Some (f\<lparr>f_signif := s, f_exp := exp15 (int (f_exp f) - int shift)\<rparr>)
   }"

definition f80_shift_right :: "f80_rounding_mode \<Rightarrow> float80 \<Rightarrow> nat \<Rightarrow> float80" where
  "f80_shift_right m f shift =
     f\<lparr>f_signif := u128_shift_right_round m (f_signif f) shift (f_sign f) mod 2 ^ 64,
       f_exp := exp15 (int (f_exp f) + int shift)\<rparr>"

definition f80_is_supported :: "float80 \<Rightarrow> bool" where
  "f80_is_supported f =
     (if f_exp f = EXP_DENORMAL then f_signif f div 2 ^ 63 = 0 else f_signif f div 2 ^ 63 = 1)"

definition f80_isnan :: "float80 \<Rightarrow> bool" where
  "f80_isnan f \<longleftrightarrow> f_exp f = EXP_SPECIAL \<and> f_signif f mod 2 ^ 63 \<noteq> 0"

definition f80_isinf :: "float80 \<Rightarrow> bool" where
  "f80_isinf f \<longleftrightarrow> f_exp f = EXP_SPECIAL \<and> f_signif f mod 2 ^ 63 = 0"

definition f80_iszero :: "float80 \<Rightarrow> bool" where
  "f80_iszero f \<longleftrightarrow> f_exp f = EXP_DENORMAL \<and> f_signif f = 0"

definition f80_isdenormal :: "float80 \<Rightarrow> bool" where
  "f80_isdenormal f \<longleftrightarrow> f_exp f = EXP_DENORMAL \<and> f_signif f \<noteq> 0"

definition f80_normalize :: "float80 \<Rightarrow> float80 option" where
  "f80_normalize f =
     (if (f_exp f = EXP_DENORMAL \<or> f_exp f = EXP_SPECIAL) \<and> \<not> f80_is_supported f then None
      else if f_exp f = EXP_DENORMAL then Some f
      else do {
        shift \<leftarrow> (if f_signif f \<noteq> 0 then clzl (f_signif f) else Some 64);
        if int (f_exp f) - int shift < int EXP_MIN then do {
          g \<leftarrow> f80_shift_left f (f_exp f - EXP_MIN);
          Some (g\<lparr>f_exp := EXP_DENORMAL\<rparr>)
        }
        else f80_shift_left f shift
      })"

definition u128_clz :: "nat \<Rightarrow> nat option" where
  "u128_clz x =
     (if x div 2 ^ 64 \<noteq> 0 then clzl (x div 2 ^ 64)
      else if x \<noteq> 0 then map_option (\<lambda>z. 64 + z) (clzl x)
      else Some 128)"

text \<open>The result when the exponent is too large: infinity or the largest number.\<close>

definition f80_overflow :: "f80_rounding_mode \<Rightarrow> nat \<Rightarrow> bool \<Rightarrow> float80" where
  "f80_overflow m signif sign =
     (if signif = 2 ^ 127 then F80_INF
      else if m = round_up \<and> sign \<or> m = round_down \<and> \<not> sign \<or> m = round_chop
      then mk80 (2 ^ 64 - 1) EXP_MAX False
      else F80_INF)\<lparr>f_sign := sign\<rparr>"

text \<open>Rounding to 64 bits, with the carry into the exponent.\<close>

definition u128_round :: "f80_rounding_mode \<Rightarrow> nat \<Rightarrow> int \<Rightarrow> bool \<Rightarrow> float80" where
  "u128_round m signif e sign =
     (let s = u128_shift_right_round m signif 64 sign;
          carry = s div 2 ^ 64 \<noteq> 0
      in mk80 ((if carry then s div 2 else s) mod 2 ^ 64)
           (exp15 (int (exp15 (int (bias e))) + (if carry then 1 else 0))) sign)"

definition u128_normalize_round ::
  "f80_rounding_mode \<Rightarrow> nat \<Rightarrow> int \<Rightarrow> bool \<Rightarrow> float80 option" where
  "u128_normalize_round m signif e sign = do {
     shift \<leftarrow> u128_clz signif;
     if e - int shift < unbias EXP_MIN then do {
       s \<leftarrow> (if e > unbias EXP_MIN then shl128 signif (nat (e - unbias EXP_MIN))
            else Some (u128_shift_right_round m signif (nat (unbias EXP_MIN - e)) sign));
       Some (u128_round m s (unbias EXP_DENORMAL) sign)
     }
     else if e - int shift > unbias EXP_MAX then Some (f80_overflow m signif sign)
     else do {
       s \<leftarrow> shl128 signif shift;
       Some (u128_round m s (e - int shift) sign)
     }
   }"

text \<open>\<open>i\<close> ranges over the 64-bit signed integers.\<close>

definition f80_from_int :: "int \<Rightarrow> float80 option" where
  "f80_from_int i =
     f80_normalize (mk80 (nat ((if i < 0 then - i else i) mod 2 ^ 64))
       (if i = 0 then 0 else exp15 (int (bias 63))) (i < 0))"

definition f80_to_int :: "f80_rounding_mode \<Rightarrow> float80 \<Rightarrow> int" where
  "f80_to_int m f =
     (if \<not> f80_is_supported f then - (2 ^ 63)
      else if f_exp f > bias 63 then - (2 ^ 63)
      else
        let g = f80_shift_right m f (bias 63 - f_exp f)
        in if \<not> f_sign g then s64 (int (f_signif g)) else s64 (- int (f_signif g)))"

text \<open>A double is its 64 bits: 52 of significand, 11 of exponent, the sign.\<close>

abbreviation (input) EXP64_MAX :: nat where "EXP64_MAX \<equiv> 0x7fe"

definition EXP64_SPECIAL :: nat where "EXP64_SPECIAL = 0x7ff"

definition EXP64_DENORMAL :: nat where "EXP64_DENORMAL = 0"

definition double_bits :: "nat \<Rightarrow> nat \<Rightarrow> bool \<Rightarrow> nat" where
  "double_bits s e n = s mod 2 ^ 52 + e mod 2 ^ 11 * 2 ^ 52 + (if n then 2 ^ 63 else 0)"

definition f80_from_double :: "nat \<Rightarrow> float80 option" where
  "f80_from_double d =
     (let db_signif = d mod 2 ^ 52; db_exp = d div 2 ^ 52 mod 2 ^ 11; db_sign = d div 2 ^ 63 mod 2 = 1;
          e = (if db_exp = EXP64_SPECIAL then EXP_SPECIAL
               else if db_exp = EXP64_DENORMAL
               then (if db_signif = 0 then 0 else exp15 (int (bias (1 - 0x3ff))))
               else exp15 (int (bias (int db_exp - 0x3ff))));
          s = db_signif * 2 ^ 11 mod 2 ^ 64;
          s' = (if db_exp \<noteq> EXP64_DENORMAL then s OR CURSED_BIT else s)
      in f80_normalize (mk80 s' e db_sign))"

definition f80_to_double :: "f80_rounding_mode \<Rightarrow> float80 \<Rightarrow> nat" where
  "f80_to_double m f =
     (if \<not> f80_is_supported f then 0x7ff8000000000000
      else
        let new_exp = (if f_exp f = EXP_SPECIAL then int EXP64_SPECIAL else unbias (f_exp f) + 0x3ff)
        in if f_exp f \<noteq> EXP_SPECIAL \<and> new_exp > int EXP64_MAX
           then double_bits 0 EXP64_SPECIAL (f_sign f)
           else
             let g = (if new_exp \<le> 0
                      then f80_shift_right m (f\<lparr>f_signif := f_signif f div 2\<rparr>) (nat (- new_exp))
                      else f);
                 e = (if new_exp \<le> 0 then unbias (f_exp g) + 0x3ff else new_exp);
                 e11 = nat (e mod 2 ^ 11);
                 s = u128_shift_right_round m (f_signif g) 11 (f_sign g) mod 2 ^ 64
             in if s AND 2 ^ 53 \<noteq> 0
                then double_bits (s div 2) ((e11 + 1) mod 2 ^ 11) (f_sign g)
                else double_bits s e11 (f_sign g))"

definition f80_round :: "f80_rounding_mode \<Rightarrow> float80 \<Rightarrow> float80 option" where
  "f80_round m f =
     (if \<not> f80_is_supported f then Some F80_NAN
      else
        let bits_to_clear = 63 - unbias (f_exp f)
        in if bits_to_clear \<le> 0 then Some f
           else
             let g = f80_shift_right m f (nat bits_to_clear)
             in if f_signif g = 0 then Some (g\<lparr>f_exp := EXP_DENORMAL\<rparr>) else f80_normalize g)"

definition f80_neg :: "float80 \<Rightarrow> float80" where
  "f80_neg f = f\<lparr>f_sign := \<not> f_sign f\<rparr>"

definition f80_abs :: "float80 \<Rightarrow> float80" where
  "f80_abs f = f\<lparr>f_sign := False\<rparr>"

text \<open>The macro \<^verbatim>\<open>handle_nans\<close>: the value returned early, if any.\<close>

definition handle_nans :: "float80 \<Rightarrow> float80 \<Rightarrow> float80 option" where
  "handle_nans a b =
     (if \<not> f80_is_supported a \<or> \<not> f80_is_supported b then Some F80_NAN
      else if f80_isnan a \<and> f80_isnan b \<and> f_sign a \<and> \<not> f_sign b then Some b
      else if f80_isnan a then Some a
      else if f80_isnan b then Some b
      else None)"

subsection \<open>Addition\<close>

text \<open>The final step of \<^verbatim>\<open>f80_add\<close>: undo the flip, normalise, assert.\<close>

definition f80_add_finish ::
  "f80_rounding_mode \<Rightarrow> bool \<Rightarrow> nat \<Rightarrow> int \<Rightarrow> bool \<Rightarrow> float80 option" where
  "f80_add_finish m flipped signif e sign = do {
     f \<leftarrow> u128_normalize_round m signif e (if flipped then \<not> sign else sign);
     if f80_is_supported f then Some f else None
   }"

text \<open>\<open>a\<close> is positive, has the larger exponent, and \<open>b\<close> has been aligned to \<open>b_signif\<close>.\<close>

definition f80_add_same ::
  "f80_rounding_mode \<Rightarrow> bool \<Rightarrow> float80 \<Rightarrow> nat \<Rightarrow> nat \<Rightarrow> float80 option" where
  "f80_add_same m flipped a a_signif b_signif =
     (let e = unbias_denormal (f_exp a); total = a_signif + b_signif
      in if f80_isinf a then f80_add_finish m flipped a_signif e False
         else if total \<ge> 2 ^ 128
         then f80_add_finish m flipped
                (u128_shift_right_round m (total mod 2 ^ 128) 1 False OR 2 ^ 127) (e + 1) False
         else f80_add_finish m flipped total e False)"

definition f80_add_opposite ::
  "f80_rounding_mode \<Rightarrow> bool \<Rightarrow> float80 \<Rightarrow> float80 \<Rightarrow> nat \<Rightarrow> nat \<Rightarrow> float80 option" where
  "f80_add_opposite m flipped a b a_signif b_signif =
     (if f80_isinf a \<and> f80_isinf b then Some F80_NAN
      else
        let b1 = (if m = round_chop \<and> b_signif = 0 \<and> f_signif b \<noteq> 0 then 1 else b_signif);
            b2 = (if f80_isinf a then 0 else b1);
            signif = (if a_signif \<ge> b2 then a_signif - b2 else b2 - a_signif);
            sign = (a_signif < b2)
        in if signif = 0 \<and> a_signif \<noteq> 0 \<and> m = round_down then Some (mk80 0 0 True)
           else if signif = 0 then Some (mk80 0 0 False)
           else f80_add_finish m flipped signif (unbias_denormal (f_exp a)) sign)"

definition f80_add :: "f80_rounding_mode \<Rightarrow> float80 \<Rightarrow> float80 \<Rightarrow> float80 option" where
  "f80_add m x y =
     (case handle_nans x y of
        Some f \<Rightarrow> Some f
      | None \<Rightarrow>
          let swap = f_exp x < f_exp y;
              a0 = (if swap then y else x); b0 = (if swap then x else y);
              flipped = f_sign a0;
              a = a0\<lparr>f_sign := False\<rparr>;
              b = (if flipped then f80_neg b0 else b0);
              a_signif = f_signif a * 2 ^ 64;
              b_signif = u128_shift_right_round m (f_signif b * 2 ^ 64) (f_exp a - f_exp b)
                           (f_sign b \<noteq> flipped)
          in if \<not> f_sign b then f80_add_same m flipped a a_signif b_signif
             else f80_add_opposite m flipped a b a_signif b_signif)"

definition f80_sub :: "f80_rounding_mode \<Rightarrow> float80 \<Rightarrow> float80 \<Rightarrow> float80 option" where
  "f80_sub m a b = f80_add m a (f80_neg b)"

subsection \<open>Multiplication and division\<close>

definition f80_mul :: "f80_rounding_mode \<Rightarrow> float80 \<Rightarrow> float80 \<Rightarrow> float80 option" where
  "f80_mul m a b =
     (case handle_nans a b of
        Some f \<Rightarrow> Some f
      | None \<Rightarrow>
          if f80_isinf a \<or> f80_isinf b then
            (if f80_iszero a \<or> f80_iszero b then Some F80_NAN
             else Some (F80_INF\<lparr>f_sign := (f_sign a \<noteq> f_sign b)\<rparr>))
          else map_option (f_sign_update (\<lambda>_. f_sign a \<noteq> f_sign b))
                 (u128_normalize_round m (f_signif a * f_signif b)
                    (unbias_denormal (f_exp a) + unbias_denormal (f_exp b) + 1) (f_sign a \<noteq> f_sign b)))"

text \<open>The quotient of finite numbers, extended to 128 bits.\<close>

definition f80_div_finite :: "f80_rounding_mode \<Rightarrow> float80 \<Rightarrow> float80 \<Rightarrow> float80 option" where
  "f80_div_finite m a b = do {
     b_trailing \<leftarrow> ctzl (f_signif b);
     let d = f_signif b div 2 ^ b_trailing;
     let signif = f_signif a * 2 ^ 64 div d;
     let remainder = f_signif a * 2 ^ 64 mod d;
     extra_bits \<leftarrow> (if signif \<noteq> 0 then u128_clz signif else Some 0);
     s \<leftarrow> shl128 signif extra_bits;
     r \<leftarrow> shl128 remainder extra_bits;
     u128_normalize_round m (if signif \<noteq> 0 then s OR r div d else signif)
       (unbias_denormal (f_exp a) - unbias_denormal (f_exp b) + 63 - int b_trailing - int extra_bits)
       (f_sign a \<noteq> f_sign b)
   }"

definition f80_div :: "f80_rounding_mode \<Rightarrow> float80 \<Rightarrow> float80 \<Rightarrow> float80 option" where
  "f80_div m a b =
     (case handle_nans a b of
        Some f \<Rightarrow> Some f
      | None \<Rightarrow>
          if f80_isinf a \<and> f80_isinf b then Some F80_NAN
          else map_option (f_sign_update (\<lambda>_. f_sign a \<noteq> f_sign b))
                 (if f80_isinf a then Some F80_INF
                  else if f80_isinf b then Some (mk80 0 0 False)
                  else if f80_iszero b then (if f80_iszero a then Some F80_NAN else Some F80_INF)
                  else f80_div_finite m a b))"

definition f80_mod :: "f80_rounding_mode \<Rightarrow> float80 \<Rightarrow> float80 \<Rightarrow> float80 option" where
  "f80_mod m x y = do {
     quotient \<leftarrow> f80_div m x y;
     q \<leftarrow> f80_round round_chop quotient;
     p \<leftarrow> f80_mul m q y;
     f80_sub m x p
   }"

subsection \<open>Comparison\<close>

definition f80_uncomparable :: "float80 \<Rightarrow> float80 \<Rightarrow> bool" where
  "f80_uncomparable a b \<longleftrightarrow>
     \<not> f80_is_supported a \<or> \<not> f80_is_supported b \<or> f80_isnan a \<or> f80_isnan b"

definition f80_lt :: "f80_rounding_mode \<Rightarrow> float80 \<Rightarrow> float80 \<Rightarrow> bool option" where
  "f80_lt m a b =
     (if f80_uncomparable a b then Some False
      else if f80_isinf a \<and> f80_isinf b \<and> f_sign a = f_sign b then Some False
      else if f80_iszero a \<and> f80_iszero b then Some False
      else do {
        diff \<leftarrow> f80_sub m a b;
        Some (f_sign diff \<and> \<not> f80_iszero diff)
      })"

definition f80_eq :: "float80 \<Rightarrow> float80 \<Rightarrow> bool" where
  "f80_eq a b =
     (if f80_uncomparable a b then False
      else
        let a' = (if f80_iszero a then a\<lparr>f_sign := False\<rparr> else a);
            b' = (if f80_iszero a' then b\<lparr>f_sign := False\<rparr> else b)
        in f_sign a' = f_sign b' \<and> f_exp a' = f_exp b' \<and> f_signif a' = f_signif b')"

definition f80_lte :: "f80_rounding_mode \<Rightarrow> float80 \<Rightarrow> float80 \<Rightarrow> bool option" where
  "f80_lte m a b = do {
     lt \<leftarrow> f80_lt m a b;
     Some (lt \<or> f80_eq a b)
   }"

definition f80_gt :: "f80_rounding_mode \<Rightarrow> float80 \<Rightarrow> float80 \<Rightarrow> bool option" where
  "f80_gt m a b = map_option Not (f80_lte m a b)"

subsection \<open>Logarithm, square root, scaling\<close>

partial_function (option) log2_up ::
  "f80_rounding_mode \<Rightarrow> float80 \<Rightarrow> float80 \<Rightarrow> float80 \<Rightarrow> int \<Rightarrow> (float80 \<times> int) option" where
  "log2_up m one two x ipart = do {
     less \<leftarrow> f80_lt m x one;
     if less then do { y \<leftarrow> f80_mul m x two; log2_up m one two y (ipart - 1) }
     else Some (x, ipart)
   }"

partial_function (option) log2_down ::
  "f80_rounding_mode \<Rightarrow> float80 \<Rightarrow> float80 \<Rightarrow> int \<Rightarrow> (float80 \<times> int) option" where
  "log2_down m two x ipart = do {
     more \<leftarrow> f80_gt m x two;
     if more then do { y \<leftarrow> f80_div m x two; log2_down m two y (ipart + 1) }
     else Some (x, ipart)
   }"

partial_function (option) log2_square ::
  "f80_rounding_mode \<Rightarrow> float80 \<Rightarrow> float80 \<Rightarrow> float80 \<Rightarrow> float80 \<Rightarrow> (float80 \<times> float80) option" where
  "log2_square m zero two x bt = do {
     c1 \<leftarrow> f80_lte m x two;
     c2 \<leftarrow> (if c1 then f80_gt m bt zero else Some False);
     if c2 then do {
       x' \<leftarrow> f80_mul m x x;
       bt' \<leftarrow> f80_div m bt two;
       log2_square m zero two x' bt'
     }
     else Some (x, bt)
   }"

partial_function (option) log2_bits ::
  "f80_rounding_mode \<Rightarrow> float80 \<Rightarrow> float80 \<Rightarrow> float80 \<Rightarrow> float80 \<Rightarrow> float80 \<Rightarrow> float80 option" where
  "log2_bits m zero two x bt res = do {
     more \<leftarrow> f80_gt m bt zero;
     if more then do {
       xb \<leftarrow> log2_square m zero two x bt;
       res' \<leftarrow> f80_add m res (snd xb);
       if f_signif res = f_signif res' \<and> f_exp res = f_exp res' \<and> f_sign res = f_sign res'
       then Some res'
       else do {
         x' \<leftarrow> f80_div m (fst xb) two;
         log2_bits m zero two x' (snd xb) res'
       }
     }
     else Some res
   }"

definition f80_log2 :: "f80_rounding_mode \<Rightarrow> float80 \<Rightarrow> float80 option" where
  "f80_log2 m x = do {
     zero \<leftarrow> f80_from_int 0;
     one \<leftarrow> f80_from_int 1;
     two \<leftarrow> f80_from_int 2;
     small \<leftarrow> (if f80_isnan x then Some True else f80_lte m x zero);
     if small then Some F80_NAN
     else do {
       (x1, i1) \<leftarrow> log2_up m one two x 0;
       (x2, i2) \<leftarrow> log2_down m two x1 i1;
       res \<leftarrow> f80_from_int i2;
       log2_bits m zero two x2 one res
     }
   }"

text \<open>The loop of \<^verbatim>\<open>f80_sqrt\<close>; \<open>n\<close> is how often the counter test can still succeed.\<close>

fun sqrt_loop :: "f80_rounding_mode \<Rightarrow> float80 \<Rightarrow> float80 \<Rightarrow> nat \<Rightarrow> float80 \<Rightarrow> float80 option" where
  "sqrt_loop m x two n guess =
     (case do {
        q \<leftarrow> f80_div m x guess;
        s \<leftarrow> f80_add m guess q;
        f80_div m s two
      } of
        None \<Rightarrow> None
      | Some guess' \<Rightarrow>
          if f80_eq guess' guess then Some guess'
          else (case n of 0 \<Rightarrow> Some guess' | Suc n' \<Rightarrow> sqrt_loop m x two n' guess'))"

definition f80_sqrt :: "f80_rounding_mode \<Rightarrow> float80 \<Rightarrow> float80 option" where
  "f80_sqrt m x =
     (if f80_iszero x then Some x
      else if f80_isnan x \<or> f_sign x then Some F80_NAN
      else do {
        two \<leftarrow> f80_from_int 2;
        sqrt_loop m x two 100
          (x\<lparr>f_exp := exp15 (int (bias (sgn (unbias (f_exp x)) * (\<bar>unbias (f_exp x)\<bar> div 2))))\<rparr>)
      })"

definition f80_scale :: "f80_rounding_mode \<Rightarrow> float80 \<Rightarrow> int \<Rightarrow> float80 option" where
  "f80_scale m x scale =
     (if \<not> f80_is_supported x \<or> f80_isnan x then Some F80_NAN
      else u128_normalize_round m (f_signif x * 2 ^ 64) (s32 (unbias (f_exp x) + scale)) (f_sign x))"

definition f80_xtract :: "float80 \<Rightarrow> int \<times> float80" where
  "f80_xtract f = (unbias (f_exp f), f\<lparr>f_exp := exp15 (int (bias 0))\<rparr>)"

end
