(* ===== verification/Float80_Props.thy ===== *)
theory Float80_Props
  imports Float80
begin

text \<open>
  Correctness of the 80-bit arithmetic: rounding shifts against an exact reference, results
  in canonical form, products rounded correctly, conversions from and to integers and
  doubles as round trips, and the inputs on which the code goes wrong.
\<close>

section \<open>Lemmas\<close>

subsection \<open>Counting zeros\<close>

lemma bit_len_0 [simp]: "bit_len 0 = 0"
  by (simp add: bit_len.simps)

lemma bit_len_pos: "0 < n \<Longrightarrow> 0 < bit_len n"
  by (subst bit_len.simps) simp

lemma bit_len_less: "n < 2 ^ bit_len n"
proof (induction n rule: bit_len.induct)
  case (1 n)
  show ?case
  proof (cases "n = 0")
    case False
    then have "n div 2 < 2 ^ bit_len (n div 2)" using 1 by simp
    then have "n < 2 * 2 ^ bit_len (n div 2)" by linarith
    then show ?thesis using False by (simp add: bit_len.simps [of n])
  qed (simp add: bit_len.simps)
qed

lemma bit_len_le: "0 < n \<Longrightarrow> 2 ^ (bit_len n - 1) \<le> n"
proof (induction n rule: bit_len.induct)
  case (1 n)
  show ?case
  proof (cases "n div 2 = 0")
    case True
    then show ?thesis using 1 by (simp add: bit_len.simps [of n])
  next
    case False
    then have "2 ^ (bit_len (n div 2) - 1) \<le> n div 2" using 1 by simp
    moreover have "0 < bit_len (n div 2)" using False by (intro bit_len_pos) simp
    ultimately have "2 ^ bit_len (n div 2) \<le> n"
      by (cases "bit_len (n div 2)") auto
    then show ?thesis using 1 False by (simp add: bit_len.simps [of n])
  qed
qed

lemma bit_len_le_iff: "bit_len n \<le> k \<longleftrightarrow> n < 2 ^ k"
proof
  assume "bit_len n \<le> k"
  then have "(2 :: nat) ^ bit_len n \<le> 2 ^ k" by simp
  then show "n < 2 ^ k" using bit_len_less [of n] by linarith
next
  assume n: "n < 2 ^ k"
  show "bit_len n \<le> k"
  proof (rule ccontr)
    assume "\<not> bit_len n \<le> k"
    then have "(2 :: nat) ^ k \<le> 2 ^ (bit_len n - 1)" by simp
    moreover have "0 < n" using \<open>\<not> bit_len n \<le> k\<close> by (cases n) auto
    ultimately show False using n bit_len_le [of n] by linarith
  qed
qed

text \<open>The number of leading zeros of a \<open>w\<close>-bit number.\<close>

lemma leading_zeros:
  assumes "0 < x" and "x < 2 ^ w"
  shows "2 ^ (w - 1) \<le> x * 2 ^ (w - bit_len x)" and "x * 2 ^ (w - bit_len x) < 2 ^ w"
proof -
  have le: "bit_len x \<le> w" using assms(2) by (simp add: bit_len_le_iff)
  have pos: "0 < bit_len x" using assms(1) by (rule bit_len_pos)
  have "2 ^ (bit_len x - 1) * 2 ^ (w - bit_len x) \<le> x * 2 ^ (w - bit_len x)"
    using bit_len_le [OF assms(1)] by (rule mult_le_mono1)
  then show "2 ^ (w - 1) \<le> x * 2 ^ (w - bit_len x)"
    using le pos by (simp add: power_add [symmetric])
  have "x * 2 ^ (w - bit_len x) < 2 ^ bit_len x * 2 ^ (w - bit_len x)"
    using bit_len_less [of x] by simp
  then show "x * 2 ^ (w - bit_len x) < 2 ^ w" using le by (simp add: power_add [symmetric])
qed

lemma bit_len_high: "x div 2 ^ 64 \<noteq> 0 \<Longrightarrow> bit_len x = 64 + bit_len (x div 2 ^ 64)"
proof -
  assume h: "x div 2 ^ 64 \<noteq> 0"
  let ?h = "x div 2 ^ 64"
  have "x < 2 ^ (64 + bit_len ?h)"
    using bit_len_less [of ?h] by (simp add: power_add div_less_iff_less_mult mult.commute)
  then have "bit_len x \<le> 64 + bit_len ?h" by (simp add: bit_len_le_iff)
  moreover have "\<not> bit_len x \<le> 64 + (bit_len ?h - 1)"
  proof -
    have "2 ^ (bit_len ?h - 1) * 2 ^ 64 \<le> ?h * 2 ^ 64" using bit_len_le [of ?h] h by (intro mult_le_mono1) simp
    also have "\<dots> \<le> x" by simp
    finally show ?thesis by (simp add: bit_len_le_iff power_add mult.commute not_less)
  qed
  ultimately show ?thesis by linarith
qed

lemma u128_clz_eq:
  assumes "x < 2 ^ 128"
  shows "u128_clz x = Some (128 - bit_len x)"
proof (cases "x div 2 ^ 64 = 0")
  case True
  then have "bit_len x \<le> 64" by (simp add: bit_len_le_iff div_eq_0_iff)
  then show ?thesis using True by (auto simp: u128_clz_def clzl_def)
next
  case False
  then show ?thesis using bit_len_high [OF False] by (simp add: u128_clz_def clzl_def)
qed

subsection \<open>The rounding shift\<close>

text \<open>Rounding \<open>i / 2 ^ s\<close> to an integer, exactly.\<close>

definition round_shift :: "f80_rounding_mode \<Rightarrow> nat \<Rightarrow> nat \<Rightarrow> bool \<Rightarrow> nat" where
  "round_shift m i s sign =
     (let q = i div 2 ^ s; r = i mod 2 ^ s
      in if r = 0 then q
         else if round_away_from_zero m sign then q + 1
         else if m = round_to_nearest \<and> (2 * r > 2 ^ s \<or> 2 * r = 2 ^ s \<and> odd q) then q + 1
         else q)"

lemma mod_guard_rest:
  fixes i :: nat
  assumes "0 < s"
  shows "i mod 2 ^ s = i div 2 ^ (s - 1) mod 2 * 2 ^ (s - 1) + i mod 2 ^ (s - 1)"
proof -
  have "2 ^ s = 2 ^ (s - 1) * (2 :: nat)" using assms by (cases s) auto
  then show ?thesis using mod_mult2_eq [of i "2 ^ (s - 1)" 2] by (simp add: mult.commute)
qed

lemma u128_shift_right_round_eq:
  assumes "s \<le> 65"
  shows "u128_shift_right_round m i s sign = round_shift m i s sign"
proof (cases "s = 0")
  case False
  let ?g = "i div 2 ^ (s - 1) mod 2" and ?r = "i mod 2 ^ (s - 1)"
  have "(2 :: nat) ^ (s - 1) \<le> 2 ^ 64" using assms by (intro power_increasing) auto
  then have r64: "?r mod 2 ^ 64 = ?r" by (intro mod_less) (meson less_le_trans mod_less_divisor zero_less_power zero_less_numeral)
  have lt: "?r < 2 ^ (s - 1)" by simp
  have s: "2 ^ s = 2 * (2 :: nat) ^ (s - 1)" using False by (cases s) auto
  have eq: "i mod 2 ^ s = ?g * 2 ^ (s - 1) + ?r" using False by (intro mod_guard_rest) simp
  have g: "?g = 0 \<or> ?g = 1" by auto
  have "(if g = 0 \<and> r = 0 then q else if A then q + 1
      else if N \<and> g = 1 then (if r \<noteq> 0 then q + 1 else if odd q then q + 1 else q) else q) =
    (if g * p + r = 0 then q else if A then q + 1
      else if N \<and> (2 * (g * p + r) > 2 * p \<or> 2 * (g * p + r) = 2 * p \<and> odd q) then q + 1 else q)"
    if "g = 0 \<or> g = 1" "r < p" for g r p q :: nat and A N
    using that by auto
  from this [OF g lt, of "i div 2 ^ s" "round_away_from_zero m sign" "m = round_to_nearest"]
  show ?thesis
    using False assms
    unfolding u128_shift_right_round_def round_shift_def Let_def r64 eq
    by (simp only: s [symmetric]) simp
qed (simp add: u128_shift_right_round_def round_shift_def)

lemma u128_shift_right_round_exact:
  "2 ^ s dvd i \<Longrightarrow> s \<le> 127 \<Longrightarrow> u128_shift_right_round m i s sign = i div 2 ^ s"
proof -
  assume d: "2 ^ s dvd i" and s: "s \<le> 127"
  show ?thesis
  proof (cases "s = 0")
    case False
    have "i div 2 ^ (s - 1) mod 2 * 2 ^ (s - 1) + i mod 2 ^ (s - 1) = 0"
      using mod_guard_rest [of s i] d False by (simp add: dvd_eq_mod_eq_0)
    then show ?thesis using s by (simp add: u128_shift_right_round_def)
  qed (simp add: u128_shift_right_round_def)
qed

lemma u128_shift_right_round_bounds:
  assumes "i < 2 ^ 128"
  shows "i div 2 ^ s \<le> u128_shift_right_round m i s sign"
    and "u128_shift_right_round m i s sign \<le> i div 2 ^ s + 1"
proof -
  have "i div 2 ^ s = 0" if "s > 127"
  proof -
    have "(2 :: nat) ^ 128 \<le> 2 ^ s" using that by (intro power_increasing) auto
    then show ?thesis using assms by (simp add: div_eq_0_iff)
  qed
  then show "i div 2 ^ s \<le> u128_shift_right_round m i s sign"
    and "u128_shift_right_round m i s sign \<le> i div 2 ^ s + 1"
    by (auto simp: u128_shift_right_round_def Let_def)
qed

lemma u128_shift_right_round_le:
  assumes "i < 2 ^ 128" and "i \<le> k * 2 ^ s"
  shows "u128_shift_right_round m i s sign \<le> max k 1"
proof (cases "i = k * 2 ^ s \<and> s \<le> 127")
  case True
  then show ?thesis using u128_shift_right_round_exact [of s i m sign] by simp
next
  case False
  show ?thesis
  proof (cases "s \<le> 127")
    case True
    then have "i < k * 2 ^ s" using False assms(2) by auto
    then have "i div 2 ^ s < k" by (simp add: div_less_iff_less_mult)
    then show ?thesis using u128_shift_right_round_bounds(2) [OF assms(1), of m s sign] by simp
  next
    case False
    then show ?thesis by (auto simp: u128_shift_right_round_def)
  qed
qed

subsection \<open>Normalising\<close>

lemma unbias_consts:
  "unbias EXP_MIN = - 16382" "unbias EXP_MAX = 16383" "unbias EXP_DENORMAL = - 16383"
  by (simp_all add: unbias_def s32_def BIAS80_def EXP_MIN_def EXP_DENORMAL_def)

lemma unbias_eq: "e < 2 ^ 15 \<Longrightarrow> unbias e = int e - 16383"
  by (simp add: unbias_def BIAS80_def s32_id)

lemma bias_eq: "- 16383 \<le> e \<Longrightarrow> e \<le> 16384 \<Longrightarrow> bias e = nat (e + 16383)"
  by (simp add: bias_def BIAS80_def)

lemma exp15_bias: "- 16383 \<le> e \<Longrightarrow> e \<le> 16384 \<Longrightarrow> exp15 (int (bias e)) = nat (e + 16383)"
  by (simp add: bias_eq exp15_def)

lemma u128_round_normal:
  assumes s: "2 ^ 127 \<le> s" "s < 2 ^ 128" and e: "- 16382 \<le> e" "e \<le> 16383"
  obtains c where "c \<le> 1" and "f_signif (u128_round m s e sign) * 2 ^ c = round_shift m s 64 sign"
    and "f_exp (u128_round m s e sign) = nat (e + 16383) + c"
    and "2 ^ 63 \<le> f_signif (u128_round m s e sign)" and "f_signif (u128_round m s e sign) < 2 ^ 64"
    and "f_sign (u128_round m s e sign) = sign"
proof -
  let ?r = "u128_shift_right_round m s 64 sign"
  have R: "?r = round_shift m s 64 sign" by (rule u128_shift_right_round_eq) simp
  have "2 ^ 63 \<le> s div 2 ^ 64" "s div 2 ^ 64 < 2 ^ 64"
    using s by (simp_all add: less_eq_div_iff_mult_less_eq div_less_iff_less_mult)
  then have r: "2 ^ 63 \<le> ?r" "?r \<le> 2 ^ 64"
    using u128_shift_right_round_bounds [OF s(2), where s = 64 and m = m and sign = sign] by linarith+
  have x: "exp15 (int (bias e)) = nat (e + 16383)" using e by (intro exp15_bias) auto
  have x1: "exp15 (int (nat (e + 16383))) = nat (e + 16383)" "exp15 (int (nat (e + 16383)) + 1) = nat (e + 16383) + 1"
    using e by (simp_all add: exp15_def nat_add_distrib)
  show thesis
  proof (cases "?r = 2 ^ 64")
    case True
    then show ?thesis using that [of 1] R x x1 by (simp add: u128_round_def Let_def)
  next
    case False
    then have "?r < 2 ^ 64" using r(2) by simp
    then show ?thesis using that [of 0] R x x1 r(1) by (simp add: u128_round_def Let_def div_eq_0_iff)
  qed
qed

lemma u128_normalize_round_normal:
  assumes s: "0 < s" "s < 2 ^ 128" and z: "z = 128 - bit_len s"
    and e: "- 16382 \<le> e - int z" "e - int z \<le> 16383"
  obtains f c where "u128_normalize_round m s e sign = Some f" and "c \<le> 1"
    and "f_signif f * 2 ^ c = round_shift m (s * 2 ^ z) 64 sign"
    and "int (f_exp f) = e - int z + 16383 + int c"
    and "2 ^ 63 \<le> f_signif f" and "f_signif f < 2 ^ 64" and "f_sign f = sign"
proof -
  have lz: "2 ^ 127 \<le> s * 2 ^ z" "s * 2 ^ z < 2 ^ 128" using leading_zeros [OF s] z by simp_all
  have "0 < bit_len s" using s(1) by (rule bit_len_pos)
  then have "z < 128" using z by simp
  then have "shl128 s z = Some (s * 2 ^ z)" using lz(2) by (simp add: shl128_def)
  then have "u128_normalize_round m s e sign = Some (u128_round m (s * 2 ^ z) (e - int z) sign)"
    using u128_clz_eq [OF s(2)] e z by (simp add: u128_normalize_round_def unbias_consts)
  moreover obtain c where "c \<le> 1"
    "f_signif (u128_round m (s * 2 ^ z) (e - int z) sign) * 2 ^ c = round_shift m (s * 2 ^ z) 64 sign"
    "f_exp (u128_round m (s * 2 ^ z) (e - int z) sign) = nat (e - int z + 16383) + c"
    "2 ^ 63 \<le> f_signif (u128_round m (s * 2 ^ z) (e - int z) sign)"
    "f_signif (u128_round m (s * 2 ^ z) (e - int z) sign) < 2 ^ 64"
    "f_sign (u128_round m (s * 2 ^ z) (e - int z) sign) = sign"
    by (rule u128_round_normal [OF lz e])
  ultimately show thesis using that e by simp
qed

text \<open>
  The result of normalising a nonzero number is canonical, with one exception: an underflow
  that rounds up to the smallest normal number keeps the exponent field 0.
\<close>

definition pseudo_denormal :: "float80 \<Rightarrow> bool" where
  "pseudo_denormal f \<longleftrightarrow> f_exp f = 0 \<and> f_signif f = 2 ^ 63"

lemma f80_sign_update [simp]:
  "f80_is_supported (f\<lparr>f_sign := n\<rparr>) = f80_is_supported f"
  "pseudo_denormal (f\<lparr>f_sign := n\<rparr>) = pseudo_denormal f"
  by (simp_all add: f80_is_supported_def pseudo_denormal_def)

lemma f80_overflow_supported: "f80_is_supported (f80_overflow m s sign)" "f_signif (f80_overflow m s sign) < 2 ^ 64"
  by (auto simp: f80_overflow_def f80_is_supported_def F80_INF_def EXP_DENORMAL_def)

lemma u128_normalize_round_denormal:
  assumes s: "0 < s" "s < 2 ^ 128" and e: "e - int (128 - bit_len s) < - 16382"
  obtains f where "u128_normalize_round m s e sign = Some f" and "f_exp f = 0"
    and "f_signif f \<le> 2 ^ 63" and "f_sign f = sign"
proof -
  let ?z = "128 - bit_len s"
  let ?t = "if e > - 16382 then s * 2 ^ nat (e + 16382)
            else u128_shift_right_round m s (nat (- 16382 - e)) sign"
  have pos: "0 < bit_len s" using s(1) by (rule bit_len_pos)
  have t: "?t \<le> 2 ^ 127 \<and> (e > - 16382 \<longrightarrow> shl128 s (nat (e + 16382)) = Some ?t)"
  proof (cases "e > - 16382")
    case True
    let ?k = "nat (e + 16382)"
    have k: "?k < ?z" using True e by linarith
    have "s * 2 ^ ?k < 2 ^ bit_len s * 2 ^ ?k" using bit_len_less [of s] by simp
    also have "\<dots> \<le> 2 ^ 127"
      unfolding power_add [symmetric] by (rule power_increasing) (use k in simp_all)
    finally have "s * 2 ^ ?k < 2 ^ 127" .
    then show ?thesis using True k by (simp add: shl128_def)
  next
    case False
    have "s \<le> 2 ^ 127 * 2 ^ nat (- 16382 - e)"
    proof (cases "e = - 16382")
      case True
      then have "bit_len s \<le> 127" using e by linarith
      then show ?thesis using True by (simp add: bit_len_le_iff less_imp_le)
    next
      case neq: False
      then have "(2 :: nat) ^ 1 \<le> 2 ^ nat (- 16382 - e)" using False by (intro power_increasing) auto
      then have "(2 :: nat) ^ 127 * 2 \<le> 2 ^ 127 * 2 ^ nat (- 16382 - e)" by simp
      then show ?thesis using s(2) by simp
    qed
    then show ?thesis using u128_shift_right_round_le [OF s(2), of "2 ^ 127"] False by simp
  qed
  let ?f = "u128_round m ?t (- 16383) sign"
  have eq: "u128_normalize_round m s e sign = Some ?f"
    using u128_clz_eq [OF s(2)] e t by (simp add: u128_normalize_round_def unbias_consts)
  have "u128_shift_right_round m ?t 64 sign \<le> 2 ^ 63"
    using u128_shift_right_round_le [of ?t "2 ^ 63" 64 m sign] t by simp
  then have "f_exp ?f = 0 \<and> f_signif ?f \<le> 2 ^ 63 \<and> f_sign ?f = sign"
    by (simp add: u128_round_def Let_def exp15_bias exp15_def div_eq_0_iff bias_def BIAS80_def)
  then show thesis using that eq by blast
qed

lemma u128_normalize_round_canonical:
  assumes s: "0 < s" "s < 2 ^ 128"
  shows "\<exists>f. u128_normalize_round m s e sign = Some f \<and> f_signif f < 2 ^ 64 \<and> f_sign f = sign \<and>
    (f80_is_supported f \<or> pseudo_denormal f)"
proof -
  let ?z = "128 - bit_len s"
  consider "e - int ?z < - 16382" | "e - int ?z > 16383" | "- 16382 \<le> e - int ?z" "e - int ?z \<le> 16383"
    by linarith
  then show ?thesis
  proof cases
    case 1
    then obtain f where "u128_normalize_round m s e sign = Some f" "f_exp f = 0"
      "f_signif f \<le> 2 ^ 63" "f_sign f = sign" by (rule u128_normalize_round_denormal [OF s])
    then show ?thesis by (auto simp: f80_is_supported_def pseudo_denormal_def EXP_DENORMAL_def div_eq_0_iff)
  next
    case 2
    then have "u128_normalize_round m s e sign = Some (f80_overflow m s sign)"
      using u128_clz_eq [OF s(2)] by (simp add: u128_normalize_round_def unbias_consts)
    then show ?thesis using f80_overflow_supported by (auto simp: f80_overflow_def)
  next
    case 3
    then obtain f c where "u128_normalize_round m s e sign = Some f" "c \<le> 1"
      "int (f_exp f) = e - int ?z + 16383 + int c" "2 ^ 63 \<le> f_signif f" "f_signif f < 2 ^ 64" "f_sign f = sign"
      using u128_normalize_round_normal [OF s refl 3] by metis
    moreover from this 3 have "f_exp f \<noteq> 0" by linarith
    moreover have "f_signif f div 2 ^ 63 = 1" using calculation(4,5) by (intro div_nat_eqI) simp_all
    ultimately show ?thesis by (auto simp: f80_is_supported_def EXP_DENORMAL_def)
  qed
qed

subsection \<open>Normalising a significand\<close>

lemma f80_normalize_normal:
  assumes s: "0 < s" "s < 2 ^ 64" and e: "64 - bit_len s < e" "e < EXP_SPECIAL"
  shows "f80_normalize (mk80 s e n) = Some (mk80 (s * 2 ^ (64 - bit_len s)) (e - (64 - bit_len s)) n)"
proof -
  let ?z = "64 - bit_len s"
  have lz: "s * 2 ^ ?z < 2 ^ 64" using leading_zeros [OF s] by simp
  have "0 < bit_len s" using s(1) by (rule bit_len_pos)
  then have z: "?z < 64" by simp
  have x: "exp15 (int e - int ?z) = e - ?z"
    using e by (simp add: exp15_def EXP_SPECIAL_def of_nat_diff [symmetric] del: of_nat_diff)
  have "\<not> int e - int ?z < int EXP_MIN" using e(1) by (simp add: EXP_MIN_def)
  moreover have "e \<noteq> EXP_DENORMAL" "e \<noteq> EXP_SPECIAL" using e by (auto simp: EXP_DENORMAL_def)
  ultimately show ?thesis
    using s lz z x by (simp add: f80_normalize_def clzl_def f80_shift_left_def shl64_def)
qed

lemma bit_len_eqI: "2 ^ k \<le> n \<Longrightarrow> n < 2 ^ Suc k \<Longrightarrow> bit_len n = Suc k"
  using bit_len_le_iff [of n k] bit_len_le_iff [of n "Suc k"] by linarith

lemma f80_normalize_id:
  assumes "2 ^ 63 \<le> s" and "s < 2 ^ 64" and "0 < e" and "e \<le> EXP_SPECIAL"
  shows "f80_normalize (mk80 s e n) = Some (mk80 s e n)"
proof -
  have b: "bit_len s = 64" using bit_len_eqI [of 63 s] assms(1,2) by simp
  have "s div 2 ^ 63 = 1" using assms(1,2) by (intro div_nat_eqI) simp_all
  then have "f80_is_supported (mk80 s e n)" using assms(3) by (simp add: f80_is_supported_def EXP_DENORMAL_def)
  moreover have "exp15 (int e) = e" using assms(4) by (simp add: exp15_def EXP_SPECIAL_def)
  ultimately show ?thesis
    using assms b
    by (simp add: f80_normalize_def EXP_DENORMAL_def clzl_def f80_shift_left_def shl64_def EXP_MIN_def)
qed

lemma bit_len_shift: "0 < s \<Longrightarrow> bit_len (s * 2 ^ k) = bit_len s + k"
proof (induction k)
  case (Suc k)
  have "bit_len (s * 2 ^ Suc k) = Suc (bit_len (s * 2 ^ k))"
    using Suc.prems by (simp add: bit_len.simps [of "s * (2 * 2 ^ k)"] mult.left_commute)
  then show ?case using Suc by simp
qed simp

lemma unbias_one: "unbias (Suc 0) = - 16382"
  by (simp add: unbias_eq)

lemmas f80_operand_defs = unbias_one handle_nans_def f80_is_supported_def f80_isnan_def f80_isinf_def
  EXP_DENORMAL_def EXP_SPECIAL_def unbias_denormal_def unbias_consts

lemma and_bit_53: "(x :: nat) < 2 ^ 53 \<Longrightarrow> x AND 2 ^ 53 = 0"
  unfolding and_exp_eq_0_iff_not_bit by (simp add: bit_iff_odd div_eq_0_iff)

lemma or_cursed: "(x :: nat) < 2 ^ 63 \<Longrightarrow> x OR CURSED_BIT = x + 2 ^ 63"
proof -
  assume "x < 2 ^ 63"
  then have "x AND 2 ^ 63 = 0" unfolding and_exp_eq_0_iff_not_bit by (simp add: bit_iff_odd div_eq_0_iff)
  then show ?thesis by (simp only: disjunctive_add_eq_or)
qed

lemma double_bits_split:
  assumes "d < 2 ^ 64"
  shows "double_bits (d mod 2 ^ 52) (d div 2 ^ 52 mod 2 ^ 11) (d div 2 ^ 63 mod 2 = 1) = d"
proof -
  have "d div 2 ^ 63 < 2" using assms by (simp add: div_less_iff_less_mult)
  then have n: "(if d div 2 ^ 63 mod 2 = 1 then 2 ^ 63 else 0) = d div 2 ^ 63 * 2 ^ 63" by auto
  have "d mod 2 ^ 63 = d mod 2 ^ 52 + d div 2 ^ 52 mod 2 ^ 11 * 2 ^ 52"
    using mod_mult2_eq [of d "2 ^ 52" "2 ^ 11"] by simp
  moreover have "d = d div 2 ^ 63 * 2 ^ 63 + d mod 2 ^ 63" by simp
  ultimately show ?thesis unfolding double_bits_def n by simp
qed

lemma f80_to_double_normal:
  assumes "f80_is_supported (mk80 S x n)"
    and E: "(if x = EXP_SPECIAL then int EXP64_SPECIAL else unbias x + 0x3ff) = E"
    and "0 < E" and "x = EXP_SPECIAL \<or> E \<le> int EXP64_MAX"
    and "u128_shift_right_round m S 11 n mod 2 ^ 64 = T" and "T AND 2 ^ 53 = 0"
  shows "f80_to_double m (mk80 S x n) = double_bits T (nat (E mod 2 ^ 11)) n"
proof -
  have "\<not> (x \<noteq> EXP_SPECIAL \<and> int EXP64_MAX < E)" "\<not> E \<le> 0" using assms(3,4) by auto
  then show ?thesis
    by (simp only: f80_to_double_def float80.select_convs assms E Let_def not_True_eq_False if_False
        not_not if_True refl)
qed

text \<open>Converting back a number whose significand fits a double and whose exponent is in range.\<close>

lemma f80_to_double_wide:
  assumes s: "s < 2 ^ 52" and e: "0 < e" "e \<le> EXP64_SPECIAL"
    and x: "x = (if e = EXP64_SPECIAL then EXP_SPECIAL else e + 15360)"
  shows "f80_to_double m (mk80 (s * 2 ^ 11 + 2 ^ 63) x n) = double_bits s e n"
proof -
  have "s * 2 ^ 11 + 2 ^ 63 < 2 ^ 64" using s by simp
  then have "(s * 2 ^ 11 + 2 ^ 63) div 2 ^ 63 = 1" by (intro div_nat_eqI) simp_all
  then have sup: "f80_is_supported (mk80 (s * 2 ^ 11 + 2 ^ 63) x n)"
    using x e by (auto simp: f80_is_supported_def EXP_DENORMAL_def EXP_SPECIAL_def)
  have new: "(if x = EXP_SPECIAL then int EXP64_SPECIAL else unbias x + 0x3ff) = int e"
    using x e unbias_eq [of x] by (auto simp: EXP64_SPECIAL_def EXP_SPECIAL_def)
  have eq: "s * 2 ^ 11 + 2 ^ 63 = (s + 2 ^ 52) * 2 ^ 11" by simp
  have "u128_shift_right_round m ((s + 2 ^ 52) * 2 ^ 11) 11 n = s + 2 ^ 52"
    using u128_shift_right_round_exact [of 11 "(s + 2 ^ 52) * 2 ^ 11" m n] by simp
  then have sh: "u128_shift_right_round m (s * 2 ^ 11 + 2 ^ 63) 11 n mod 2 ^ 64 = s + 2 ^ 52"
    unfolding eq using s by simp
  have small: "(s + 2 ^ 52) AND 2 ^ 53 = 0" using s by (intro and_bit_53) simp
  have e11: "nat (int e mod 2 ^ 11) = e" using e by (simp add: EXP64_SPECIAL_def)
  have "double_bits (s + 2 ^ 52) e n = double_bits s e n" by (simp add: double_bits_def)
  moreover have "x = EXP_SPECIAL \<or> int e \<le> int EXP64_MAX"
    using x e by (auto simp: EXP64_SPECIAL_def)
  ultimately show ?thesis
    using f80_to_double_normal [OF sup new _ _ sh small] e(1) e11 by simp
qed

lemma f80_to_double_denormal:
  assumes "f80_is_supported (mk80 S x n)" and x: "x \<noteq> EXP_SPECIAL" and E: "unbias x + 0x3ff = E"
    and "E \<le> 0" and "u128_shift_right_round m (S div 2) (nat (- E)) n mod 2 ^ 64 = G"
    and "exp15 (int x + int (nat (- E))) = X"
    and "u128_shift_right_round m G 11 n mod 2 ^ 64 = T" and "T AND 2 ^ 53 = 0"
  shows "f80_to_double m (mk80 S x n) = double_bits T (nat ((unbias X + 0x3ff) mod 2 ^ 11)) n"
proof -
  have "\<not> int EXP64_MAX < E" using assms(4) by simp
  then show ?thesis
    by (simp only: f80_to_double_def f80_shift_right_def float80.select_convs float80.update_convs assms
        E Let_def not_True_eq_False not_False_eq_True if_False if_True refl x simp_thms)
qed

text \<open>Denormal doubles: the significand is moved up to the integer bit and back.\<close>

lemma f80_double_denormal:
  assumes s: "0 < s" "s < 2 ^ 52"
  shows "\<exists>f. f80_normalize (mk80 (s * 2 ^ 11) 15361 n) = Some f \<and> f80_to_double m f = double_bits s 0 n"
proof -
  define z where "z = 53 - bit_len s"
  have b: "0 < bit_len s" "bit_len s \<le> 52"
    using s by (simp_all add: bit_len_pos bit_len_le_iff)
  then have z: "1 \<le> z" "z \<le> 52" by (auto simp: z_def)
  have bl: "64 - bit_len (s * 2 ^ 11) = z"
    unfolding bit_len_shift [OF s(1)] z_def using b by simp
  have t: "0 < s * 2 ^ 11" "s * 2 ^ 11 < 2 ^ 64" using s by simp_all
  let ?S = "s * 2 ^ 11 * 2 ^ z"
  let ?f = "mk80 ?S (15361 - z) n"
  have norm: "f80_normalize (mk80 (s * 2 ^ 11) 15361 n) = Some ?f"
    using f80_normalize_normal [OF t, of 15361 n] z unfolding bl by (simp add: EXP_SPECIAL_def)
  have "2 ^ 63 \<le> ?S" "?S < 2 ^ 64" using leading_zeros [OF t] unfolding bl by simp_all
  then have "?S div 2 ^ 63 = 1" by (intro div_nat_eqI) simp_all
  then have sup: "f80_is_supported ?f" using z by (simp add: f80_is_supported_def EXP_DENORMAL_def)
  have x: "15361 - z \<noteq> EXP_SPECIAL" by (simp add: EXP_SPECIAL_def)
  have E: "unbias (15361 - z) + 0x3ff = 1 - int z" using z by (simp add: unbias_eq)
  have neg: "1 - int z \<le> 0" "nat (- (1 - int z)) = z - 1" using z by simp_all
  have half: "?S div 2 = s * 2 ^ 11 * 2 ^ (z - 1)" using z by (cases z) auto
  have G: "u128_shift_right_round m (?S div 2) (nat (- (1 - int z))) n mod 2 ^ 64 = s * 2 ^ 11"
    unfolding neg(2) half using z u128_shift_right_round_exact [of "z - 1" "s * 2 ^ 11 * 2 ^ (z - 1)" m n] s by simp
  have X: "exp15 (int (15361 - z) + int (nat (- (1 - int z)))) = 15360"
    using z by (simp add: exp15_def neg(2) of_nat_diff)
  have T: "u128_shift_right_round m (s * 2 ^ 11) 11 n mod 2 ^ 64 = s"
    using u128_shift_right_round_exact [of 11 "s * 2 ^ 11" m n] s by simp
  have "s AND 2 ^ 53 = 0" using s by (intro and_bit_53) simp
  note f80_to_double_denormal [OF sup x E neg(1) G X T this]
  then have "f80_to_double m ?f = double_bits s 0 n" by (simp add: unbias_eq)
  then show ?thesis using norm by blast
qed

section \<open>Properties\<close>

text \<open>
  C28. Shifting right by at most 65 places rounds exactly as the rounding mode says: to the
  nearest integer with ties to even, away from zero, or towards zero.
\<close>

theorem u128_shift_right_round_correct:
  assumes "shift \<le> 65"
  shows "u128_shift_right_round m i shift sign = round_shift m i shift sign"
  by (rule u128_shift_right_round_eq [OF assms])

theorem u128_shift_right_round_correct_witness:
  "u128_shift_right_round round_to_nearest 11 2 False = 3 \<and>
   u128_shift_right_round round_to_nearest 10 2 False = 2"
  using u128_shift_right_round_correct [of 2 round_to_nearest 11 False]
    u128_shift_right_round_correct [of 2 round_to_nearest 10 False]
  by (simp add: round_shift_def round_away_from_zero_def)

text \<open>
  For larger shifts the bits below the guard bit are cut to 64 bits, so that nonzero bits
  are taken for an exact result: rounding \<open>2 ^ 64 / 2 ^ 66\<close> up gives 0 instead of 1.
\<close>

theorem u128_shift_right_round_loses_bits:
  "u128_shift_right_round round_up (2 ^ 64) 66 False = 0 \<and> round_shift round_up (2 ^ 64) 66 False = 1"
  by (simp add: u128_shift_right_round_def round_shift_def round_away_from_zero_def)

text \<open>
  C20. Multiplication is correctly rounded. For normal operands whose product has an exponent
  in the normal range, the result is canonical and its significand is the exact product of
  the significands, scaled to 128 bits and rounded to 64 in the rounding mode (a carry out of
  the rounding moves into the exponent).
\<close>

theorem f80_mul_correctly_rounded:
  assumes a: "2 ^ 63 \<le> f_signif a" "f_signif a < 2 ^ 64" "0 < f_exp a" "f_exp a < EXP_SPECIAL"
    and b: "2 ^ 63 \<le> f_signif b" "f_signif b < 2 ^ 64" "0 < f_exp b" "f_exp b < EXP_SPECIAL"
    and range: "- 16382 \<le> unbias (f_exp a) + unbias (f_exp b)" "unbias (f_exp a) + unbias (f_exp b) < 16383"
  shows "\<exists>f z c. f80_mul m a b = Some f \<and> f80_is_supported f \<and> f_sign f = (f_sign a \<noteq> f_sign b) \<and>
    z \<le> 1 \<and> c \<le> 1 \<and> 2 ^ 127 \<le> f_signif a * f_signif b * 2 ^ z \<and> f_signif a * f_signif b * 2 ^ z < 2 ^ 128 \<and>
    f_signif f * 2 ^ c = round_shift m (f_signif a * f_signif b * 2 ^ z) 64 (f_sign a \<noteq> f_sign b) \<and>
    unbias (f_exp f) = unbias (f_exp a) + unbias (f_exp b) + 1 - int z + int c"
proof -
  let ?p = "f_signif a * f_signif b" and ?s = "f_sign a \<noteq> f_sign b"
  let ?z = "128 - bit_len ?p" and ?e = "unbias (f_exp a) + unbias (f_exp b) + 1"
  have lo: "2 ^ 126 \<le> ?p" using mult_le_mono [OF a(1) b(1)] by (simp add: power_add [symmetric])
  have hi: "?p < 2 ^ 128" using mult_strict_mono [OF a(2) b(2)] a(1) b(1) by simp
  have "127 \<le> bit_len ?p" using bit_len_le_iff [of ?p 126] lo by linarith
  then have z: "?z \<le> 1" by simp
  have pos: "0 < ?p" using lo by (metis less_le_trans zero_less_numeral zero_less_power)
  have l1: "2 ^ 127 \<le> ?p * 2 ^ ?z" and l2: "?p * 2 ^ ?z < 2 ^ 128" using leading_zeros [OF pos hi] by simp_all
  obtain f c where r: "u128_normalize_round m ?p ?e ?s = Some f" "c \<le> 1"
    "f_signif f * 2 ^ c = round_shift m (?p * 2 ^ ?z) 64 ?s"
    "int (f_exp f) = ?e - int ?z + 16383 + int c" "2 ^ 63 \<le> f_signif f" "f_signif f < 2 ^ 64" "f_sign f = ?s"
    by (rule u128_normalize_round_normal [OF pos hi refl, of ?e m ?s]) (use range z in auto)
  have sup: "f_signif x div 2 ^ 63 = 1" if "2 ^ 63 \<le> f_signif x" "f_signif x < 2 ^ 64" for x
    using that by (intro div_nat_eqI) simp_all
  have h: "handle_nans a b = None" "\<not> f80_isinf a" "\<not> f80_isinf b"
    using a b sup [OF a(1,2)] sup [OF b(1,2)]
    by (auto simp: handle_nans_def f80_is_supported_def f80_isnan_def f80_isinf_def EXP_DENORMAL_def)
  have "int (f_exp f) < 32768" and ne: "f_exp f \<noteq> 0" using r(2,4) range z by linarith+
  then have "f_exp f < 2 ^ 15" by simp
  then have "unbias (f_exp f) = ?e - int ?z + int c" "f80_is_supported f"
    using r(4) unbias_eq [of "f_exp f"] sup [OF r(5,6)] ne by (simp_all add: f80_is_supported_def EXP_DENORMAL_def)
  moreover have "f80_mul m a b = Some f"
    using h r(1,7) a(3) b(3) by (simp add: f80_mul_def unbias_denormal_def EXP_DENORMAL_def)
  ultimately show ?thesis using r(2,3,7) z l1 l2 by (intro exI [of _ f] exI [of _ ?z] exI [of _ c]) simp
qed

theorem f80_mul_correctly_rounded_witness:
  "\<exists>f z c. f80_mul round_to_nearest (mk80 (3 * 2 ^ 62) 16383 False) (mk80 (3 * 2 ^ 62) 16383 True) = Some f \<and>
    f80_is_supported f \<and> f_sign f \<and> z \<le> 1 \<and> c \<le> 1 \<and>
    f_signif f * 2 ^ c = round_shift round_to_nearest (9 * 2 ^ 124 * 2 ^ z) 64 True"
proof -
  let ?a = "mk80 (3 * 2 ^ 62) 16383 False" and ?b = "mk80 (3 * 2 ^ 62) 16383 True"
  have "unbias 16383 = 0" by (simp add: unbias_eq)
  then show ?thesis
    using f80_mul_correctly_rounded [of ?a ?b round_to_nearest] by (fastforce simp: EXP_SPECIAL_def)
qed

text \<open>
  C29. The product of supported, finite, nonzero numbers always exists, has the sign of the
  product and is canonical, except that an underflow may round up to the significand
  \<open>2 ^ 63\<close> with exponent field 0, which the code itself treats as unsupported.
\<close>

theorem f80_mul_canonical:
  assumes "f80_is_supported a" and "f80_is_supported b" and "f_signif a < 2 ^ 64" and "f_signif b < 2 ^ 64"
    and "f_exp a \<noteq> EXP_SPECIAL" and "f_exp b \<noteq> EXP_SPECIAL" and "\<not> f80_iszero a" and "\<not> f80_iszero b"
  shows "\<exists>f. f80_mul m a b = Some f \<and> f_signif f < 2 ^ 64 \<and> f_sign f = (f_sign a \<noteq> f_sign b) \<and>
    (f80_is_supported f \<or> pseudo_denormal f)"
proof -
  have nz: "0 < f_signif x" if "f80_is_supported x" "\<not> f80_iszero x" for x
    using that by (cases "f_signif x = 0") (auto simp: f80_is_supported_def f80_iszero_def)
  have pos: "0 < f_signif a * f_signif b" using nz assms by simp
  have hi: "f_signif a * f_signif b < 2 ^ 128" using mult_strict_mono [OF assms(3,4)] by simp
  have h: "handle_nans a b = None" "\<not> f80_isinf a" "\<not> f80_isinf b"
    using assms by (auto simp: handle_nans_def f80_isnan_def f80_isinf_def)
  obtain f where "u128_normalize_round m (f_signif a * f_signif b)
      (unbias_denormal (f_exp a) + unbias_denormal (f_exp b) + 1) (f_sign a \<noteq> f_sign b) = Some f"
    "f_signif f < 2 ^ 64" "f_sign f = (f_sign a \<noteq> f_sign b)" "f80_is_supported f \<or> pseudo_denormal f"
    using u128_normalize_round_canonical [OF pos hi, of m
        "unbias_denormal (f_exp a) + unbias_denormal (f_exp b) + 1" "f_sign a \<noteq> f_sign b"] by blast
  then show ?thesis using h by (simp add: f80_mul_def)
qed

theorem f80_mul_canonical_witness:
  "\<exists>f. f80_mul round_up (mk80 (2 ^ 63) 1 False) (mk80 1 0 True) = Some f \<and>
    (f80_is_supported f \<or> pseudo_denormal f)"
  using f80_mul_canonical [of "mk80 (2 ^ 63) 1 False" "mk80 1 0 True" round_up]
  by (fastforce simp: f80_is_supported_def f80_iszero_def EXP_DENORMAL_def EXP_SPECIAL_def)

text \<open>
  Zero times a finite number of \<open>2 ^ 127\<close> or more shifts the zero product by 128 places,
  which is undefined, and gives it an exponent field that is not 0: the product is not zero.
\<close>

theorem f80_mul_zero_large_undefined:
  assumes "f80_iszero a" and "f80_is_supported b" and "f_exp b < EXP_SPECIAL" and "127 \<le> unbias (f_exp b)"
  shows "f80_mul m a b = None"
proof -
  have e: "f_exp b < 2 ^ 15" "f_exp b \<noteq> 0"
    using assms(3,4) unbias_eq [of "f_exp b"] by (auto simp: EXP_SPECIAL_def)
  have h: "handle_nans a b = None" "\<not> f80_isinf a" "\<not> f80_isinf b"
    using assms(1-3)
    by (auto simp: handle_nans_def f80_is_supported_def f80_isnan_def f80_isinf_def f80_iszero_def
        EXP_DENORMAL_def EXP_SPECIAL_def)
  have "unbias (f_exp b) \<le> 16383" using e(1) unbias_eq [of "f_exp b"] assms(3) by (simp add: EXP_SPECIAL_def)
  then have "u128_normalize_round m 0 (- 16382 + unbias (f_exp b) + 1) s = None" for s
    using assms(4) by (simp add: u128_normalize_round_def u128_clz_def unbias_consts shl128_def)
  then show ?thesis
    using h assms(1) e
    by (simp add: f80_mul_def unbias_denormal_def EXP_DENORMAL_def f80_iszero_def unbias_consts)
qed

theorem f80_mul_zero_large_undefined_witness:
  "f80_mul round_to_nearest (mk80 0 0 False) (mk80 (2 ^ 63) 17000 False) = None"
  by (rule f80_mul_zero_large_undefined)
    (simp_all add: f80_iszero_def f80_is_supported_def EXP_DENORMAL_def EXP_SPECIAL_def unbias_eq)

text \<open>
  Subtracting the smallest denormal from the smallest normal number trips the assertion at
  the end of \<^verbatim>\<open>f80_add\<close>: the difference rounds up to the significand \<open>2 ^ 63\<close> with exponent
  field 0, which is not a supported number.
\<close>

theorem f80_sub_assertion_fails:
  "f80_sub round_to_nearest (mk80 (2 ^ 63) 1 False) (mk80 1 0 False) = None"
proof -
  have "u128_shift_right_round round_to_nearest (2 ^ 64) 1 True = 2 ^ 63"
    by (simp add: u128_shift_right_round_def)
  then have "f80_sub round_to_nearest (mk80 (2 ^ 63) 1 False) (mk80 1 0 False) =
      f80_add_finish round_to_nearest False (2 ^ 127 - 2 ^ 63) (- 16382) False"
    by (simp add: f80_sub_def f80_neg_def f80_add_def f80_add_opposite_def Let_def f80_operand_defs)
  also have "u128_normalize_round round_to_nearest (2 ^ 127 - 2 ^ 63) (- 16382) False =
      Some (mk80 (2 ^ 63) 0 False)"
  proof -
    have "bit_len (2 ^ 127 - 2 ^ 63) = 127" using bit_len_eqI [of 126 "2 ^ 127 - 2 ^ 63"] by simp
    then have "u128_clz (2 ^ 127 - 2 ^ 63) = Some 1" using u128_clz_eq [of "2 ^ 127 - 2 ^ 63"] by simp
    moreover have "u128_shift_right_round round_to_nearest (2 ^ 127 - 2 ^ 63) 64 False = 2 ^ 63"
      by (simp add: u128_shift_right_round_def round_away_from_zero_def)
    ultimately show ?thesis
      by (simp add: u128_normalize_round_def u128_round_def unbias_consts exp15_def bias_def BIAS80_def
          u128_shift_right_round_def [of _ _ 0])
  qed
  then have "f80_add_finish round_to_nearest False (2 ^ 127 - 2 ^ 63) (- 16382) False = None"
    by (simp add: f80_add_finish_def f80_is_supported_def EXP_DENORMAL_def)
  finally show ?thesis .
qed

text \<open>
  \<^verbatim>\<open>f80_add\<close> aligns a denormal operand by the difference of the exponent fields, although a
  field of 0 means the same exponent as a field of 1: the smallest normal number plus twice
  the smallest denormal is one unit too small.
\<close>

theorem f80_add_denormal_misaligned:
  "f80_add round_to_nearest (mk80 (2 ^ 63) 1 False) (mk80 2 0 False) = Some (mk80 (2 ^ 63 + 1) 1 False)"
proof -
  have "u128_shift_right_round round_to_nearest (2 ^ 65) 1 False = 2 ^ 64"
    by (simp add: u128_shift_right_round_def)
  then have "f80_add round_to_nearest (mk80 (2 ^ 63) 1 False) (mk80 2 0 False) =
      f80_add_finish round_to_nearest False (2 ^ 127 + 2 ^ 64) (- 16382) False"
    by (simp add: f80_add_def f80_add_same_def Let_def f80_operand_defs)
  also have "u128_normalize_round round_to_nearest (2 ^ 127 + 2 ^ 64) (- 16382) False =
      Some (mk80 (2 ^ 63 + 1) 1 False)"
  proof -
    have "bit_len (2 ^ 127 + 2 ^ 64) = 128" using bit_len_eqI [of 127 "2 ^ 127 + 2 ^ 64"] by simp
    then have "u128_clz (2 ^ 127 + 2 ^ 64) = Some 0" using u128_clz_eq [of "2 ^ 127 + 2 ^ 64"] by simp
    moreover have "u128_shift_right_round round_to_nearest (2 ^ 127 + 2 ^ 64) 64 False = 2 ^ 63 + 1"
      by (simp add: u128_shift_right_round_def)
    ultimately show ?thesis
      by (simp add: u128_normalize_round_def u128_round_def unbias_consts exp15_def bias_def BIAS80_def
          shl128_def)
  qed
  then have "f80_add_finish round_to_nearest False (2 ^ 127 + 2 ^ 64) (- 16382) False =
      Some (mk80 (2 ^ 63 + 1) 1 False)"
    by (simp add: f80_add_finish_def f80_is_supported_def EXP_DENORMAL_def)
  finally show ?thesis .
qed

text \<open>
  Every 64-bit integer survives the conversion to a floating point number and back, in
  every rounding mode.
\<close>

theorem f80_int_roundtrip:
  assumes "- (2 ^ 63) \<le> i" and "i < 2 ^ 63"
  shows "\<exists>f. f80_from_int i = Some f \<and> f80_is_supported f \<and> f80_to_int m f = i"
proof (cases "i = 0")
  case True
  have "u128_shift_right_round m 0 k n = 0" for k n by (simp add: u128_shift_right_round_def)
  then show ?thesis using True
    by (simp add: f80_from_int_def f80_normalize_def f80_is_supported_def EXP_DENORMAL_def
        f80_to_int_def f80_shift_right_def bias_eq s64_def)
next
  case False
  define x where "x = nat \<bar>i\<bar>"
  define z where "z = 64 - bit_len x"
  have x: "0 < x" "x < 2 ^ 64" "x \<le> 2 ^ 63" using False assms by (auto simp: x_def)
  have "0 < bit_len x" using x(1) by (rule bit_len_pos)
  then have z: "z < 64" by (simp add: z_def)
  have lz: "2 ^ 63 \<le> x * 2 ^ z" "x * 2 ^ z < 2 ^ 64" using leading_zeros [OF x(1,2)] by (simp_all add: z_def)
  let ?f = "mk80 (x * 2 ^ z) (16446 - z) (i < 0)"
  have "(if i < 0 then - i else i) mod 2 ^ 64 = int x" using x(2) by (auto simp: x_def)
  then have "f80_from_int i = f80_normalize (mk80 x 16446 (i < 0))"
    using False by (simp add: f80_from_int_def exp15_bias)
  also have "\<dots> = Some ?f"
    unfolding z_def using x z by (intro f80_normalize_normal) (auto simp: z_def EXP_SPECIAL_def)
  finally have from_int: "f80_from_int i = Some ?f" .
  have "x * 2 ^ z div 2 ^ 63 = 1" using lz by (intro div_nat_eqI) simp_all
  then have sup: "f80_is_supported ?f" using z by (simp add: f80_is_supported_def EXP_DENORMAL_def)
  have "u128_shift_right_round m (x * 2 ^ z) z n = x" for n
    using z u128_shift_right_round_exact [of z "x * 2 ^ z" m n] by simp
  then have "f80_to_int m ?f = (if i < 0 then s64 (- int x) else s64 (int x))"
    using sup z x(2) by (auto simp: f80_to_int_def bias_eq f80_shift_right_def)
  also have "\<dots> = i" using assms by (auto simp: x_def s64_id)
  finally show ?thesis using from_int sup by blast
qed

theorem f80_int_roundtrip_witness:
  "\<exists>f. f80_from_int (- (2 ^ 63)) = Some f \<and> f80_is_supported f \<and> f80_to_int round_up f = - (2 ^ 63)"
  by (rule f80_int_roundtrip) simp_all

text \<open>
  C27. Every double, zeros, denormals, infinities and NaNs included, survives the conversion to
  80 bits and back bit for bit, in every rounding mode.
\<close>

theorem f80_double_roundtrip:
  assumes "d < 2 ^ 64"
  shows "\<exists>f. f80_from_double d = Some f \<and> f80_to_double m f = d"
proof -
  define s where "s = d mod 2 ^ 52"
  define e where "e = d div 2 ^ 52 mod 2 ^ 11"
  define n where "n = (d div 2 ^ 63 mod 2 = 1)"
  have d: "double_bits s e n = d" using double_bits_split [OF assms] by (simp only: s_def e_def n_def)
  have s: "s < 2 ^ 52" by (simp add: s_def)
  have e: "e \<le> EXP64_SPECIAL"
    using mod_less_divisor [of "2 ^ 11" "d div 2 ^ 52"] by (simp add: e_def EXP64_SPECIAL_def)
  have sh: "s * 2 ^ 11 mod 2 ^ 64 = s * 2 ^ 11" "s * 2 ^ 11 OR CURSED_BIT = s * 2 ^ 11 + 2 ^ 63"
    using s by (simp, intro or_cursed, simp)
  note unfold = f80_from_double_def Let_def s_def [symmetric] e_def [symmetric] n_def [symmetric] sh
  consider "e = 0" "s = 0" | "e = 0" "0 < s" | "0 < e" by auto
  then show ?thesis
  proof cases
    case 1
    have r: "u128_shift_right_round m 0 k b = 0" for k b by (simp add: u128_shift_right_round_def)
    have "f80_from_double d = f80_normalize (mk80 0 0 n)"
      unfolding unfold using 1 by (simp add: EXP64_SPECIAL_def EXP64_DENORMAL_def)
    then have "f80_from_double d = Some (mk80 0 0 n)"
      by (simp add: f80_normalize_def f80_is_supported_def EXP_DENORMAL_def)
    moreover have "f80_to_double m (mk80 0 0 n) = double_bits 0 0 n"
      using f80_to_double_denormal [of 0 0 n "- 15360" m 0 15360 0] r
      by (simp add: f80_is_supported_def EXP_DENORMAL_def EXP_SPECIAL_def unbias_eq exp15_def)
    ultimately show ?thesis using d 1 by simp
  next
    case 2
    have "f80_from_double d = f80_normalize (mk80 (s * 2 ^ 11) 15361 n)"
      unfolding unfold using 2 by (simp add: EXP64_SPECIAL_def EXP64_DENORMAL_def exp15_bias)
    then show ?thesis using f80_double_denormal [OF 2(2) s, of n m] d 2(1) by simp
  next
    case 3
    let ?x = "if e = EXP64_SPECIAL then EXP_SPECIAL else e + 15360"
    have "exp15 (int (bias (int e - 1023))) = e + 15360"
      using e by (simp add: exp15_bias EXP64_SPECIAL_def nat_add_distrib)
    then have "f80_from_double d = f80_normalize (mk80 (s * 2 ^ 11 + 2 ^ 63) ?x n)"
      unfolding unfold using 3 by (simp add: EXP64_DENORMAL_def)
    also have "\<dots> = Some (mk80 (s * 2 ^ 11 + 2 ^ 63) ?x n)"
      using s 3 e by (intro f80_normalize_id) (auto simp: EXP_SPECIAL_def EXP64_SPECIAL_def)
    finally show ?thesis using f80_to_double_wide [OF s 3 e refl, of m n] d by simp
  qed
qed

theorem f80_double_roundtrip_witness:
  "\<exists>f. f80_from_double 0x8000000000000001 = Some f \<and> f80_to_double round_down f = 0x8000000000000001"
  by (rule f80_double_roundtrip) simp

end
