(* ===== verification/Vec.thy ===== *)
theory Vec
  imports Prelude
begin

text \<open>
  The integer vector operations of \<^verbatim>\<open>emu/vec.c\<close> (SSE) and \<^verbatim>\<open>emu/mmx.c\<close> (MMX). The unions
  \<^verbatim>\<open>xmm_reg\<close> and \<^verbatim>\<open>mm_reg\<close> are their 128-bit and 64-bit little-endian values; \<open>lane w x i\<close> is
  the \<open>i\<close>-th field of \<open>w\<close> bits. The helpers take pointers that may be equal, so the
  operations act on a store from locations to values, with the loops and assignments in the
  order of the code. Comparisons of floating point values are modelled on their IEEE 754 bit
  patterns; arithmetic on them and conversions are not modelled. Signed arithmetic wraps where
  C leaves the overflow undefined (\<^verbatim>\<open>vec_madd_d128\<close> on four fields equal to -32768, the products
  of \<^verbatim>\<open>vec_mull128\<close> and \<^verbatim>\<open>vec_muluu128\<close> above \<^verbatim>\<open>INT_MAX\<close>).
\<close>

section \<open>Definitions\<close>

type_synonym vregs = "nat \<Rightarrow> nat"

definition lane :: "nat \<Rightarrow> nat \<Rightarrow> nat \<Rightarrow> nat" where
  "lane w x i = x div (2 ^ w) ^ i mod 2 ^ w"

definition set_lane :: "nat \<Rightarrow> nat \<Rightarrow> nat \<Rightarrow> nat \<Rightarrow> nat" where
  "set_lane w x i v =
     x mod (2 ^ w) ^ i + v mod 2 ^ w * (2 ^ w) ^ i + x div (2 ^ w) ^ Suc i * (2 ^ w) ^ Suc i"

definition vget :: "nat \<Rightarrow> vregs \<Rightarrow> nat \<Rightarrow> nat \<Rightarrow> nat" where
  "vget w r p i = lane w (r p) i"

definition vset :: "nat \<Rightarrow> nat \<Rightarrow> nat \<Rightarrow> nat \<Rightarrow> vregs \<Rightarrow> vregs" where
  "vset w p i v r = r(p := set_lane w (r p) i v)"

text \<open>A \<open>w\<close>-bit value read as a signed integer, and a signed result stored in \<open>w\<close> bits.\<close>

definition sget :: "nat \<Rightarrow> nat \<Rightarrow> int" where
  "sget w x = (if x < 2 ^ (w - 1) then int x else int x - 2 ^ w)"

definition sput :: "nat \<Rightarrow> int \<Rightarrow> nat" where
  "sput w i = nat (i mod 2 ^ w)"

text \<open>
  The loop \<^verbatim>\<open>for i: dst[i] = f(dst[i], src[i])\<close> over fields of \<open>w\<close> bits, and the same without a
  source.
\<close>

definition lane_loop :: "nat \<Rightarrow> nat \<Rightarrow> (nat \<Rightarrow> nat \<Rightarrow> nat) \<Rightarrow> nat \<Rightarrow> nat \<Rightarrow> vregs \<Rightarrow> vregs" where
  "lane_loop w n f s d r = fold (\<lambda>i r. vset w d i (f (vget w r d i) (vget w r s i)) r) [0..<n] r"

definition lane_loop1 :: "nat \<Rightarrow> nat \<Rightarrow> (nat \<Rightarrow> nat) \<Rightarrow> nat \<Rightarrow> vregs \<Rightarrow> vregs" where
  "lane_loop1 w n f d r = fold (\<lambda>i r. vset w d i (f (vget w r d i)) r) [0..<n] r"

text \<open>The loops of the macros, on the local copies \<^verbatim>\<open>d\<close> and \<^verbatim>\<open>s\<close> of the two registers.\<close>

definition lane_map1 :: "nat \<Rightarrow> nat \<Rightarrow> (nat \<Rightarrow> nat) \<Rightarrow> nat \<Rightarrow> nat" where
  "lane_map1 w n f x = fold (\<lambda>i x. set_lane w x i (f (lane w x i))) [0..<n] x"

definition lane_map2 :: "nat \<Rightarrow> nat \<Rightarrow> (nat \<Rightarrow> nat \<Rightarrow> nat) \<Rightarrow> nat \<Rightarrow> nat \<Rightarrow> nat" where
  "lane_map2 w n f x y = fold (\<lambda>i x. set_lane w x i (f (lane w x i) (lane w y i))) [0..<n] x"

subsection \<open>Saturation\<close>

definition zero_xmm :: "nat \<Rightarrow> vregs \<Rightarrow> vregs" where
  "zero_xmm d r = vset 64 d 1 0 (vset 64 d 0 0 r)"

definition satsw :: "nat \<Rightarrow> nat" where
  "satsw dw = (if dw > 0xff80 then dw AND 0xff
     else if dw > 0x7fff then 0x80 else if dw > 0x7f then 0x7f else dw)"

definition satud :: "nat \<Rightarrow> nat" where
  "satud dw = (if dw > 0xffff8000 then dw AND 0xffff
     else if dw > 0x7fffffff then 0x8000 else if dw > 0x7fff then 0x7fff else dw)"

definition satub :: "nat \<Rightarrow> nat" where
  "satub dw = (if dw \<ge> 0x8000 then 0 else if dw > 0xff then 0xff else dw)"

definition satsb :: "nat \<Rightarrow> nat" where
  "satsb dw = (if dw > 0xffffff80 then dw AND 0xff
     else if dw > 0x7fffffff then 0x80 else if dw > 0x7f then 0x7f else dw)"

subsection \<open>Moves\<close>

text \<open>\<^verbatim>\<open>VEC_ZERO_COPY(z, c)\<close>: \<open>c\<close> bits copied, zeros up to \<open>z\<close> bits, the rest of the register kept.\<close>

definition vec_zero_copy :: "nat \<Rightarrow> nat \<Rightarrow> nat \<Rightarrow> nat \<Rightarrow> vregs \<Rightarrow> vregs" where
  "vec_zero_copy z c s d r = r(d := r s mod 2 ^ c + r d div 2 ^ z * 2 ^ z)"

abbreviation vec_zero128_copy128 :: "nat \<Rightarrow> nat \<Rightarrow> vregs \<Rightarrow> vregs" where
  "vec_zero128_copy128 \<equiv> vec_zero_copy 128 128"

abbreviation vec_zero128_copy64 :: "nat \<Rightarrow> nat \<Rightarrow> vregs \<Rightarrow> vregs" where
  "vec_zero128_copy64 \<equiv> vec_zero_copy 128 64"

abbreviation vec_zero128_copy32 :: "nat \<Rightarrow> nat \<Rightarrow> vregs \<Rightarrow> vregs" where
  "vec_zero128_copy32 \<equiv> vec_zero_copy 128 32"

abbreviation vec_zero64_copy64 :: "nat \<Rightarrow> nat \<Rightarrow> vregs \<Rightarrow> vregs" where
  "vec_zero64_copy64 \<equiv> vec_zero_copy 64 64"

abbreviation vec_zero64_copy32 :: "nat \<Rightarrow> nat \<Rightarrow> vregs \<Rightarrow> vregs" where
  "vec_zero64_copy32 \<equiv> vec_zero_copy 64 32"

abbreviation vec_zero32_copy32 :: "nat \<Rightarrow> nat \<Rightarrow> vregs \<Rightarrow> vregs" where
  "vec_zero32_copy32 \<equiv> vec_zero_copy 32 32"

definition vec_merge32 :: "nat \<Rightarrow> nat \<Rightarrow> vregs \<Rightarrow> vregs" where
  "vec_merge32 s d r = vset 32 d 0 (vget 32 r s 0) r"

definition vec_merge64 :: "nat \<Rightarrow> nat \<Rightarrow> vregs \<Rightarrow> vregs" where
  "vec_merge64 s d r = vset 64 d 0 (vget 64 r s 0) r"

definition vec_merge128 :: "nat \<Rightarrow> nat \<Rightarrow> vregs \<Rightarrow> vregs" where
  "vec_merge128 s d r = vset 128 d 0 (vget 128 r s 0) r"

subsection \<open>Shifts, comparisons and arithmetic generated by the SSE macros\<close>

definition sse_shift :: "nat \<Rightarrow> (nat \<Rightarrow> nat \<Rightarrow> nat) \<Rightarrow> nat \<Rightarrow> nat \<Rightarrow> vregs \<Rightarrow> vregs" where
  "sse_shift w shift amount d r =
     (if amount > w - 1 then zero_xmm d r
      else r(d := lane_map1 w (128 div w) (\<lambda>x. shift x amount) (r d)))"

definition shr :: "nat \<Rightarrow> nat \<Rightarrow> nat" where "shr x n = x div 2 ^ n"

definition shl :: "nat \<Rightarrow> nat \<Rightarrow> nat" where "shl x n = x * 2 ^ n"

definition sse_cmp :: "nat \<Rightarrow> (nat \<Rightarrow> nat \<Rightarrow> bool) \<Rightarrow> nat \<Rightarrow> nat \<Rightarrow> vregs \<Rightarrow> vregs" where
  "sse_cmp w rel s d r =
     r(d := lane_map2 w (128 div w) (\<lambda>d s. if rel d s then 2 ^ w - 1 else 0) (r d) (r s))"

definition sse_op :: "nat \<Rightarrow> (nat \<Rightarrow> nat \<Rightarrow> nat) \<Rightarrow> nat \<Rightarrow> nat \<Rightarrow> vregs \<Rightarrow> vregs" where
  "sse_op w f s d r = r(d := lane_map2 w (128 div w) f (r d) (r s))"

definition sub_mod :: "nat \<Rightarrow> nat \<Rightarrow> nat \<Rightarrow> nat" where
  "sub_mod w a b = a + (2 ^ w - b)"

definition gt_signed :: "nat \<Rightarrow> nat \<Rightarrow> nat \<Rightarrow> bool" where
  "gt_signed w a b \<longleftrightarrow> sget w a > sget w b"

abbreviation (input) vec_shiftr_w128 :: "nat \<Rightarrow> nat \<Rightarrow> vregs \<Rightarrow> vregs" where
  "vec_shiftr_w128 s d r \<equiv> sse_shift 16 shr (vget 8 r s 0) d r"

abbreviation vec_imm_shiftr_w128 :: "nat \<Rightarrow> nat \<Rightarrow> vregs \<Rightarrow> vregs" where
  "vec_imm_shiftr_w128 \<equiv> sse_shift 16 shr"

abbreviation (input) vec_shiftr_d128 :: "nat \<Rightarrow> nat \<Rightarrow> vregs \<Rightarrow> vregs" where
  "vec_shiftr_d128 s d r \<equiv> sse_shift 32 shr (vget 8 r s 0) d r"

abbreviation vec_imm_shiftr_d128 :: "nat \<Rightarrow> nat \<Rightarrow> vregs \<Rightarrow> vregs" where
  "vec_imm_shiftr_d128 \<equiv> sse_shift 32 shr"

abbreviation (input) vec_shiftr_q128 :: "nat \<Rightarrow> nat \<Rightarrow> vregs \<Rightarrow> vregs" where
  "vec_shiftr_q128 s d r \<equiv> sse_shift 64 shr (vget 8 r s 0) d r"

abbreviation vec_imm_shiftr_q128 :: "nat \<Rightarrow> nat \<Rightarrow> vregs \<Rightarrow> vregs" where
  "vec_imm_shiftr_q128 \<equiv> sse_shift 64 shr"

abbreviation (input) vec_shiftl_w128 :: "nat \<Rightarrow> nat \<Rightarrow> vregs \<Rightarrow> vregs" where
  "vec_shiftl_w128 s d r \<equiv> sse_shift 16 shl (vget 8 r s 0) d r"

abbreviation vec_imm_shiftl_w128 :: "nat \<Rightarrow> nat \<Rightarrow> vregs \<Rightarrow> vregs" where
  "vec_imm_shiftl_w128 \<equiv> sse_shift 16 shl"

abbreviation (input) vec_shiftl_d128 :: "nat \<Rightarrow> nat \<Rightarrow> vregs \<Rightarrow> vregs" where
  "vec_shiftl_d128 s d r \<equiv> sse_shift 32 shl (vget 8 r s 0) d r"

abbreviation vec_imm_shiftl_d128 :: "nat \<Rightarrow> nat \<Rightarrow> vregs \<Rightarrow> vregs" where
  "vec_imm_shiftl_d128 \<equiv> sse_shift 32 shl"

abbreviation (input) vec_shiftl_q128 :: "nat \<Rightarrow> nat \<Rightarrow> vregs \<Rightarrow> vregs" where
  "vec_shiftl_q128 s d r \<equiv> sse_shift 64 shl (vget 8 r s 0) d r"

abbreviation vec_imm_shiftl_q128 :: "nat \<Rightarrow> nat \<Rightarrow> vregs \<Rightarrow> vregs" where
  "vec_imm_shiftl_q128 \<equiv> sse_shift 64 shl"

abbreviation vec_compare_eqb128 :: "nat \<Rightarrow> nat \<Rightarrow> vregs \<Rightarrow> vregs" where
  "vec_compare_eqb128 \<equiv> sse_cmp 8 (=)"

abbreviation vec_compare_eqw128 :: "nat \<Rightarrow> nat \<Rightarrow> vregs \<Rightarrow> vregs" where
  "vec_compare_eqw128 \<equiv> sse_cmp 16 (=)"

abbreviation vec_compare_eqd128 :: "nat \<Rightarrow> nat \<Rightarrow> vregs \<Rightarrow> vregs" where
  "vec_compare_eqd128 \<equiv> sse_cmp 32 (=)"

abbreviation vec_compares_gtb128 :: "nat \<Rightarrow> nat \<Rightarrow> vregs \<Rightarrow> vregs" where
  "vec_compares_gtb128 \<equiv> sse_cmp 8 (gt_signed 8)"

abbreviation vec_compares_gtw128 :: "nat \<Rightarrow> nat \<Rightarrow> vregs \<Rightarrow> vregs" where
  "vec_compares_gtw128 \<equiv> sse_cmp 16 (gt_signed 16)"

abbreviation vec_compares_gtd128 :: "nat \<Rightarrow> nat \<Rightarrow> vregs \<Rightarrow> vregs" where
  "vec_compares_gtd128 \<equiv> sse_cmp 32 (gt_signed 32)"

abbreviation vec_add_b128 :: "nat \<Rightarrow> nat \<Rightarrow> vregs \<Rightarrow> vregs" where
  "vec_add_b128 \<equiv> sse_op 8 (+)"

abbreviation vec_add_w128 :: "nat \<Rightarrow> nat \<Rightarrow> vregs \<Rightarrow> vregs" where
  "vec_add_w128 \<equiv> sse_op 16 (+)"

abbreviation vec_add_d128 :: "nat \<Rightarrow> nat \<Rightarrow> vregs \<Rightarrow> vregs" where
  "vec_add_d128 \<equiv> sse_op 32 (+)"

abbreviation vec_add_q128 :: "nat \<Rightarrow> nat \<Rightarrow> vregs \<Rightarrow> vregs" where
  "vec_add_q128 \<equiv> sse_op 64 (+)"

abbreviation vec_sub_b128 :: "nat \<Rightarrow> nat \<Rightarrow> vregs \<Rightarrow> vregs" where
  "vec_sub_b128 \<equiv> sse_op 8 (sub_mod 8)"

abbreviation vec_sub_w128 :: "nat \<Rightarrow> nat \<Rightarrow> vregs \<Rightarrow> vregs" where
  "vec_sub_w128 \<equiv> sse_op 16 (sub_mod 16)"

abbreviation vec_sub_d128 :: "nat \<Rightarrow> nat \<Rightarrow> vregs \<Rightarrow> vregs" where
  "vec_sub_d128 \<equiv> sse_op 32 (sub_mod 32)"

abbreviation vec_sub_q128 :: "nat \<Rightarrow> nat \<Rightarrow> vregs \<Rightarrow> vregs" where
  "vec_sub_q128 \<equiv> sse_op 64 (sub_mod 64)"

abbreviation vec_and_dq128 :: "nat \<Rightarrow> nat \<Rightarrow> vregs \<Rightarrow> vregs" where
  "vec_and_dq128 \<equiv> sse_op 128 (AND)"

abbreviation vec_or_dq128 :: "nat \<Rightarrow> nat \<Rightarrow> vregs \<Rightarrow> vregs" where
  "vec_or_dq128 \<equiv> sse_op 128 (OR)"

abbreviation vec_xor_dq128 :: "nat \<Rightarrow> nat \<Rightarrow> vregs \<Rightarrow> vregs" where
  "vec_xor_dq128 \<equiv> sse_op 128 (XOR)"

definition vec_imm_shiftl_dq128 :: "nat \<Rightarrow> nat \<Rightarrow> vregs \<Rightarrow> vregs" where
  "vec_imm_shiftl_dq128 amount d r =
     (if amount \<ge> 16 then zero_xmm d r else vset 128 d 0 (shl (vget 128 r d 0) (amount * 8)) r)"

definition vec_imm_shiftr_dq128 :: "nat \<Rightarrow> nat \<Rightarrow> vregs \<Rightarrow> vregs" where
  "vec_imm_shiftr_dq128 amount d r =
     (if amount \<ge> 16 then zero_xmm d r else vset 128 d 0 (shr (vget 128 r d 0) (amount * 8)) r)"

text \<open>One field of an arithmetic right shift.\<close>

definition sar :: "nat \<Rightarrow> nat \<Rightarrow> nat \<Rightarrow> nat" where
  "sar w amount x =
     (if amount > w - 1 then (if x div 2 ^ (w - 1) mod 2 = 1 then 2 ^ w - 1 else 0)
      else sput w (sget w x div 2 ^ amount))"

definition vec_imm_shiftrs_w128 :: "nat \<Rightarrow> nat \<Rightarrow> vregs \<Rightarrow> vregs" where
  "vec_imm_shiftrs_w128 amount d r = lane_loop1 16 8 (sar 16 amount) d r"

definition vec_imm_shiftrs_d128 :: "nat \<Rightarrow> nat \<Rightarrow> vregs \<Rightarrow> vregs" where
  "vec_imm_shiftrs_d128 amount d r = lane_loop1 32 4 (sar 32 amount) d r"

definition vec_shiftrs_w128 :: "nat \<Rightarrow> nat \<Rightarrow> vregs \<Rightarrow> vregs" where
  "vec_shiftrs_w128 s d r = lane_loop1 16 8 (sar 16 (vget 8 r s 0)) d r"

definition vec_shiftrs_d128 :: "nat \<Rightarrow> nat \<Rightarrow> vregs \<Rightarrow> vregs" where
  "vec_shiftrs_d128 s d r = lane_loop1 32 4 (sar 32 (vget 8 r s 0)) d r"

subsection \<open>Saturating arithmetic\<close>

definition vec_addus_b128 :: "nat \<Rightarrow> nat \<Rightarrow> vregs \<Rightarrow> vregs" where
  "vec_addus_b128 = lane_loop 8 16 (\<lambda>d s. if d + s > 0xff then 0xff else d + s)"

definition vec_addus_w128 :: "nat \<Rightarrow> nat \<Rightarrow> vregs \<Rightarrow> vregs" where
  "vec_addus_w128 = lane_loop 16 8 (\<lambda>d s. if d + s > 0xffff then 0xffff else d + s)"

definition vec_addss_b128 :: "nat \<Rightarrow> nat \<Rightarrow> vregs \<Rightarrow> vregs" where
  "vec_addss_b128 = lane_loop 8 16 (\<lambda>d s. satsb (sput 32 (sget 8 d + sget 8 s)))"

definition vec_addss_w128 :: "nat \<Rightarrow> nat \<Rightarrow> vregs \<Rightarrow> vregs" where
  "vec_addss_w128 = lane_loop 16 8 (\<lambda>d s. satud (sput 32 (sget 16 d + sget 16 s)))"

definition vec_subus_b128 :: "nat \<Rightarrow> nat \<Rightarrow> vregs \<Rightarrow> vregs" where
  "vec_subus_b128 = lane_loop 8 16 (\<lambda>d s. if int d - int s < 0 then 0 else d - s)"

definition vec_subus_w128 :: "nat \<Rightarrow> nat \<Rightarrow> vregs \<Rightarrow> vregs" where
  "vec_subus_w128 = lane_loop 16 8 (\<lambda>d s. if int d - int s < 0 then 0 else d - s)"

definition vec_subss_b128 :: "nat \<Rightarrow> nat \<Rightarrow> vregs \<Rightarrow> vregs" where
  "vec_subss_b128 = lane_loop 8 16 (\<lambda>d s. satsb (sput 32 (sget 8 d - sget 8 s)))"

definition vec_subss_w128 :: "nat \<Rightarrow> nat \<Rightarrow> vregs \<Rightarrow> vregs" where
  "vec_subss_w128 = lane_loop 16 8 (\<lambda>d s. satud (sput 32 (sget 16 d - sget 16 s)))"

text \<open>One of the four assignments of \<^verbatim>\<open>vec_madd_d128\<close>.\<close>

definition madd :: "nat \<Rightarrow> nat \<Rightarrow> nat \<Rightarrow> vregs \<Rightarrow> vregs" where
  "madd k s d r = vset 32 d k
     (sput 32 (sget 16 (vget 16 r d (2 * k)) * sget 16 (vget 16 r s (2 * k)) +
               sget 16 (vget 16 r d (2 * k + 1)) * sget 16 (vget 16 r s (2 * k + 1)))) r"

definition vec_madd_d128 :: "nat \<Rightarrow> nat \<Rightarrow> vregs \<Rightarrow> vregs" where
  "vec_madd_d128 s d r = madd 3 s d (madd 2 s d (madd 1 s d (madd 0 s d r)))"

definition vec_sumabs_w128 :: "nat \<Rightarrow> nat \<Rightarrow> vregs \<Rightarrow> vregs" where
  "vec_sumabs_w128 s d r =
     (let diff = (\<lambda>i. nat \<bar>int (vget 8 r d i) - int (vget 8 r s i)\<bar>);
          sum0 = sum_list (map (\<lambda>i. diff i) [0..<8]) mod 2 ^ 32;
          sum1 = sum_list (map (\<lambda>i. diff (i + 8)) [0..<8]) mod 2 ^ 32
      in vset 32 d 1 0 (vset 32 d 3 0 (vset 32 d 2 sum1 (vset 32 d 0 sum0 r))))"

definition vec_mulu_dq128 :: "nat \<Rightarrow> nat \<Rightarrow> vregs \<Rightarrow> vregs" where
  "vec_mulu_dq128 s d r =
     (let r1 = vset 64 d 0 (vget 32 r s 0 * vget 32 r d 0) r
      in vset 64 d 1 (vget 32 r1 s 2 * vget 32 r1 d 2) r1)"

definition vec_andn128 :: "nat \<Rightarrow> nat \<Rightarrow> vregs \<Rightarrow> vregs" where
  "vec_andn128 = lane_loop 64 2 (\<lambda>d s. (2 ^ 64 - 1 - d) AND s)"

definition vec_min_ub128 :: "nat \<Rightarrow> nat \<Rightarrow> vregs \<Rightarrow> vregs" where
  "vec_min_ub128 = lane_loop 8 16 (\<lambda>d s. if s < d then s else d)"

definition vec_max_ub128 :: "nat \<Rightarrow> nat \<Rightarrow> vregs \<Rightarrow> vregs" where
  "vec_max_ub128 = lane_loop 8 16 (\<lambda>d s. if s > d then s else d)"

definition vec_mins_w128 :: "nat \<Rightarrow> nat \<Rightarrow> vregs \<Rightarrow> vregs" where
  "vec_mins_w128 = lane_loop 16 8 (\<lambda>d s. if sget 16 d < sget 16 s then d else s)"

definition vec_maxs_w128 :: "nat \<Rightarrow> nat \<Rightarrow> vregs \<Rightarrow> vregs" where
  "vec_maxs_w128 = lane_loop 16 8 (\<lambda>d s. if sget 16 d > sget 16 s then d else s)"

subsection \<open>Comparisons of floating point values\<close>

text \<open>
  A value of type \<^verbatim>\<open>float\<close> or \<^verbatim>\<open>double\<close> is its bit pattern, with \<open>m\<close> bits of mantissa and \<open>e\<close> of
  exponent. The order of the patterns that are not NaNs is that of \<open>fkey\<close>.
\<close>

definition fnan :: "nat \<Rightarrow> nat \<Rightarrow> nat \<Rightarrow> bool" where
  "fnan e m x \<longleftrightarrow> x mod 2 ^ (e + m) > (2 ^ e - 1) * 2 ^ m"

definition fkey :: "nat \<Rightarrow> nat \<Rightarrow> nat \<Rightarrow> int" where
  "fkey e m x =
     (if x div 2 ^ (e + m) mod 2 = 1 then - int (x mod 2 ^ (e + m)) else int (x mod 2 ^ (e + m)))"

definition feq :: "nat \<Rightarrow> nat \<Rightarrow> nat \<Rightarrow> nat \<Rightarrow> bool" where
  "feq e m a b \<longleftrightarrow> \<not> fnan e m a \<and> \<not> fnan e m b \<and> fkey e m a = fkey e m b"

definition flt :: "nat \<Rightarrow> nat \<Rightarrow> nat \<Rightarrow> nat \<Rightarrow> bool" where
  "flt e m a b \<longleftrightarrow> \<not> fnan e m a \<and> \<not> fnan e m b \<and> fkey e m a < fkey e m b"

definition fle :: "nat \<Rightarrow> nat \<Rightarrow> nat \<Rightarrow> nat \<Rightarrow> bool" where
  "fle e m a b \<longleftrightarrow> \<not> fnan e m a \<and> \<not> fnan e m b \<and> fkey e m a \<le> fkey e m b"

definition cmpd :: "nat \<Rightarrow> nat \<Rightarrow> nat \<Rightarrow> bool" where
  "cmpd a b type =
     (let res = (if type mod 4 = 0 then feq 11 52 a b else if type mod 4 = 1 then flt 11 52 a b
                 else if type mod 4 = 2 then fle 11 52 a b else fnan 11 52 a \<or> fnan 11 52 b)
      in if type \<ge> 4 then \<not> res else res)"

definition cmps :: "nat \<Rightarrow> nat \<Rightarrow> nat \<Rightarrow> bool" where
  "cmps a b type =
     (let res = (if type mod 4 = 0 then feq 8 23 a b else if type mod 4 = 1 then flt 8 23 a b
                 else if type mod 4 = 2 then fle 8 23 a b else fnan 8 23 a \<or> fnan 8 23 b)
      in if type \<ge> 4 then \<not> res else res)"

definition vec_single_fcmp64 :: "nat \<Rightarrow> nat \<Rightarrow> nat \<Rightarrow> vregs \<Rightarrow> vregs" where
  "vec_single_fcmp64 type s d r =
     vset 64 d 0 (if cmpd (vget 64 r d 0) (vget 64 r s 0) type then 2 ^ 64 - 1 else 0) r"

definition vec_single_fcmp32 :: "nat \<Rightarrow> nat \<Rightarrow> nat \<Rightarrow> vregs \<Rightarrow> vregs" where
  "vec_single_fcmp32 type s d r =
     vset 32 d 0 (if cmps (vget 32 r d 0) (vget 32 r s 0) type then 2 ^ 32 - 1 else 0) r"

definition vec_single_fmax64 :: "nat \<Rightarrow> nat \<Rightarrow> vregs \<Rightarrow> vregs" where
  "vec_single_fmax64 s d r =
     (let a = vget 64 r s 0; b = vget 64 r d 0
      in if flt 11 52 b a \<or> fnan 11 52 a \<or> fnan 11 52 b then vset 64 d 0 a r else r)"

definition vec_single_fmin64 :: "nat \<Rightarrow> nat \<Rightarrow> vregs \<Rightarrow> vregs" where
  "vec_single_fmin64 s d r =
     (let a = vget 64 r s 0; b = vget 64 r d 0
      in if flt 11 52 a b \<or> fnan 11 52 a \<or> fnan 11 52 b then vset 64 d 0 a r else r)"

definition vec_single_fmax32 :: "nat \<Rightarrow> nat \<Rightarrow> vregs \<Rightarrow> vregs" where
  "vec_single_fmax32 s d r =
     (let a = vget 32 r s 0; b = vget 32 r d 0
      in if flt 8 23 b a \<or> fnan 8 23 a \<or> fnan 8 23 b then vset 32 d 0 a r else r)"

definition vec_single_fmin32 :: "nat \<Rightarrow> nat \<Rightarrow> vregs \<Rightarrow> vregs" where
  "vec_single_fmin32 s d r =
     (let a = vget 32 r s 0; b = vget 32 r d 0
      in if flt 8 23 a b \<or> fnan 8 23 a \<or> fnan 8 23 b then vset 32 d 0 a r else r)"

text \<open>The flags of \<^verbatim>\<open>struct cpu_state\<close> that the comparisons write.\<close>

record cpu_flags =
  cf :: bool
  pf :: bool
  af :: bool
  zf :: bool
  sf :: bool
  of_flag :: bool
  pf_res :: bool
  zf_res :: bool
  sf_res :: bool

definition ucomi_flags :: "bool \<Rightarrow> bool \<Rightarrow> bool \<Rightarrow> cpu_flags \<Rightarrow> cpu_flags" where
  "ucomi_flags eq gt unordered cpu =
     cpu\<lparr>zf_res := False, pf_res := False, zf := eq \<or> unordered, cf := gt \<or> unordered,
         pf := unordered, of_flag := False, sf := False, af := False, sf_res := False\<rparr>"

definition vec_single_ucomi32 :: "nat \<Rightarrow> nat \<Rightarrow> vregs \<Rightarrow> cpu_flags \<Rightarrow> cpu_flags" where
  "vec_single_ucomi32 s d r cpu =
     (let a = vget 32 r s 0; b = vget 32 r d 0
      in ucomi_flags (feq 8 23 a b) (flt 8 23 b a) (fnan 8 23 a \<or> fnan 8 23 b) cpu)"

definition vec_single_ucomi64 :: "nat \<Rightarrow> nat \<Rightarrow> vregs \<Rightarrow> cpu_flags \<Rightarrow> cpu_flags" where
  "vec_single_ucomi64 s d r cpu =
     (let a = vget 64 r s 0; b = vget 64 r d 0
      in ucomi_flags (feq 11 52 a b) (flt 11 52 b a) (fnan 11 52 a \<or> fnan 11 52 b) cpu)"

definition vec_fcmp_p64 :: "nat \<Rightarrow> nat \<Rightarrow> nat \<Rightarrow> vregs \<Rightarrow> vregs" where
  "vec_fcmp_p64 type = lane_loop 64 2 (\<lambda>d s. if cmpd d s type then 2 ^ 64 - 1 else 0)"

subsection \<open>Unpacking, packing, shuffling\<close>

definition vec_unpackl_bw128 :: "nat \<Rightarrow> nat \<Rightarrow> vregs \<Rightarrow> vregs" where
  "vec_unpackl_bw128 s d r =
     fold (\<lambda>i r. let r1 = vset 8 d (i * 2 + 1) (vget 8 r s i) r
                 in vset 8 d (i * 2) (vget 8 r1 d i) r1) (rev [0..<8]) r"

definition vec_unpackl_w128 :: "nat \<Rightarrow> nat \<Rightarrow> vregs \<Rightarrow> vregs" where
  "vec_unpackl_w128 s d r =
     fold (\<lambda>i r. let r1 = vset 16 d (i * 2 + 1) (vget 16 r s i) r
                 in vset 16 d (i * 2) (vget 16 r1 d i) r1) (rev [0..<4]) r"

definition vec_unpackl_dq128 :: "nat \<Rightarrow> nat \<Rightarrow> vregs \<Rightarrow> vregs" where
  "vec_unpackl_dq128 s d r =
     (let r1 = vset 32 d 3 (vget 32 r s 1) r; r2 = vset 32 d 2 (vget 32 r1 d 1) r1
      in vset 32 d 1 (vget 32 r2 s 0) r2)"

definition vec_unpackl_qdq128 :: "nat \<Rightarrow> nat \<Rightarrow> vregs \<Rightarrow> vregs" where
  "vec_unpackl_qdq128 s d r = vset 64 d 1 (vget 64 r s 0) r"

definition vec_unpackl_ps128 :: "nat \<Rightarrow> nat \<Rightarrow> vregs \<Rightarrow> vregs" where
  "vec_unpackl_ps128 s d r =
     (let r1 = vset 32 d 2 (vget 32 r d 1) r; r2 = vset 32 d 1 (vget 32 r1 s 0) r1
      in vset 32 d 3 (vget 32 r2 s 1) r2)"

definition vec_unpackl_pd128 :: "nat \<Rightarrow> nat \<Rightarrow> vregs \<Rightarrow> vregs" where
  "vec_unpackl_pd128 s d r = vset 64 d 1 (vget 64 r s 0) r"

definition vec_unpackh_bw128 :: "nat \<Rightarrow> nat \<Rightarrow> vregs \<Rightarrow> vregs" where
  "vec_unpackh_bw128 s d r =
     fold (\<lambda>i r. let r1 = vset 8 d (2 * i) (vget 8 r d (i + 8)) r
                 in vset 8 d (2 * i + 1) (vget 8 r1 s (i + 8)) r1) [0..<8] r"

definition vec_unpackh_w128 :: "nat \<Rightarrow> nat \<Rightarrow> vregs \<Rightarrow> vregs" where
  "vec_unpackh_w128 s d r =
     fold (\<lambda>i r. let r1 = vset 16 d (2 * i) (vget 16 r d (i + 4)) r
                 in vset 16 d (2 * i + 1) (vget 16 r1 s (i + 4)) r1) [0..<4] r"

definition vec_unpackh_d128 :: "nat \<Rightarrow> nat \<Rightarrow> vregs \<Rightarrow> vregs" where
  "vec_unpackh_d128 s d r =
     (let r1 = vset 32 d 0 (vget 32 r d 2) r; r2 = vset 32 d 1 (vget 32 r1 s 2) r1;
          r3 = vset 32 d 2 (vget 32 r2 d 3) r2
      in vset 32 d 3 (vget 32 r3 s 3) r3)"

definition vec_unpackh_dq128 :: "nat \<Rightarrow> nat \<Rightarrow> vregs \<Rightarrow> vregs" where
  "vec_unpackh_dq128 s d r =
     (let r1 = vset 64 d 0 (vget 64 r d 1) r in vset 64 d 1 (vget 64 r1 s 1) r1)"

definition vec_unpackh_ps128 :: "nat \<Rightarrow> nat \<Rightarrow> vregs \<Rightarrow> vregs" where
  "vec_unpackh_ps128 s d r =
     (let r1 = vset 32 d 0 (vget 32 r d 2) r; r2 = vset 32 d 1 (vget 32 r1 s 2) r1;
          r3 = vset 32 d 2 (vget 32 r2 d 3) r2
      in vset 32 d 3 (vget 32 r3 s 3) r3)"

definition vec_unpackh_pd128 :: "nat \<Rightarrow> nat \<Rightarrow> vregs \<Rightarrow> vregs" where
  "vec_unpackh_pd128 s d r =
     (let r1 = vset 64 d 0 (vget 64 r d 1) r in vset 64 d 1 (vget 64 r1 s 1) r1)"

text \<open>Four saturated bytes of \<open>p\<close>, from its 16-bit field \<open>i\<close> on, as one 32-bit value.\<close>

definition pack4 :: "(nat \<Rightarrow> nat) \<Rightarrow> nat \<Rightarrow> nat \<Rightarrow> vregs \<Rightarrow> nat" where
  "pack4 sat p i r =
     sat (vget 16 r p i) OR shl (sat (vget 16 r p (i + 1))) 8 OR
     shl (sat (vget 16 r p (i + 2))) 16 OR shl (sat (vget 16 r p (i + 3))) 24"

definition pack_w128 :: "(nat \<Rightarrow> nat) \<Rightarrow> nat \<Rightarrow> nat \<Rightarrow> vregs \<Rightarrow> vregs" where
  "pack_w128 sat s d r =
     (let r1 = vset 32 d 0 (pack4 sat d 0 r) r; r2 = vset 32 d 1 (pack4 sat d 4 r1) r1;
          r3 = vset 32 d 2 (pack4 sat s 0 r2) r2
      in vset 32 d 3 (pack4 sat s 4 r3) r3)"

definition vec_packss_w128 :: "nat \<Rightarrow> nat \<Rightarrow> vregs \<Rightarrow> vregs" where
  "vec_packss_w128 = pack_w128 satsw"

definition vec_packsu_w128 :: "nat \<Rightarrow> nat \<Rightarrow> vregs \<Rightarrow> vregs" where
  "vec_packsu_w128 = pack_w128 satub"

definition pack2 :: "nat \<Rightarrow> nat \<Rightarrow> vregs \<Rightarrow> nat" where
  "pack2 p i r = satud (vget 32 r p i) OR shl (satud (vget 32 r p (i + 1))) 16"

definition vec_packss_d128 :: "nat \<Rightarrow> nat \<Rightarrow> vregs \<Rightarrow> vregs" where
  "vec_packss_d128 s d r =
     (let r1 = vset 32 d 0 (pack2 d 0 r) r; r2 = vset 32 d 1 (pack2 d 2 r1) r1;
          r3 = vset 32 d 2 (pack2 s 0 r2) r2
      in vset 32 d 3 (pack2 s 2 r3) r3)"

text \<open>The \<open>i\<close>-th two-bit selector of an immediate.\<close>

definition sel :: "nat \<Rightarrow> nat \<Rightarrow> nat" where
  "sel encoding i = encoding div 2 ^ (2 * i) mod 4"

definition vec_shuffle_lw128 :: "nat \<Rightarrow> nat \<Rightarrow> nat \<Rightarrow> vregs \<Rightarrow> vregs" where
  "vec_shuffle_lw128 encoding s d r =
     (let copy = r s;
          r1 = fold (\<lambda>i r. vset 16 d i (lane 16 copy (sel encoding i)) r) [0..<4] r
      in vset 64 d 1 (vget 64 r1 s 1) r1)"

definition vec_shuffle_hw128 :: "nat \<Rightarrow> nat \<Rightarrow> nat \<Rightarrow> vregs \<Rightarrow> vregs" where
  "vec_shuffle_hw128 encoding s d r =
     (let copy = r s; r1 = vset 64 d 0 (vget 64 r s 0) r;
          r2 = vset 32 d 2 (lane 16 copy (sel encoding 0 OR 4) OR
                            shl (lane 16 copy (sel encoding 1 OR 4)) 16) r1
      in vset 32 d 3 (lane 16 copy (sel encoding 2 OR 4) OR
                      shl (lane 16 copy (sel encoding 3 OR 4)) 16) r2)"

definition vec_shuffle_d128 :: "nat \<Rightarrow> nat \<Rightarrow> nat \<Rightarrow> vregs \<Rightarrow> vregs" where
  "vec_shuffle_d128 encoding s d r =
     (let copy = r s in fold (\<lambda>i r. vset 32 d i (lane 32 copy (sel encoding i)) r) [0..<4] r)"

definition vec_shuffle_ps128 :: "nat \<Rightarrow> nat \<Rightarrow> nat \<Rightarrow> vregs \<Rightarrow> vregs" where
  "vec_shuffle_ps128 encoding s d r =
     (let r1 = vset 32 d 0 (vget 32 r d (sel encoding 0)) r;
          r2 = vset 32 d 1 (vget 32 r1 d (sel encoding 1)) r1;
          r3 = vset 32 d 2 (vget 32 r2 s (sel encoding 2)) r2
      in vset 32 d 3 (vget 32 r3 s (sel encoding 3)) r3)"

definition vec_shuffle_pd128 :: "nat \<Rightarrow> nat \<Rightarrow> nat \<Rightarrow> vregs \<Rightarrow> vregs" where
  "vec_shuffle_pd128 encoding s d r =
     (let r1 = vset 64 d 0 (vget 64 r d (encoding mod 2)) r
      in vset 64 d 1 (vget 64 r1 s (encoding div 2 mod 2)) r1)"

subsection \<open>Masks, element moves, averages, products\<close>

definition vec_movmask_b128 :: "nat \<Rightarrow> vregs \<Rightarrow> nat" where
  "vec_movmask_b128 s r =
     fold (\<lambda>i acc. if vget 8 r s i AND 2 ^ 7 \<noteq> 0 then acc OR 2 ^ i else acc) [0..<16] 0"

definition vec_fmovmask_d128 :: "nat \<Rightarrow> vregs \<Rightarrow> nat" where
  "vec_fmovmask_d128 s r =
     fold (\<lambda>i acc. if vget 64 r s i div 2 ^ 63 = 1 then acc OR 2 ^ i else acc) [0..<2] 0"

definition vec_movl_p64 :: "nat \<Rightarrow> nat \<Rightarrow> vregs \<Rightarrow> vregs" where
  "vec_movl_p64 src d r = vset 64 d 0 src r"

definition vec_movl_pm64 :: "nat \<Rightarrow> vregs \<Rightarrow> nat" where
  "vec_movl_pm64 s r = vget 64 r s 0"

definition vec_movh_p64 :: "nat \<Rightarrow> nat \<Rightarrow> vregs \<Rightarrow> vregs" where
  "vec_movh_p64 src d r = vset 64 d 1 src r"

definition vec_movh_pm64 :: "nat \<Rightarrow> vregs \<Rightarrow> nat" where
  "vec_movh_pm64 s r = vget 64 r s 1"

definition vec_insert_w128 :: "nat \<Rightarrow> nat \<Rightarrow> nat \<Rightarrow> vregs \<Rightarrow> vregs" where
  "vec_insert_w128 src d index r = vset 16 d (index mod 8) (src mod 2 ^ 16) r"

definition vec_extract_w128 :: "nat \<Rightarrow> nat \<Rightarrow> vregs \<Rightarrow> nat" where
  "vec_extract_w128 s index r = vget 16 r s (index mod 8)"

definition vec_avg_b128 :: "nat \<Rightarrow> nat \<Rightarrow> vregs \<Rightarrow> vregs" where
  "vec_avg_b128 = lane_loop 8 16 (\<lambda>d s. (1 + d + s) div 2)"

definition vec_avg_w128 :: "nat \<Rightarrow> nat \<Rightarrow> vregs \<Rightarrow> vregs" where
  "vec_avg_w128 = lane_loop 16 8 (\<lambda>d s. (1 + d + s) div 2)"

definition vec_mull128 :: "nat \<Rightarrow> nat \<Rightarrow> vregs \<Rightarrow> vregs" where
  "vec_mull128 = lane_loop 16 8 (\<lambda>d s. d * s mod 2 ^ 16)"

definition vec_mulu128 :: "nat \<Rightarrow> nat \<Rightarrow> vregs \<Rightarrow> vregs" where
  "vec_mulu128 = lane_loop 16 8 (\<lambda>d s. sput 32 (sget 16 d * sget 16 s) div 2 ^ 16 AND 0xffff)"

definition vec_muluu128 :: "nat \<Rightarrow> nat \<Rightarrow> vregs \<Rightarrow> vregs" where
  "vec_muluu128 = lane_loop 16 8 (\<lambda>d s. d * s mod 2 ^ 32 div 2 ^ 16 AND 0xffff)"

section \<open>Fields of a register\<close>

text \<open>
  What a reader of a union relies on: a field written is read back, cut to its width, and the
  other fields of that width keep their value. The loops over the fields are proved once over
  this contract.
\<close>

locale fields =
  fixes get :: "'x \<Rightarrow> nat \<Rightarrow> nat" and put :: "'x \<Rightarrow> nat \<Rightarrow> nat \<Rightarrow> 'x" and cut :: "nat \<Rightarrow> nat"
  assumes get_put: "get (put x i v) j = (if j = i then cut v else get x j)"
begin

lemma get_loop:
  "get (fold (\<lambda>i x. put x i (f i (get x i))) [0..<n] x) j =
     (if j < n then cut (f j (get x j)) else get x j)"
  by (induction n) (auto simp: get_put)

end

lemma lane_low:
  fixes B :: nat
  assumes "j < i" "0 < B"
  shows "(a mod B ^ i + v * B ^ i + h * B ^ Suc i) div B ^ j mod B = a div B ^ j mod B"
proof -
  obtain k where k: "i = Suc (j + k)" using assms(1) less_imp_Suc_add by blast
  have sum: "a mod B ^ i + v * B ^ i + h * B ^ Suc i =
      a mod B ^ i + (v * B ^ k + h * B ^ Suc k) * B * B ^ j"
    by (simp add: k power_add algebra_simps)
  have "(a mod B ^ i + v * B ^ i + h * B ^ Suc i) div B ^ j mod B = a mod B ^ i div B ^ j mod B"
    unfolding sum using assms(2) by simp
  moreover have "B ^ i = B ^ j * (B * B ^ k)" by (simp add: k power_add)
  then have "a mod B ^ i = B ^ j * (a div B ^ j mod (B * B ^ k)) + a mod B ^ j"
    by (simp add: mod_mult2_eq)
  then have "a mod B ^ i div B ^ j = a div B ^ j mod (B * B ^ k)"
    using assms(2) by simp
  ultimately show ?thesis by (simp add: mod_mult2_eq)
qed

lemma div_plus_mult:
  fixes m :: nat
  assumes "u < m"
  shows "(u + q * m) div m = q"
  using assms by simp

lemma lane_high:
  fixes B :: nat
  assumes "i < j" "v < B"
  shows "(a mod B ^ i + v * B ^ i + a div B ^ Suc i * B ^ Suc i) div B ^ j = a div B ^ j"
proof -
  have "0 < B" using assms(2) by simp
  then have "a mod B ^ i < B ^ i" by simp
  then have "a mod B ^ i + v * B ^ i < Suc v * B ^ i" by simp
  also have "\<dots> \<le> B * B ^ i" using assms(2) by (intro mult_le_mono1) simp
  finally have "a mod B ^ i + v * B ^ i < B ^ Suc i" by simp
  then have div: "(a mod B ^ i + v * B ^ i + a div B ^ Suc i * B ^ Suc i) div B ^ Suc i = a div B ^ Suc i"
    by (rule div_plus_mult)
  obtain k where k: "j = Suc i + k" using assms(1) less_imp_Suc_add by auto
  have split: "B ^ j = B ^ Suc i * B ^ k" by (simp only: k power_add)
  show ?thesis unfolding split div_mult2_eq div ..
qed

lemma lane_set_lane: "lane w (set_lane w x i v) j = (if j = i then v mod 2 ^ w else lane w x j)"
proof (cases j i rule: linorder_cases)
  case less
  then show ?thesis using lane_low[OF less, of "2 ^ w"] by (simp only: lane_def set_lane_def) simp
next
  case equal
  have "(x mod (2 ^ w) ^ i + v mod 2 ^ w * (2 ^ w) ^ i + x div (2 ^ w) ^ Suc i * (2 ^ w) ^ Suc i) =
      x mod (2 ^ w) ^ i + (v mod 2 ^ w + x div (2 ^ w) ^ Suc i * 2 ^ w) * (2 ^ w) ^ i"
    by (simp add: algebra_simps)
  then have "set_lane w x i v div (2 ^ w) ^ i = v mod 2 ^ w + x div (2 ^ w) ^ Suc i * 2 ^ w"
    unfolding set_lane_def by (simp only: div_plus_mult mod_less_divisor zero_less_power zero_less_numeral)
  then show ?thesis using equal by (simp add: lane_def)
next
  case greater
  then show ?thesis using lane_high[OF greater, of "v mod 2 ^ w" "2 ^ w"]
    by (simp only: lane_def set_lane_def) simp
qed

interpretation lanes: fields "lane w" "set_lane w" "\<lambda>v. v mod 2 ^ w" for w
  by unfold_locales (rule lane_set_lane)

lemma lane_less [simp]: "lane w x i < 2 ^ w"
  by (simp add: lane_def)

lemma lane_lane:
  assumes "k < c"
  shows "lane w (lane (w * c) x j) k = lane w x (c * j + k)"
proof -
  obtain e where e: "c = Suc (k + e)" using assms less_imp_Suc_add by blast
  have c: "(2 ^ (w * c)) = ((2 ^ w) ^ k * (2 ^ w * (2 ^ w) ^ e) :: nat)"
    by (simp add: e power_mult power_add)
  let ?y = "x div (2 ^ (w * c)) ^ j"
  have "?y mod 2 ^ (w * c) div (2 ^ w) ^ k = ?y div (2 ^ w) ^ k mod (2 ^ w * (2 ^ w) ^ e)"
    unfolding c mod_mult2_eq by simp
  moreover have "?y div (2 ^ w) ^ k = x div (2 ^ w) ^ (c * j + k)"
    by (simp add: div_mult2_eq[symmetric] power_add power_mult)
  ultimately show ?thesis by (simp add: lane_def mod_mult2_eq)
qed

lemma vget_vset:
  "vget w (vset w d i v r) q j = (if q = d \<and> j = i then v mod 2 ^ w else vget w r q j)"
  by (simp add: vget_def vset_def lane_set_lane)

lemma vget_less [simp]: "vget w r q i < 2 ^ w"
  by (simp add: vget_def)

lemma vget_mod [simp]: "vget 32 r q i mod 4294967296 = vget 32 r q i"
  using vget_less[of 32 r q i] by simp

lemma vget_vget:
  assumes "k < c" "u = w * c"
  shows "lane w (vget u r q j) k = vget w r q (c * j + k)"
  using assms by (simp add: vget_def lane_lane)

lemma vset_other [simp]: "q \<noteq> d \<Longrightarrow> vset w d i v r q = r q"
  by (simp add: vset_def)

lemma vget_lane_loop:
  "vget w (lane_loop w n f s d r) q j =
     (if q = d \<and> j < n then f (vget w r d j) (vget w r s j) mod 2 ^ w else vget w r q j)"
  unfolding lane_loop_def by (induction n arbitrary: q j) (auto simp: vget_vset less_Suc_eq)

lemma lane_map2: "lane w (lane_map2 w n f x y) j =
    (if j < n then f (lane w x j) (lane w y j) mod 2 ^ w else lane w x j)"
  unfolding lane_map2_def using lanes.get_loop[of w "\<lambda>i a. f a (lane w y i)"] by simp

lemma vget_sse_op:
  "vget w (sse_op w f s d r) q j =
     (if q = d \<and> j < 128 div w then f (vget w r d j) (vget w r s j) mod 2 ^ w else vget w r q j)"
  by (simp add: vget_def sse_op_def lane_map2)

text \<open>
  A field of one width inside a wider field that was written: the assignments of the packing
  operations write 32-bit fields and are read back in bytes.
\<close>

lemma vget_vset_wide:
  assumes "u = w * c" "0 < c"
  shows "vget w (vset u d i v r) q j =
    (if q = d \<and> j div c = i then lane w (v mod 2 ^ u) (j mod c) else vget w r q j)"
proof -
  have "j = c * (j div c) + j mod c" by simp
  moreover have "j mod c < c" using assms(2) by simp
  ultimately have split: "vget w r q j = lane w (vget u r q (j div c)) (j mod c)" for r
    using vget_vget[OF _ assms(1), of "j mod c" r q "j div c"] by simp
  show ?thesis unfolding split vget_vset by simp
qed

section \<open>Saturation\<close>

text \<open>The value of a \<open>w\<close>-bit signed field closest to an integer.\<close>

definition clamp :: "nat \<Rightarrow> int \<Rightarrow> int" where
  "clamp w i = max (- (2 ^ (w - 1))) (min (2 ^ (w - 1) - 1) i)"

lemma and_low: "x AND 0xff = x mod (256::nat)" "x AND 0xffff = x mod (65536::nat)"
  using take_bit_eq_mask[of 8 x] take_bit_eq_mask[of 16 x]
  by (simp_all add: take_bit_eq_mod mask_eq_exp_minus_1)

lemma sget_range:
  assumes "x < 2 ^ w" "0 < w"
  shows "- (2 ^ (w - 1)) \<le> sget w x" "sget w x < 2 ^ (w - 1)"
proof -
  have "(2::int) ^ w = 2 * 2 ^ (w - 1)" using assms(2) by (cases w) auto
  moreover have "int x < 2 ^ w" using assms(1) by (metis of_nat_less_iff of_nat_numeral of_nat_power)
  moreover have "x < 2 ^ (w - 1) \<longleftrightarrow> int x < 2 ^ (w - 1)"
    by (metis of_nat_less_iff of_nat_numeral of_nat_power)
  ultimately show "- (2 ^ (w - 1)) \<le> sget w x" "sget w x < 2 ^ (w - 1)"
    by (auto simp: sget_def)
qed

lemma sget_sput_width:
  assumes "- (2 ^ (w - 1)) \<le> i" "i < 2 ^ (w - 1)" "0 < w"
  shows "sget w (sput w i) = i"
proof -
  have two: "(2::int) ^ w = 2 * 2 ^ (w - 1)" using assms(3) by (cases w) auto
  have less: "x < 2 ^ (w - 1) \<longleftrightarrow> int x < 2 ^ (w - 1)" for x
    by (metis of_nat_less_iff of_nat_numeral of_nat_power)
  show ?thesis
  proof (cases "i < 0")
    case True
    have "i mod 2 ^ w = (i + 2 ^ w) mod 2 ^ w" by simp
    also have "\<dots> = i + 2 ^ w" using assms True two by (intro mod_pos_pos_trivial) auto
    finally have "i mod 2 ^ w = i + 2 ^ w" .
    moreover have "0 \<le> i mod 2 ^ w" by simp
    ultimately have "int (sput w i) = i + 2 ^ w" by (simp add: sput_def)
    then show ?thesis using assms True two less[of "sput w i"] by (simp add: sget_def)
  next
    case False
    then have "i mod 2 ^ w = i" using assms two by (intro mod_pos_pos_trivial) auto
    then have "int (sput w i) = i" using False by (simp add: sput_def)
    then show ?thesis using assms less[of "sput w i"] by (simp add: sget_def)
  qed
qed

lemma sget_sput:
  assumes "- (2 ^ 31) \<le> i" "i < 2 ^ 31"
  shows "sget 32 (sput 32 i) = i"
  using sget_sput_width[of 32 i] assms by simp

lemma sput_less: "sput w i < 2 ^ w"
proof -
  have "i mod 2 ^ w < int (2 ^ w)" by simp
  then show ?thesis unfolding sput_def by (subst nat_less_iff) auto
qed

lemma div_between:
  fixes i :: int
  assumes "0 < m"
  shows "min i 0 \<le> i div m" "i div m \<le> max i 0"
  using assms zdiv_mono2[of i 1 m] zdiv_mono2_neg[of i 1 m]
    pos_imp_zdiv_neg_iff[of m i] pos_imp_zdiv_nonneg_iff[of m i] by auto

text \<open>An arithmetic shift divides, rounding down; a count beyond the width acts as width - 1.\<close>

lemma sget_sar:
  assumes "x < 2 ^ w" "0 < w"
  shows "sget w (sar w amount x) = sget w x div 2 ^ min amount (w - 1)" "sar w amount x < 2 ^ w"
proof -
  have half: "(2::nat) ^ w = 2 * 2 ^ (w - 1)" using assms(2) by (cases w) auto
  note range = sget_range[OF assms]
  show "sget w (sar w amount x) = sget w x div 2 ^ min amount (w - 1)"
  proof (cases "amount > w - 1")
    case True
    have pow: "int (2 ^ w - 1) = 2 ^ w - 1" by (simp add: of_nat_diff)
    have "sget w x div 2 ^ (w - 1) = (if x < 2 ^ (w - 1) then 0 else - 1)"
    proof (cases "x < 2 ^ (w - 1)")
      case True
      then have "0 \<le> sget w x" by (simp add: sget_def)
      then show ?thesis using True range by simp
    next
      case False
      have "int x < 2 ^ w" using assms(1) by (metis of_nat_less_iff of_nat_numeral of_nat_power)
      then have "sget w x < 0" using False by (simp add: sget_def)
      then have "(sget w x + 2 ^ (w - 1)) div 2 ^ (w - 1) = 0"
        using range by (intro div_pos_pos_trivial) auto
      moreover have "(sget w x + 2 ^ (w - 1)) div 2 ^ (w - 1) = sget w x div 2 ^ (w - 1) + 1"
        by (rule div_add_self2) simp
      ultimately show ?thesis using False by simp
    qed
    moreover have "x div 2 ^ (w - 1) mod 2 = 1 \<longleftrightarrow> \<not> x < 2 ^ (w - 1)"
    proof -
      have "x div 2 ^ (w - 1) < 2" using assms(1) half by (simp add: less_mult_imp_div_less)
      moreover have "x div 2 ^ (w - 1) = 0 \<longleftrightarrow> x < 2 ^ (w - 1)" by (simp add: div_eq_0_iff)
      ultimately show ?thesis by (auto simp: less_2_cases_iff)
    qed
    moreover have "\<not> 2 ^ w - 1 < (2::nat) ^ (w - 1)"
      using half one_le_power[of "2::nat" "w - 1"] by linarith
    then have "sget w (2 ^ w - 1) = - 1" "sget w 0 = 0"
      by (simp_all only: sget_def if_False pow) simp_all
    ultimately show ?thesis using True by (simp add: sar_def min_absorb2)
  next
    case False
    let ?q = "sget w x div 2 ^ amount"
    have "?q < 2 ^ (w - 1)" "- (2 ^ (w - 1)) \<le> ?q"
      using range div_between[of "2 ^ amount" "sget w x"] by auto
    then show ?thesis using False assms(2) by (simp add: sar_def sget_sput_width min_absorb1)
  qed
  show "sar w amount x < 2 ^ w" by (simp add: sar_def sput_less)
qed

lemma mod_shift:
  fixes x :: nat
  assumes "x = y + q * m" "y < m"
  shows "x mod m = y"
  using assms by simp

lemma satsb_clamp:
  assumes "x < 2 ^ 32"
  shows "satsb x < 256" "sget 8 (satsb x) = clamp 8 (sget 32 x)"
proof -
  have "x mod 256 = x - 16777215 * 256" if "x > 0xffffff80"
    using that assms by (intro mod_shift[where q = 16777215]) auto
  then show "satsb x < 256" "sget 8 (satsb x) = clamp 8 (sget 32 x)"
    using assms by (auto simp: satsb_def sget_def clamp_def and_low)
qed

lemma satud_clamp:
  assumes "x < 2 ^ 32"
  shows "satud x < 65536" "sget 16 (satud x) = clamp 16 (sget 32 x)"
proof -
  have "x mod 65536 = x - 65535 * 65536" if "x > 0xffff8000"
    using that assms by (intro mod_shift[where q = 65535]) auto
  then show "satud x < 65536" "sget 16 (satud x) = clamp 16 (sget 32 x)"
    using assms by (auto simp: satud_def sget_def clamp_def and_low)
qed

lemma satsw_clamp:
  assumes "x < 2 ^ 16"
  shows "satsw x < 256" "sget 8 (satsw x) = clamp 8 (sget 16 x)"
proof -
  have "x mod 256 = x - 255 * 256" if "x > 0xff80"
    using that assms by (intro mod_shift[where q = 255]) auto
  then show "satsw x < 256" "sget 8 (satsw x) = clamp 8 (sget 16 x)"
    using assms by (auto simp: satsw_def sget_def clamp_def and_low)
qed

lemma satub_clamp:
  assumes "x < 2 ^ 16"
  shows "satub x < 256" "int (satub x) = max 0 (min 255 (sget 16 x))"
  using assms by (auto simp: satub_def sget_def)

section \<open>Saturating arithmetic\<close>

lemma sget_vget_range:
  "- 128 \<le> sget 8 (vget 8 r q i)" "sget 8 (vget 8 r q i) < 128"
  "- 32768 \<le> sget 16 (vget 16 r q i)" "sget 16 (vget 16 r q i) < 32768"
  using sget_range[OF vget_less[of 8 r q i]] sget_range[OF vget_less[of 16 r q i]] by auto

lemma satsb_sput:
  assumes "- 512 < i" "i < 512"
  shows "sget 8 (satsb (sput 32 i) mod 256) = clamp 8 i"
  using satsb_clamp[OF sput_less] sget_sput[of i] assms by auto

lemma satud_sput:
  assumes "- 131072 < i" "i < 131072"
  shows "sget 16 (satud (sput 32 i) mod 65536) = clamp 16 i"
  using satud_clamp[OF sput_less] sget_sput[of i] assms by auto

text \<open>
  \<^verbatim>\<open>vec_addss_b128\<close>, \<^verbatim>\<open>vec_addss_w128\<close>, \<^verbatim>\<open>vec_subss_b128\<close> and \<^verbatim>\<open>vec_subss_w128\<close> leave in every
  field of the destination the signed sum or difference saturated to the width of the field,
  also when both operands are the same register, although they compute it with unsigned
  comparisons of a 32-bit pattern.
\<close>

theorem saturating_arithmetic_correct:
  assumes "i < 16" "j < 8"
  shows "sget 8 (vget 8 (vec_addss_b128 s d r) d i) =
           clamp 8 (sget 8 (vget 8 r d i) + sget 8 (vget 8 r s i)) \<and>
         sget 8 (vget 8 (vec_subss_b128 s d r) d i) =
           clamp 8 (sget 8 (vget 8 r d i) - sget 8 (vget 8 r s i)) \<and>
         sget 16 (vget 16 (vec_addss_w128 s d r) d j) =
           clamp 16 (sget 16 (vget 16 r d j) + sget 16 (vget 16 r s j)) \<and>
         sget 16 (vget 16 (vec_subss_w128 s d r) d j) =
           clamp 16 (sget 16 (vget 16 r d j) - sget 16 (vget 16 r s j))"
  using assms sget_vget_range[of r d i] sget_vget_range[of r s i]
    sget_vget_range[of r d j] sget_vget_range[of r s j]
  by (simp add: vec_addss_b128_def vec_subss_b128_def vec_addss_w128_def vec_subss_w128_def
      vget_lane_loop satsb_sput satud_sput)

theorem saturating_arithmetic_correct_witness:
  "sget 8 (vget 8 (vec_addss_b128 0 1 (\<lambda>q. if q = 0 then 100 else 90)) 1 0) = 127"
  using saturating_arithmetic_correct[of 0 0 0 1 "\<lambda>q. if q = 0 then 100 else 90"]
  by (simp add: vget_def lane_def sget_def clamp_def)

section \<open>Packing\<close>

lemma or_shl:
  assumes "a < 2 ^ n"
  shows "a OR shl b n = a + b * 2 ^ n"
proof -
  have a: "a = take_bit n a" using assms by (simp add: take_bit_nat_eq_self)
  have "take_bit n a AND push_bit n b = 0"
    by (intro bit_eqI) (simp add: bit_simps)
  then have "a + push_bit n b = a OR push_bit n b"
    using a by (intro disjunctive_add_eq_or) simp
  then show ?thesis by (simp add: shl_def push_bit_eq_mult)
qed

lemma bytes_of_sum:
  fixes a b c e :: nat
  assumes "a < 256" "b < 256" "c < 256" "e < 256" "k < 4"
  shows "lane 8 (a + b * 2 ^ 8 + c * 2 ^ 16 + e * 2 ^ 24) k = [a, b, c, e] ! k"
proof -
  let ?x = "a + b * 256 + c * 65536 + e * 16777216"
  have "?x mod 256 = a"
    using assms by (intro mod_shift[where q = "b + c * 256 + e * 65536"]) auto
  moreover have "?x div 256 mod 256 = b"
    using assms by (intro mod_shift[where q = "c + e * 256"]) auto
  moreover have "?x div 65536 mod 256 = c"
    using assms by (intro mod_shift[where q = e]) auto
  moreover have "?x div 16777216 mod 256 = e" using assms by simp
  moreover have "k = 0 \<or> k = 1 \<or> k = 2 \<or> k = 3" using assms(5) by arith
  ultimately have "?x div 256 ^ k mod 256 = [a, b, c, e] ! k" by (elim disjE) simp_all
  then show ?thesis by (simp add: lane_def)
qed

lemma pack4_bytes:
  assumes "\<And>x. x < 2 ^ 16 \<Longrightarrow> sat x < 256" "k < 4"
  shows "lane 8 (pack4 sat p i r mod 2 ^ 32) k = sat (vget 16 r p (i + k))"
proof -
  have b: "sat (vget 16 r p j) < 256" for j by (rule assms(1)[OF vget_less])
  let ?s = "\<lambda>j. sat (vget 16 r p (i + j))"
  have "pack4 sat p i r = ?s 0 + ?s 1 * 2 ^ 8 + ?s 2 * 2 ^ 16 + ?s 3 * 2 ^ 24"
    unfolding pack4_def using b[of i] b[of "i + 1"] b[of "i + 2"] by (simp add: or_shl flip: or.assoc)
  moreover have "pack4 sat p i r < 2 ^ 32"
    unfolding calculation using b[of i] b[of "i + 1"] b[of "i + 2"] b[of "i + 3"] by simp
  ultimately have "lane 8 (pack4 sat p i r mod 2 ^ 32) k = [?s 0, ?s 1, ?s 2, ?s 3] ! k"
    using b assms(2) by (simp only: mod_less) (rule bytes_of_sum; simp)
  also have "\<dots> = ?s k" using assms(2) by (auto simp: less_Suc_eq numeral_eq_Suc)
  finally show ?thesis .
qed


lemma pack4_cong:
  assumes "\<And>j. j < 4 \<Longrightarrow> vget 16 r' p (i + j) = vget 16 r p (i + j)"
  shows "pack4 sat p i r' = pack4 sat p i r"
  using assms[of 0] assms[of 1] assms[of 2] assms[of 3] by (simp add: pack4_def)

lemma vget16_vset32: "vget 16 (vset 32 d k v r) q j =
    (if q = d \<and> j div 2 = k then lane 16 (v mod 2 ^ 32) (j mod 2) else vget 16 r q j)"
  by (rule vget_vset_wide) simp_all

lemma vget8_vset32: "vget 8 (vset 32 d k v r) q j =
    (if q = d \<and> j div 4 = k then lane 8 (v mod 2 ^ 32) (j mod 4) else vget 8 r q j)"
  by (rule vget_vset_wide) simp_all

lemma pack_w128_bytes:
  assumes sat: "\<And>x. x < 2 ^ 16 \<Longrightarrow> sat x < 256" and "s \<noteq> d" "i < 8"
  shows "vget 8 (pack_w128 sat s d r) d i = sat (vget 16 r d i)"
    and "vget 8 (pack_w128 sat s d r) d (8 + i) = sat (vget 16 r s i)"
proof -
  have own: "pack4 sat d 4 (vset 32 d 0 v r) = pack4 sat d 4 r" for v
    by (rule pack4_cong) (simp add: vget16_vset32 div_eq_0_iff)
  have other: "pack4 sat s j (vset 32 d k v r) = pack4 sat s j r" for j k v r
    using assms(2) by (intro pack4_cong) (simp add: vget16_vset32 div_eq_0_iff)
  have pack: "pack_w128 sat s d r =
      vset 32 d 3 (pack4 sat s 4 r) (vset 32 d 2 (pack4 sat s 0 r)
        (vset 32 d 1 (pack4 sat d 4 r) (vset 32 d 0 (pack4 sat d 0 r) r)))"
    by (simp add: pack_w128_def own other)
  have low: "lane 8 (pack4 sat p (4 * (i div 4)) r mod 2 ^ 32) (i mod 4) = sat (vget 16 r p i)" for p
    using pack4_bytes[of sat "i mod 4" p "4 * (i div 4)" r] sat by simp
  have "i div 4 = 0 \<or> i div 4 = 1" using assms(3) by arith
  then show "vget 8 (pack_w128 sat s d r) d i = sat (vget 16 r d i)"
    using low[of d] unfolding pack by (elim disjE) (simp_all add: vget8_vset32 del: One_nat_def)
  have "(8 + i) div 4 = 2 + i div 4" "(8 + i) mod 4 = i mod 4" by presburger+
  then show "vget 8 (pack_w128 sat s d r) d (8 + i) = sat (vget 16 r s i)"
    using \<open>i div 4 = 0 \<or> i div 4 = 1\<close> low[of s] unfolding pack
    by (elim disjE) (simp_all add: vget8_vset32 del: One_nat_def)
qed

text \<open>
  packing two different registers leaves in the low half of the destination its own 16-bit
  fields saturated to signed bytes, in order, and in the high half those of the source.
\<close>

theorem vec_packss_w128_correct:
  assumes "s \<noteq> d" "i < 8"
  shows "sget 8 (vget 8 (vec_packss_w128 s d r) d i) = clamp 8 (sget 16 (vget 16 r d i)) \<and>
    sget 8 (vget 8 (vec_packss_w128 s d r) d (8 + i)) = clamp 8 (sget 16 (vget 16 r s i))"
  using satsw_clamp pack_w128_bytes[of satsw s d i r] assms vget_less[of 16]
  by (simp add: vec_packss_w128_def)

theorem vec_packss_w128_correct_witness:
  "sget 8 (vget 8 (vec_packss_w128 0 1 (\<lambda>q. if q = 0 then 300 else 0)) 1 8) = 127"
  using vec_packss_w128_correct[of 0 1 0 "\<lambda>q. if q = 0 then 300 else 0"]
  by (simp add: vget_def lane_def sget_def clamp_def)

text \<open>
  \<^verbatim>\<open>vec_packss_w128\<close> with one register as both operands, as \<^verbatim>\<open>packsswb xmm0, xmm0\<close>
  calls it, reads the source after its low half was overwritten: the bytes of the high half are
  not those of the low half, as they are when the operands are equal registers.
\<close>

theorem vec_packss_w128_alias:
  "\<exists>r. vget 8 (vec_packss_w128 0 1 (\<lambda>q. r)) 1 8 \<noteq> vget 8 (vec_packss_w128 0 0 (\<lambda>q. r)) 0 8"
proof -
  define r :: nat where "r = 0x00010001"
  have "vget 8 (vec_packss_w128 0 1 (\<lambda>q. r)) 1 8 = 1"
    using pack_w128_bytes(2)[of satsw 0 1 0 "\<lambda>q. r"] satsw_clamp
    by (simp add: vec_packss_w128_def vget_def lane_def satsw_def r_def)
  moreover have "vget 8 (vec_packss_w128 0 0 (\<lambda>q. r)) 0 8 = 127"
  proof -
    have "pack4 satsw 0 0 (\<lambda>q. r) = 257"
      by (simp add: pack4_def vget_def lane_def satsw_def shl_def r_def)
    then have "vget 8 (vec_packss_w128 0 0 (\<lambda>q. r)) 0 8 = lane 8 (pack4 satsw 0 0 r2 mod 2 ^ 32) 0"
      if "r2 = vset 32 0 1 (pack4 satsw 0 4 (vset 32 0 0 257 (\<lambda>q. r))) (vset 32 0 0 257 (\<lambda>q. r))" for r2
      using that by (simp add: vec_packss_w128_def pack_w128_def vget8_vset32 Let_def)
    moreover have "lane 8 (pack4 satsw 0 0 (vset 32 0 1 v (vset 32 0 0 257 (\<lambda>q. r))) mod 2 ^ 32) 0 = 127" for v
      by (subst pack4_bytes) (simp_all add: satsw_clamp vget16_vset32 lane_def satsw_def and_low)
    ultimately show ?thesis by simp
  qed
  ultimately show ?thesis by (metis numeral_eq_one_iff semiring_norm(86))
qed

section \<open>Shuffles\<close>

text \<open>
  the fields \<^verbatim>\<open>vec_shuffle_ps128\<close> leaves in the destination, for two different registers. The
  second one is the field of the old destination its selector names only if that is not field
  0: field 0 was already replaced by the first assignment.
\<close>

theorem vec_shuffle_ps128_fields:
  assumes "s \<noteq> d"
  shows "map (vget 32 (vec_shuffle_ps128 e s d r) d) [0..<4] =
    [vget 32 r d (sel e 0),
     vget 32 r d (if sel e 1 = 0 then sel e 0 else sel e 1),
     vget 32 r s (sel e 2), vget 32 r s (sel e 3)]"
  using assms by (simp add: vec_shuffle_ps128_def Let_def vget_vset upt_conv_Cons)

theorem vec_shuffle_ps128_fields_witness:
  "vget 32 (vec_shuffle_ps128 1 0 1 (\<lambda>q. 2 ^ 32 * 7 + 5)) 1 1 = 7"
  using vec_shuffle_ps128_fields[of 0 1 1 "\<lambda>q. 2 ^ 32 * 7 + 5"]
  by (simp add: vget_def lane_def sel_def upt_conv_Cons)

end
