(* ===== verification/Mmx.thy ===== *)
theory Mmx
  imports Vec
begin

text \<open>
  The MMX operations of \<^verbatim>\<open>emu/mmx.c\<close> on 64-bit registers, with the fields, the store and the field
  functions of the SSE operations. Every loop of this file works on local copies of the
  registers, so an operand that is both source and destination needs no care.
\<close>

section \<open>Definitions\<close>

definition mmx_op :: "nat \<Rightarrow> (nat \<Rightarrow> nat \<Rightarrow> nat) \<Rightarrow> nat \<Rightarrow> nat \<Rightarrow> vregs \<Rightarrow> vregs" where
  "mmx_op w f s d r = r(d := lane_map2 w (64 div w) f (r d) (r s))"

definition mmx_cmp :: "nat \<Rightarrow> (nat \<Rightarrow> nat \<Rightarrow> bool) \<Rightarrow> nat \<Rightarrow> nat \<Rightarrow> vregs \<Rightarrow> vregs" where
  "mmx_cmp w rel s d r =
     r(d := lane_map2 w (64 div w) (\<lambda>d s. if rel d s then 2 ^ w - 1 else 0) (r d) (r s))"

definition mmx_shift :: "nat \<Rightarrow> (nat \<Rightarrow> nat \<Rightarrow> nat) \<Rightarrow> nat \<Rightarrow> nat \<Rightarrow> vregs \<Rightarrow> vregs" where
  "mmx_shift w shift amount d r =
     (if amount > w - 1 then r(d := 0)
      else r(d := lane_map1 w (64 div w) (\<lambda>x. shift x amount) (r d)))"

abbreviation vec_add_b64 :: "nat \<Rightarrow> nat \<Rightarrow> vregs \<Rightarrow> vregs" where
  "vec_add_b64 \<equiv> mmx_op 8 (+)"

abbreviation vec_add_w64 :: "nat \<Rightarrow> nat \<Rightarrow> vregs \<Rightarrow> vregs" where
  "vec_add_w64 \<equiv> mmx_op 16 (+)"

abbreviation vec_add_d64 :: "nat \<Rightarrow> nat \<Rightarrow> vregs \<Rightarrow> vregs" where
  "vec_add_d64 \<equiv> mmx_op 32 (+)"

abbreviation vec_add_q64 :: "nat \<Rightarrow> nat \<Rightarrow> vregs \<Rightarrow> vregs" where
  "vec_add_q64 \<equiv> mmx_op 64 (+)"

abbreviation vec_sub_b64 :: "nat \<Rightarrow> nat \<Rightarrow> vregs \<Rightarrow> vregs" where
  "vec_sub_b64 \<equiv> mmx_op 8 (sub_mod 8)"

abbreviation vec_sub_w64 :: "nat \<Rightarrow> nat \<Rightarrow> vregs \<Rightarrow> vregs" where
  "vec_sub_w64 \<equiv> mmx_op 16 (sub_mod 16)"

abbreviation vec_sub_d64 :: "nat \<Rightarrow> nat \<Rightarrow> vregs \<Rightarrow> vregs" where
  "vec_sub_d64 \<equiv> mmx_op 32 (sub_mod 32)"

abbreviation vec_sub_q64 :: "nat \<Rightarrow> nat \<Rightarrow> vregs \<Rightarrow> vregs" where
  "vec_sub_q64 \<equiv> mmx_op 64 (sub_mod 64)"

abbreviation vec_and_q64 :: "nat \<Rightarrow> nat \<Rightarrow> vregs \<Rightarrow> vregs" where
  "vec_and_q64 \<equiv> mmx_op 64 (AND)"

abbreviation vec_or_q64 :: "nat \<Rightarrow> nat \<Rightarrow> vregs \<Rightarrow> vregs" where
  "vec_or_q64 \<equiv> mmx_op 64 (OR)"

abbreviation vec_xor_q64 :: "nat \<Rightarrow> nat \<Rightarrow> vregs \<Rightarrow> vregs" where
  "vec_xor_q64 \<equiv> mmx_op 64 (XOR)"

abbreviation vec_compare_eqb64 :: "nat \<Rightarrow> nat \<Rightarrow> vregs \<Rightarrow> vregs" where
  "vec_compare_eqb64 \<equiv> mmx_cmp 8 (=)"

abbreviation vec_compare_eqw64 :: "nat \<Rightarrow> nat \<Rightarrow> vregs \<Rightarrow> vregs" where
  "vec_compare_eqw64 \<equiv> mmx_cmp 16 (=)"

abbreviation vec_compare_eqd64 :: "nat \<Rightarrow> nat \<Rightarrow> vregs \<Rightarrow> vregs" where
  "vec_compare_eqd64 \<equiv> mmx_cmp 32 (=)"

abbreviation vec_compares_gtb64 :: "nat \<Rightarrow> nat \<Rightarrow> vregs \<Rightarrow> vregs" where
  "vec_compares_gtb64 \<equiv> mmx_cmp 8 (gt_signed 8)"

abbreviation vec_compares_gtw64 :: "nat \<Rightarrow> nat \<Rightarrow> vregs \<Rightarrow> vregs" where
  "vec_compares_gtw64 \<equiv> mmx_cmp 16 (gt_signed 16)"

abbreviation vec_compares_gtd64 :: "nat \<Rightarrow> nat \<Rightarrow> vregs \<Rightarrow> vregs" where
  "vec_compares_gtd64 \<equiv> mmx_cmp 32 (gt_signed 32)"

abbreviation (input) vec_shiftr_w64 :: "nat \<Rightarrow> nat \<Rightarrow> vregs \<Rightarrow> vregs" where
  "vec_shiftr_w64 s d r \<equiv> mmx_shift 16 shr (r s mod 256) d r"

abbreviation vec_imm_shiftr_w64 :: "nat \<Rightarrow> nat \<Rightarrow> vregs \<Rightarrow> vregs" where
  "vec_imm_shiftr_w64 \<equiv> mmx_shift 16 shr"

abbreviation (input) vec_shiftr_d64 :: "nat \<Rightarrow> nat \<Rightarrow> vregs \<Rightarrow> vregs" where
  "vec_shiftr_d64 s d r \<equiv> mmx_shift 32 shr (r s mod 256) d r"

abbreviation vec_imm_shiftr_d64 :: "nat \<Rightarrow> nat \<Rightarrow> vregs \<Rightarrow> vregs" where
  "vec_imm_shiftr_d64 \<equiv> mmx_shift 32 shr"

abbreviation (input) vec_shiftr_q64 :: "nat \<Rightarrow> nat \<Rightarrow> vregs \<Rightarrow> vregs" where
  "vec_shiftr_q64 s d r \<equiv> mmx_shift 64 shr (r s mod 256) d r"

abbreviation vec_imm_shiftr_q64 :: "nat \<Rightarrow> nat \<Rightarrow> vregs \<Rightarrow> vregs" where
  "vec_imm_shiftr_q64 \<equiv> mmx_shift 64 shr"

abbreviation (input) vec_shiftl_w64 :: "nat \<Rightarrow> nat \<Rightarrow> vregs \<Rightarrow> vregs" where
  "vec_shiftl_w64 s d r \<equiv> mmx_shift 16 shl (r s mod 256) d r"

abbreviation vec_imm_shiftl_w64 :: "nat \<Rightarrow> nat \<Rightarrow> vregs \<Rightarrow> vregs" where
  "vec_imm_shiftl_w64 \<equiv> mmx_shift 16 shl"

abbreviation (input) vec_shiftl_d64 :: "nat \<Rightarrow> nat \<Rightarrow> vregs \<Rightarrow> vregs" where
  "vec_shiftl_d64 s d r \<equiv> mmx_shift 32 shl (r s mod 256) d r"

abbreviation vec_imm_shiftl_d64 :: "nat \<Rightarrow> nat \<Rightarrow> vregs \<Rightarrow> vregs" where
  "vec_imm_shiftl_d64 \<equiv> mmx_shift 32 shl"

abbreviation (input) vec_shiftl_q64 :: "nat \<Rightarrow> nat \<Rightarrow> vregs \<Rightarrow> vregs" where
  "vec_shiftl_q64 s d r \<equiv> mmx_shift 64 shl (r s mod 256) d r"

abbreviation vec_imm_shiftl_q64 :: "nat \<Rightarrow> nat \<Rightarrow> vregs \<Rightarrow> vregs" where
  "vec_imm_shiftl_q64 \<equiv> mmx_shift 64 shl"

definition vec_shiftrs_w64 :: "nat \<Rightarrow> nat \<Rightarrow> vregs \<Rightarrow> vregs" where
  "vec_shiftrs_w64 s d r = r(d := lane_map1 16 4 (sar 16 (r s mod 256)) (r d))"

definition vec_shiftrs_d64 :: "nat \<Rightarrow> nat \<Rightarrow> vregs \<Rightarrow> vregs" where
  "vec_shiftrs_d64 s d r = r(d := lane_map1 32 2 (sar 32 (r s mod 256)) (r d))"

definition vec_imm_shiftrs_w64 :: "nat \<Rightarrow> nat \<Rightarrow> vregs \<Rightarrow> vregs" where
  "vec_imm_shiftrs_w64 amount d r = r(d := lane_map1 16 4 (sar 16 amount) (r d))"

definition vec_imm_shiftrs_d64 :: "nat \<Rightarrow> nat \<Rightarrow> vregs \<Rightarrow> vregs" where
  "vec_imm_shiftrs_d64 amount d r = r(d := lane_map1 32 2 (sar 32 amount) (r d))"

definition vec_mulu64 :: "nat \<Rightarrow> nat \<Rightarrow> vregs \<Rightarrow> vregs" where
  "vec_mulu64 s d r =
     r(d := lane_map2 16 4 (\<lambda>d s. sput 32 (sget 16 d * sget 16 s) div 2 ^ 16 AND 0xffff) (r d) (r s))"

definition vec_mull64 :: "nat \<Rightarrow> nat \<Rightarrow> vregs \<Rightarrow> vregs" where
  "vec_mull64 s d r = r(d := lane_map2 16 4 (\<lambda>d s. d * s mod 2 ^ 16) (r d) (r s))"

definition vec_mulu_dq64 :: "nat \<Rightarrow> nat \<Rightarrow> vregs \<Rightarrow> vregs" where
  "vec_mulu_dq64 s d r = vset 64 d 0 (vget 32 r s 0 * vget 32 r d 0) r"

definition vec_unpackl_dq64 :: "nat \<Rightarrow> nat \<Rightarrow> vregs \<Rightarrow> vregs" where
  "vec_unpackl_dq64 s d r = vset 32 d 1 (vget 32 r s 0) r"

definition vec_shuffle_w64 :: "nat \<Rightarrow> nat \<Rightarrow> nat \<Rightarrow> vregs \<Rightarrow> vregs" where
  "vec_shuffle_w64 encoding s d r =
     r(d := fold (\<lambda>i x. set_lane 16 x i (lane 16 (r s) (sel encoding i))) [0..<4] (r d))"

definition vec_movmask_b64 :: "nat \<Rightarrow> vregs \<Rightarrow> nat" where
  "vec_movmask_b64 s r =
     fold (\<lambda>i acc. if lane 8 (r s) i AND 2 ^ 7 \<noteq> 0 then acc OR 2 ^ i else acc) [0..<8] 0"

definition vec_insert_w64 :: "nat \<Rightarrow> nat \<Rightarrow> nat \<Rightarrow> vregs \<Rightarrow> vregs" where
  "vec_insert_w64 src d index r = r(d := set_lane 16 (r d) (index mod 4) (src mod 2 ^ 16))"

section \<open>Arithmetic shifts\<close>

lemma lane_map1: "lane w (lane_map1 w n f x) j =
    (if j < n then f (lane w x j) mod 2 ^ w else lane w x j)"
  unfolding lane_map1_def using lanes.get_loop[of w "\<lambda>i. f"] by simp

lemma sget_sar_lane:
  assumes "0 < w"
  shows "sget w (sar w amount (lane w x i) mod 2 ^ w) = sget w (lane w x i) div 2 ^ min amount (w - 1)"
  using sget_sar[OF lane_less assms] by simp

text \<open>
  the MMX arithmetic right shifts divide every signed field by the power of two, rounding
  down; a count from the source register beyond the width of a field, of which the code uses the
  low byte, acts as the width minus one.
\<close>

theorem vec_shiftrs_divides:
  assumes "i < 4" "j < 2"
  shows "sget 16 (lane 16 (vec_shiftrs_w64 s d r d) i) =
           sget 16 (lane 16 (r d) i) div 2 ^ min (r s mod 256) 15 \<and>
         sget 32 (lane 32 (vec_shiftrs_d64 s d r d) j) =
           sget 32 (lane 32 (r d) j) div 2 ^ min (r s mod 256) 31"
  using assms sget_sar_lane[of 16 "r s mod 256" "r d" i] sget_sar_lane[of 32 "r s mod 256" "r d" j]
  by (simp add: vec_shiftrs_w64_def vec_shiftrs_d64_def lane_map1)

theorem vec_shiftrs_divides_witness:
  "sget 16 (lane 16 (vec_shiftrs_w64 0 1 (\<lambda>q. if q = 0 then 1 else 0xfffd) 1) 0) = - 2"
  using vec_shiftrs_divides[of 0 0 0 1 "\<lambda>q. if q = 0 then 1 else 0xfffd"]
  by (simp add: lane_def sget_def)

end
