(* ===== verification/Tlb.thy ===== *)
theory Tlb
  imports Memory_Cow
begin

text \<open>
  The translation lookaside buffer of the emulated CPU, \<^verbatim>\<open>emu/tlb.h\<close> and \<^verbatim>\<open>emu/tlb.c\<close>. The
  operations take the address space behind \<^verbatim>\<open>tlb->mmu\<close> as its function \<^verbatim>\<open>translate\<close> and its
  counter \<^verbatim>\<open>changes\<close>. A host pointer is a block of the host and an offset, so
  \<^verbatim>\<open>data_minus_addr\<close> is a block and an offset that may be negative.
\<close>

section \<open>Definitions\<close>

record tlb_entry =
  te_page :: nat
  te_page_if_writable :: nat
  te_data_minus_addr :: "nat \<times> int"

abbreviation (input) TLB_SIZE :: nat where "TLB_SIZE \<equiv> 2 ^ 10"

record tlb =
  tlb_mmu :: nat
  dirty_page :: nat
  mem_changes :: nat
  segfault_addr :: nat
  entries :: "tlb_entry list"

definition TLB_INDEX :: "nat \<Rightarrow> nat" where
  "TLB_INDEX addr = (addr div 2 ^ 12 AND (TLB_SIZE - 1)) XOR (addr div 2 ^ 22)"

definition TLB_PAGE :: "nat \<Rightarrow> nat" where "TLB_PAGE addr = PAGE addr * PAGE_SIZE"

abbreviation (input) TLB_PAGE_EMPTY :: nat where "TLB_PAGE_EMPTY \<equiv> 1"

type_synonym translation = "nat \<Rightarrow> mem_access \<Rightarrow> (nat \<times> nat) option"

text \<open>\<open>chg\<close> is \<^verbatim>\<open>mmu->changes\<close>, 64 bits wide; the copy in the buffer has 32 bits.\<close>

definition tlb_flush :: "nat \<Rightarrow> tlb \<Rightarrow> tlb" where
  "tlb_flush chg t = t\<lparr>mem_changes := w32 chg,
     entries := replicate TLB_SIZE
       \<lparr>te_page = 1, te_page_if_writable = 1, te_data_minus_addr = (0, 0)\<rparr>\<rparr>"

definition tlb_refresh :: "nat \<Rightarrow> nat \<Rightarrow> tlb \<Rightarrow> tlb" where
  "tlb_refresh mmu chg t =
     (if tlb_mmu t = mmu \<and> mem_changes t = chg then t
      else tlb_flush chg (t\<lparr>tlb_mmu := mmu, dirty_page := TLB_PAGE_EMPTY, mem_changes := w32 chg\<rparr>))"

definition entry_ptr :: "tlb_entry \<Rightarrow> nat \<Rightarrow> nat \<times> nat" where
  "entry_ptr e addr =
     (fst (te_data_minus_addr e), nat (snd (te_data_minus_addr e) + int addr))"

definition tlb_handle_miss ::
  "translation \<Rightarrow> nat \<Rightarrow> tlb \<Rightarrow> nat \<Rightarrow> mem_access \<Rightarrow> (nat \<times> nat) option \<times> tlb" where
  "tlb_handle_miss tr chg t addr type =
     (let ptr = tr (TLB_PAGE addr) type;
          t1 = (if chg \<noteq> mem_changes t then tlb_flush chg t else t)
      in case ptr of
           None \<Rightarrow> (None, t1\<lparr>segfault_addr := addr\<rparr>)
         | Some (block, off) \<Rightarrow>
             let ent = \<lparr>te_page = TLB_PAGE addr,
                        te_page_if_writable =
                          (if type = MEM_WRITE then TLB_PAGE addr else TLB_PAGE_EMPTY),
                        te_data_minus_addr = (block, int off - int (TLB_PAGE addr))\<rparr>
             in (Some (entry_ptr ent addr),
                 t1\<lparr>dirty_page := TLB_PAGE addr, entries := (entries t1)[TLB_INDEX addr := ent]\<rparr>))"

definition tlb_read_ptr :: "translation \<Rightarrow> nat \<Rightarrow> tlb \<Rightarrow> nat \<Rightarrow> (nat \<times> nat) option \<times> tlb" where
  "tlb_read_ptr tr chg t addr =
     (let entry = entries t ! TLB_INDEX addr
      in if te_page entry = TLB_PAGE addr then (Some (entry_ptr entry addr), t)
         else tlb_handle_miss tr chg t addr MEM_READ)"

definition tlb_write_ptr :: "translation \<Rightarrow> nat \<Rightarrow> tlb \<Rightarrow> nat \<Rightarrow> (nat \<times> nat) option \<times> tlb" where
  "tlb_write_ptr tr chg t addr =
     (let entry = entries t ! TLB_INDEX addr
      in if te_page_if_writable entry = TLB_PAGE addr
         then (Some (entry_ptr entry addr), t\<lparr>dirty_page := TLB_PAGE addr\<rparr>)
         else tlb_handle_miss tr chg t addr MEM_WRITE)"

text \<open>
  The copies from and to host memory; outside a live block they are \<^const>\<open>None\<close>, as is a failed
  assertion.
\<close>

definition load_bytes :: "host \<Rightarrow> nat \<times> nat \<Rightarrow> nat \<Rightarrow> byte list option" where
  "load_bytes h ptr n = map_option (\<lambda>f. map f [snd ptr..<snd ptr + n]) (maps h (fst ptr))"

definition store_bytes :: "host \<Rightarrow> nat \<times> nat \<Rightarrow> byte list \<Rightarrow> host option" where
  "store_bytes h ptr bs =
     (if maps h (fst ptr) = None then None
      else Some (fold (\<lambda>i h. store_byte h (fst ptr, snd ptr + i) (bs ! i)) [0..<length bs] h))"

definition next_page_addr :: "nat \<Rightarrow> nat" where
  "next_page_addr addr = w32 ((PAGE addr + 1) * PAGE_SIZE)"

definition tlb_read_cross_page ::
  "host \<Rightarrow> translation \<Rightarrow> nat \<Rightarrow> tlb \<Rightarrow> nat \<Rightarrow> nat \<Rightarrow> (byte list option \<times> tlb) option" where
  "tlb_read_cross_page h tr chg t addr sz =
     (case tlb_read_ptr tr chg t addr of
        (None, t1) \<Rightarrow> Some (None, t1)
      | (Some ptr1, t1) \<Rightarrow>
         (case tlb_read_ptr tr chg t1 (next_page_addr addr) of
            (None, t2) \<Rightarrow> Some (None, t2)
          | (Some ptr2, t2) \<Rightarrow>
              let part1 = PAGE_SIZE - PGOFFSET addr
              in if part1 < sz
                 then (case (load_bytes h ptr1 part1, load_bytes h ptr2 (sz - part1)) of
                         (Some a, Some b) \<Rightarrow> Some (Some (a @ b), t2)
                       | _ \<Rightarrow> None)
                 else None))"

definition crosses_page :: "nat \<Rightarrow> nat \<Rightarrow> bool" where
  "crosses_page addr sz \<longleftrightarrow> PGOFFSET addr > w32 (2 ^ 32 + PAGE_SIZE - sz)"

definition tlb_read ::
  "host \<Rightarrow> translation \<Rightarrow> nat \<Rightarrow> tlb \<Rightarrow> nat \<Rightarrow> nat \<Rightarrow> (byte list option \<times> tlb) option" where
  "tlb_read h tr chg t addr sz =
     (if crosses_page addr sz then tlb_read_cross_page h tr chg t addr sz
      else (case tlb_read_ptr tr chg t addr of
              (None, t1) \<Rightarrow> Some (None, t1)
            | (Some ptr, t1) \<Rightarrow> map_option (\<lambda>bs. (Some bs, t1)) (load_bytes h ptr sz)))"

definition tlb_write_cross_page ::
  "host \<Rightarrow> translation \<Rightarrow> nat \<Rightarrow> tlb \<Rightarrow> nat \<Rightarrow> byte list \<Rightarrow> (bool \<times> host \<times> tlb) option" where
  "tlb_write_cross_page h tr chg t addr val =
     (case tlb_write_ptr tr chg t addr of
        (None, t1) \<Rightarrow> Some (False, h, t1)
      | (Some ptr1, t1) \<Rightarrow>
         (case tlb_write_ptr tr chg t1 (next_page_addr addr) of
            (None, t2) \<Rightarrow> Some (False, h, t2)
          | (Some ptr2, t2) \<Rightarrow>
              let part1 = PAGE_SIZE - PGOFFSET addr
              in if part1 < length val
                 then (case store_bytes h ptr1 (take part1 val) of
                         None \<Rightarrow> None
                       | Some h1 \<Rightarrow>
                           map_option (\<lambda>h2. (True, h2, t2)) (store_bytes h1 ptr2 (drop part1 val)))
                 else None))"

definition tlb_write ::
  "host \<Rightarrow> translation \<Rightarrow> nat \<Rightarrow> tlb \<Rightarrow> nat \<Rightarrow> byte list \<Rightarrow> (bool \<times> host \<times> tlb) option" where
  "tlb_write h tr chg t addr val =
     (if crosses_page addr (length val) then tlb_write_cross_page h tr chg t addr val
      else (case tlb_write_ptr tr chg t addr of
              (None, t1) \<Rightarrow> Some (False, h, t1)
            | (Some ptr, t1) \<Rightarrow> map_option (\<lambda>h1. (True, h1, t1)) (store_bytes h ptr val)))"

text \<open>
  Every entry that would be a hit for an address gives what the address space gives now.
\<close>

definition tlb_coherent :: "translation \<Rightarrow> tlb \<Rightarrow> bool" where
  "tlb_coherent tr t \<longleftrightarrow> length (entries t) = TLB_SIZE \<and>
     (\<forall>addr < 2 ^ 32. let e = entries t ! TLB_INDEX addr
        in (te_page e = TLB_PAGE addr \<longrightarrow> tr addr MEM_READ = Some (entry_ptr e addr)) \<and>
           (te_page_if_writable e = TLB_PAGE addr \<longrightarrow> tr addr MEM_WRITE = Some (entry_ptr e addr)))"

section \<open>The buffer over any address space\<close>

lemma xor_less:
  fixes a b :: nat
  assumes "a < 2 ^ n" "b < 2 ^ n"
  shows "a XOR b < 2 ^ n"
proof -
  have "take_bit n (a XOR b) = a XOR b" using assms by (simp add: take_bit_nat_eq_self)
  then show ?thesis by (metis take_bit_nat_less_exp)
qed

lemma TLB_INDEX_less: "addr < 2 ^ 32 \<Longrightarrow> TLB_INDEX addr < TLB_SIZE"
proof -
  assume "addr < 2 ^ 32"
  then have "addr div 2 ^ 22 < 2 ^ 10" by (simp add: less_mult_imp_div_less)
  moreover have "addr div 2 ^ 12 AND (TLB_SIZE - 1) < 2 ^ 10"
    using take_bit_nat_less_exp[of 10 "addr div 2 ^ 12"]
    by (simp add: take_bit_eq_mask mask_eq_exp_minus_1)
  ultimately show ?thesis by (simp only: TLB_INDEX_def xor_less)
qed

lemma TLB_PAGE_not_1: "TLB_PAGE addr \<noteq> 1"
  by (simp add: TLB_PAGE_def PAGE_SIZE_def)

lemma page_split: "addr = TLB_PAGE addr + PGOFFSET addr"
  by (simp add: TLB_PAGE_def PAGE_def PGOFFSET_def)

text \<open>
  What the buffer relies on: translation goes page by page, and a page that can be written is
  read at the same place.
\<close>

locale mmu =
  fixes translate :: translation
  assumes translate_page: "translate addr ty =
      map_option (\<lambda>(block, off). (block, off + PGOFFSET addr)) (translate (TLB_PAGE addr) ty)"
    and write_read: "translate addr MEM_WRITE = Some p \<Longrightarrow> translate addr MEM_READ = Some p"
begin

lemma flush_coherent: "tlb_coherent translate (tlb_flush chg t)"
  using TLB_PAGE_not_1 TLB_INDEX_less
  by (auto simp: tlb_coherent_def tlb_flush_def Let_def dest: sym)

lemma handle_miss:
  assumes coh: "tlb_coherent translate t" and addr: "addr < 2 ^ 32" and ty: "ty = MEM_READ \<or> ty = MEM_WRITE"
    and res: "tlb_handle_miss translate chg t addr ty = (p, t')"
  shows "p = translate addr ty" "tlb_coherent translate t'" "p = None \<Longrightarrow> segfault_addr t' = addr"
proof -
  define t1 where "t1 = (if chg \<noteq> mem_changes t then tlb_flush chg t else t)"
  have coh1: "tlb_coherent translate t1" using coh flush_coherent by (simp add: t1_def)
  have "p = translate addr ty \<and> tlb_coherent translate t' \<and> (p = None \<longrightarrow> segfault_addr t' = addr)"
  proof (cases "translate (TLB_PAGE addr) ty")
    case None
    then have "translate addr ty = None" using translate_page[of addr ty] by simp
    moreover have "p = None" "t' = t1\<lparr>segfault_addr := addr\<rparr>"
      using res None by (auto simp: tlb_handle_miss_def Let_def t1_def)
    ultimately show ?thesis using coh1 by (simp add: tlb_coherent_def)
  next
    case (Some q)
    obtain block off where q: "q = (block, off)" by force
    define ent where "ent = \<lparr>te_page = TLB_PAGE addr,
      te_page_if_writable = (if ty = MEM_WRITE then TLB_PAGE addr else TLB_PAGE_EMPTY),
      te_data_minus_addr = (block, int off - int (TLB_PAGE addr))\<rparr>"
    have ptr: "translate a ty = Some (entry_ptr ent a)" if "TLB_PAGE a = TLB_PAGE addr" for a
      using translate_page[of a ty] that Some q page_split[of a] by (simp add: entry_ptr_def ent_def)
    have read: "translate a MEM_READ = Some (entry_ptr ent a)" if "TLB_PAGE a = TLB_PAGE addr" for a
      using ptr[OF that] write_read[of a "entry_ptr ent a"] ty by metis
    have t': "p = Some (entry_ptr ent addr)"
      "t' = t1\<lparr>dirty_page := TLB_PAGE addr, entries := (entries t1)[TLB_INDEX addr := ent]\<rparr>"
      using res Some q by (auto simp: tlb_handle_miss_def Let_def t1_def ent_def)
    have "tlb_coherent translate t'"
      using coh1 TLB_INDEX_less[OF addr] ptr read TLB_PAGE_not_1
      by (auto simp: tlb_coherent_def t' Let_def nth_list_update ent_def dest: sym)
    then show ?thesis using t' ptr[of addr] by simp
  qed
  then show "p = translate addr ty" "tlb_coherent translate t'" "p = None \<Longrightarrow> segfault_addr t' = addr"
    by blast+
qed

lemma read_ptr:
  assumes coh: "tlb_coherent translate t" and addr: "addr < 2 ^ 32"
    and res: "tlb_read_ptr translate chg t addr = (p, t')"
  shows "p = translate addr MEM_READ" "tlb_coherent translate t'" "p = None \<Longrightarrow> segfault_addr t' = addr"
proof -
  have "p = translate addr MEM_READ \<and> tlb_coherent translate t' \<and> (p = None \<longrightarrow> segfault_addr t' = addr)"
  proof (cases "te_page (entries t ! TLB_INDEX addr) = TLB_PAGE addr")
    case True
    then show ?thesis using coh addr res by (auto simp: tlb_read_ptr_def tlb_coherent_def Let_def)
  next
    case False
    then have "tlb_handle_miss translate chg t addr MEM_READ = (p, t')"
      using res by (simp add: tlb_read_ptr_def Let_def)
    from handle_miss[OF coh addr _ this] show ?thesis by simp
  qed
  then show "p = translate addr MEM_READ" "tlb_coherent translate t'"
    "p = None \<Longrightarrow> segfault_addr t' = addr" by blast+
qed

lemma write_ptr:
  assumes coh: "tlb_coherent translate t" and addr: "addr < 2 ^ 32"
    and res: "tlb_write_ptr translate chg t addr = (p, t')"
  shows "p = translate addr MEM_WRITE" "tlb_coherent translate t'" "p = None \<Longrightarrow> segfault_addr t' = addr"
proof -
  have "p = translate addr MEM_WRITE \<and> tlb_coherent translate t' \<and> (p = None \<longrightarrow> segfault_addr t' = addr)"
  proof (cases "te_page_if_writable (entries t ! TLB_INDEX addr) = TLB_PAGE addr")
    case True
    then show ?thesis using coh addr res by (auto simp: tlb_write_ptr_def tlb_coherent_def Let_def)
  next
    case False
    then have "tlb_handle_miss translate chg t addr MEM_WRITE = (p, t')"
      using res by (simp add: tlb_write_ptr_def Let_def)
    from handle_miss[OF coh addr _ this] show ?thesis by simp
  qed
  then show "p = translate addr MEM_WRITE" "tlb_coherent translate t'"
    "p = None \<Longrightarrow> segfault_addr t' = addr" by blast+
qed

end

section \<open>The buffer over guest memory\<close>

lemma within_page:
  assumes "PGOFFSET addr + i < PAGE_SIZE"
  shows "PAGE (addr + i) = PAGE addr" "PGOFFSET (addr + i) = PGOFFSET addr + i"
proof -
  have "(addr + i) div 4096 = addr div 4096 + i div 4096 + (addr mod 4096 + i mod 4096) div 4096"
    by (rule div_add1_eq)
  moreover have i: "addr mod 4096 + i < 4096" using assms by (simp add: PGOFFSET_def PAGE_SIZE_def)
  ultimately show "PAGE (addr + i) = PAGE addr" by (simp add: PAGE_def PAGE_SIZE_def)
  have "(addr + i) mod 4096 = (addr mod 4096 + i) mod 4096" by (simp add: mod_add_left_eq)
  then show "PGOFFSET (addr + i) = PGOFFSET addr + i" using i by (simp add: PGOFFSET_def PAGE_SIZE_def)
qed

lemma mem_ptr_nofault_offset:
  assumes "mem_ptr_nofault h m addr ty = Some (block, off)" "PGOFFSET addr + i < PAGE_SIZE"
  shows "mem_ptr_nofault h m (addr + i) ty = Some (block, off + i)"
  using assms(1) within_page[OF assms(2)]
  by (auto simp: mem_ptr_nofault_def split: option.splits if_splits)

interpretation mem_mmu: mmu "mem_ptr_nofault h m" for h m
proof
  fix addr ty
  have "PAGE (TLB_PAGE addr) = PAGE addr" "PGOFFSET (TLB_PAGE addr) = 0"
    by (simp_all add: TLB_PAGE_def PAGE_def PGOFFSET_def PAGE_SIZE_def)
  then show "mem_ptr_nofault h m addr ty =
      map_option (\<lambda>(block, off). (block, off + PGOFFSET addr)) (mem_ptr_nofault h m (TLB_PAGE addr) ty)"
    by (auto simp: mem_ptr_nofault_def split: option.splits)
next
  fix addr p
  assume "mem_ptr_nofault h m addr MEM_WRITE = Some p"
  then show "mem_ptr_nofault h m addr MEM_READ = Some p"
    by (auto simp: mem_ptr_nofault_def split: option.splits if_splits)
qed

lemma load_bytes_guest:
  assumes inv: "mem_inv h ext m" and ptr: "mem_ptr_nofault h m addr MEM_READ = Some p"
    and "PGOFFSET addr + n \<le> PAGE_SIZE"
  shows "\<exists>bs. load_bytes h p n = Some bs \<and> map Some bs = map (mem_byte h m) [addr..<addr + n]"
proof -
  obtain block off where p: "p = (block, off)" by force
  have "maps h block \<noteq> None"
    using ptr mem_inv_data(5)[OF inv] by (auto simp: mem_ptr_nofault_def p split: option.splits if_splits)
  then obtain f where f: "maps h block = Some f" by blast
  have "mem_byte h m (addr + i) = Some (f (off + i))" if "i < n" for i
  proof -
    have "PGOFFSET addr + i < PAGE_SIZE" using assms(3) that by simp
    from mem_ptr_nofault_offset[OF ptr[unfolded p] this] show ?thesis by (simp add: mem_byte_def f)
  qed
  then have "map Some (map f [off..<off + n]) = map (mem_byte h m) [addr..<addr + n]"
    by (intro nth_equalityI) auto
  then show ?thesis using f by (simp add: load_bytes_def p)
qed

lemma mem_byte_None: "mem_ptr_nofault h m addr MEM_READ = None \<Longrightarrow> mem_byte h m addr = None"
  by (simp add: mem_byte_def)

lemma next_page_addr:
  assumes "PAGE_SIZE < PGOFFSET addr + n" "addr + n \<le> 2 ^ 32"
  shows "next_page_addr addr = addr + (PAGE_SIZE - PGOFFSET addr)"
    "PGOFFSET (next_page_addr addr) = 0" "next_page_addr addr < addr + n"
proof -
  have lt: "PGOFFSET addr < PAGE_SIZE" by (rule PGOFFSET_less)
  have eq: "(PAGE addr + 1) * PAGE_SIZE = addr + (PAGE_SIZE - PGOFFSET addr)"
    using page_split[of addr] lt by (simp add: TLB_PAGE_def algebra_simps)
  moreover have less: "addr + (PAGE_SIZE - PGOFFSET addr) < addr + n" using assms(1) lt by simp
  ultimately show e: "next_page_addr addr = addr + (PAGE_SIZE - PGOFFSET addr)"
    using assms(2) by (simp add: next_page_addr_def w32_id)
  show "next_page_addr addr < addr + n" using less e by simp
  show "PGOFFSET (next_page_addr addr) = 0" unfolding e eq[symmetric] by (simp add: PGOFFSET_def)
qed

text \<open>The outcome of a read of \<open>n\<close> bytes of guest memory at \<open>addr\<close>.\<close>

definition read_outcome :: "host \<Rightarrow> mem \<Rightarrow> nat \<Rightarrow> nat \<Rightarrow> byte list option \<Rightarrow> tlb \<Rightarrow> bool" where
  "read_outcome h m addr n res t \<longleftrightarrow>
     (case res of
        Some bs \<Rightarrow> map Some bs = map (mem_byte h m) [addr..<addr + n]
      | None \<Rightarrow> addr \<le> segfault_addr t \<and> segfault_addr t < addr + n \<and>
                mem_byte h m (segfault_addr t) = None)"

lemma tlb_read_cross_page_ok:
  assumes inv: "mem_inv h ext m" and coh: "tlb_coherent (mem_ptr_nofault h m) t"
    and cross: "PAGE_SIZE < PGOFFSET addr + n" "addr + n \<le> 2 ^ 32" "n \<le> PAGE_SIZE"
  shows "\<exists>res t'. tlb_read_cross_page h (mem_ptr_nofault h m) chg t addr n = Some (res, t') \<and>
    tlb_coherent (mem_ptr_nofault h m) t' \<and> read_outcome h m addr n res t'"
proof -
  let ?tr = "mem_ptr_nofault h m" and ?next = "next_page_addr addr" and ?k = "PAGE_SIZE - PGOFFSET addr"
  note nxt = next_page_addr[OF cross(1,2)]
  have lt: "PGOFFSET addr < PAGE_SIZE" by (rule PGOFFSET_less)
  have addr: "addr < 2 ^ 32" "?next < 2 ^ 32" using cross nxt lt by auto
  obtain p1 t1 where r1: "tlb_read_ptr ?tr chg t addr = (p1, t1)" by force
  note p1 = mem_mmu.read_ptr[OF coh addr(1) r1]
  obtain p2 t2 where r2: "tlb_read_ptr ?tr chg t1 ?next = (p2, t2)" by force
  note p2 = mem_mmu.read_ptr[OF p1(2) addr(2) r2]
  show ?thesis
  proof (cases p1; cases p2)
    assume "p1 = None"
    moreover have "read_outcome h m addr n None t1" if "p1 = None"
      using that p1(1,3) mem_byte_None[of h m addr] cross(1) lt by (simp add: read_outcome_def)
    ultimately show ?thesis using r1 p1(2) by (simp add: tlb_read_cross_page_def)
    then show ?thesis .
  next
    fix q1 assume q: "p1 = Some q1" "p2 = None"
    then have "read_outcome h m addr n None t2"
      using p2(1,3) mem_byte_None[of h m ?next] nxt by (simp add: read_outcome_def)
    then show ?thesis using q r1 r2 p2(2) by (simp add: tlb_read_cross_page_def)
  next
    fix q1 q2 assume q: "p1 = Some q1" "p2 = Some q2"
    have len: "n - ?k \<le> PAGE_SIZE" using cross(3) by simp
    obtain a where a: "load_bytes h q1 ?k = Some a" "map Some a = map (mem_byte h m) [addr..<addr + ?k]"
      using load_bytes_guest[OF inv, of addr q1 ?k] p1(1) q lt by auto
    obtain b where b: "load_bytes h q2 (n - ?k) = Some b"
      "map Some b = map (mem_byte h m) [?next..<?next + (n - ?k)]"
      using load_bytes_guest[OF inv, of ?next q2 "n - ?k"] p2(1) q nxt(2) len by auto
    have "[addr..<addr + n] = [addr..<addr + ?k] @ [?next..<?next + (n - ?k)]"
      using nxt(1) cross(1) lt upt_add_eq_append[of addr "addr + ?k" "n - ?k"] by simp
    then show ?thesis using r1 r2 q a b p2(2) cross(1) lt
      by (simp add: tlb_read_cross_page_def read_outcome_def Let_def)
  qed
qed

text \<open>
  C18. Reading guest memory through a coherent buffer, within a page or across two, always
  returns: either with exactly the bytes of guest memory, or with \<^verbatim>\<open>segfault_addr\<close> the
  address in the range that is not mapped; the buffer is coherent afterwards.
\<close>

theorem tlb_read_correct:
  assumes inv: "mem_inv h ext m" and coh: "tlb_coherent (mem_ptr_nofault h m) t"
    and n: "0 < n" "n \<le> PAGE_SIZE" "addr + n \<le> 2 ^ 32"
  shows "\<exists>res t'. tlb_read h (mem_ptr_nofault h m) (changes m) t addr n = Some (res, t') \<and>
    tlb_coherent (mem_ptr_nofault h m) t' \<and> read_outcome h m addr n res t'"
proof -
  have "w32 (2 ^ 32 + PAGE_SIZE - n) = PAGE_SIZE - n"
    using n by (simp add: w32_def PAGE_SIZE_def mod_if)
  then have cross: "crosses_page addr n \<longleftrightarrow> PAGE_SIZE < PGOFFSET addr + n"
    using n by (auto simp: crosses_page_def)
  show ?thesis
  proof (cases "crosses_page addr n")
    case True
    then show ?thesis using tlb_read_cross_page_ok[OF inv coh _ n(3,2)] cross
      by (simp add: tlb_read_def)
  next
    case False
    obtain p t' where r: "tlb_read_ptr (mem_ptr_nofault h m) (changes m) t addr = (p, t')" by force
    have "addr < 2 ^ 32" using n by simp
    note p = mem_mmu.read_ptr[OF coh this r]
    show ?thesis
    proof (cases p)
      case None
      then show ?thesis using False r p n mem_byte_None[of h m addr]
        by (auto simp: tlb_read_def read_outcome_def)
    next
      case (Some q)
      then obtain bs where "load_bytes h q n = Some bs" "map Some bs = map (mem_byte h m) [addr..<addr + n]"
        using load_bytes_guest[OF inv, of addr q n] p(1) False cross by auto
      then show ?thesis using False r p(2) Some by (auto simp: tlb_read_def read_outcome_def)
    qed
  qed
qed

text \<open>An empty buffer.\<close>

definition tlb0 :: tlb where
  "tlb0 = tlb_flush 0 \<lparr>tlb_mmu = 0, dirty_page = 1, mem_changes = 0, segfault_addr = 0, entries = []\<rparr>"

theorem tlb_read_correct_witness:
  "\<exists>res t'. tlb_read host1 (mem_ptr_nofault host1 mem1) (changes mem1) tlb0 0x5ffe 4 = Some (res, t') \<and>
    tlb_coherent (mem_ptr_nofault host1 mem1) t' \<and> read_outcome host1 mem1 0x5ffe 4 res t'"
proof -
  have "tlb_coherent (mem_ptr_nofault host1 mem1) tlb0"
    unfolding tlb0_def by (rule mem_mmu.flush_coherent)
  then show ?thesis
    using tlb_read_correct[OF mem_inv_host1, of tlb0 4 "0x5ffe"] by (simp add: PAGE_SIZE_def)
qed

text \<open>
  A lookup for writing through a coherent buffer equals the walk of the page table: it
  gives a pointer exactly for a writable page without the copy-on-write mark, reports
  the address otherwise, and keeps the buffer coherent.
\<close>

theorem tlb_write_ptr_equals_walk:
  assumes "tlb_coherent (mem_ptr_nofault h m) t" "addr < 2 ^ 32"
  shows "fst (tlb_write_ptr (mem_ptr_nofault h m) (changes m) t addr) = mem_ptr_nofault h m addr MEM_WRITE \<and>
    tlb_coherent (mem_ptr_nofault h m) (snd (tlb_write_ptr (mem_ptr_nofault h m) (changes m) t addr)) \<and>
    (mem_ptr_nofault h m addr MEM_WRITE = None \<longrightarrow>
       segfault_addr (snd (tlb_write_ptr (mem_ptr_nofault h m) (changes m) t addr)) = addr)"
  using mem_mmu.write_ptr[OF assms, of "changes m"]
  by (cases "tlb_write_ptr (mem_ptr_nofault h m) (changes m) t addr") auto

theorem tlb_write_ptr_equals_walk_witness:
  "fst (tlb_write_ptr (mem_ptr_nofault host1 mem1) (changes mem1) tlb0 0x5010) =
    mem_ptr_nofault host1 mem1 0x5010 MEM_WRITE"
proof -
  have "tlb_coherent (mem_ptr_nofault host1 mem1) tlb0"
    unfolding tlb0_def by (rule mem_mmu.flush_coherent)
  then show ?thesis using tlb_write_ptr_equals_walk[of host1 mem1 tlb0 "0x5010"] by simp
qed

end
