(* ===== verification/Mount.thy ===== *)
theory Mount
  imports Prelude
begin

text \<open>
  Normalized paths (\<^verbatim>\<open>path_is_normalized\<close>, \<^verbatim>\<open>path_next_component\<close> of \<^verbatim>\<open>fs/path.c\<close>) and the
  table of mounts of \<^verbatim>\<open>fs/mount.c\<close>. A path is the string before its terminating null
  character. A mount is identified by \<open>m_id\<close>, which stands for the address of its structure;
  the table is the list of mounts in the order of the linked list.
\<close>

section \<open>Definitions\<close>

definition MAX_PATH :: nat where "MAX_PATH = 4096"

definition MAX_NAME :: nat where "MAX_NAME = 256"

abbreviation slash :: char where "slash \<equiv> CHR ''/''"

function path_is_normalized :: "string \<Rightarrow> bool" where
  "path_is_normalized path =
     (case path of
        [] \<Rightarrow> True
      | c # rest \<Rightarrow>
          if c \<noteq> slash then False
          else if rest \<noteq> [] \<and> hd rest = slash then False
          else path_is_normalized (dropWhile (\<lambda>c. c \<noteq> slash) rest))"
  by pat_completeness auto
termination
  by (relation "measure length") (auto simp: le_imp_less_Suc length_dropWhile_le)

declare path_is_normalized.simps [simp del]

text \<open>
  \<open>Inl 0\<close>: the end of the path was reached; \<open>Inl e\<close>: the error was set; \<open>Inr\<close>: the component and
  the rest of the path. \<^const>\<open>None\<close> is the failed assertion.
\<close>

definition path_next_component :: "string \<Rightarrow> (int + string \<times> string) option" where
  "path_next_component path =
     (case path of
        [] \<Rightarrow> Some (Inl 0)
      | c # p \<Rightarrow>
          if c \<noteq> slash then None
          else let comp = takeWhile (\<lambda>c. c \<noteq> slash) p
               in if length comp \<ge> MAX_NAME then Some (Inl ENAMETOOLONG)
                  else Some (Inr (comp, dropWhile (\<lambda>c. c \<noteq> slash) p)))"

record mount =
  m_id :: nat
  m_point :: string
  m_source :: string
  m_info :: string
  m_flags :: nat
  m_fs :: nat
  m_refcount :: nat

text \<open>\<^verbatim>\<open>filesystems\<close>: ten slots, each null or the number of a file system.\<close>

definition filesystems_init :: "nat option list" where
  "filesystems_init = [Some 0, Some 1, Some 2, Some 3] @ replicate 6 None"

fun fs_register :: "nat \<Rightarrow> nat option list \<Rightarrow> nat option list option" where
  "fs_register fs [] = None"
| "fs_register fs (None # slots) = Some (Some fs # slots)"
| "fs_register fs (Some f # slots) = map_option ((#) (Some f)) (fs_register fs slots)"

definition under :: "string \<Rightarrow> string \<Rightarrow> bool" where
  "under point path \<longleftrightarrow> (let n = length point
     in take n path = point \<and> (drop n path = [] \<or> hd (drop n path) = slash))"

text \<open>The reference count is unsigned, with 32 bits.\<close>

definition mount_retain :: "nat \<Rightarrow> mount list \<Rightarrow> mount list" where
  "mount_retain i ms =
     map (\<lambda>m. if m_id m = i then m\<lparr>m_refcount := w32 (m_refcount m + 1)\<rparr> else m) ms"

definition mount_release :: "nat \<Rightarrow> mount list \<Rightarrow> mount list" where
  "mount_release i ms =
     map (\<lambda>m. if m_id m = i then m\<lparr>m_refcount := w32 (m_refcount m + (2 ^ 32 - 1))\<rparr> else m) ms"

text \<open>
  \<^const>\<open>None\<close>: an assertion fails, or no mount matches and the loop leaves a pointer to the list
  head, which is no mount.
\<close>

definition mount_find :: "string \<Rightarrow> mount list \<Rightarrow> (mount \<times> mount list) option" where
  "mount_find path ms =
     (if \<not> path_is_normalized path \<or> ms = [] then None
      else case find (\<lambda>m. under (m_point m) path) ms of
             None \<Rightarrow> None
           | Some m \<Rightarrow> Some (m, mount_retain (m_id m) ms))"

definition find_mount_and_trim_path :: "string \<Rightarrow> mount list \<Rightarrow> (mount \<times> string \<times> mount list) option" where
  "find_mount_and_trim_path path ms =
     map_option (\<lambda>(m, ms'). (m, drop (length (m_point m)) path, ms')) (mount_find path ms)"

definition contains_mount_point :: "string \<Rightarrow> mount list \<Rightarrow> bool" where
  "contains_mount_point path ms = list_ex (\<lambda>m. under path (m_point m)) ms"

fun mount_insert :: "mount \<Rightarrow> mount list \<Rightarrow> mount list" where
  "mount_insert new [] = [new]"
| "mount_insert new (m # ms) =
     (if length (m_point m) \<le> length (m_point new) then new # m # ms else m # mount_insert new ms)"

text \<open>
  \<open>fresh\<close> is the allocated structure, or \<^const>\<open>None\<close> when \<^verbatim>\<open>malloc\<close> fails; \<open>callback\<close> is what
  \<^verbatim>\<open>fs->mount\<close> returns, or \<^const>\<open>None\<close> when the file system has no such function.
\<close>

definition do_mount ::
  "nat option \<Rightarrow> int option \<Rightarrow> nat \<Rightarrow> string \<Rightarrow> string \<Rightarrow> string \<Rightarrow> nat \<Rightarrow> mount list \<Rightarrow> int \<times> mount list" where
  "do_mount fresh callback fs source point info flags ms =
     (case fresh of
        None \<Rightarrow> (ENOMEM, ms)
      | Some i \<Rightarrow>
          let new = \<lparr>m_id = i, m_point = point, m_source = source, m_info = info,
                     m_flags = flags, m_fs = fs, m_refcount = 0\<rparr>
          in case callback of
               Some err \<Rightarrow> if err < 0 then (err, ms) else (0, mount_insert new ms)
             | None \<Rightarrow> (0, mount_insert new ms))"

definition mount_remove :: "mount \<Rightarrow> mount list \<Rightarrow> int \<times> mount list" where
  "mount_remove m ms =
     (if m_refcount m \<noteq> 0 then (EBUSY, ms) else (0, filter (\<lambda>x. m_id x \<noteq> m_id m) ms))"

definition do_umount :: "string \<Rightarrow> mount list \<Rightarrow> int \<times> mount list" where
  "do_umount point ms =
     (case find (\<lambda>m. point = m_point m) ms of
        None \<Rightarrow> (EINVAL, ms)
      | Some m \<Rightarrow> mount_remove m ms)"

text \<open>The loop may not end: then the value is \<^const>\<open>None\<close>.\<close>

partial_function (option) mount_param_flag :: "string \<Rightarrow> string \<Rightarrow> bool option" where
  "mount_param_flag info flag =
     (if info = [] then Some False
      else if take (length flag) info = flag then Some True
      else mount_param_flag (dropWhile (\<lambda>c. c \<noteq> CHR '','') info) flag)"

section \<open>Normalized paths\<close>

text \<open>A normalized path is the concatenation of its components, each after a slash.\<close>

definition join :: "string list \<Rightarrow> string" where
  "join cs = concat (map (\<lambda>c. slash # c) cs)"

definition is_comp :: "string \<Rightarrow> bool" where
  "is_comp c \<longleftrightarrow> c \<noteq> [] \<and> slash \<notin> set c"

lemma join_simps [simp]: "join [] = []" "join (c # cs) = slash # c @ join cs"
  "join (xs @ ys) = join xs @ join ys"
  by (simp_all add: join_def)

lemma normalized_Nil [simp]: "path_is_normalized []"
  by (simp add: path_is_normalized.simps)

lemma dropWhile_comp:
  assumes "slash \<notin> set c" "r = [] \<or> hd r = slash"
  shows "dropWhile (\<lambda>x. x \<noteq> slash) (c @ r) = r" "takeWhile (\<lambda>x. x \<noteq> slash) (c @ r) = c"
  using assms by (induction c) (auto split: list.splits simp: dropWhile_eq_self_iff takeWhile_eq_Nil_iff)

lemma normalized_Cons:
  assumes "is_comp c" "r = [] \<or> hd r = slash"
  shows "path_is_normalized (slash # c @ r) = path_is_normalized r"
proof -
  have "c @ r \<noteq> []" "hd (c @ r) \<noteq> slash"
    using assms(1) by (cases c; auto simp: is_comp_def)+
  then show ?thesis using dropWhile_comp[OF _ assms(2), of c] assms(1)
    by (subst path_is_normalized.simps) (simp add: is_comp_def)
qed

lemma join_start: "join cs = [] \<or> hd (join cs) = slash"
  by (cases cs) auto

lemma join_normalized: "list_all is_comp cs \<Longrightarrow> path_is_normalized (join cs)"
  by (induction cs) (auto simp: normalized_Cons join_start)

text \<open>A trailing slash is accepted too.\<close>

lemma join_slash_normalized: "list_all is_comp cs \<Longrightarrow> path_is_normalized (join cs @ [slash])"
proof (induction cs)
  case Nil
  show ?case by (simp add: path_is_normalized.simps[of "[slash]"])
next
  case (Cons c cs)
  have "join cs @ [slash] = [] \<or> hd (join cs @ [slash]) = slash" by (cases cs) auto
  then show ?case using Cons normalized_Cons[of c "join cs @ [slash]"] by simp
qed

text \<open>
  \<^verbatim>\<open>path_next_component\<close> takes a normalized path apart: on the concatenation of components
  it returns the first one and the path of the others, or \<^verbatim>\<open>ENAMETOOLONG\<close> when it does
  not fit into the caller's buffer.
\<close>

theorem path_next_component_join:
  assumes "is_comp c"
  shows "path_next_component (join (c # cs)) =
    Some (if length c < MAX_NAME then Inr (c, join cs) else Inl ENAMETOOLONG)"
  using assms dropWhile_comp[of c "join cs"] join_start[of cs]
  by (simp add: path_next_component_def is_comp_def)

theorem path_next_component_join_witness:
  "path_next_component ''/usr/bin'' = Some (Inr (''usr'', ''/bin''))"
  using path_next_component_join[of "''usr''" "[''bin'']"] by (simp add: is_comp_def MAX_NAME_def)

section \<open>The table of mounts\<close>

definition mounts_sorted :: "mount list \<Rightarrow> bool" where
  "mounts_sorted = sorted_wrt (\<lambda>a b. length (m_point b) \<le> length (m_point a))"

text \<open>The operations that change the table, as steps.\<close>

inductive mount_step :: "mount list \<Rightarrow> mount list \<Rightarrow> bool" where
  do_mount: "do_mount fresh callback fs source point info flags ms = (err, ms') \<Longrightarrow> mount_step ms ms'"
| do_umount: "do_umount point ms = (err, ms') \<Longrightarrow> mount_step ms ms'"
| retain: "mount_step ms (mount_retain i ms)"
| release: "mount_step ms (mount_release i ms)"

inductive mounts_reachable :: "mount list \<Rightarrow> bool" where
  empty: "mounts_reachable []"
| step: "mounts_reachable ms \<Longrightarrow> mount_step ms ms' \<Longrightarrow> mounts_reachable ms'"

inductive_cases mount_stepE: "mount_step ms ms'"

lemma set_mount_insert: "set (mount_insert new ms) = insert new (set ms)"
  by (induction ms) auto

lemma mount_insert_sorted: "mounts_sorted ms \<Longrightarrow> mounts_sorted (mount_insert new ms)"
proof (induction ms)
  case Nil
  then show ?case by (simp add: mounts_sorted_def)
next
  case (Cons m ms)
  then show ?case by (fastforce simp: mounts_sorted_def set_mount_insert)
qed

lemma sorted_map_point:
  assumes "mounts_sorted ms" "\<And>m. m_point (f m) = m_point m"
  shows "mounts_sorted (map f ms)"
  using assms by (simp add: mounts_sorted_def sorted_wrt_map)

lemma mount_step_sorted: "mount_step ms ms' \<Longrightarrow> mounts_sorted ms \<Longrightarrow> mounts_sorted ms'"
proof (induction rule: mount_step.induct)
  case (do_mount fresh callback fs source point info flags ms err ms')
  then show ?case
    by (auto simp: do_mount_def Let_def mount_insert_sorted split: option.splits if_splits)
next
  case (do_umount point ms err ms')
  then show ?case
    by (auto simp: do_umount_def mount_remove_def mounts_sorted_def sorted_wrt_filter
        split: option.splits if_splits)
next
  case (retain ms i)
  then show ?case unfolding mount_retain_def by (rule sorted_map_point) simp
next
  case (release ms i)
  then show ?case unfolding mount_release_def by (rule sorted_map_point) simp
qed

lemma mounts_reachable_sorted: "mounts_reachable ms \<Longrightarrow> mounts_sorted ms"
proof (induction rule: mounts_reachable.induct)
  case empty
  show ?case by (simp add: mounts_sorted_def)
next
  case (step ms ms')
  then show ?case using mount_step_sorted by blast
qed

lemma find_first:
  assumes "find P xs = Some x"
  shows "P x" "\<exists>i < length xs. x = xs ! i \<and> (\<forall>j < i. \<not> P (xs ! j))"
  using assms by (auto simp: find_Some_iff)

lemma under_root: "path_is_normalized path \<Longrightarrow> under [] path"
  by (subst (asm) path_is_normalized.simps) (auto simp: under_def split: list.splits if_splits)

text \<open>
  C19. In every table that mounting, unmounting and counting references can produce, with the
  root mounted, \<^verbatim>\<open>mount_find\<close> finds for a normalized path a mount whose point the path is
  under, and no mount with a longer point has that property.
\<close>

theorem mount_find_longest:
  assumes reach: "mounts_reachable ms" and root: "\<exists>m \<in> set ms. m_point m = []"
    and path: "path_is_normalized path"
  shows "\<exists>m. mount_find path ms = Some (m, mount_retain (m_id m) ms) \<and> m \<in> set ms \<and>
    under (m_point m) path \<and>
    (\<forall>x \<in> set ms. under (m_point x) path \<longrightarrow> length (m_point x) \<le> length (m_point m))"
proof -
  let ?P = "\<lambda>m. under (m_point m) path"
  have "ms \<noteq> []" using root by auto
  obtain m where m: "find ?P ms = Some m"
    using root under_root[OF path] by (cases "find ?P ms") (auto simp: find_None_iff)
  from find_first[OF m] obtain i where i: "i < length ms" "m = ms ! i" "?P m" "\<forall>j < i. \<not> ?P (ms ! j)"
    by blast
  have "length (m_point x) \<le> length (m_point m)" if x: "x \<in> set ms" "?P x" for x
  proof -
    obtain j where j: "j < length ms" "x = ms ! j" using x(1) by (auto simp: in_set_conv_nth)
    then have "i \<le> j" using i(4) x(2) by (meson not_le)
    then show ?thesis using mounts_reachable_sorted[OF reach] i j
      by (cases "i = j") (auto simp: mounts_sorted_def sorted_wrt_iff_nth_less)
  qed
  then show ?thesis using i m path \<open>ms \<noteq> []\<close> by (auto simp: mount_find_def)
qed

theorem mount_find_longest_witness:
  "\<exists>ms m. mount_find ''/proc/1'' ms = Some (m, mount_retain (m_id m) ms) \<and> m_point m = ''/proc''"
proof -
  define a where "a = snd (do_mount (Some 0) None 0 ''fs'' [] [] 0 [])"
  define b where "b = snd (do_mount (Some 1) None 1 ''proc'' ''/proc'' [] 0 a)"
  have "mounts_reachable a"
    by (rule mounts_reachable.step[OF mounts_reachable.empty],
        rule mount_step.do_mount[of "Some 0" None 0 "''fs''" "[]" "[]" 0])
      (simp add: a_def do_mount_def)
  then have "mounts_reachable b"
    by (rule mounts_reachable.step,
        intro mount_step.do_mount[of "Some 1" None 1 "''proc''" "''/proc''" "[]" 0])
      (simp add: b_def do_mount_def)
  moreover have root: "\<exists>m \<in> set b. m_point m = []" by (simp add: b_def a_def do_mount_def)
  moreover have "path_is_normalized ''/proc/1''"
    using join_normalized[of "[''proc'', ''1'']"] by (simp add: is_comp_def)
  ultimately obtain m where m: "mount_find ''/proc/1'' b = Some (m, mount_retain (m_id m) b)"
      "m \<in> set b" "\<forall>x \<in> set b. under (m_point x) ''/proc/1'' \<longrightarrow> length (m_point x) \<le> length (m_point m)"
    using mount_find_longest by blast
  have "m_point m = ''/proc''" using m(2,3) by (auto simp: b_def a_def do_mount_def under_def)
  then show ?thesis using m(1) by blast
qed

text \<open>
  C30. The search for a mount option ends only when the option comes first: for an option string
  with a comma, unless the flag is found at its start, the position stays at the first comma
  and the loop never returns.
\<close>

theorem mount_param_flag_diverges:
  assumes "CHR '','' \<in> set info" "take (length flag) info \<noteq> flag" "flag \<noteq> []" "CHR '','' \<notin> set flag"
  shows "mount_param_flag info flag = None"
proof -
  define stays where "stays x f \<longleftrightarrow> x \<noteq> [] \<and> hd x = CHR '','' \<and> f \<noteq> [] \<and> CHR '','' \<notin> set f"
    for x f :: string
  have stay: "take (length f) x \<noteq> f" "dropWhile (\<lambda>c. c \<noteq> CHR '','') x = x" "x \<noteq> []" if "stays x f" for x f
    using that unfolding stays_def by (cases x; cases f; auto)+
  have stuck: "\<not> stays x f" if "mount_param_flag x f = Some y" for x f y
  proof (rule mount_param_flag.raw_induct[OF _ that, where P = "\<lambda>x f y. \<not> stays x f"])
    fix rec :: "string \<Rightarrow> string \<Rightarrow> bool option" and x f y
    assume rec: "\<And>x f y. rec x f = Some y \<Longrightarrow> \<not> stays x f"
      and body: "(if x = [] then Some False else if take (length f) x = f then Some True
                  else rec (dropWhile (\<lambda>c. c \<noteq> CHR '','') x) f) = Some y"
    show "\<not> stays x f"
    proof
      assume "stays x f"
      then show False using stay[of x f] rec[of x f y] body by auto
    qed
  qed
  let ?x = "dropWhile (\<lambda>c. c \<noteq> CHR '','') info"
  have x: "?x \<noteq> []" "hd ?x = CHR '',''"
    using assms(1) hd_dropWhile[of "\<lambda>c. c \<noteq> CHR '',''" info] by (auto simp: dropWhile_eq_Nil_conv)
  have "mount_param_flag info flag = mount_param_flag ?x flag"
    using assms(1,2) by (subst mount_param_flag.simps) auto
  also have "\<dots> = None" using stuck[of ?x flag] x assms(3,4) unfolding stays_def
    by (cases "mount_param_flag ?x flag") auto
  finally show ?thesis .
qed

theorem mount_param_flag_diverges_witness: "mount_param_flag ''ro,noexec'' ''noexec'' = None"
  using mount_param_flag_diverges[of "''ro,noexec''" "''noexec''"] by simp

section \<open>References to mounts\<close>

text \<open>What a table must satisfy for a lookup: its root is mounted and its counts have 32 bits.\<close>

definition mounts_ok :: "mount list \<Rightarrow> bool" where
  "mounts_ok ms \<longleftrightarrow> (\<exists>m \<in> set ms. m_point m = []) \<and> (\<forall>m \<in> set ms. m_refcount m < 2 ^ 32)"

lemma release_retain:
  assumes "mounts_ok ms"
  shows "mount_release i (mount_retain i ms) = ms"
proof -
  have "w32 (w32 (k + 1) + (2 ^ 32 - 1)) = k" if "k < 2 ^ 32" for k
  proof -
    have "w32 (w32 (k + 1) + (2 ^ 32 - 1)) = w32 (k + 2 ^ 32)" by (simp add: w32_def mod_add_left_eq)
    then show ?thesis using that by (simp add: w32_def)
  qed
  then show ?thesis using assms
    by (auto simp: mount_release_def mount_retain_def mounts_ok_def intro!: map_idI)
qed

lemma normalized_drop:
  "path_is_normalized path \<Longrightarrow> drop n path = [] \<or> hd (drop n path) = slash \<Longrightarrow>
   path_is_normalized (drop n path)"
proof (induction path arbitrary: n rule: path_is_normalized.induct)
  case (1 path)
  show ?case
  proof (cases "n = 0 \<or> path = []")
    case True
    then show ?thesis using "1.prems" by auto
  next
    case False
    then obtain c rest k where p: "path = c # rest" "n = Suc k" by (cases path; cases n) auto
    let ?t = "takeWhile (\<lambda>c. c \<noteq> slash) rest" and ?d = "dropWhile (\<lambda>c. c \<noteq> slash) rest"
    have norm: "c = slash" "rest = [] \<or> hd rest \<noteq> slash" "path_is_normalized ?d"
      using "1.prems"(1) p by (auto simp: path_is_normalized.simps[of "c # rest"] split: if_splits)
    show ?thesis
    proof (cases "k < length ?t")
      case True
      then have "k < length rest" using length_takeWhile_le[of "\<lambda>c. c \<noteq> slash" rest] by linarith
      moreover have "?t ! k \<noteq> slash" using set_takeWhileD[OF nth_mem[OF True]] by simp
      then have "rest ! k \<noteq> slash" using True by (simp add: takeWhile_nth)
      ultimately show ?thesis using "1.prems"(2) p by (simp add: hd_drop_conv_nth)
    next
      case False
      have "drop k rest = drop k (?t @ ?d)" by simp
      also have "\<dots> = drop (k - length ?t) ?d" using False by (simp only: drop_append) simp
      finally have d: "drop n path = drop (k - length ?t) ?d" using p by simp
      show ?thesis unfolding d
        by (rule "1.IH"[OF p(1)]) (use norm "1.prems"(2) d in auto)
    qed
  qed
qed

lemma mount_find_ok:
  assumes "mounts_ok ms" "path_is_normalized path"
  obtains m where "find_mount_and_trim_path path ms =
      Some (m, drop (length (m_point m)) path, mount_retain (m_id m) ms)"
    and "path_is_normalized (drop (length (m_point m)) path)"
proof -
  let ?P = "\<lambda>m. under (m_point m) path"
  obtain m where m: "find ?P ms = Some m"
    using assms under_root[OF assms(2)]
    by (cases "find ?P ms") (auto simp: find_None_iff mounts_ok_def)
  have "ms \<noteq> []" using assms(1) by (auto simp: mounts_ok_def)
  then have "find_mount_and_trim_path path ms =
      Some (m, drop (length (m_point m)) path, mount_retain (m_id m) ms)"
    using m assms(2) by (simp add: find_mount_and_trim_path_def mount_find_def)
  moreover have "path_is_normalized (drop (length (m_point m)) path)"
    using normalized_drop[OF assms(2)] find_first(1)[OF m] by (simp add: under_def Let_def)
  ultimately show thesis by (rule that)
qed

end
