(* ===== verification/Path.thy ===== *)
theory Path
  imports Mount
begin

text \<open>
  Path normalization, \<^verbatim>\<open>path_normalize\<close> of \<^verbatim>\<open>fs/path.c\<close>, with the permission check of
  \<^verbatim>\<open>kernel/fs.c\<close>. The file systems behind \<^verbatim>\<open>mount->fs\<close> are a parameter: a record of their
  operations over a state \<open>'w\<close>, an absent operation being \<^const>\<open>None\<close>. The output buffer is the
  string written so far; a write or a copy that leaves a buffer of \<^verbatim>\<open>MAX_PATH\<close> characters and a
  failed assertion are \<^const>\<open>None\<close>.
\<close>

section \<open>Definitions\<close>

record statbuf =
  st_inode :: nat
  st_mode :: nat
  st_uid :: nat
  st_gid :: nat
  st_rdev :: nat
  st_size :: nat

record cred =
  euid :: nat
  egid :: nat

definition S_IFMT :: nat where "S_IFMT = 0xf000"

definition S_ISDIR :: "nat \<Rightarrow> bool" where "S_ISDIR mode \<longleftrightarrow> mode AND S_IFMT = 0x4000"

definition S_ISLNK :: "nat \<Rightarrow> bool" where "S_ISLNK mode \<longleftrightarrow> mode AND S_IFMT = 0xa000"

definition S_ISBLK :: "nat \<Rightarrow> bool" where "S_ISBLK mode \<longleftrightarrow> mode AND S_IFMT = 0x6000"

definition S_ISCHR :: "nat \<Rightarrow> bool" where "S_ISCHR mode \<longleftrightarrow> mode AND S_IFMT = 0x2000"

definition S_ISSOCK :: "nat \<Rightarrow> bool" where "S_ISSOCK mode \<longleftrightarrow> mode AND S_IFMT = 0xc000"

definition superuser :: "cred \<Rightarrow> bool" where "superuser c \<longleftrightarrow> euid c = 0"

abbreviation (input) AC_R :: nat where "AC_R \<equiv> 4"

abbreviation (input) AC_W :: nat where "AC_W \<equiv> 2"

abbreviation (input) AC_X :: nat where "AC_X \<equiv> 1"

definition access_check :: "cred \<Rightarrow> statbuf \<Rightarrow> nat \<Rightarrow> int" where
  "access_check cr st chk =
     (if superuser cr then 0
      else if chk = 0 then 0
      else let chk' = (if euid cr = st_uid st then chk * 64
                       else if egid cr = st_gid st then chk * 8 else chk)
           in if st_mode st AND chk' = 0 then EACCES else 0)"

datatype attr = Attr_uid nat | Attr_gid nat | Attr_mode nat | Attr_size int

record ('w, 'f) fs_ops =
  op_readlink :: "('w \<Rightarrow> mount \<Rightarrow> string \<Rightarrow> nat \<Rightarrow> int + string) option"
  op_stat :: "'w \<Rightarrow> mount \<Rightarrow> string \<Rightarrow> int + statbuf"
  op_open :: "mount \<Rightarrow> string \<Rightarrow> nat \<Rightarrow> nat \<Rightarrow> 'w \<Rightarrow> (int + 'f) \<times> 'w"
  op_fstat :: "'w \<Rightarrow> 'f \<Rightarrow> int + statbuf"
  op_getpath :: "'w \<Rightarrow> 'f \<Rightarrow> int + string"
  op_link :: "(mount \<Rightarrow> string \<Rightarrow> string \<Rightarrow> 'w \<Rightarrow> int \<times> 'w) option"
  op_rename :: "(mount \<Rightarrow> string \<Rightarrow> string \<Rightarrow> 'w \<Rightarrow> int \<times> 'w) option"
  op_symlink :: "(mount \<Rightarrow> string \<Rightarrow> string \<Rightarrow> 'w \<Rightarrow> int \<times> 'w) option"
  op_unlink :: "(mount \<Rightarrow> string \<Rightarrow> 'w \<Rightarrow> int \<times> 'w) option"
  op_rmdir :: "(mount \<Rightarrow> string \<Rightarrow> 'w \<Rightarrow> int \<times> 'w) option"
  op_mkdir :: "(mount \<Rightarrow> string \<Rightarrow> nat \<Rightarrow> 'w \<Rightarrow> int \<times> 'w) option"
  op_mknod :: "(mount \<Rightarrow> string \<Rightarrow> nat \<Rightarrow> nat \<Rightarrow> 'w \<Rightarrow> int \<times> 'w) option"
  op_setattr :: "(mount \<Rightarrow> string \<Rightarrow> attr \<Rightarrow> 'w \<Rightarrow> int \<times> 'w) option"
  op_utime :: "(mount \<Rightarrow> string \<Rightarrow> int \<times> int \<Rightarrow> int \<times> int \<Rightarrow> 'w \<Rightarrow> int \<times> 'w) option"
  op_close :: "'f \<Rightarrow> 'w \<Rightarrow> 'w"
  op_orphaned :: "(mount \<Rightarrow> nat \<Rightarrow> 'w \<Rightarrow> 'w) option"

abbreviation (input) N_SYMLINK_FOLLOW :: nat where "N_SYMLINK_FOLLOW \<equiv> 1"

abbreviation (input) N_SYMLINK_NOFOLLOW :: nat where "N_SYMLINK_NOFOLLOW \<equiv> 2"

abbreviation (input) N_PARENT_DIR_WRITE :: nat where "N_PARENT_DIR_WRITE \<equiv> 4"

definition skip_slashes :: "string \<Rightarrow> string" where
  "skip_slashes p = dropWhile (\<lambda>c. c = slash) p"

text \<open>Copying a component: the loop on lines 57 and 58, with the room left in \<open>n\<close>.\<close>

fun copy_comp :: "string \<Rightarrow> string \<Rightarrow> int \<Rightarrow> string \<times> string \<times> int" where
  "copy_comp out [] n = (out, [], n)"
| "copy_comp out (c # p) n =
     (if c = slash then (out, c # p, n)
      else if n - 1 > 0 then copy_comp (out @ [c]) p (n - 1)
      else (out, c # p, n - 1))"

definition is_dot :: "string \<Rightarrow> bool" where
  "is_dot p \<longleftrightarrow> p \<noteq> [] \<and> hd p = CHR ''.'' \<and> (tl p = [] \<or> hd (tl p) = slash)"

definition is_dotdot :: "string \<Rightarrow> bool" where
  "is_dotdot p \<longleftrightarrow> take 2 p = ''..'' \<and> (drop 2 p = [] \<or> hd (drop 2 p) = slash)"

text \<open>Deleting the last component: back to the last slash, which must exist.\<close>

definition drop_component :: "string \<Rightarrow> string option" where
  "drop_component out =
     (if out = [] then Some []
      else if slash \<in> set out then Some (rev (tl (dropWhile (\<lambda>c. c \<noteq> slash) (rev out))))
      else None)"

text \<open>
  The last character that was consumed, \<^verbatim>\<open>*(p - 1)\<close>: in front of the string it is \<^const>\<open>None\<close>.
\<close>

definition consumed :: "char option \<Rightarrow> string \<Rightarrow> string \<Rightarrow> char option" where
  "consumed prev p p' =
     (if length p' < length p then Some (p ! (length p - length p' - 1)) else prev)"

text \<open>Lines 70 to 77: the result of \<^verbatim>\<open>readlink\<close> on the path so far, with the mount and the path in it.\<close>

definition try_link ::
  "(nat \<Rightarrow> ('w, 'f) fs_ops) \<Rightarrow> 'w \<Rightarrow> nat \<Rightarrow> string \<Rightarrow> mount list \<Rightarrow>
   ((int + string) \<times> mount \<times> string \<times> mount list) option" where
  "try_link F w c out ms =
     (if length out \<ge> MAX_PATH then None
      else case find_mount_and_trim_path out ms of
             None \<Rightarrow> None
           | Some (m, trimmed, ms') \<Rightarrow>
               if \<not> path_is_normalized trimmed then None
               else Some ((case op_readlink (F (m_fs m)) of
                             None \<Rightarrow> Inl EINVAL
                           | Some readlink \<Rightarrow> readlink w m trimmed (MAX_PATH - c)), m, trimmed, ms'))"

text \<open>
  Lines 83 to 92: the target of the link was stored at position \<open>c\<close> of the output; it replaces
  the whole output when it is absolute. The rest of the path is appended.
\<close>

definition expand_link :: "nat \<Rightarrow> string \<Rightarrow> string \<Rightarrow> string \<Rightarrow> string option" where
  "expand_link c out target p =
     (if c + length target \<ge> MAX_PATH then None
      else let out' = (if target \<noteq> [] \<and> hd target = slash then target else take c out @ target)
           in if p = [] then Some out'
              else if length out' + 1 + length p < MAX_PATH then Some (out' @ slash # p) else None)"

text \<open>Lines 98 to 111: a component with a slash behind it must be a directory with search permission.\<close>

definition check_dir ::
  "(nat \<Rightarrow> ('w, 'f) fs_ops) \<Rightarrow> 'w \<Rightarrow> cred \<Rightarrow> mount \<Rightarrow> string \<Rightarrow> char \<Rightarrow> int" where
  "check_dir F w cr m trimmed prev =
     (if prev = slash
      then (case op_stat (F (m_fs m)) w m trimmed of
              Inl err \<Rightarrow> 0
            | Inr st \<Rightarrow> if \<not> S_ISDIR (st_mode st) then ENOTDIR else access_check cr st AC_X)
      else 0)"

text \<open>Every turn of the loop consumes a character of the path or extends the output.\<close>

lemma skip_slashes_le: "length (skip_slashes p) \<le> length p"
  by (simp add: skip_slashes_def length_dropWhile_le)

lemma copy_comp_length:
  "copy_comp out p n = (out', p', n') \<Longrightarrow>
   length p' \<le> length p \<and> length out' + length p' = length out + length p"
  by (induction out p n arbitrary: out' p' n' rule: copy_comp.induct) (auto split: if_splits)

lemma path_loop_decreases:
  assumes "(out', r) = copy_comp (out @ [slash]) p k" "(p1, n') = r" "\<not> MAX_PATH \<le> length out"
  shows "length (skip_slashes p1) < length p \<or>
    length (skip_slashes p1) = length p \<and> Suc MAX_PATH - length out' < Suc MAX_PATH - length out"
  using copy_comp_length[of "out @ [slash]" p k out' p1 n'] skip_slashes_le[of p1] assms by auto

lemma skip_decreases:
  "p \<noteq> [] \<Longrightarrow> length (skip_slashes (tl p)) < length p"
  "p \<noteq> [] \<Longrightarrow> length (skip_slashes (drop 2 p)) < length p"
  using skip_slashes_le[of "tl p"] skip_slashes_le[of "drop 2 p"] by (cases p; auto)+

lemma level_decreases: "\<not> 5 \<le> levels \<Longrightarrow> 5 - levels < 6 - (levels :: nat)"
  by simp

function (sequential) path_loop ::
  "(nat \<Rightarrow> ('w, 'f) fs_ops) \<Rightarrow> 'w \<Rightarrow> cred \<Rightarrow> nat \<Rightarrow> nat \<Rightarrow> string \<Rightarrow> char option \<Rightarrow> string \<Rightarrow> int \<Rightarrow>
   mount list \<Rightarrow> ((int + string) \<times> mount list) option" where
  "path_loop F w cr flags levels out prev p n ms =
     (if p = [] then
        (if length out < MAX_PATH \<and> path_is_normalized out then Some (Inr out, ms) else None)
      else if is_dot p then
        (let p' = skip_slashes (tl p)
         in path_loop F w cr flags levels out (consumed prev p p') p' n ms)
      else if is_dotdot p then
        (case drop_component out of
           None \<Rightarrow> None
         | Some out' \<Rightarrow>
             let p' = skip_slashes (drop 2 p)
             in path_loop F w cr flags levels out' (consumed prev p p') p'
                  (n + int (length out - length out')) ms)
      else if length out \<ge> MAX_PATH then None
      else
        (let (out', p1, n') = copy_comp (out @ [slash]) p (n - 1);
             p' = skip_slashes p1;
             c = length out + 1;
             prev' = consumed prev p p'
         in if n' = 0 then Some (Inl ENAMETOOLONG, ms)
            else if flags AND N_SYMLINK_FOLLOW \<noteq> 0 \<or> p' \<noteq> [] then
              (case try_link F w c out' ms of
                 None \<Rightarrow> None
               | Some (Inr target, m, trimmed, ms1) \<Rightarrow>
                   let ms2 = mount_release (m_id m) ms1
                   in if levels \<ge> 5 then Some (Inl ELOOP, ms2)
                      else (case expand_link c out' target p' of
                              None \<Rightarrow> None
                            | Some path \<Rightarrow>
                                if path = [] then Some (Inl ENOENT, ms2)
                                else path_loop F w cr flags (levels + 1) [] (consumed None path (skip_slashes path))
                                       (skip_slashes path) (int MAX_PATH - 1) ms2)
               | Some (Inl res, m, trimmed, ms1) \<Rightarrow>
                   let ms2 = mount_release (m_id m) ms1
                   in case prev' of
                        None \<Rightarrow> None
                      | Some pc \<Rightarrow>
                          let err = check_dir F w cr m trimmed pc
                          in if err < 0 then Some (Inl err, ms2)
                             else path_loop F w cr flags levels out' prev' p' n' ms2)
            else path_loop F w cr flags levels out' prev' p' n' ms))"
  by pat_completeness auto

termination
  by (relation "measures [\<lambda>(F, w, cr, flags, levels, out, prev, p, n, ms). 6 - levels,
      \<lambda>(F, w, cr, flags, levels, out, prev, p, n, ms). length p,
      \<lambda>(F, w, cr, flags, levels, out, prev, p, n, ms). MAX_PATH + 1 - length out]")
    (simp_all add: skip_decreases path_loop_decreases level_decreases)

declare path_loop.simps [simp del]

text \<open>\<^verbatim>\<open>__path_normalize\<close>: \<open>at\<close> is the path to start from, \<^const>\<open>None\<close> for a null pointer.\<close>

definition path_normalize_at ::
  "(nat \<Rightarrow> ('w, 'f) fs_ops) \<Rightarrow> 'w \<Rightarrow> cred \<Rightarrow> nat \<Rightarrow> nat \<Rightarrow> string option \<Rightarrow> string \<Rightarrow> mount list \<Rightarrow>
   ((int + string) \<times> mount list) option" where
  "path_normalize_at F w cr flags levels at path ms =
     (if (flags AND N_SYMLINK_FOLLOW \<noteq> 0) = (flags AND N_SYMLINK_NOFOLLOW \<noteq> 0) then None
      else if path = [] then Some (Inl ENOENT, ms)
      else let start = (case at of None \<Rightarrow> [] | Some a \<Rightarrow> if a = ''/'' then [] else a);
               p = skip_slashes path
           in if length start \<ge> MAX_PATH then None
              else path_loop F w cr flags levels start (consumed None path p) p
                     (int MAX_PATH - 1 - int (length start)) ms)"

text \<open>The directory a relative path starts from: an open file with its mount, or the working directory.\<close>

datatype 'f at_fd = AT_PWD | At "mount \<times> 'f"

record 'f fs_info =
  fi_root :: "(mount \<times> 'f) option"
  fi_pwd :: "(mount \<times> 'f) option"

definition generic_getpath :: "(nat \<Rightarrow> ('w, 'f) fs_ops) \<Rightarrow> 'w \<Rightarrow> mount \<times> 'f \<Rightarrow> int + string" where
  "generic_getpath F w fd =
     (case op_getpath (F (m_fs (fst fd))) w (snd fd) of
        Inl err \<Rightarrow> Inl err
      | Inr buf \<Rightarrow>
          if length buf + length (m_point (fst fd)) \<ge> MAX_PATH then Inl ENAMETOOLONG
          else let buf' = m_point (fst fd) @ buf in Inr (if buf' = [] then ''/'' else buf'))"

definition path_normalize ::
  "(nat \<Rightarrow> ('w, 'f) fs_ops) \<Rightarrow> 'w \<Rightarrow> cred \<Rightarrow> 'f fs_info \<Rightarrow> 'f at_fd \<Rightarrow> string \<Rightarrow> nat \<Rightarrow> mount list \<Rightarrow>
   ((int + string) \<times> mount list) option" where
  "path_normalize F w cr fi at path flags ms =
     (if path = [] then Some (Inl ENOENT, ms)
      else let fd = (if hd path = slash then fi_root fi
                     else case at of AT_PWD \<Rightarrow> fi_pwd fi | At f \<Rightarrow> Some f)
           in case fd of
                None \<Rightarrow> path_normalize_at F w cr flags 0 None path ms
              | Some f \<Rightarrow>
                  (case generic_getpath F w f of
                     Inl err \<Rightarrow> Some (Inl err, ms)
                   | Inr at_path \<Rightarrow>
                       if path_is_normalized at_path
                       then path_normalize_at F w cr flags 0 (Some at_path) path ms
                       else None))"

section \<open>A reference for normalization\<close>

text \<open>The components of a path, and what each does to the components of the result.\<close>

function comps :: "string \<Rightarrow> string list" where
  "comps p = (let q = skip_slashes p
     in if q = [] then [] else takeWhile (\<lambda>c. c \<noteq> slash) q # comps (dropWhile (\<lambda>c. c \<noteq> slash) q))"
  by pat_completeness auto
termination
proof (relation "measure length")
  fix p q assume "q = skip_slashes p" "q \<noteq> []"
  then have "hd q \<noteq> slash" using hd_dropWhile[of "\<lambda>c. c = slash" p] by (simp add: skip_slashes_def)
  then have "length (dropWhile (\<lambda>c. c \<noteq> slash) q) < length q"
    using \<open>q \<noteq> []\<close> by (cases q) (auto simp: le_imp_less_Suc length_dropWhile_le)
  then show "(dropWhile (\<lambda>c. c \<noteq> slash) q, p) \<in> measure length"
    using skip_slashes_le[of p] \<open>q = skip_slashes p\<close> by simp
qed simp

declare comps.simps [simp del]

definition resolve_step :: "string list \<Rightarrow> string \<Rightarrow> string list" where
  "resolve_step acc c = (if c = ''.'' then acc else if c = ''..'' then butlast acc else acc @ [c])"

definition resolve :: "string list \<Rightarrow> string \<Rightarrow> string list" where
  "resolve acc p = foldl resolve_step acc (comps p)"

text \<open>No component is a symbolic link, and every one that exists is a directory that may be searched.\<close>

definition no_obstacle :: "(nat \<Rightarrow> ('w, 'f) fs_ops) \<Rightarrow> 'w \<Rightarrow> cred \<Rightarrow> bool" where
  "no_obstacle F w cr \<longleftrightarrow>
     (\<forall>i m path k. case op_readlink (F i) of None \<Rightarrow> True | Some readlink \<Rightarrow> isl (readlink w m path k)) \<and>
     (\<forall>i m path. case op_stat (F i) w m path of
        Inl err \<Rightarrow> True | Inr st \<Rightarrow> S_ISDIR (st_mode st) \<and> access_check cr st AC_X = 0)"

lemma skip_slashes_idem [simp]: "skip_slashes (skip_slashes p) = skip_slashes p"
  by (simp add: skip_slashes_def)

lemma hd_skip_slashes: "skip_slashes p = [] \<or> hd (skip_slashes p) \<noteq> slash"
  using hd_dropWhile[of "\<lambda>c. c = slash" p] by (auto simp: skip_slashes_def)

lemma comps_skip: "comps (skip_slashes p) = comps p"
  by (simp add: comps.simps[of p] comps.simps[of "skip_slashes p"])

lemma resolve_skip: "resolve acc (skip_slashes p) = resolve acc p"
  by (simp add: resolve_def comps_skip)

lemma resolve_Nil [simp]: "resolve acc [] = acc"
  by (simp add: resolve_def comps.simps[of "[]"] skip_slashes_def)

lemma resolve_comp:
  assumes "is_comp c" "r = [] \<or> hd r = slash"
  shows "resolve acc (c @ r) = resolve (resolve_step acc c) r"
proof -
  have "skip_slashes (c @ r) = c @ r" using assms(1) by (cases c) (auto simp: is_comp_def skip_slashes_def)
  then have "comps (c @ r) = c # comps r"
    using dropWhile_comp[OF _ assms(2), of c] assms(1) by (simp add: comps.simps[of "c @ r"] is_comp_def)
  then show ?thesis by (simp add: resolve_def)
qed

lemma resolve_step_comps:
  "list_all is_comp acc \<Longrightarrow> is_comp c \<Longrightarrow> list_all is_comp (resolve_step acc c)"
  by (auto simp: resolve_step_def list_all_iff dest: in_set_butlastD)

lemma first_comp:
  assumes "p \<noteq> []" "hd p \<noteq> slash"
  obtains c r where "p = c @ r" "is_comp c" "r = [] \<or> hd r = slash"
proof
  show "p = takeWhile (\<lambda>c. c \<noteq> slash) p @ dropWhile (\<lambda>c. c \<noteq> slash) p" by simp
  show "is_comp (takeWhile (\<lambda>c. c \<noteq> slash) p)"
    using assms by (cases p) (auto simp: is_comp_def dest: set_takeWhileD)
  show "dropWhile (\<lambda>c. c \<noteq> slash) p = [] \<or> hd (dropWhile (\<lambda>c. c \<noteq> slash) p) = slash"
    using hd_dropWhile[of "\<lambda>c. c \<noteq> slash" p] by auto
qed

lemma is_dot_iff: "is_comp c \<Longrightarrow> r = [] \<or> hd r = slash \<Longrightarrow> is_dot (c @ r) \<longleftrightarrow> c = ''.''"
  by (cases c; cases "tl c") (auto simp: is_dot_def is_comp_def)

lemma is_dotdot_iff: "is_comp c \<Longrightarrow> r = [] \<or> hd r = slash \<Longrightarrow> is_dotdot (c @ r) \<longleftrightarrow> c = ''..''"
  by (cases c; cases "tl c"; cases "tl (tl c)"; cases r)
    (auto simp: is_dotdot_def is_comp_def numeral_2_eq_2)

lemma drop_component_join:
  assumes "list_all is_comp acc"
  shows "drop_component (join acc) = Some (join (butlast acc))"
proof (cases acc rule: rev_cases)
  case Nil
  then show ?thesis by (simp add: drop_component_def)
next
  case (snoc xs c)
  then have "slash \<notin> set (rev c)" using assms by (simp add: is_comp_def)
  then have "dropWhile (\<lambda>x. x \<noteq> slash) (rev c @ slash # rev (join xs)) = slash # rev (join xs)"
    using dropWhile_comp(1)[of "rev c" "slash # rev (join xs)"] by simp
  then show ?thesis using snoc by (simp add: drop_component_def)
qed

lemma copy_comp_all:
  assumes "slash \<notin> set c" "r = [] \<or> hd r = slash" "int (length c) < k"
  shows "copy_comp out (c @ r) k = (out @ c, r, k - int (length c))"
  using assms
proof (induction c arbitrary: out k)
  case Nil
  then show ?case by (cases r) auto
next
  case (Cons x c)
  then show ?case using Cons.IH[of "k - 1" "out @ [x]"] by auto
qed

section \<open>Normalization without links\<close>

lemma try_link_ok:
  assumes "no_obstacle F w cr" "mounts_ok ms" "path_is_normalized out" "length out < MAX_PATH"
  obtains err m trimmed where "try_link F w c out ms = Some (Inl err, m, trimmed, mount_retain (m_id m) ms)"
proof -
  obtain m where m: "find_mount_and_trim_path out ms =
      Some (m, drop (length (m_point m)) out, mount_retain (m_id m) ms)"
    "path_is_normalized (drop (length (m_point m)) out)"
    by (rule mount_find_ok[OF assms(2,3)])
  have "\<exists>err. (case op_readlink (F (m_fs m)) of None \<Rightarrow> Inl EINVAL
      | Some readlink \<Rightarrow> readlink w m (drop (length (m_point m)) out) (MAX_PATH - c)) = Inl err"
    using assms(1) by (auto simp: no_obstacle_def isl_def split: option.splits)
  then show thesis using m assms(4) that by (auto simp: try_link_def)
qed

lemma check_dir_ok: "no_obstacle F w cr \<Longrightarrow> check_dir F w cr m trimmed prev = 0"
  by (auto simp: check_dir_def no_obstacle_def split: sum.splits)

lemma consumed_Some: "length p' < length p \<Longrightarrow> \<exists>c. consumed prev p p' = Some c"
  by (simp add: consumed_def)

lemma skip_length: "is_comp c \<Longrightarrow> length (skip_slashes r) < length (c @ r)"
  using skip_slashes_le[of r] by (cases c) (auto simp: is_comp_def)

text \<open>One turn of the loop on a component, from a normalized output with room.\<close>

lemma path_loop_comp:
  assumes ok: "no_obstacle F w cr" "mounts_ok ms" and acc: "list_all is_comp acc"
    and c: "is_comp c" "r = [] \<or> hd r = slash"
    and n: "n = int MAX_PATH - 1 - int (length (join acc))" "length (join acc) + length c + 2 < MAX_PATH"
  shows "\<exists>prev'. path_loop F w cr flags levels (join acc) prev (c @ r) n ms =
    path_loop F w cr flags levels (join (resolve_step acc c)) prev' (skip_slashes r)
      (int MAX_PATH - 1 - int (length (join (resolve_step acc c)))) ms"
proof -
  have ne: "c @ r \<noteq> []" using c(1) by (simp add: is_comp_def)
  show ?thesis
  proof (cases "c = ''.'' \<or> c = ''..''")
    case True
    then show ?thesis
    proof
      assume dot: "c = ''.''"
      then have "is_dot (c @ r)" "resolve_step acc c = acc" using is_dot_iff[OF c] by (auto simp: resolve_step_def)
      then show ?thesis using ne dot n(1) by (subst path_loop.simps) (auto simp: Let_def)
    next
      assume dot: "c = ''..''"
      then have "is_dotdot (c @ r)" "\<not> is_dot (c @ r)" "resolve_step acc c = butlast acc"
        using is_dot_iff[OF c] is_dotdot_iff[OF c] by (auto simp: resolve_step_def)
      moreover have "length (join (butlast acc)) \<le> length (join acc)"
        by (cases acc rule: rev_cases) auto
      then have "n + int (length (join acc) - length (join (butlast acc))) =
          int MAX_PATH - 1 - int (length (join (butlast acc)))"
        using n(1) by (simp add: of_nat_diff)
      ultimately show ?thesis using ne dot drop_component_join[OF acc]
        by (subst path_loop.simps) (auto simp: Let_def numeral_2_eq_2)
    qed
  next
    case False
    then have dots: "\<not> is_dot (c @ r)" "\<not> is_dotdot (c @ r)" and step: "resolve_step acc c = acc @ [c]"
      using is_dot_iff[OF c] is_dotdot_iff[OF c] by (auto simp: resolve_step_def)
    let ?out = "join (acc @ [c])" and ?n = "n - 1 - int (length c)" and ?p = "skip_slashes r"
    have copy: "copy_comp (join acc @ [slash]) (c @ r) (n - 1) = (?out, r, ?n)"
      using copy_comp_all[of c r "n - 1" "join acc @ [slash]"] c n by (simp add: is_comp_def)
    have n': "?n \<noteq> 0" "?n = int MAX_PATH - 1 - int (length ?out)" using n by auto
    obtain pc where pc: "consumed prev (c @ r) ?p = Some pc"
      using consumed_Some[OF skip_length[OF c(1)]] by blast
    have norm: "path_is_normalized ?out" by (rule join_normalized) (use acc c in simp)
    have len: "length ?out < MAX_PATH" "\<not> length (join acc) \<ge> MAX_PATH" using n(2) by auto
    obtain err m trimmed where link: "try_link F w (length (join acc) + 1) ?out ms =
        Some (Inl err, m, trimmed, mount_retain (m_id m) ms)"
      by (rule try_link_ok[OF ok norm len(1)])
    have "path_loop F w cr flags levels (join acc) prev (c @ r) n ms =
        path_loop F w cr flags levels ?out (Some pc) ?p ?n ms"
      using ne dots copy n'(1) pc link len(2) release_retain[OF ok(2), of "m_id m"] check_dir_ok[OF ok(1)]
      by (subst path_loop.simps) (auto simp: Let_def simp del: append_is_Nil_conv join_simps(3))
    then show ?thesis using step n'(2) by auto
  qed
qed

lemma join_step_length: "length (join (resolve_step acc c)) \<le> length (join acc) + length c + 1"
  by (cases acc rule: rev_cases) (auto simp: resolve_step_def)

lemma path_loop_resolve:
  assumes ok: "no_obstacle F w cr" "mounts_ok ms" and acc: "list_all is_comp acc"
    and p: "p = [] \<or> hd p \<noteq> slash" and n: "n = int MAX_PATH - 1 - int (length (join acc))"
    and len: "length (join acc) + (if p = [] then 0 else length p + 2) < MAX_PATH"
  shows "path_loop F w cr flags levels (join acc) prev p n ms = Some (Inr (join (resolve acc p)), ms)"
  using acc p n len
proof (induction "length p" arbitrary: p acc prev n rule: less_induct)
  case less
  show ?case
  proof (cases "p = []")
    case True
    then show ?thesis using less.prems join_normalized[OF less.prems(1)] by (subst path_loop.simps) simp
  next
    case False
    then obtain c r where c: "p = c @ r" "is_comp c" "r = [] \<or> hd r = slash"
      using less.prems(2) first_comp[of p] by blast
    let ?acc = "resolve_step acc c"
    have len': "length (join acc) + length (c @ r) + 2 < MAX_PATH" using less.prems(4) False
      unfolding c(1)[symmetric] by simp
    obtain prev' where step: "path_loop F w cr flags levels (join acc) prev (c @ r) n ms =
        path_loop F w cr flags levels (join ?acc) prev' (skip_slashes r) (int MAX_PATH - 1 - int (length (join ?acc))) ms"
      using path_loop_comp[OF ok less.prems(1) c(2,3) less.prems(3)] len' by fastforce
    have room: "length (join ?acc) + (if skip_slashes r = [] then 0 else length (skip_slashes r) + 2) < MAX_PATH"
    proof (cases "skip_slashes r = []")
      case True
      then show ?thesis using join_step_length[of acc c] len' by simp
    next
      case ne: False
      then have "length (skip_slashes r) < length r"
        using c(3) skip_slashes_le[of "tl r"] by (cases r) (auto simp: skip_slashes_def)
      then show ?thesis using join_step_length[of acc c] len' ne by simp
    qed
    have "path_loop F w cr flags levels (join ?acc) prev' (skip_slashes r)
        (int MAX_PATH - 1 - int (length (join ?acc))) ms = Some (Inr (join (resolve ?acc (skip_slashes r))), ms)"
      using less.hyps[of "skip_slashes r" ?acc _ prev'] skip_length[OF c(2), of r] c(1)
        resolve_step_comps[OF less.prems(1) c(2)] hd_skip_slashes room by simp
    then show ?thesis using step c resolve_comp[OF c(2,3)] by (simp add: resolve_skip)
  qed
qed


text \<open>A file system without links in which nothing exists, and a table with the root mounted.\<close>

definition void_fs :: "(unit, unit) fs_ops" where
  "void_fs = \<lparr>op_readlink = None, op_stat = (\<lambda>_ _ _. Inl ENOENT), op_open = (\<lambda>_ _ _ _ w. (Inl ENOENT, w)),
     op_fstat = (\<lambda>_ _. Inl ENOENT), op_getpath = (\<lambda>_ _. Inr []), op_link = None, op_rename = None,
     op_symlink = None, op_unlink = None, op_rmdir = None, op_mkdir = None, op_mknod = None,
     op_setattr = None, op_utime = None, op_close = (\<lambda>_ w. w), op_orphaned = None\<rparr>"

definition root_mount :: mount where
  "root_mount = \<lparr>m_id = 0, m_point = [], m_source = [], m_info = [], m_flags = 0, m_fs = 0, m_refcount = 0\<rparr>"

lemma void_ok: "no_obstacle (\<lambda>_. void_fs) () cr" "mounts_ok [root_mount]"
  by (simp_all add: no_obstacle_def void_fs_def mounts_ok_def root_mount_def)


section \<open>The end of the buffer\<close>

text \<open>With no room left nothing of the path is copied, and the room is not 0 but negative.\<close>

lemma copy_comp_none:
  assumes "is_comp d" "k \<le> 0"
  shows "copy_comp out d k = (out, d, k - 1)"
  using assms by (cases d) (auto simp: is_comp_def)

lemma path_loop_full:
  assumes ok: "no_obstacle F w cr" "mounts_ok ms" and acc: "list_all is_comp acc"
    and d: "is_comp d" "d \<noteq> ''.''" "d \<noteq> ''..''" and len: "length (join acc) = MAX_PATH - 2"
  shows "path_loop F w cr flags levels (join acc) prev d 1 ms = None"
proof -
  have dots: "\<not> is_dot d" "\<not> is_dotdot d" "d \<noteq> []" "skip_slashes d = d"
    using is_dot_iff[OF d(1), of "[]"] is_dotdot_iff[OF d(1), of "[]"] d
    by (auto simp: is_comp_def skip_slashes_def dropWhile_eq_self_iff dest: hd_in_set)
  let ?out = "join acc @ [slash]"
  obtain err m trimmed where link: "try_link F w (length (join acc) + 1) ?out ms =
      Some (Inl err, m, trimmed, mount_retain (m_id m) ms)"
    using try_link_ok[OF ok join_slash_normalized[OF acc], of "length (join acc) + 1"] len
    by (auto simp: MAX_PATH_def)
  have last: "path_loop F w cr flags levels ?out pv d (- 1) ms = None" for pv
    using dots len copy_comp_none[OF d(1), of "- 2" "?out @ [slash]"]
    by (subst path_loop.simps) (simp add: try_link_def MAX_PATH_def)
  show ?thesis
    using dots len link copy_comp_none[OF d(1), of 0 ?out] release_retain[OF ok(2), of "m_id m"] last
      check_dir_ok[OF ok(1)]
    by (subst path_loop.simps) (auto simp: MAX_PATH_def Let_def consumed_def split: option.splits)
qed

text \<open>
  When the output is full up to one character and another component follows, the
  room counter steps from 1 over 0 to a negative number: the error \<^verbatim>\<open>ENAMETOOLONG\<close> is missed,
  slashes are written on, and the copy of the path leaves its buffer. A relative path of 4095
  characters does this in every file system without links.
\<close>

theorem path_normalize_overruns:
  assumes ok: "no_obstacle F w cr" "mounts_ok ms" and acc: "list_all is_comp acc"
    and c: "is_comp c" "c \<noteq> ''.''" "c \<noteq> ''..''" and d: "is_comp d" "d \<noteq> ''.''" "d \<noteq> ''..''"
    and len: "length (join acc) + 1 + length c = MAX_PATH - 2"
  shows "path_normalize_at F w cr flags levels (Some (if acc = [] then ''/'' else join acc)) (c @ slash # d) ms = None"
proof -
  let ?start = "if acc = [] then ''/'' else join acc" and ?acc = "resolve_step acc c"
  have start: "(if ?start = ''/'' then [] else ?start) = join acc"
    using acc by (cases acc) (auto simp: is_comp_def)
  have skip: "skip_slashes (c @ slash # d) = c @ slash # d" "skip_slashes (slash # d) = d"
    using c(1) d(1) by (cases c; cases d; auto simp: skip_slashes_def is_comp_def)+
  have step: "?acc = acc @ [c]" using c by (simp add: resolve_step_def)
  have n: "length (join acc) + length c + 2 < MAX_PATH" "length (join ?acc) = MAX_PATH - 2"
    using len step by (auto simp: MAX_PATH_def)
  have one: "int MAX_PATH - 1 - int (length (join ?acc)) = 1" by (simp only: n(2)) (simp add: MAX_PATH_def)
  have "path_loop F w cr flags levels (join acc) prev (c @ slash # d)
      (int MAX_PATH - 1 - int (length (join acc))) ms = None" for prev
    using path_loop_comp[OF ok acc c(1) _ refl n(1), of "slash # d" flags levels prev] skip(2)
      path_loop_full[OF ok resolve_step_comps[OF acc c(1)] d n(2)] one by auto
  then show ?thesis using start skip(1) by (simp add: path_normalize_at_def Let_def)
qed

theorem path_normalize_overruns_witness:
  "path_normalize_at (\<lambda>_. void_fs) () \<lparr>euid = 0, egid = 0\<rparr> N_SYMLINK_FOLLOW 0 (Some ''/'')
     (replicate 4093 CHR ''a'' @ slash # ''b'') [root_mount] = None"
proof -
  have "length (replicate 4093 CHR ''a'') \<noteq> length ''.''"
    "length (replicate 4093 CHR ''a'') \<noteq> length ''..''" by simp_all
  then have "replicate 4093 CHR ''a'' \<noteq> ''.''" "replicate 4093 CHR ''a'' \<noteq> ''..''"
    by (metis)+
  then show ?thesis
    using path_normalize_overruns[OF void_ok, of "[]" "replicate 4093 CHR ''a''" "''b''"]
    by (simp add: is_comp_def MAX_PATH_def)
qed

end
