(* ===== verification/Vfs.thy ===== *)
theory Vfs
  imports Path
begin

text \<open>
  The layer between the system calls and the file systems: the generic operations of
  \<^verbatim>\<open>fs/generic.c\<close> and \<^verbatim>\<open>fs/stat.c\<close>, which normalize a path, find its mount, call the
  operation of the file system and give the reference to the mount back; the table of inodes
  of \<^verbatim>\<open>fs/inode.c\<close>; and \<^verbatim>\<open>generic_seek\<close>. The state is the list of mounts, the table of inodes and the
  state \<open>'w\<close> of the file systems.
\<close>

section \<open>Definitions\<close>

subsection \<open>Operations on a path\<close>

text \<open>
  The part the operations share: normalization, the lookup of the mount and its release around
  the call of the file system.
\<close>

definition at_mount ::
  "(nat \<Rightarrow> ('w, 'f) fs_ops) \<Rightarrow> cred \<Rightarrow> 'f fs_info \<Rightarrow> 'f at_fd \<Rightarrow> string \<Rightarrow> nat \<Rightarrow>
   (mount \<Rightarrow> string \<Rightarrow> 'w \<Rightarrow> 'a \<times> 'w) \<Rightarrow> mount list \<Rightarrow> 'w \<Rightarrow> ((int + 'a) \<times> mount list \<times> 'w) option" where
  "at_mount F cr fi at path_raw flags call ms w =
     (case path_normalize F w cr fi at path_raw flags ms of
        None \<Rightarrow> None
      | Some (Inl err, ms1) \<Rightarrow> Some (Inl err, ms1, w)
      | Some (Inr path, ms1) \<Rightarrow>
          (case find_mount_and_trim_path path ms1 of
             None \<Rightarrow> None
           | Some (m, trimmed, ms2) \<Rightarrow>
               let (res, w') = call m trimmed w in Some (Inr res, mount_release (m_id m) ms2, w')))"

definition err_of :: "int + int \<Rightarrow> int" where
  "err_of r = (case r of Inl err \<Rightarrow> err | Inr err \<Rightarrow> err)"

definition ret_err :: "((int + int) \<times> 's) option \<Rightarrow> (int \<times> 's) option" where
  "ret_err = map_option (\<lambda>(r, s). (err_of r, s))"

definition opt_call :: "('w \<Rightarrow> int \<times> 'w) option \<Rightarrow> 'w \<Rightarrow> int \<times> 'w" where
  "opt_call f w = (case f of None \<Rightarrow> (EPERM, w) | Some g \<Rightarrow> g w)"

definition generic_accessat where
  "generic_accessat F cr fi at path mode ms w =
     ret_err (at_mount F cr fi at path N_SYMLINK_FOLLOW
       (\<lambda>m t w. (case op_stat (F (m_fs m)) w m t of
                   Inl err \<Rightarrow> err | Inr st \<Rightarrow> access_check cr st mode, w)) ms w)"

definition generic_statat where
  "generic_statat F cr fi at path follow ms w =
     at_mount F cr fi at path (if follow then N_SYMLINK_FOLLOW else N_SYMLINK_NOFOLLOW)
       (\<lambda>m t w. (op_stat (F (m_fs m)) w m t, w)) ms w"

definition generic_unlinkat where
  "generic_unlinkat F cr fi at path ms w =
     ret_err (at_mount F cr fi at path N_SYMLINK_NOFOLLOW
       (\<lambda>m t. opt_call (map_option (\<lambda>f. f m t) (op_unlink (F (m_fs m))))) ms w)"

definition generic_symlinkat where
  "generic_symlinkat F cr fi target at link ms w =
     ret_err (at_mount F cr fi at link (N_SYMLINK_NOFOLLOW OR N_PARENT_DIR_WRITE)
       (\<lambda>m t. opt_call (map_option (\<lambda>f. f m target t) (op_symlink (F (m_fs m))))) ms w)"

definition generic_mknodat where
  "generic_mknodat F cr fi at path mode dev ms w =
     (if S_ISDIR mode \<or> S_ISLNK mode then Some (EINVAL, ms, w)
      else if \<not> superuser cr \<and> (S_ISBLK mode \<or> S_ISCHR mode) then Some (EPERM, ms, w)
      else ret_err (at_mount F cr fi at path (N_SYMLINK_NOFOLLOW OR N_PARENT_DIR_WRITE)
             (\<lambda>m t. opt_call (map_option (\<lambda>f. f m t mode dev) (op_mknod (F (m_fs m))))) ms w))"

definition generic_setattrat where
  "generic_setattrat F cr fi at path attr follow ms w =
     ret_err (at_mount F cr fi at path (if follow then N_SYMLINK_FOLLOW else N_SYMLINK_NOFOLLOW)
       (\<lambda>m t. opt_call (map_option (\<lambda>f. f m t attr) (op_setattr (F (m_fs m))))) ms w)"

definition generic_utime where
  "generic_utime F cr fi at path atime mtime follow ms w =
     ret_err (at_mount F cr fi at path (if follow then N_SYMLINK_FOLLOW else N_SYMLINK_NOFOLLOW)
       (\<lambda>m t. opt_call (map_option (\<lambda>f. f m t atime mtime) (op_utime (F (m_fs m))))) ms w)"

definition generic_readlinkat where
  "generic_readlinkat F cr fi at path bufsize ms w =
     at_mount F cr fi at path N_SYMLINK_NOFOLLOW
       (\<lambda>m t w. (case op_readlink (F (m_fs m)) of
                   None \<Rightarrow> Inl EINVAL | Some readlink \<Rightarrow> readlink w m t bufsize, w)) ms w"

definition generic_mkdirat where
  "generic_mkdirat F cr fi at path mode ms w =
     ret_err (at_mount F cr fi at path (N_SYMLINK_FOLLOW OR N_PARENT_DIR_WRITE)
       (\<lambda>m t. opt_call (map_option (\<lambda>f. f m t mode) (op_mkdir (F (m_fs m))))) ms w)"

text \<open>The check for mount points stands between the normalization and the lookup.\<close>

definition generic_rmdirat ::
  "(nat \<Rightarrow> ('w, 'f) fs_ops) \<Rightarrow> cred \<Rightarrow> 'f fs_info \<Rightarrow> 'f at_fd \<Rightarrow> string \<Rightarrow> mount list \<Rightarrow> 'w \<Rightarrow>
   (int \<times> mount list \<times> 'w) option" where
  "generic_rmdirat F cr fi at path_raw ms w =
     (case path_normalize F w cr fi at path_raw (N_SYMLINK_FOLLOW OR N_PARENT_DIR_WRITE) ms of
        None \<Rightarrow> None
      | Some (Inl err, ms1) \<Rightarrow> Some (err, ms1, w)
      | Some (Inr path, ms1) \<Rightarrow>
          if contains_mount_point path ms1 then Some (EBUSY, ms1, w)
          else (case find_mount_and_trim_path path ms1 of
                  None \<Rightarrow> None
                | Some (m, t, ms2) \<Rightarrow>
                    let (err, w') = opt_call (map_option (\<lambda>f. f m t) (op_rmdir (F (m_fs m)))) w
                    in Some (err, mount_release (m_id m) ms2, w')))"

text \<open>The common end of \<^verbatim>\<open>generic_linkat\<close> and \<^verbatim>\<open>generic_renameat\<close>.\<close>

definition two_mounts ::
  "(mount \<Rightarrow> (string \<Rightarrow> string \<Rightarrow> 'w \<Rightarrow> int \<times> 'w) option) \<Rightarrow> string \<Rightarrow> string \<Rightarrow> mount list \<Rightarrow> 'w \<Rightarrow>
   (int \<times> mount list \<times> 'w) option" where
  "two_mounts call src dst ms w =
     (case find_mount_and_trim_path src ms of
        None \<Rightarrow> None
      | Some (m, s, ms1) \<Rightarrow>
          (case find_mount_and_trim_path dst ms1 of
             None \<Rightarrow> None
           | Some (m2, d, ms2) \<Rightarrow>
               let (err, w') = (if m_id m \<noteq> m_id m2 then (EXDEV, w)
                                else opt_call (map_option (\<lambda>f. f s d) (call m)) w)
               in Some (err, mount_release (m_id m2) (mount_release (m_id m) ms2), w')))"

definition generic_linkat ::
  "(nat \<Rightarrow> ('w, 'f) fs_ops) \<Rightarrow> cred \<Rightarrow> 'f fs_info \<Rightarrow> 'f at_fd \<Rightarrow> string \<Rightarrow> 'f at_fd \<Rightarrow> string \<Rightarrow>
   mount list \<Rightarrow> 'w \<Rightarrow> (int \<times> mount list \<times> 'w) option" where
  "generic_linkat F cr fi src_at src_raw dst_at dst_raw ms w =
     (case path_normalize F w cr fi src_at src_raw N_SYMLINK_NOFOLLOW ms of
        None \<Rightarrow> None
      | Some (Inl err, ms1) \<Rightarrow> Some (err, ms1, w)
      | Some (Inr src, ms1) \<Rightarrow>
          (case path_normalize F w cr fi dst_at dst_raw (N_SYMLINK_NOFOLLOW OR N_PARENT_DIR_WRITE) ms1 of
             None \<Rightarrow> None
           | Some (Inl err, ms2) \<Rightarrow> Some (err, ms2, w)
           | Some (Inr dst, ms2) \<Rightarrow>
               two_mounts (\<lambda>m. map_option (\<lambda>f. f m) (op_link (F (m_fs m)))) src dst ms2 w))"

definition generic_renameat ::
  "(nat \<Rightarrow> ('w, 'f) fs_ops) \<Rightarrow> cred \<Rightarrow> 'f fs_info \<Rightarrow> 'f at_fd \<Rightarrow> string \<Rightarrow> 'f at_fd \<Rightarrow> string \<Rightarrow>
   mount list \<Rightarrow> 'w \<Rightarrow> (int \<times> mount list \<times> 'w) option" where
  "generic_renameat F cr fi src_at src_raw dst_at dst_raw ms w =
     (case path_normalize F w cr fi src_at src_raw N_SYMLINK_NOFOLLOW ms of
        None \<Rightarrow> None
      | Some (Inl err, ms1) \<Rightarrow> Some (err, ms1, w)
      | Some (Inr src, ms1) \<Rightarrow>
          (case path_normalize F w cr fi dst_at dst_raw (N_SYMLINK_NOFOLLOW OR N_PARENT_DIR_WRITE) ms1 of
             None \<Rightarrow> None
           | Some (Inl err, ms2) \<Rightarrow> Some (err, ms2, w)
           | Some (Inr dst, ms2) \<Rightarrow>
               if contains_mount_point src ms2 then Some (EBUSY, ms2, w)
               else two_mounts (\<lambda>m. map_option (\<lambda>f. f m) (op_rename (F (m_fs m)))) src dst ms2 w))"

subsection \<open>Inodes\<close>

record inode_data =
  i_refcount :: nat
  i_number :: nat
  i_mount :: mount

abbreviation (input) INODES_HASH_SIZE :: nat where "INODES_HASH_SIZE \<equiv> 2 ^ 10"

type_synonym inodes = "nat \<Rightarrow> inode_data list"

definition same_inode :: "mount \<Rightarrow> nat \<Rightarrow> inode_data \<Rightarrow> bool" where
  "same_inode m ino i \<longleftrightarrow> m_id (i_mount i) = m_id m \<and> i_number i = ino"

definition inode_get_data :: "mount \<Rightarrow> nat \<Rightarrow> inodes \<Rightarrow> inode_data option" where
  "inode_get_data m ino t = find (same_inode m ino) (t (ino mod INODES_HASH_SIZE))"

definition inode_update :: "(inode_data \<Rightarrow> inode_data) \<Rightarrow> mount \<Rightarrow> nat \<Rightarrow> inodes \<Rightarrow> inodes" where
  "inode_update f m ino t =
     t(ino mod INODES_HASH_SIZE :=
         map (\<lambda>i. if same_inode m ino i then f i else i) (t (ino mod INODES_HASH_SIZE)))"

definition inode_retain :: "mount \<Rightarrow> nat \<Rightarrow> inodes \<Rightarrow> inodes" where
  "inode_retain = inode_update (\<lambda>i. i\<lparr>i_refcount := w32 (i_refcount i + 1)\<rparr>)"

definition inode_get_unlocked :: "mount \<Rightarrow> nat \<Rightarrow> inodes \<Rightarrow> mount list \<Rightarrow> inodes \<times> mount list" where
  "inode_get_unlocked m ino t ms =
     (let (t1, ms1) =
        (case inode_get_data m ino t of
           Some i \<Rightarrow> (t, ms)
         | None \<Rightarrow>
             (t(ino mod INODES_HASH_SIZE :=
                  \<lparr>i_refcount = 0, i_number = ino, i_mount = m\<rparr> # t (ino mod INODES_HASH_SIZE)),
              mount_retain (m_id m) ms))
      in (inode_retain m ino t1, ms1))"

definition inode_get :: "mount \<Rightarrow> nat \<Rightarrow> inodes \<Rightarrow> mount list \<Rightarrow> inodes \<times> mount list" where
  "inode_get = inode_get_unlocked"

text \<open>A null function pointer is called without a check: \<^const>\<open>None\<close>.\<close>

definition inode_check_orphaned ::
  "(nat \<Rightarrow> ('w, 'f) fs_ops) \<Rightarrow> mount \<Rightarrow> nat \<Rightarrow> inodes \<Rightarrow> 'w \<Rightarrow> 'w option" where
  "inode_check_orphaned F m ino t w =
     (case inode_get_data m ino t of
        Some i \<Rightarrow> Some w
      | None \<Rightarrow> map_option (\<lambda>f. f m ino w) (op_orphaned (F (m_fs m))))"

definition inode_release ::
  "(nat \<Rightarrow> ('w, 'f) fs_ops) \<Rightarrow> mount \<Rightarrow> nat \<Rightarrow> inodes \<Rightarrow> mount list \<Rightarrow> 'w \<Rightarrow> inodes \<times> mount list \<times> 'w" where
  "inode_release F m ino t ms w =
     (case inode_get_data m ino t of
        None \<Rightarrow> (t, ms, w)
      | Some i \<Rightarrow>
          if w32 (i_refcount i + (2 ^ 32 - 1)) = 0
          then (t(ino mod INODES_HASH_SIZE :=
                    filter (\<lambda>x. \<not> same_inode m ino x) (t (ino mod INODES_HASH_SIZE))),
                mount_release (m_id m) ms,
                case op_orphaned (F (m_fs m)) of None \<Rightarrow> w | Some f \<Rightarrow> f m ino w)
          else (inode_update (\<lambda>i. i\<lparr>i_refcount := w32 (i_refcount i + (2 ^ 32 - 1))\<rparr>) m ino t, ms, w))"

subsection \<open>Opening a file\<close>

record 'f open_file =
  of_handle :: 'f
  of_mount :: mount
  of_inode :: nat
  of_type :: nat
  of_flags :: nat

text \<open>
  \<^verbatim>\<open>fd_close\<close> of the only reference: \<open>inode\<close> tells whether the inode is set. The close functions
  of the file and of the file system are the operation \<open>op_close\<close>.
\<close>

definition close_last ::
  "(nat \<Rightarrow> ('w, 'f) fs_ops) \<Rightarrow> 'f \<Rightarrow> mount \<Rightarrow> nat option \<Rightarrow> inodes \<Rightarrow> mount list \<Rightarrow> 'w \<Rightarrow> inodes \<times> mount list \<times> 'w" where
  "close_last F h m ino t ms w =
     (let w1 = op_close (F (m_fs m)) h w;
          (t2, ms2, w2) = (case ino of None \<Rightarrow> (t, ms, w1) | Some i \<Rightarrow> inode_release F m i t ms w1)
      in (t2, mount_release (m_id m) ms2, w2))"

abbreviation (input) O_WRONLY :: nat where "O_WRONLY \<equiv> 1"

abbreviation (input) O_RDWR :: nat where "O_RDWR \<equiv> 2"

abbreviation (input) O_CREAT :: nat where "O_CREAT \<equiv> 64"

abbreviation (input) O_DIRECTORY :: nat where "O_DIRECTORY \<equiv> 65536"

definition set_in :: "nat \<Rightarrow> nat \<Rightarrow> bool" where
  "set_in flags bits \<longleftrightarrow> flags AND bits \<noteq> 0"

definition open_accmode :: "nat \<Rightarrow> nat" where
  "open_accmode flags =
     (if set_in flags O_RDWR then AC_R OR AC_W else if set_in flags O_WRONLY then AC_W else AC_R)"

text \<open>
  The checks after the file is open, in their order; \<open>dev_open\<close> opens the device behind a device
  file. \<^const>\<open>None\<close> is the failed assertion that a link was not followed.
\<close>

definition open_checks ::
  "cred \<Rightarrow> (nat \<Rightarrow> bool \<Rightarrow> 'w \<Rightarrow> int \<times> 'w) \<Rightarrow> statbuf \<Rightarrow> nat \<Rightarrow> 'w \<Rightarrow> (int \<times> 'w) option" where
  "open_checks cr dev_open st flags w =
     (let mode = st_mode st; err = access_check cr st (open_accmode flags)
      in if err < 0 then Some (err, w)
         else if S_ISLNK mode then None
         else let (err, w1) = (if S_ISBLK mode \<or> S_ISCHR mode then dev_open (st_rdev st) (S_ISBLK mode) w
                               else (0, w))
              in if err < 0 then Some (err, w1)
                 else if S_ISSOCK mode then Some (ENXIO, w1)
                 else if S_ISDIR mode \<and> set_in flags (O_RDWR OR O_WRONLY) then Some (EISDIR, w1)
                 else if \<not> S_ISDIR mode \<and> set_in flags O_DIRECTORY then Some (ENOTDIR, w1)
                 else Some (0, w1))"

definition generic_openat ::
  "(nat \<Rightarrow> ('w, 'f) fs_ops) \<Rightarrow> cred \<Rightarrow> (nat \<Rightarrow> bool \<Rightarrow> 'w \<Rightarrow> int \<times> 'w) \<Rightarrow> 'f fs_info \<Rightarrow> 'f at_fd \<Rightarrow>
   string \<Rightarrow> nat \<Rightarrow> nat \<Rightarrow> inodes \<Rightarrow> mount list \<Rightarrow> 'w \<Rightarrow>
   ((int + 'f open_file) \<times> inodes \<times> mount list \<times> 'w) option" where
  "generic_openat F cr dev_open fi at path_raw flags mode t ms w =
     (if set_in flags O_RDWR \<and> set_in flags O_WRONLY then Some (Inl EINVAL, t, ms, w)
      else case path_normalize F w cr fi at path_raw
               (N_SYMLINK_FOLLOW OR (if set_in flags O_CREAT then N_PARENT_DIR_WRITE else 0)) ms of
        None \<Rightarrow> None
      | Some (Inl err, ms1) \<Rightarrow> Some (Inl err, t, ms1, w)
      | Some (Inr path, ms1) \<Rightarrow>
         (case find_mount_and_trim_path path ms1 of
            None \<Rightarrow> None
          | Some (m, trimmed, ms2) \<Rightarrow>
             (case op_open (F (m_fs m)) m trimmed flags mode w of
                (Inl err, w1) \<Rightarrow> Some (Inl err, t, mount_release (m_id m) ms2, w1)
              | (Inr h, w1) \<Rightarrow>
                 (case op_fstat (F (m_fs m)) w1 h of
                    Inl err \<Rightarrow> Some (Inl err, close_last F h m None t ms2 w1)
                  | Inr st \<Rightarrow>
                     let (t1, ms3) = inode_get_unlocked m (st_inode st) t ms2
                     in case open_checks cr dev_open st flags w1 of
                          None \<Rightarrow> None
                        | Some (err, w2) \<Rightarrow>
                            if err < 0
                            then Some (Inl err, close_last F h m (Some (st_inode st)) t1 ms3 w2)
                            else Some (Inr \<lparr>of_handle = h, of_mount = m, of_inode = st_inode st,
                                            of_type = st_mode st AND S_IFMT, of_flags = flags\<rparr>,
                                       t1, ms3, w2)))))"

subsection \<open>Seeking\<close>

text \<open>
  \<open>Inl\<close>: the error, the offset unchanged. Offsets are signed with 64 bits; the sum of an
  unsigned size and a signed offset is taken modulo \<open>2 ^ 64\<close>.
\<close>

definition generic_seek :: "int \<Rightarrow> int \<Rightarrow> nat \<Rightarrow> nat \<Rightarrow> int + int" where
  "generic_seek offset off whence sz =
     (if whence = 0 then Inr off
      else if whence = 1 then
        (let new_off = offset + off
         in if s64 new_off \<noteq> new_off \<or> s64 new_off < 0 then Inl EINVAL else Inr new_off)
      else if whence = 2 then
        (let new_off = s64 (int sz + off) in if new_off < 0 then Inl EINVAL else Inr new_off)
      else Inl EINVAL)"

section \<open>References are given back\<close>

lemma find_mount_ms:
  "find_mount_and_trim_path path ms = Some (m, t, ms') \<Longrightarrow> ms' = mount_retain (m_id m) ms"
  by (auto simp: find_mount_and_trim_path_def mount_find_def split: if_splits option.splits)

lemma try_link_ms:
  "try_link F w c out ms = Some (r, m, t, ms') \<Longrightarrow> ms' = mount_retain (m_id m) ms"
  by (auto simp: try_link_def dest: find_mount_ms split: if_splits option.splits)

lemma path_loop_ms:
  "mounts_ok ms \<Longrightarrow> path_loop F w cr flags levels out prev p n ms = Some (r, ms') \<Longrightarrow> ms' = ms"
proof (induction F w cr flags levels out prev p n ms arbitrary: r ms' rule: path_loop.induct)
  case (1 F w cr flags levels out prev p n ms)
  note step = "1.prems"(2)[unfolded path_loop.simps[of F w cr flags levels out prev p n ms]]
  obtain out' p1 n' where copy: "copy_comp (out @ [slash]) p (n - 1) = (out', p1, n')"
    by (metis prod_cases3)
  show ?case
  proof (cases "p = [] \<or> is_dot p \<or> is_dotdot p \<or> length out \<ge> MAX_PATH")
    case True
    then show ?thesis using step "1.IH"(1,2) "1.prems"(1)
      by (auto simp: Let_def split: if_splits option.splits)
  next
    case False
    let ?p = "skip_slashes p1" and ?c = "length out + 1"
    let ?prev = "consumed prev p ?p"
    show ?thesis
    proof (cases "n' = 0 \<or> \<not> (flags AND N_SYMLINK_FOLLOW \<noteq> 0 \<or> ?p \<noteq> [])")
      case True
      then show ?thesis using step False copy "1.IH"(5)[of "(out', p1, n')" out' "(p1, n')" p1 n'] "1.prems"(1)
        by (auto simp: Let_def split: if_splits)
    next
      case follow: False
      then obtain r' m t ms1 where link: "try_link F w ?c out' ms = Some (r', m, t, ms1)"
        using step False copy by (auto simp: Let_def split: option.splits)
      have ms1: "mount_release (m_id m) ms1 = ms"
        unfolding try_link_ms[OF link] by (rule release_retain[OF "1.prems"(1)])
      show ?thesis
      proof (cases r')
        case (Inl res)
        then show ?thesis using step False follow copy link ms1 "1.prems"(1)
            "1.IH"(3)[of "(out', p1, n')" out' "(p1, n')" p1 n' ?p ?c ?prev "(r', m, t, ms1)" r' "(m, t, ms1)" res m "(t, ms1)" t ms1]
          by (auto simp: Let_def split: if_splits option.splits)
      next
        case (Inr target)
        then show ?thesis using step False follow copy link ms1 "1.prems"(1)
            "1.IH"(4)[of "(out', p1, n')" out' "(p1, n')" p1 n' ?p ?c ?prev "(r', m, t, ms1)" r' "(m, t, ms1)" target m "(t, ms1)" t ms1]
          by (auto simp: Let_def split: if_splits option.splits)
      qed
    qed
  qed
qed

lemma path_normalize_ms:
  assumes "mounts_ok ms" "path_normalize F w cr fi at path flags ms = Some (r, ms')"
  shows "ms' = ms"
proof -
  have "path_normalize_at F w cr flags 0 a path ms = Some (r, ms') \<Longrightarrow> ms' = ms" for a
    using path_loop_ms[OF assms(1)]
    by (auto simp: path_normalize_at_def Let_def split: if_splits option.splits)
  then show ?thesis using assms(2)
    by (auto simp: path_normalize_def Let_def split: if_splits option.splits sum.splits at_fd.splits)
qed

lemma find_mount_release:
  assumes "mounts_ok ms" "find_mount_and_trim_path path ms = Some (m, t, ms')"
  shows "mount_release (m_id m) ms' = ms"
  using find_mount_ms[OF assms(2)] release_retain[OF assms(1)] by simp

lemma at_mount_ms:
  assumes "mounts_ok ms" "at_mount F cr fi at path flags call ms w = Some (r, ms', w')"
  shows "ms' = ms"
proof -
  obtain r1 ms1 where n: "path_normalize F w cr fi at path flags ms = Some (r1, ms1)"
    using assms(2) by (auto simp: at_mount_def split: option.splits)
  then have ms1: "ms1 = ms" by (rule path_normalize_ms[OF assms(1)])
  show ?thesis using assms(2) n ms1 find_mount_release[OF assms(1)]
    by (auto simp: at_mount_def Let_def split: option.splits sum.splits prod.splits)
qed

lemma ret_err_Some: "ret_err x = Some (err, s) \<Longrightarrow> \<exists>r. x = Some (r, s)"
  by (auto simp: ret_err_def)

lemmas generic_defs = generic_accessat_def generic_unlinkat_def generic_symlinkat_def
  generic_setattrat_def generic_utime_def generic_mkdirat_def

lemma mounts_ok_retain: "mounts_ok ms \<Longrightarrow> mounts_ok (mount_retain i ms)"
proof -
  assume ok: "mounts_ok ms"
  let ?f = "\<lambda>m. if m_id m = i then m\<lparr>m_refcount := w32 (m_refcount m + 1)\<rparr> else m"
  obtain m where "m \<in> set ms" "m_point m = []" using ok by (auto simp: mounts_ok_def)
  then have "?f m \<in> set (mount_retain i ms)" "m_point (?f m) = []" by (auto simp: mount_retain_def)
  moreover have "\<forall>x \<in> set (mount_retain i ms). m_refcount x < 2 ^ 32"
    using ok by (auto simp: mounts_ok_def mount_retain_def w32_def)
  ultimately show ?thesis unfolding mounts_ok_def by blast
qed

lemma two_mounts_ms:
  assumes ok: "mounts_ok ms" and res: "two_mounts call src dst ms w = Some (err, ms', w')"
  shows "ms' = ms"
proof -
  obtain m s ms1 where f1: "find_mount_and_trim_path src ms = Some (m, s, ms1)"
    using res by (auto simp: two_mounts_def split: option.splits)
  obtain m2 d ms2 where f2: "find_mount_and_trim_path dst ms1 = Some (m2, d, ms2)"
    using res f1 by (auto simp: two_mounts_def split: option.splits)
  have ms1: "ms1 = mount_retain (m_id m) ms" by (rule find_mount_ms[OF f1])
  have comm: "mount_release i (mount_release j xs) = mount_release j (mount_release i xs)" for i j xs
    by (auto simp: mount_release_def)
  have "ms' = mount_release (m_id m2) (mount_release (m_id m) ms2)"
    using res f1 f2 by (auto simp: two_mounts_def Let_def split: prod.splits)
  also have "\<dots> = mount_release (m_id m) ms1"
    unfolding comm[of "m_id m2"] using find_mount_release[OF _ f2] mounts_ok_retain[OF ok] ms1 by simp
  also have "\<dots> = ms" by (rule find_mount_release[OF ok f1])
  finally show ?thesis .
qed

text \<open>Getting an inode and releasing it leaves the table and the mounts as they were.\<close>

definition inodes_ok :: "inodes \<Rightarrow> bool" where
  "inodes_ok t \<longleftrightarrow> (\<forall>b. \<forall>i \<in> set (t b). 0 < i_refcount i \<and> i_refcount i + 1 < 2 ^ 32)"

lemma w32_dec_inc: "k + 1 < 2 ^ 32 \<Longrightarrow> w32 (w32 (k + 1) + (2 ^ 32 - 1)) = k"
  by (simp add: w32_def)

lemma same_inode_refcount [simp]: "same_inode m ino (i\<lparr>i_refcount := k\<rparr>) = same_inode m ino i"
  by (simp add: same_inode_def)

lemma inode_release_get:
  assumes inodes: "inodes_ok t" and ms: "mounts_ok ms"
    and get: "inode_get_unlocked m ino t ms = (t1, ms1)"
  shows "\<exists>w'. inode_release F m ino t1 ms1 w = (t, ms, w')"
proof (cases "inode_get_data m ino t")
  case None
  let ?b = "ino mod INODES_HASH_SIZE"
  have no: "\<forall>i \<in> set (t ?b). \<not> same_inode m ino i"
    using None by (auto simp: inode_get_data_def find_None_iff)
  then have keep: "map (\<lambda>i. if same_inode m ino i then i\<lparr>i_refcount := w32 (i_refcount i + 1)\<rparr> else i) (t ?b) = t ?b"
    by (auto intro!: map_idI)
  let ?new = "\<lparr>i_refcount = w32 1, i_number = ino, i_mount = m\<rparr>"
  have "same_inode m ino ?new" by (simp add: same_inode_def)
  moreover have "same_inode m ino \<lparr>i_refcount = 0, i_number = ino, i_mount = m\<rparr>"
    by (simp add: same_inode_def)
  then have t1: "t1 = t(?b := ?new # t ?b)" "ms1 = mount_retain (m_id m) ms"
    using get None keep
    by (auto simp: inode_get_unlocked_def inode_retain_def inode_update_def simp del: One_nat_def)
  moreover have "filter (\<lambda>x. \<not> same_inode m ino x) (t ?b) = t ?b" using no by simp
  ultimately show ?thesis using release_retain[OF ms]
    by (simp add: inode_release_def inode_get_data_def w32_def)
next
  case (Some i)
  let ?b = "ino mod INODES_HASH_SIZE"
  let ?inc = "\<lambda>i. i\<lparr>i_refcount := w32 (i_refcount i + 1)\<rparr>" and ?dec = "\<lambda>i. i\<lparr>i_refcount := w32 (i_refcount i + (2 ^ 32 - 1))\<rparr>"
  have t1: "t1 = inode_update ?inc m ino t" "ms1 = ms"
    using get Some by (auto simp: inode_get_unlocked_def inode_retain_def)
  have "find (same_inode m ino) (map (\<lambda>i. if same_inode m ino i then ?inc i else i) xs) =
      map_option ?inc (find (same_inode m ino) xs)" for xs
    by (induction xs) auto
  then have found: "inode_get_data m ino t1 = Some (?inc i)"
    using Some by (simp add: t1 inode_get_data_def inode_update_def del: One_nat_def)
  have i: "i \<in> set (t ?b)" using Some by (auto simp: inode_get_data_def find_Some_iff)
  then have "0 < i_refcount i" "i_refcount i + 1 < 2 ^ 32" using inodes by (auto simp: inodes_ok_def)
  then have pos: "w32 (i_refcount (?inc i) + (2 ^ 32 - 1)) \<noteq> 0" using w32_dec_inc[of "i_refcount i"] by simp
  have "?dec (?inc x) = x" if "x \<in> set (t ?b)" for x
    using that inodes w32_dec_inc[of "i_refcount x"] by (auto simp: inodes_ok_def)
  then have "inode_update ?dec m ino t1 = t"
    unfolding t1 inode_update_def
    by (auto simp: fun_eq_iff intro!: map_idI)
  then show ?thesis using found pos t1 by (simp add: inode_release_def)
qed

text \<open>
  C17. A failing \<^verbatim>\<open>generic_openat\<close>, whatever step fails, leaves the table of inodes and every
  reference count of a mount as they were.
\<close>

theorem generic_openat_error_restores:
  assumes ok: "mounts_ok ms" "inodes_ok t"
    and res: "generic_openat F cr dev_open fi at path flags mode t ms w = Some (Inl err, t', ms', w')"
  shows "t' = t \<and> ms' = ms"
proof (cases "set_in flags O_RDWR \<and> set_in flags O_WRONLY")
  case True
  then show ?thesis using res by (simp add: generic_openat_def)
next
  case False
  let ?fl = "N_SYMLINK_FOLLOW OR (if set_in flags O_CREAT then N_PARENT_DIR_WRITE else 0)"
  note res' = res[unfolded generic_openat_def if_not_P[OF False]]
  obtain r1 ms1 where n: "path_normalize F w cr fi at path ?fl ms = Some (r1, ms1)"
    using res' by (auto split: option.splits)
  then have ms1: "ms1 = ms" by (rule path_normalize_ms[OF ok(1)])
  show ?thesis
  proof (cases r1)
    case (Inl e)
    then show ?thesis using res' n ms1 by simp
  next
    case (Inr p)
    obtain m trimmed ms2 where f: "find_mount_and_trim_path p ms = Some (m, trimmed, ms2)"
      using res' n ms1 Inr by (auto split: option.splits)
    note rel = find_mount_release[OF ok(1) f]
    have ms2: "mounts_ok ms2" using find_mount_ms[OF f] mounts_ok_retain[OF ok(1)] by simp
    obtain o1 w1 where o: "op_open (F (m_fs m)) m trimmed flags mode w = (o1, w1)" by force
    show ?thesis
    proof (cases o1)
      case (Inl e)
      then show ?thesis using res' n ms1 Inr f o rel by simp
    next
      case h: (Inr h)
      show ?thesis
      proof (cases "op_fstat (F (m_fs m)) w1 h")
        case (Inl e)
        then show ?thesis using res' n ms1 Inr f o h rel by (simp add: close_last_def)
      next
        case st: (Inr st)
        obtain t1 ms3 where get: "inode_get_unlocked m (st_inode st) t ms2 = (t1, ms3)" by force
        have "t'' = t \<and> ms'' = ms" if "close_last F h m (Some (st_inode st)) t1 ms3 w2 = (t'', ms'', w'')"
          for w2 t'' ms'' w''
          using that inode_release_get[OF ok(2) ms2 get, of F "op_close (F (m_fs m)) h w2"] rel
          by (auto simp: close_last_def)
        then show ?thesis using res' n ms1 Inr f o h st get
          by (auto split: option.splits if_splits prod.splits dest!: meta_spec)
      qed
    qed
  qed
qed

theorem generic_openat_error_restores_witness:
  "\<exists>t' ms' w'. generic_openat (\<lambda>_. void_fs) \<lparr>euid = 0, egid = 0\<rparr> (\<lambda>_ _ w. (0, w))
     \<lparr>fi_root = None, fi_pwd = None\<rparr> AT_PWD ''/a'' 0 0 (\<lambda>_. []) [root_mount] () = Some (Inl ENOENT, t', ms', w') \<and>
     t' = (\<lambda>_. []) \<and> ms' = [root_mount]"
proof -
  have "path_normalize_at (\<lambda>_. void_fs) () \<lparr>euid = 0, egid = 0\<rparr> N_SYMLINK_FOLLOW 0 None ''/a'' [root_mount] =
      Some (Inr ''/a'', [root_mount])"
    using path_loop_resolve[OF void_ok, of "[]" "''a''" _ _ N_SYMLINK_FOLLOW 0 "Some slash"]
    by (simp add: path_normalize_at_def skip_slashes_def
        consumed_def MAX_PATH_def resolve_def comps.simps resolve_step_def)
  then have "path_normalize (\<lambda>_. void_fs) () \<lparr>euid = 0, egid = 0\<rparr> \<lparr>fi_root = None, fi_pwd = None\<rparr> AT_PWD ''/a''
      N_SYMLINK_FOLLOW [root_mount] = Some (Inr ''/a'', [root_mount])"
    by (simp add: path_normalize_def)
  moreover obtain m where "find_mount_and_trim_path ''/a'' [root_mount] =
      Some (m, drop (length (m_point m)) ''/a'', mount_retain (m_id m) [root_mount])"
    using mount_find_ok[OF void_ok(2), of "''/a''"] join_normalized[of "[''a'']"] by (auto simp: is_comp_def)
  ultimately have "\<exists>t' ms' w'. generic_openat (\<lambda>_. void_fs) \<lparr>euid = 0, egid = 0\<rparr> (\<lambda>_ _ w. (0, w))
     \<lparr>fi_root = None, fi_pwd = None\<rparr> AT_PWD ''/a'' 0 0 (\<lambda>_. []) [root_mount] () = Some (Inl ENOENT, t', ms', w')"
    by (simp add: generic_openat_def set_in_def void_fs_def)
  then show ?thesis
    using generic_openat_error_restores[OF void_ok(2), of "\<lambda>_. []"] by (fastforce simp: inodes_ok_def)
qed

text \<open>
  Renaming gives back both references to mounts, whatever it returns: the table of mounts
  is as before, also when source and destination lie in different mounts.
\<close>

theorem generic_renameat_keeps_mounts:
  assumes ok: "mounts_ok ms"
    and res: "generic_renameat F cr fi src_at src dst_at dst ms w = Some (err, ms', w')"
  shows "ms' = ms"
proof -
  obtain r1 ms1 where n1: "path_normalize F w cr fi src_at src N_SYMLINK_NOFOLLOW ms = Some (r1, ms1)"
    using res by (auto simp: generic_renameat_def split: option.splits)
  have ms1: "ms1 = ms" by (rule path_normalize_ms[OF ok n1])
  show ?thesis
  proof (cases r1)
    case (Inl e)
    then show ?thesis using res n1 ms1 by (simp add: generic_renameat_def)
  next
    case (Inr s)
    then obtain r2 ms2 where n2: "path_normalize F w cr fi dst_at dst (N_SYMLINK_NOFOLLOW OR N_PARENT_DIR_WRITE) ms = Some (r2, ms2)"
      using res n1 ms1 by (auto simp: generic_renameat_def split: option.splits)
    have "ms2 = ms" by (rule path_normalize_ms[OF ok n2])
    then show ?thesis using res n1 ms1 Inr n2 two_mounts_ms[OF ok]
      by (auto simp: generic_renameat_def split: sum.splits if_splits)
  qed
qed

theorem generic_renameat_keeps_mounts_witness:
  "\<exists>ms' w'. generic_renameat (\<lambda>_. void_fs) \<lparr>euid = 0, egid = 0\<rparr> \<lparr>fi_root = None, fi_pwd = None\<rparr>
     AT_PWD [] AT_PWD ''/a'' [root_mount] () = Some (ENOENT, ms', w') \<and> ms' = [root_mount]"
proof -
  have "generic_renameat (\<lambda>_. void_fs) \<lparr>euid = 0, egid = 0\<rparr> \<lparr>fi_root = None, fi_pwd = None\<rparr>
     AT_PWD [] AT_PWD ''/a'' [root_mount] () = Some (ENOENT, [root_mount], ())"
    by (simp add: generic_renameat_def path_normalize_def)
  then show ?thesis using generic_renameat_keeps_mounts[OF void_ok(2)] by blast
qed

section \<open>Permissions\<close>

lemma and_or_distrib: "x AND (a OR b) = (x AND a) OR (x AND b)" for x a b :: nat
  by (rule bit_eqI) (auto simp: bit_simps)

text \<open>
  \<^verbatim>\<open>access_check\<close> accepts when any one of the requested permissions is granted: the owner of a
  file that is readable and not writable gets it opened for reading and writing.
\<close>

theorem open_rdwr_of_readonly_file:
  assumes "\<not> superuser cr" "euid cr = st_uid st" "st_mode st AND 0x100 \<noteq> 0" "st_mode st AND 0x80 = 0"
  shows "access_check cr st (open_accmode O_RDWR) = 0 \<and> access_check cr st AC_W = EACCES"
proof -
  have "open_accmode O_RDWR = 6" by (simp add: open_accmode_def set_in_def)
  moreover have "st_mode st AND 0x180 = (st_mode st AND 0x100) OR (st_mode st AND 0x80)"
    using and_or_distrib[of "st_mode st" "0x100" "0x80"] by simp
  ultimately show ?thesis using assms by (simp add: access_check_def)
qed

theorem open_rdwr_of_readonly_file_witness:
  "access_check \<lparr>euid = 5, egid = 5\<rparr>
     \<lparr>st_inode = 1, st_mode = 0x8100, st_uid = 5, st_gid = 5, st_rdev = 0, st_size = 0\<rparr> (open_accmode O_RDWR) = 0"
  using open_rdwr_of_readonly_file[of "\<lparr>euid = 5, egid = 5\<rparr>"
      "\<lparr>st_inode = 1, st_mode = 0x8100, st_uid = 5, st_gid = 5, st_rdev = 0, st_size = 0\<rparr>"]
  by (simp add: superuser_def)

end
