(* ===== verification/Tmpfs.thy ===== *)
theory Tmpfs
  imports Vfs
begin

text \<open>
  The temporary file system of \<^verbatim>\<open>fs/tmp.c\<close>. Inodes and directory entries are objects of a
  store, addressed by numbers, and carry the reference counts of \<^verbatim>\<open>util/refcount.h\<close>; an access to a
  freed object is \<^const>\<open>None\<close>, as are a failed assertion and an access outside a buffer. The list
  \<^verbatim>\<open>children\<close> of an entry is the list of the addresses in it. Which allocations succeed, and the
  identity of the caller, come from the environment of a call.
\<close>

section \<open>Definitions\<close>

subsection \<open>Inodes\<close>

record tmp_inode =
  ti_refcount :: nat
  ti_stat :: statbuf
  ti_data :: "byte list option"

record tmp_dirent =
  td_name :: string
  td_inode :: "nat option"
  td_index :: nat
  td_parent :: "nat option"
  td_children :: "nat list"
  td_next_index :: nat
  td_refcount :: nat

record tmp_state =
  t_inodes :: "nat \<Rightarrow> tmp_inode option"
  t_dirents :: "nat \<Rightarrow> tmp_dirent option"
  t_new_inode :: nat
  t_new_dirent :: nat
  next_inode :: nat

record tmp_env =
  ok_inode :: bool
  ok_data :: bool
  ok_dirent :: bool
  ok_fd :: bool
  ok_realloc :: bool
  te_cred :: cred

definition S_ISREG :: "nat \<Rightarrow> bool" where "S_ISREG mode \<longleftrightarrow> mode AND S_IFMT = 0x8000"

definition tmp_inode_new :: "tmp_env \<Rightarrow> nat \<Rightarrow> tmp_state \<Rightarrow> nat option \<times> tmp_state" where
  "tmp_inode_new e mode16 st =
     (if \<not> ok_inode e then (None, st)
      else let mode = mode16 mod 2 ^ 16;
               st1 = st\<lparr>next_inode := w64 (next_inode st + 1)\<rparr>;
               node = \<lparr>ti_refcount = 1,
                       ti_stat = \<lparr>st_inode = next_inode st, st_mode = mode, st_uid = euid (te_cred e),
                                  st_gid = egid (te_cred e), st_rdev = 0, st_size = 0\<rparr>,
                       ti_data = (if S_ISREG mode then Some [] else None)\<rparr>
           in if S_ISREG mode \<and> \<not> ok_data e then (None, st1)
              else (Some (t_new_inode st1),
                    st1\<lparr>t_inodes := (t_inodes st1)(t_new_inode st1 \<mapsto> node),
                        t_new_inode := t_new_inode st1 + 1\<rparr>))"

definition tmp_inode_retain :: "nat \<Rightarrow> tmp_state \<Rightarrow> tmp_state option" where
  "tmp_inode_retain i st =
     (case t_inodes st i of
        None \<Rightarrow> None
      | Some n \<Rightarrow>
          Some (st\<lparr>t_inodes := (t_inodes st)(i \<mapsto> n\<lparr>ti_refcount := w32 (ti_refcount n + 1)\<rparr>)\<rparr>))"

definition tmp_inode_cleanup :: "nat \<Rightarrow> tmp_state \<Rightarrow> tmp_state" where
  "tmp_inode_cleanup i st = st\<lparr>t_inodes := (t_inodes st)(i := None)\<rparr>"

definition tmp_inode_release :: "nat \<Rightarrow> tmp_state \<Rightarrow> tmp_state option" where
  "tmp_inode_release i st =
     (case t_inodes st i of
        None \<Rightarrow> None
      | Some n \<Rightarrow>
          let rc = w32 (ti_refcount n + (2 ^ 32 - 1));
              st1 = st\<lparr>t_inodes := (t_inodes st)(i \<mapsto> n\<lparr>ti_refcount := rc\<rparr>)\<rparr>
          in Some (if rc = 0 then tmp_inode_cleanup i st1 else st1))"

subsection \<open>Directory entries\<close>

text \<open>
  \<^verbatim>\<open>list_remove\<close> takes the entry out of the list of its parent. The list node of the root is never
  initialized, so removing the root follows wild pointers.
\<close>

definition tmp_dirent_cleanup :: "nat \<Rightarrow> tmp_state \<Rightarrow> tmp_state option" where
  "tmp_dirent_cleanup d st =
     (case t_dirents st d of
        None \<Rightarrow> None
      | Some x \<Rightarrow>
         (case td_parent x of
            None \<Rightarrow> None
          | Some p \<Rightarrow>
             (case t_dirents st p of
                None \<Rightarrow> None
              | Some px \<Rightarrow>
                  let st1 = st\<lparr>t_dirents := (t_dirents st)
                                 (p \<mapsto> px\<lparr>td_children := remove1 d (td_children px)\<rparr>)\<rparr>
                  in (case td_inode x of
                        None \<Rightarrow> None
                      | Some i \<Rightarrow>
                         (case tmp_inode_release i st1 of
                            None \<Rightarrow> None
                          | Some st2 \<Rightarrow> Some (st2\<lparr>t_dirents := (t_dirents st2)(d := None)\<rparr>))))))"

definition tmp_dirent_retain :: "nat \<Rightarrow> tmp_state \<Rightarrow> tmp_state option" where
  "tmp_dirent_retain d st =
     (case t_dirents st d of
        None \<Rightarrow> None
      | Some x \<Rightarrow>
          Some (st\<lparr>t_dirents := (t_dirents st)(d \<mapsto> x\<lparr>td_refcount := w32 (td_refcount x + 1)\<rparr>)\<rparr>))"

definition tmp_dirent_release :: "nat \<Rightarrow> tmp_state \<Rightarrow> tmp_state option" where
  "tmp_dirent_release d st =
     (case t_dirents st d of
        None \<Rightarrow> None
      | Some x \<Rightarrow>
          let rc = w32 (td_refcount x + (2 ^ 32 - 1));
              st1 = st\<lparr>t_dirents := (t_dirents st)(d \<mapsto> x\<lparr>td_refcount := rc\<rparr>)\<rparr>
          in if rc = 0 then tmp_dirent_cleanup d st1 else Some st1)"

definition tmp_dirent_init :: "tmp_dirent \<Rightarrow> tmp_dirent" where
  "tmp_dirent_init x = x\<lparr>td_refcount := 1, td_children := [], td_next_index := 0\<rparr>"

text \<open>The memory of a new entry; its contents are overwritten or, for the root, not read.\<close>

abbreviation raw_dirent :: tmp_dirent where
  "raw_dirent \<equiv> \<lparr>td_name = [], td_inode = None, td_index = 0, td_parent = None, td_children = [],
                  td_next_index = 0, td_refcount = 0\<rparr>"

text \<open>\<^verbatim>\<open>dirent->inode\<close>: the inode of an entry, \<^const>\<open>None\<close> when one of the pointers is bad.\<close>

definition dirent_inode :: "tmp_state \<Rightarrow> nat \<Rightarrow> (nat \<times> tmp_inode) option" where
  "dirent_inode st d =
     (case t_dirents st d of
        None \<Rightarrow> None
      | Some x \<Rightarrow> (case td_inode x of None \<Rightarrow> None | Some i \<Rightarrow> map_option (Pair i) (t_inodes st i)))"

abbreviation inode_mode :: "tmp_inode \<Rightarrow> nat" where
  "inode_mode n \<equiv> st_mode (ti_stat n)"

text \<open>
  The result is the error, the new entry when it is asked for, and the state. The store of the name
  overruns its array when the name has more than \<^const>\<open>MAX_NAME\<close> characters.
\<close>

definition tmpfs_dir_link ::
  "tmp_env \<Rightarrow> nat \<Rightarrow> string \<Rightarrow> nat \<Rightarrow> bool \<Rightarrow> tmp_state \<Rightarrow> (int \<times> nat option \<times> tmp_state) option" where
  "tmpfs_dir_link e dir name child out st =
     (case (t_dirents st dir, dirent_inode st dir) of
        (Some dx, Some (i, n)) \<Rightarrow>
          if \<not> S_ISDIR (inode_mode n) then
            map_option (\<lambda>st1. (ENOTDIR, None, st1)) (tmp_inode_release child st)
          else if \<not> ok_dirent e then
            map_option (\<lambda>st1. (ENOMEM, None, st1)) (tmp_inode_release child st)
          else if length name > MAX_NAME then None
          else (case tmp_inode_retain child st of
                  None \<Rightarrow> None
                | Some st1 \<Rightarrow>
                    let a = t_new_dirent st1;
                        new = (tmp_dirent_init raw_dirent)\<lparr>td_name := name, td_inode := Some child,
                                td_index := td_next_index dx, td_parent := Some dir\<rparr>;
                        dx' = dx\<lparr>td_next_index := w64 (td_next_index dx + 1),
                                 td_refcount := w32 (td_refcount dx + 1),
                                 td_children := td_children dx @ [a]\<rparr>;
                        st2 = st1\<lparr>t_dirents := (t_dirents st1)(a \<mapsto> new, dir \<mapsto> dx'),
                                  t_new_dirent := a + 1\<rparr>
                    in if out then map_option (\<lambda>st3. (0, Some a, st3)) (tmp_dirent_retain a st2)
                       else Some (0, None, st2))
      | _ \<Rightarrow> None)"

record tmp_fd =
  tf_offset :: nat
  tf_dirent :: "nat option"
  tf_dir_pos :: "nat option"

definition tmpfs_fd_seekdir ::
  "tmp_fd \<Rightarrow> nat option \<Rightarrow> tmp_state \<Rightarrow> (tmp_fd \<times> tmp_state) option" where
  "tmpfs_fd_seekdir fd dirent st =
     (case (case dirent of None \<Rightarrow> Some st | Some d \<Rightarrow> tmp_dirent_retain d st) of
        None \<Rightarrow> None
      | Some st1 \<Rightarrow>
         (case (case tf_dir_pos fd of None \<Rightarrow> Some st1 | Some d \<Rightarrow> tmp_dirent_release d st1) of
            None \<Rightarrow> None
          | Some st2 \<Rightarrow> Some (fd\<lparr>tf_dir_pos := dirent\<rparr>, st2)))"

text \<open>The loop over the children: \<^const>\<open>None\<close> is an access to a freed entry.\<close>

primrec find_child :: "tmp_state \<Rightarrow> string \<Rightarrow> nat list \<Rightarrow> nat option option" where
  "find_child st name [] = Some None"
| "find_child st name (d # ds) =
     (case t_dirents st d of
        None \<Rightarrow> None
      | Some x \<Rightarrow>
          if td_inode x = None then find_child st name ds
          else if td_name x = name then Some (Some d)
          else find_child st name ds)"

definition tmpfs_dir_lookup ::
  "nat \<Rightarrow> string \<Rightarrow> tmp_state \<Rightarrow> ((int + nat) \<times> tmp_state) option" where
  "tmpfs_dir_lookup dir name st =
     (case (t_dirents st dir, dirent_inode st dir) of
        (Some dx, Some (i, n)) \<Rightarrow>
          if \<not> S_ISDIR (inode_mode n) then Some (Inl ENOTDIR, st)
          else (case find_child st name (td_children dx) of
                  None \<Rightarrow> None
                | Some None \<Rightarrow> Some (Inl ENOENT, st)
                | Some (Some d) \<Rightarrow> map_option (Pair (Inr d)) (tmp_dirent_retain d st))
      | _ \<Rightarrow> None)"

definition tmpfs_dir_lookup_existence ::
  "nat \<Rightarrow> string \<Rightarrow> tmp_state \<Rightarrow> (int \<times> tmp_state) option" where
  "tmpfs_dir_lookup_existence dir name st =
     (case tmpfs_dir_lookup dir name st of
        None \<Rightarrow> None
      | Some (Inl err, st1) \<Rightarrow> Some (if err = ENOENT then 0 else err, st1)
      | Some (Inr d, st1) \<Rightarrow> map_option (Pair EEXIST) (tmp_dirent_release d st1))"

subsection \<open>Lookup of a path\<close>

lemma path_next_component_shorter:
  "path_next_component path = Some (Inr (c, rest)) \<Longrightarrow> length rest < length path"
  by (auto simp: path_next_component_def Let_def less_Suc_eq_le length_dropWhile_le
      split: list.splits if_splits)

text \<open>
  The loop of \<^verbatim>\<open>__tmpfs_lookup\<close>: \<open>component\<close> is the buffer with the last component, from which
  the file name is computed at the end. A component that is too long ends the loop without a release
  of the entry reached so far.
\<close>

function tmpfs_walk ::
  "nat \<Rightarrow> string \<Rightarrow> bool \<Rightarrow> string \<Rightarrow> tmp_state \<Rightarrow> ((int + nat \<times> string) \<times> tmp_state) option" where
  "tmpfs_walk dirent path parent component st =
     (case path_next_component path of
        None \<Rightarrow> None
      | Some (Inl err) \<Rightarrow> Some (if err < 0 then Inl err else Inr (dirent, component), st)
      | Some (Inr (c, rest)) \<Rightarrow>
          if parent \<and> rest = [] then Some (Inr (dirent, c), st)
          else (case tmpfs_dir_lookup dirent c st of
                  None \<Rightarrow> None
                | Some (child, st1) \<Rightarrow>
                   (case tmp_dirent_release dirent st1 of
                      None \<Rightarrow> None
                    | Some st2 \<Rightarrow>
                       (case child of
                          Inl err \<Rightarrow> Some (Inl err, st2)
                        | Inr d \<Rightarrow> tmpfs_walk d rest parent c st2))))"
  by pat_completeness auto
termination
  by (relation "measure (\<lambda>(d, path, p, c, st). length path)") (auto dest: path_next_component_shorter)

declare tmpfs_walk.simps [simp del]

definition tmpfs_lookup0 ::
  "nat \<Rightarrow> string \<Rightarrow> bool \<Rightarrow> tmp_state \<Rightarrow> ((int + nat \<times> string) \<times> tmp_state) option" where
  "tmpfs_lookup0 root path parent st =
     (case tmp_dirent_retain root st of
        None \<Rightarrow> None
      | Some st1 \<Rightarrow> tmpfs_walk root path parent [] st1)"

definition tmpfs_lookup :: "nat \<Rightarrow> string \<Rightarrow> tmp_state \<Rightarrow> ((int + nat) \<times> tmp_state) option" where
  "tmpfs_lookup root path st =
     map_option (\<lambda>(r, st1). (map_sum (\<lambda>x. x) fst r, st1)) (tmpfs_lookup0 root path False st)"

text \<open>The parent of the root is the null pointer, which is not an error pointer.\<close>

definition tmpfs_lookup_parent ::
  "nat \<Rightarrow> string \<Rightarrow> tmp_state \<Rightarrow> ((int + (nat \<times> string) option) \<times> tmp_state) option" where
  "tmpfs_lookup_parent root path st =
     (if path = ''/'' then Some (Inr None, st)
      else map_option (\<lambda>(r, st1). (map_sum (\<lambda>x. x) Some r, st1)) (tmpfs_lookup0 root path True st))"

text \<open>
  Growing the data of a file; shrinking it would clear a wrapped number of bytes behind its end.
\<close>

definition tmpfs_file_resize :: "tmp_env \<Rightarrow> nat \<Rightarrow> tmp_inode \<Rightarrow> (int \<times> tmp_inode) option" where
  "tmpfs_file_resize e sz n =
     (if \<not> S_ISREG (inode_mode n) then None
      else case ti_data n of
             None \<Rightarrow> None
           | Some data \<Rightarrow>
               if \<not> ok_realloc e then Some (ENOMEM, n)
               else if sz < st_size (ti_stat n) then None
               else Some (0, n\<lparr>ti_data := Some (take (st_size (ti_stat n)) data @
                                                replicate (sz - st_size (ti_stat n)) 0),
                               ti_stat := (ti_stat n)\<lparr>st_size := sz\<rparr>\<rparr>))"

subsection \<open>Operations of the file system\<close>

text \<open>The mount keeps the address of the root entry.\<close>

definition tmpfs_mount :: "tmp_env \<Rightarrow> tmp_state \<Rightarrow> int \<times> nat option \<times> tmp_state" where
  "tmpfs_mount e st =
     (case tmp_inode_new e (0x4000 OR 0x1ff) st of
        (None, st1) \<Rightarrow> (ENOMEM, None, st1)
      | (Some i, st1) \<Rightarrow>
          if \<not> ok_dirent e then (ENOMEM, None, tmp_inode_cleanup i st1)
          else let a = t_new_dirent st1;
                   root = (tmp_dirent_init raw_dirent)\<lparr>td_name := [], td_inode := Some i,
                            td_parent := None\<rparr>
               in (0, Some a, st1\<lparr>t_dirents := (t_dirents st1)(a \<mapsto> root), t_new_dirent := a + 1\<rparr>))"

text \<open>Unmounting ends the program.\<close>

definition tmpfs_umount :: "nat \<Rightarrow> tmp_state \<Rightarrow> (int \<times> tmp_state) option" where
  "tmpfs_umount root st = None"

abbreviation (input) O_EXCL :: nat where "O_EXCL \<equiv> 128"

text \<open>
  Lines 258 to 290. On an error after the lookup in the parent, the entry is released even when it is
  an error pointer, which is \<^const>\<open>None\<close>.
\<close>

definition tmpfs_creat ::
  "tmp_env \<Rightarrow> nat \<Rightarrow> string \<Rightarrow> nat \<Rightarrow> nat \<Rightarrow> tmp_state \<Rightarrow> ((int + nat) \<times> tmp_state) option" where
  "tmpfs_creat e root path flags mode st =
     (case tmpfs_lookup_parent root path st of
        None \<Rightarrow> None
      | Some (Inl err, st1) \<Rightarrow> Some (Inl err, st1)
      | Some (Inr None, st1) \<Rightarrow> None
      | Some (Inr (Some (parent, filename)), st1) \<Rightarrow>
         (case tmpfs_dir_lookup parent filename st1 of
            None \<Rightarrow> None
          | Some (dirent, st2) \<Rightarrow>
             (case (case dirent of
                      Inr d \<Rightarrow>
                        if set_in flags O_EXCL then
                          map_option (Pair (Inl EEXIST)) (tmp_dirent_release d st2)
                        else Some (Inr d, st2)
                    | Inl err \<Rightarrow>
                        if err = ENOENT then
                          (case tmp_inode_new e (0x8000 OR mode) st2 of
                             (None, st3) \<Rightarrow> None
                           | (Some inode, st3) \<Rightarrow>
                              (case tmpfs_dir_link e parent filename inode True st3 of
                                 None \<Rightarrow> None
                               | Some (err, new, st4) \<Rightarrow>
                                  (case (tmp_inode_release inode st4, new) of
                                     (Some st5, Some d) \<Rightarrow> Some (Inr d, st5)
                                   | _ \<Rightarrow> None)))
                        else Some (Inl err, st2)) of
                None \<Rightarrow> None
              | Some (r, st6) \<Rightarrow> map_option (Pair r) (tmp_dirent_release parent st6))))"

definition tmpfs_open ::
  "tmp_env \<Rightarrow> nat \<Rightarrow> string \<Rightarrow> nat \<Rightarrow> nat \<Rightarrow> tmp_state \<Rightarrow> ((int + tmp_fd) \<times> tmp_state) option" where
  "tmpfs_open e root path flags mode st =
     (case (if set_in flags O_CREAT then tmpfs_creat e root path flags mode st
            else tmpfs_lookup root path st) of
        None \<Rightarrow> None
      | Some (Inl err, st1) \<Rightarrow> Some (Inl err, st1)
      | Some (Inr dirent, st1) \<Rightarrow>
          if \<not> ok_fd e then map_option (Pair (Inl ENOMEM)) (tmp_dirent_release dirent st1)
          else let fd = \<lparr>tf_offset = 0, tf_dirent = Some dirent, tf_dir_pos = None\<rparr>
               in (case t_dirents st1 dirent of
                     None \<Rightarrow> None
                   | Some x \<Rightarrow>
                      (case td_children x of
                         [] \<Rightarrow> Some (Inr fd, st1)
                       | d # ds \<Rightarrow>
                           map_option (\<lambda>(fd', st2). (Inr fd', st2)) (tmpfs_fd_seekdir fd (Some d) st1))))"

definition tmpfs_stat :: "nat \<Rightarrow> string \<Rightarrow> tmp_state \<Rightarrow> ((int + statbuf) \<times> tmp_state) option" where
  "tmpfs_stat root path st =
     (case tmpfs_lookup root path st of
        None \<Rightarrow> None
      | Some (Inl err, st1) \<Rightarrow> Some (Inl err, st1)
      | Some (Inr d, st1) \<Rightarrow>
         (case dirent_inode st1 d of
            None \<Rightarrow> None
          | Some (i, n) \<Rightarrow> map_option (Pair (Inr (ti_stat n))) (tmp_dirent_release d st1)))"

definition tmpfs_close :: "tmp_fd \<Rightarrow> tmp_state \<Rightarrow> (int \<times> tmp_fd \<times> tmp_state) option" where
  "tmpfs_close fd st =
     (case tf_dirent fd of
        None \<Rightarrow> None
      | Some d \<Rightarrow> map_option (\<lambda>st1. (0, fd\<lparr>tf_dirent := None\<rparr>, st1)) (tmp_dirent_release d st))"

definition tmpfs_mkdir ::
  "tmp_env \<Rightarrow> nat \<Rightarrow> string \<Rightarrow> nat \<Rightarrow> tmp_state \<Rightarrow> (int \<times> tmp_state) option" where
  "tmpfs_mkdir e root path mode st =
     (case tmpfs_lookup_parent root path st of
        None \<Rightarrow> None
      | Some (Inl err, st1) \<Rightarrow> Some (err, st1)
      | Some (Inr None, st1) \<Rightarrow> None
      | Some (Inr (Some (parent, filename)), st1) \<Rightarrow>
         (case tmpfs_dir_lookup_existence parent filename st1 of
            None \<Rightarrow> None
          | Some (err, st2) \<Rightarrow>
             (case (if err < 0 then Some (err, st2)
                    else case tmp_inode_new e (0x4000 OR mode) st2 of
                           (None, st3) \<Rightarrow> Some (ENOMEM, st3)
                         | (Some inode, st3) \<Rightarrow>
                             map_option (\<lambda>(err, _, st4). (err, st4))
                               (tmpfs_dir_link e parent filename inode False st3)) of
                None \<Rightarrow> None
              | Some (err, st5) \<Rightarrow> map_option (Pair err) (tmp_dirent_release parent st5))))"

subsection \<open>Operations of an open file\<close>

definition tmpfs_fd_inode :: "tmp_fd \<Rightarrow> tmp_state \<Rightarrow> (nat \<times> tmp_inode) option" where
  "tmpfs_fd_inode fd st = (case tf_dirent fd of None \<Rightarrow> None | Some d \<Rightarrow> dirent_inode st d)"

text \<open>
  The loop of \<^verbatim>\<open>tmpfs_getpath\<close> with the room left in front of \<^verbatim>\<open>p\<close> and the text from \<^verbatim>\<open>p\<close> on. It
  compares with the root the entry it started from.
\<close>

function getpath_loop :: "bool \<Rightarrow> string \<Rightarrow> nat \<Rightarrow> string \<Rightarrow> int + string" where
  "getpath_loop is_root name room text =
     (if is_root then Inr text
      else if room < length name + 1 then Inl ENAMETOOLONG
      else getpath_loop is_root name (room - (length name + 1)) (slash # name @ text))"
  by pat_completeness auto
termination
  by (relation "measure (\<lambda>(r, name, room, text). room)") auto

declare getpath_loop.simps [simp del]

definition tmpfs_getpath :: "nat \<Rightarrow> tmp_fd \<Rightarrow> tmp_state \<Rightarrow> (int + string) option" where
  "tmpfs_getpath root fd st =
     (case tf_dirent fd of
        None \<Rightarrow> None
      | Some d \<Rightarrow>
         (case t_dirents st d of
            None \<Rightarrow> None
          | Some x \<Rightarrow> Some (getpath_loop (d = root) (td_name x) (MAX_PATH - 1) [])))"

definition tmpfs_fstat :: "tmp_fd \<Rightarrow> tmp_state \<Rightarrow> statbuf option" where
  "tmpfs_fstat fd st = map_option (\<lambda>(i, n). ti_stat n) (tmpfs_fd_inode fd st)"

text \<open>A copy of no bytes touches no memory.\<close>

definition tmpfs_read ::
  "tmp_fd \<Rightarrow> nat \<Rightarrow> tmp_state \<Rightarrow> (int \<times> byte list \<times> tmp_fd) option" where
  "tmpfs_read fd bufsize st =
     (case tmpfs_fd_inode fd st of
        None \<Rightarrow> None
      | Some (i, n) \<Rightarrow>
          if S_ISDIR (inode_mode n) then Some (EISDIR, [], fd)
          else if \<not> S_ISREG (inode_mode n) then None
          else let left = sub64 (st_size (ti_stat n)) (tf_offset fd);
                   m = (if bufsize > left then if tf_offset fd \<ge> st_size (ti_stat n) then 0 else left
                        else bufsize)
               in (case ti_data n of
                     None \<Rightarrow> None
                   | Some data \<Rightarrow>
                      (case (if m = 0 then Some [] else get_bytes data (tf_offset fd) m) of
                         None \<Rightarrow> None
                       | Some out \<Rightarrow>
                           Some (s64 (int m), out, fd\<lparr>tf_offset := w64 (tf_offset fd + m)\<rparr>))))"

definition tmpfs_write ::
  "tmp_env \<Rightarrow> tmp_fd \<Rightarrow> byte list \<Rightarrow> tmp_state \<Rightarrow> (int \<times> tmp_fd \<times> tmp_state) option" where
  "tmpfs_write e fd buf st =
     (case tmpfs_fd_inode fd st of
        None \<Rightarrow> None
      | Some (i, n) \<Rightarrow>
          if S_ISDIR (inode_mode n) then Some (EISDIR, fd, st)
          else if \<not> S_ISREG (inode_mode n) then None
          else let stop = w64 (tf_offset fd + length buf)
               in (case (if st_size (ti_stat n) < stop then tmpfs_file_resize e stop n else Some (0, n)) of
                     None \<Rightarrow> None
                   | Some (err, n1) \<Rightarrow>
                       if err < 0 then Some (err, fd, st)
                       else (case ti_data n1 of
                               None \<Rightarrow> None
                             | Some data \<Rightarrow>
                                (case (if buf = [] then Some data
                                       else put_bytes data (tf_offset fd) buf) of
                                   None \<Rightarrow> None
                                 | Some data' \<Rightarrow>
                                     Some (s64 (int (length buf)), fd\<lparr>tf_offset := stop\<rparr>,
                                           st\<lparr>t_inodes := (t_inodes st)
                                                (i \<mapsto> n1\<lparr>ti_data := Some data'\<rparr>)\<rparr>)))))"

text \<open>The offset is an unsigned number; \<^const>\<open>generic_seek\<close> works on its signed value.\<close>

definition tmpfs_lseek :: "tmp_fd \<Rightarrow> int \<Rightarrow> nat \<Rightarrow> tmp_state \<Rightarrow> (int \<times> tmp_fd) option" where
  "tmpfs_lseek fd off whence st =
     (case (if whence = 2 then map_option (\<lambda>(i, n). st_size (ti_stat n)) (tmpfs_fd_inode fd st)
            else Some 0) of
        None \<Rightarrow> None
      | Some sz \<Rightarrow>
         (case generic_seek (s64 (int (tf_offset fd))) off whence sz of
            Inl err \<Rightarrow> Some (err, fd)
          | Inr new_off \<Rightarrow> Some (new_off, fd\<lparr>tf_offset := nat (new_off mod 2 ^ 64)\<rparr>)))"

text \<open>\<^verbatim>\<open>list_next_entry\<close>, or the null pointer at the end of the list.\<close>

fun next_entry :: "nat list \<Rightarrow> nat \<Rightarrow> nat option option" where
  "next_entry [] d = None"
| "next_entry [x] d = (if x = d then Some None else None)"
| "next_entry (x # y # ys) d = (if x = d then Some (Some y) else next_entry (y # ys) d)"

text \<open>
  The entry is its inode number and name. For an entry that is not a directory the locks are
  released without having been taken.
\<close>

definition tmpfs_readdir ::
  "tmp_fd \<Rightarrow> tmp_state \<Rightarrow> (int \<times> (nat \<times> string) option \<times> tmp_fd \<times> tmp_state) option" where
  "tmpfs_readdir fd st =
     (case tf_dirent fd of
        None \<Rightarrow> None
      | Some p \<Rightarrow>
         (case (t_dirents st p, dirent_inode st p) of
            (Some px, Some (i, n)) \<Rightarrow>
              if \<not> S_ISDIR (inode_mode n) then None
              else (case tf_dir_pos fd of
                      None \<Rightarrow> Some (0, None, fd, st)
                    | Some d \<Rightarrow>
                       (case next_entry (td_children px) d of
                          None \<Rightarrow> None
                        | Some nxt \<Rightarrow>
                           (case tmpfs_fd_seekdir fd nxt st of
                              None \<Rightarrow> None
                            | Some (fd', st') \<Rightarrow>
                               (case (t_dirents st' d, dirent_inode st' d) of
                                  (Some x, Some (j, c)) \<Rightarrow>
                                    Some (1, Some (st_inode (ti_stat c), td_name x), fd', st')
                                | _ \<Rightarrow> None))))
          | _ \<Rightarrow> None))"

definition tmpfs_telldir :: "tmp_fd \<Rightarrow> tmp_state \<Rightarrow> nat option" where
  "tmpfs_telldir fd st =
     (case tf_dir_pos fd of
        None \<Rightarrow> Some (2 ^ 64 - 1)
      | Some d \<Rightarrow> map_option td_index (t_dirents st d))"

primrec find_index :: "tmp_state \<Rightarrow> nat \<Rightarrow> nat list \<Rightarrow> nat option option" where
  "find_index st ptr [] = Some None"
| "find_index st ptr (d # ds) =
     (case t_dirents st d of
        None \<Rightarrow> None
      | Some x \<Rightarrow> if td_index x \<ge> ptr then Some (Some d) else find_index st ptr ds)"

definition tmpfs_seekdir :: "tmp_fd \<Rightarrow> nat \<Rightarrow> tmp_state \<Rightarrow> (tmp_fd \<times> tmp_state) option" where
  "tmpfs_seekdir fd ptr st =
     (case tf_dirent fd of
        None \<Rightarrow> None
      | Some p \<Rightarrow>
         (case (t_dirents st p, dirent_inode st p) of
            (Some px, Some (i, n)) \<Rightarrow>
              if \<not> S_ISDIR (inode_mode n) then None
              else (case find_index st ptr (td_children px) of
                      None \<Rightarrow> None
                    | Some child \<Rightarrow> tmpfs_fd_seekdir fd child st)
          | _ \<Rightarrow> None))"

section \<open>Trees and reference counts\<close>

text \<open>
  An entry is well formed when its inode is alive, its parent lists it, its children know it as
  their parent and have increasing indices and different names, and only a directory has children.
\<close>

definition inode_ok :: "tmp_inode \<Rightarrow> bool" where
  "inode_ok n \<longleftrightarrow> 0 < ti_refcount n \<and> ti_refcount n < 2 ^ 32 \<and>
     (S_ISREG (inode_mode n) \<longrightarrow> (\<exists>data. ti_data n = Some data \<and> length data = st_size (ti_stat n)))"

definition child_ok :: "tmp_state \<Rightarrow> nat \<Rightarrow> tmp_dirent \<Rightarrow> nat \<Rightarrow> bool" where
  "child_ok st d x c \<longleftrightarrow> (\<exists>cx. t_dirents st c = Some cx \<and> td_parent cx = Some d \<and> td_index cx < td_next_index x)"

abbreviation entry_name :: "tmp_state \<Rightarrow> nat \<Rightarrow> string" where
  "entry_name st d \<equiv> td_name (the (t_dirents st d))"

abbreviation entry_index :: "tmp_state \<Rightarrow> nat \<Rightarrow> nat" where
  "entry_index st d \<equiv> td_index (the (t_dirents st d))"

definition entry_ok :: "nat \<Rightarrow> tmp_state \<Rightarrow> nat \<Rightarrow> tmp_dirent \<Rightarrow> bool" where
  "entry_ok root st d x \<longleftrightarrow>
     (\<exists>i n. td_inode x = Some i \<and> t_inodes st i = Some n \<and> inode_ok n \<and>
        (td_children x \<noteq> [] \<longrightarrow> S_ISDIR (inode_mode n))) \<and>
     (if d = root then td_parent x = None
      else \<exists>p px. td_parent x = Some p \<and> t_dirents st p = Some px \<and> d \<in> set (td_children px)) \<and>
     (\<forall>c \<in> set (td_children x). child_ok st d x c) \<and>
     sorted_wrt (\<lambda>a b. entry_index st a < entry_index st b) (td_children x) \<and>
     distinct (map (entry_name st) (td_children x))"

definition tmp_tree :: "nat \<Rightarrow> tmp_state \<Rightarrow> bool" where
  "tmp_tree root st \<longleftrightarrow>
     (\<forall>a. t_new_dirent st \<le> a \<longrightarrow> t_dirents st a = None) \<and>
     (\<forall>i. t_new_inode st \<le> i \<longrightarrow> t_inodes st i = None) \<and>
     t_dirents st root \<noteq> None \<and>
     (\<forall>d x. t_dirents st d = Some x \<longrightarrow> entry_ok root st d x) \<and>
     (\<forall>d d' x x'. t_dirents st d = Some x \<longrightarrow> t_dirents st d' = Some x' \<longrightarrow>
        td_inode x = td_inode x' \<longrightarrow> d = d')"

text \<open>
  The count of an entry: one reference of the list it is in, one of each child, and those held from
  outside, which \<open>h\<close> gives. \<open>counted h st\<close> is the state with these counts.
\<close>

definition set_count :: "(nat \<Rightarrow> nat) \<Rightarrow> nat \<Rightarrow> tmp_dirent \<Rightarrow> tmp_dirent" where
  "set_count h d x = x\<lparr>td_refcount := 1 + length (td_children x) + h d\<rparr>"

definition counted :: "(nat \<Rightarrow> nat) \<Rightarrow> tmp_state \<Rightarrow> tmp_state" where
  "counted h st = st\<lparr>t_dirents := \<lambda>d. map_option (set_count h d) (t_dirents st d)\<rparr>"

definition tmp_ok :: "nat \<Rightarrow> (nat \<Rightarrow> nat) \<Rightarrow> tmp_state \<Rightarrow> bool" where
  "tmp_ok root h st \<longleftrightarrow> tmp_tree root st \<and> counted h st = st \<and> (\<forall>d. t_dirents st d = None \<longrightarrow> h d = 0)"

text \<open>The counts and indices are far from wrapping around.\<close>

definition room :: "(nat \<Rightarrow> nat) \<Rightarrow> tmp_state \<Rightarrow> bool" where
  "room h st \<longleftrightarrow> (\<forall>d x. t_dirents st d = Some x \<longrightarrow>
     length (td_children x) + h d + 4 < 2 ^ 32 \<and> td_next_index x + 2 < 2 ^ 64)"

definition inc :: "(nat \<Rightarrow> nat) \<Rightarrow> nat \<Rightarrow> nat \<Rightarrow> nat" where
  "inc h d = h(d := h d + 1)"

lemma set_count_simps [simp]:
  "td_name (set_count h d x) = td_name x" "td_inode (set_count h d x) = td_inode x"
  "td_index (set_count h d x) = td_index x" "td_parent (set_count h d x) = td_parent x"
  "td_children (set_count h d x) = td_children x" "td_next_index (set_count h d x) = td_next_index x"
  "td_refcount (set_count h d x) = 1 + length (td_children x) + h d"
  "set_count h d (set_count h' d' x) = set_count h d x"
  by (simp_all add: set_count_def)

lemma counted_simps [simp]:
  "t_dirents (counted h st) d = map_option (set_count h d) (t_dirents st d)"
  "t_inodes (counted h st) = t_inodes st" "t_new_inode (counted h st) = t_new_inode st"
  "t_new_dirent (counted h st) = t_new_dirent st" "next_inode (counted h st) = next_inode st"
  "counted h (counted h' st) = counted h st"
  by (simp_all add: counted_def option.map_comp o_def)

lemma room_counted [simp]: "room h (counted h' st) = room h st"
  by (fastforce simp: room_def)

lemma roomD:
  assumes "room h st" and "t_dirents st d = Some x"
  shows "length (td_children x) + h d + 4 < 2 ^ 32" "td_next_index x + 2 < 2 ^ 64"
  using assms unfolding room_def by blast+

lemma dirent_inode_counted [simp]: "dirent_inode (counted h st) d = dirent_inode st d"
  by (simp add: dirent_inode_def split: option.split)

lemma entry_name_counted: "t_dirents st c \<noteq> None \<Longrightarrow> entry_name (counted h st) c = entry_name st c"
  "t_dirents st c \<noteq> None \<Longrightarrow> entry_index (counted h st) c = entry_index st c"
  by auto

lemma entry_ok_counted:
  assumes "entry_ok root st d x"
  shows "entry_ok root (counted h st) d (set_count h d x)"
proof -
  have alive: "t_dirents st c \<noteq> None" if "c \<in> set (td_children x)" for c
    using assms that by (auto simp: entry_ok_def child_ok_def)
  have m: "map (entry_name (counted h st)) (td_children x) = map (entry_name st) (td_children x)"
    using alive by (intro map_cong refl entry_name_counted(1)) auto
  have "distinct (map (entry_name (counted h st)) (td_children x))"
    unfolding m using assms by (simp add: entry_ok_def)
  moreover have "sorted_wrt (\<lambda>a b. entry_index (counted h st) a < entry_index (counted h st) b) (td_children x)"
  proof (rule sorted_wrt_mono_rel)
    show "sorted_wrt (\<lambda>a b. entry_index st a < entry_index st b) (td_children x)"
      using assms by (simp add: entry_ok_def)
  next
    fix a b
    assume "a \<in> set (td_children x)" "b \<in> set (td_children x)" "entry_index st a < entry_index st b"
    then show "entry_index (counted h st) a < entry_index (counted h st) b"
      using alive [of a] alive [of b] by (auto simp: option.map_sel)
  qed
  moreover have "\<forall>c \<in> set (td_children x). child_ok (counted h st) d (set_count h d x) c"
    using assms by (fastforce simp: entry_ok_def child_ok_def)
  moreover have "if d = root then td_parent x = None
      else \<exists>p px. td_parent x = Some p \<and> t_dirents (counted h st) p = Some px \<and> d \<in> set (td_children px)"
    using assms by (auto simp: entry_ok_def split: if_splits)
  ultimately show ?thesis using assms unfolding entry_ok_def set_count_simps counted_simps(2) by blast
qed

lemma tmp_tree_counted: "tmp_tree root st \<Longrightarrow> tmp_tree root (counted h st)"
  by (auto simp: tmp_tree_def entry_ok_counted)

lemma inc_simps [simp]: "inc h d d = Suc (h d)" "d' \<noteq> d \<Longrightarrow> inc h d d' = h d'"
  by (simp_all add: inc_def)

lemma tmp_ok_counted:
  assumes "tmp_tree root st" and "\<forall>d. t_dirents st d = None \<longrightarrow> h d = 0"
  shows "tmp_ok root h (counted h st)"
  using assms by (simp add: tmp_ok_def tmp_tree_counted)

lemma tmp_ok_shape:
  assumes "tmp_ok root h st"
  obtains "st = counted h st" "tmp_tree root st"
  using assms by (simp add: tmp_ok_def)

lemma tree_entry:
  assumes "tmp_tree root st" and "t_dirents st d = Some x"
  obtains i n where "td_inode x = Some i" "t_inodes st i = Some n" "inode_ok n"
    "dirent_inode st d = Some (i, n)" "td_children x \<noteq> [] \<Longrightarrow> S_ISDIR (inode_mode n)"
proof -
  have "entry_ok root st d x" using assms unfolding tmp_tree_def by blast
  then obtain i n where "td_inode x = Some i" "t_inodes st i = Some n" "inode_ok n"
    "td_children x \<noteq> [] \<longrightarrow> S_ISDIR (inode_mode n)" unfolding entry_ok_def by blast
  then show thesis using that [of i n] assms(2) by (simp add: dirent_inode_def)
qed

lemma tree_child:
  assumes "tmp_tree root st" and "t_dirents st d = Some x" and "c \<in> set (td_children x)"
  obtains cx where "t_dirents st c = Some cx" "td_parent cx = Some d" "td_index cx < td_next_index x"
proof -
  have "entry_ok root st d x" using assms unfolding tmp_tree_def by blast
  then have "child_ok st d x c" using assms(3) unfolding entry_ok_def by blast
  then show thesis using that unfolding child_ok_def by blast
qed

text \<open>Taking and giving back a reference.\<close>

lemma counted_upd:
  assumes "t_dirents st d = Some x"
  shows "(counted h st)\<lparr>t_dirents := (t_dirents (counted h st))
           (d \<mapsto> (set_count h d x)\<lparr>td_refcount := 1 + length (td_children x) + k\<rparr>)\<rparr> =
         counted (h(d := k)) st"
proof -
  have "(t_dirents (counted h st))
      (d \<mapsto> (set_count h d x)\<lparr>td_refcount := 1 + length (td_children x) + k\<rparr>) =
    t_dirents (counted (h(d := k)) st)"
    using assms by (intro ext) (simp add: set_count_def cong: option.map_cong)
  then show ?thesis by (simp add: counted_def)
qed

lemma retain_counted:
  assumes "t_dirents st d = Some x" and "length (td_children x) + h d + 2 < 2 ^ 32"
  shows "tmp_dirent_retain d (counted h st) = Some (counted (inc h d) st)"
proof -
  have "w32 (td_refcount (set_count h d x) + 1) = 1 + length (td_children x) + (h d + 1)"
    using assms(2) by (subst w32_id) simp_all
  then show ?thesis using assms(1) counted_upd [OF assms(1), of h "h d + 1"]
    by (simp add: tmp_dirent_retain_def inc_def)
qed

lemma release_counted:
  assumes "t_dirents st d = Some x" and "length (td_children x) + h d + 2 < 2 ^ 32"
  shows "tmp_dirent_release d (counted (inc h d) st) = Some (counted h st)"
proof -
  have "(1 + length (td_children x) + Suc (h d)) + (2 ^ 32 - 1) =
      (1 + length (td_children x) + h d) + 2 ^ 32" by simp
  then have w: "w32 (td_refcount (set_count (inc h d) d x) + (2 ^ 32 - 1)) = 1 + length (td_children x) + h d"
    using assms(2) unfolding w32_def by (simp only: set_count_simps inc_simps mod_add_self2) simp
  have h: "(inc h d)(d := h d) = h" by (simp add: inc_def)
  show ?thesis
    using assms(1) counted_upd [OF assms(1), of "inc h d" "h d"]
    unfolding tmp_dirent_release_def h by (simp only: counted_simps option.map option.case w Let_def) simp
qed

lemma inc_commute: "inc (inc h a) b = inc (inc h b) a"
  by (simp add: inc_def fun_eq_iff)

lemma room_inc:
  assumes "room h st" and "t_dirents st d = Some x"
  shows "length (td_children x) + h d + 2 < 2 ^ 32" "length (td_children x) + inc h a d + 2 < 2 ^ 32"
    "length (td_children x) + inc (inc h a) b d + 2 < 2 ^ 32"
  using roomD(1) [OF assms] by (auto simp: inc_def)

lemma retain_room:
  assumes "t_dirents st d = Some x" and "room h st"
  shows "tmp_dirent_retain d (counted h st) = Some (counted (inc h d) st)"
    "tmp_dirent_retain d (counted (inc h a) st) = Some (counted (inc (inc h a) d) st)"
  using retain_counted [OF assms(1)] room_inc [OF assms(2,1)] by simp_all

lemma release_room:
  assumes "t_dirents st d = Some x" and "room h st"
  shows "tmp_dirent_release d (counted (inc h d) st) = Some (counted h st)"
    "tmp_dirent_release d (counted (inc (inc h a) d) st) = Some (counted (inc h a) st)"
  using release_counted [OF assms(1)] room_inc [OF assms(2,1)] by simp_all

section \<open>Lookup\<close>

text \<open>The entry with a name in a directory, and the entry a list of names leads to.\<close>

definition child_of :: "tmp_state \<Rightarrow> nat \<Rightarrow> string \<Rightarrow> int + nat" where
  "child_of st d name =
     (case (t_dirents st d, dirent_inode st d) of
        (Some x, Some (i, n)) \<Rightarrow>
          if \<not> S_ISDIR (inode_mode n) then Inl ENOTDIR
          else (case find (\<lambda>c. entry_name st c = name) (td_children x) of None \<Rightarrow> Inl ENOENT | Some c \<Rightarrow> Inr c)
      | _ \<Rightarrow> Inl ENOENT)"

primrec tmp_resolve :: "tmp_state \<Rightarrow> nat \<Rightarrow> string list \<Rightarrow> int + nat" where
  "tmp_resolve st d [] = Inr d"
| "tmp_resolve st d (c # cs) = (case child_of st d c of Inl err \<Rightarrow> Inl err | Inr k \<Rightarrow> tmp_resolve st k cs)"

definition short_comps :: "string list \<Rightarrow> bool" where
  "short_comps cs \<longleftrightarrow> list_all (\<lambda>c. is_comp c \<and> length c < MAX_NAME) cs"

lemma short_comps_simps [simp]:
  "short_comps []" "short_comps (c # cs) \<longleftrightarrow> is_comp c \<and> length c < MAX_NAME \<and> short_comps cs"
  "short_comps (as @ bs) \<longleftrightarrow> short_comps as \<and> short_comps bs"
  by (simp_all add: short_comps_def)

lemma find_child_find:
  assumes "\<forall>k \<in> set ds. \<exists>x. t_dirents st k = Some x \<and> td_inode x \<noteq> None"
  shows "find_child st name ds = Some (find (\<lambda>c. entry_name st c = name) ds)"
  using assms by (induction ds) auto

lemma find_SomeD: "find P xs = Some k \<Longrightarrow> k \<in> set xs \<and> P k"
  by (auto simp: find_Some_iff)

lemma child_of_alive:
  assumes "tmp_tree root st" and "child_of st d c = Inr k"
  obtains x kx i n where "t_dirents st d = Some x" "dirent_inode st d = Some (i, n)" "S_ISDIR (inode_mode n)"
    "k \<in> set (td_children x)" "t_dirents st k = Some kx" "td_name kx = c" "td_parent kx = Some d"
proof -
  obtain x i n where d: "t_dirents st d = Some x" "dirent_inode st d = Some (i, n)" "S_ISDIR (inode_mode n)"
    and f: "find (\<lambda>k. entry_name st k = c) (td_children x) = Some k"
    using assms(2) by (auto simp: child_of_def split: option.splits prod.splits if_splits)
  have k: "k \<in> set (td_children x)" "entry_name st k = c" using find_SomeD [OF f] by simp_all
  obtain kx where "t_dirents st k = Some kx" "td_parent kx = Some d" using tree_child [OF assms(1) d(1) k(1)] .
  then show thesis using that [OF d k(1)] k(2) by simp
qed

lemma dir_lookup_counted:
  assumes t: "tmp_tree root st" and d: "t_dirents st d = Some x"
    and r: "\<And>k kx. t_dirents st k = Some kx \<Longrightarrow> length (td_children kx) + h k + 2 < 2 ^ 32"
  shows "tmpfs_dir_lookup d c (counted h st) =
    Some (case child_of st d c of Inl err \<Rightarrow> (Inl err, counted h st) | Inr k \<Rightarrow> (Inr k, counted (inc h k) st))"
proof -
  obtain i n where n: "dirent_inode st d = Some (i, n)" using tree_entry [OF t d] by metis
  have alive: "\<exists>kx. t_dirents st k = Some kx \<and> td_inode kx \<noteq> None" if "k \<in> set (td_children x)" for k
    using tree_child [OF t d that] tree_entry [OF t] by (metis option.distinct(1))
  then have "find_child (counted h st) c (td_children x) =
      Some (find (\<lambda>k. entry_name (counted h st) k = c) (td_children x))"
    by (intro find_child_find) force
  also have "find (\<lambda>k. entry_name (counted h st) k = c) (td_children x) =
      find (\<lambda>k. entry_name st k = c) (td_children x)"
  proof (intro find_cong refl)
    fix k assume "k \<in> set (td_children x)"
    then have "entry_name (counted h st) k = entry_name st k" using alive by (intro entry_name_counted(1)) force
    then show "(entry_name (counted h st) k = c) = (entry_name st k = c)" by simp
  qed
  finally have f: "find_child (counted h st) c (td_children x) =
      Some (find (\<lambda>k. entry_name st k = c) (td_children x))" .
  show ?thesis
  proof (cases "S_ISDIR (inode_mode n)")
    case False
    then show ?thesis using d n by (simp add: tmpfs_dir_lookup_def child_of_def)
  next
    case True
    show ?thesis
    proof (cases "find (\<lambda>k. entry_name st k = c) (td_children x)")
      case None
      then show ?thesis using d n f True by (simp add: tmpfs_dir_lookup_def child_of_def)
    next
      case (Some k)
      then obtain kx where "t_dirents st k = Some kx" using alive find_SomeD by metis
      then show ?thesis using d n f True Some retain_counted r
        by (simp add: tmpfs_dir_lookup_def child_of_def)
    qed
  qed
qed

lemma walk_join:
  assumes "tmp_tree root st" and "room h st" and "short_comps cs" and "t_dirents st d = Some x"
  shows "tmpfs_walk d (join cs) False c (counted (inc h d) st) =
    Some (case tmp_resolve st d cs of Inl err \<Rightarrow> (Inl err, counted h st)
          | Inr k \<Rightarrow> (Inr (k, last (c # cs)), counted (inc h k) st))"
  using assms(3,4)
proof (induction cs arbitrary: d x c)
  case Nil
  then show ?case by (simp add: tmpfs_walk.simps path_next_component_def)
next
  case (Cons a cs)
  have p: "path_next_component (join (a # cs)) = Some (Inr (a, join cs))"
    using path_next_component_join [of a cs] Cons.prems(1) by simp
  have l: "tmpfs_dir_lookup d a (counted (inc h d) st) =
      Some (case child_of st d a of Inl err \<Rightarrow> (Inl err, counted (inc h d) st)
            | Inr k \<Rightarrow> (Inr k, counted (inc (inc h d) k) st))"
    using room_inc [OF assms(2)] by (intro dir_lookup_counted [OF assms(1) Cons.prems(2)]) blast
  show ?case
  proof (cases "child_of st d a")
    case (Inl err)
    then show ?thesis using l p release_room(1) [OF Cons.prems(2) assms(2)]
      by (simp add: tmpfs_walk.simps [of d "slash # a @ join cs"] split: sum.split)
  next
    case (Inr k)
    obtain kx where k: "t_dirents st k = Some kx" by (rule child_of_alive [OF assms(1) Inr])
    have "tmp_dirent_release d (counted (inc (inc h d) k) st) = Some (counted (inc h k) st)"
      unfolding inc_commute [of h d k] by (rule release_room(2) [OF Cons.prems(2) assms(2)])
    then show ?thesis using l p Inr Cons.IH [OF _ k, of a] Cons.prems(1)
      by (simp add: tmpfs_walk.simps [of d "slash # a @ join cs"] split: sum.split)
  qed
qed

lemma walk_join_parent:
  assumes "tmp_tree root st" and "room h st" and "short_comps (cs @ [name])" and "t_dirents st d = Some x"
  shows "tmpfs_walk d (join (cs @ [name])) True c (counted (inc h d) st) =
    Some (case tmp_resolve st d cs of Inl err \<Rightarrow> (Inl err, counted h st)
          | Inr k \<Rightarrow> (Inr (k, name), counted (inc h k) st))"
  using assms(3,4)
proof (induction cs arbitrary: d x c)
  case Nil
  have p: "path_next_component (join [name]) = Some (Inr (name, []))"
    using path_next_component_join [of name "[]"] Nil.prems(1) by simp
  then show ?case by (simp add: tmpfs_walk.simps)
next
  case (Cons a cs)
  let ?rest = "join (cs @ [name])"
  have p: "path_next_component (slash # a @ ?rest) = Some (Inr (a, ?rest))"
    using path_next_component_join [of a "cs @ [name]"] Cons.prems(1) by simp
  have l: "tmpfs_dir_lookup d a (counted (inc h d) st) =
      Some (case child_of st d a of Inl err \<Rightarrow> (Inl err, counted (inc h d) st)
            | Inr k \<Rightarrow> (Inr k, counted (inc (inc h d) k) st))"
    using room_inc [OF assms(2)] by (intro dir_lookup_counted [OF assms(1) Cons.prems(2)]) blast
  have ne: "?rest \<noteq> []" by simp
  show ?case
  proof (cases "child_of st d a")
    case (Inl err)
    then show ?thesis using l p ne release_room(1) [OF Cons.prems(2) assms(2)]
      by (simp add: tmpfs_walk.simps [of d "slash # a @ join cs @ slash # name"])
  next
    case (Inr k)
    obtain kx where k: "t_dirents st k = Some kx" by (rule child_of_alive [OF assms(1) Inr])
    have "tmp_dirent_release d (counted (inc (inc h d) k) st) = Some (counted (inc h k) st)"
      unfolding inc_commute [of h d k] by (rule release_room(2) [OF Cons.prems(2) assms(2)])
    then show ?thesis using l p ne Inr Cons.IH [OF _ k, of a] Cons.prems(1)
      by (simp add: tmpfs_walk.simps [of d "slash # a @ join cs @ slash # name"])
  qed
qed

lemma lookup_counted:
  assumes "tmp_tree root st" and "room h st" and "short_comps cs"
  shows "tmpfs_lookup root (join cs) (counted h st) =
    Some (case tmp_resolve st root cs of Inl err \<Rightarrow> (Inl err, counted h st) | Inr k \<Rightarrow> (Inr k, counted (inc h k) st))"
proof -
  obtain x where x: "t_dirents st root = Some x" using assms(1) by (auto simp: tmp_tree_def)
  show ?thesis using walk_join [OF assms x] retain_room(1) [OF x assms(2)]
    by (simp add: tmpfs_lookup_def tmpfs_lookup0_def split: sum.split)
qed

lemma lookup_parent_counted:
  assumes "tmp_tree root st" and "room h st" and "short_comps (cs @ [name])"
  shows "tmpfs_lookup_parent root (join (cs @ [name])) (counted h st) =
    Some (case tmp_resolve st root cs of Inl err \<Rightarrow> (Inl err, counted h st)
          | Inr k \<Rightarrow> (Inr (Some (k, name)), counted (inc h k) st))"
proof -
  obtain x where x: "t_dirents st root = Some x" using assms(1) by (auto simp: tmp_tree_def)
  have "join (cs @ [name]) \<noteq> ''/''" using assms(3) by (cases cs) (auto simp: is_comp_def)
  then show ?thesis using walk_join_parent [OF assms x, of "[]"] retain_room(1) [OF x assms(2)]
    by (simp add: tmpfs_lookup_parent_def tmpfs_lookup0_def split: sum.split)
qed

lemma resolve_alive:
  assumes "tmp_tree root st" and "tmp_resolve st d cs = Inr k" and "t_dirents st d \<noteq> None"
  shows "t_dirents st k \<noteq> None"
  using assms(2,3)
proof (induction cs arbitrary: d)
  case (Cons c cs)
  then obtain e where e: "child_of st d c = Inr e" "tmp_resolve st e cs = Inr k" by (auto split: sum.splits)
  show ?case by (rule child_of_alive [OF assms(1) e(1)]) (use Cons.IH [OF e(2)] in simp)
qed simp

lemma child_of_err: "child_of st d name = Inl err \<Longrightarrow> err = ENOENT \<or> err = ENOTDIR"
  by (auto simp: child_of_def split: option.splits prod.splits if_splits)

lemma resolve_err: "tmp_resolve st d cs = Inl err \<Longrightarrow> err = ENOENT \<or> err = ENOTDIR"
  by (induction cs arbitrary: d) (auto split: sum.splits dest: child_of_err)

section \<open>Changes of the tree\<close>

text \<open>
  A state that has at least the entries and inodes of another one, with the same names, indices and
  parents: what holds of an entry is kept.
\<close>

definition grows :: "tmp_state \<Rightarrow> tmp_state \<Rightarrow> bool" where
  "grows st st' \<longleftrightarrow>
     (\<forall>c cx. t_dirents st c = Some cx \<longrightarrow> (\<exists>cx'. t_dirents st' c = Some cx' \<and> td_name cx' = td_name cx \<and>
        td_index cx' = td_index cx \<and> td_parent cx' = td_parent cx \<and> set (td_children cx) \<subseteq> set (td_children cx'))) \<and>
     (\<forall>i n. t_inodes st i = Some n \<longrightarrow> inode_ok n \<longrightarrow>
        (\<exists>n'. t_inodes st' i = Some n' \<and> inode_ok n' \<and> inode_mode n' = inode_mode n))"

lemma grows_entry:
  assumes "grows st st'" and "t_dirents st c = Some cx"
  obtains cx' where "t_dirents st' c = Some cx'" "td_name cx' = td_name cx" "td_index cx' = td_index cx"
    "td_parent cx' = td_parent cx" "set (td_children cx) \<subseteq> set (td_children cx')"
  using assms unfolding grows_def by blast

lemma grows_names:
  assumes "grows st st'" and "t_dirents st c \<noteq> None"
  shows "entry_name st' c = entry_name st c" "entry_index st' c = entry_index st c"
proof -
  obtain cx where "t_dirents st c = Some cx" using assms(2) by auto
  then show "entry_name st' c = entry_name st c" "entry_index st' c = entry_index st c"
    using grows_entry [OF assms(1)] by (metis option.sel)+
qed

lemma child_ok_grows:
  assumes "child_ok st d x c" and g: "grows st st'" and "td_next_index x \<le> td_next_index x'"
  shows "child_ok st' d x' c"
proof -
  obtain cx where c: "t_dirents st c = Some cx" "td_parent cx = Some d" "td_index cx < td_next_index x"
    using assms(1) unfolding child_ok_def by blast
  show ?thesis by (rule grows_entry [OF g c(1)]) (use c(2,3) assms(3) in \<open>simp add: child_ok_def\<close>)
qed

lemma entry_ok_grows:
  assumes ok: "entry_ok root st d x" and g: "grows st st'"
  shows "entry_ok root st' d x"
proof -
  obtain i n where i: "td_inode x = Some i" "t_inodes st i = Some n" "inode_ok n"
    "td_children x \<noteq> [] \<longrightarrow> S_ISDIR (inode_mode n)" using ok unfolding entry_ok_def by blast
  then have inode: "\<exists>i n. td_inode x = Some i \<and> t_inodes st' i = Some n \<and> inode_ok n \<and>
      (td_children x \<noteq> [] \<longrightarrow> S_ISDIR (inode_mode n))" using g unfolding grows_def by metis
  have ch: "\<forall>c \<in> set (td_children x). child_ok st d x c" using ok unfolding entry_ok_def by blast
  then have alive: "t_dirents st c \<noteq> None" if "c \<in> set (td_children x)" for c
    using that by (auto simp: child_ok_def)
  have par: "if d = root then td_parent x = None
      else \<exists>p px. td_parent x = Some p \<and> t_dirents st' p = Some px \<and> d \<in> set (td_children px)"
  proof (cases "d = root")
    case False
    then obtain p px where p: "td_parent x = Some p" "t_dirents st p = Some px" "d \<in> set (td_children px)"
      using ok unfolding entry_ok_def by auto
    then show ?thesis using grows_entry [OF g p(2)] False by (metis subsetD)
  qed (use ok in \<open>simp add: entry_ok_def\<close>)
  have "map (entry_name st') (td_children x) = map (entry_name st) (td_children x)"
    by (intro map_cong refl grows_names(1) [OF g] alive)
  moreover have "distinct (map (entry_name st) (td_children x))" using ok unfolding entry_ok_def by blast
  ultimately have names: "distinct (map (entry_name st') (td_children x))" by metis
  have srt: "sorted_wrt (\<lambda>a b. entry_index st' a < entry_index st' b) (td_children x)"
  proof (rule sorted_wrt_mono_rel)
    show "sorted_wrt (\<lambda>a b. entry_index st a < entry_index st b) (td_children x)"
      using ok unfolding entry_ok_def by blast
  next
    fix a b
    assume "a \<in> set (td_children x)" "b \<in> set (td_children x)" "entry_index st a < entry_index st b"
    then show "entry_index st' a < entry_index st' b" by (simp add: grows_names(2) [OF g] alive)
  qed
  have "\<forall>c \<in> set (td_children x). child_ok st' d x c" using ch child_ok_grows [OF _ g order_refl] by blast
  then show ?thesis using inode par srt names unfolding entry_ok_def by blast
qed

text \<open>Changing inodes only: the entries stay as they are.\<close>

lemma tmp_tree_inodes:
  assumes t: "tmp_tree root st" and g: "grows st st'" and d: "t_dirents st' = t_dirents st"
    and a: "t_new_dirent st' = t_new_dirent st" and i: "\<And>i. t_new_inode st' \<le> i \<Longrightarrow> t_inodes st' i = None"
  shows "tmp_tree root st'"
  using t i entry_ok_grows [OF _ g, of root] unfolding tmp_tree_def d a by blast

text \<open>The new entry of \<^const>\<open>tmpfs_dir_link\<close> without the counts.\<close>

definition link_entry :: "nat \<Rightarrow> string \<Rightarrow> nat \<Rightarrow> tmp_state \<Rightarrow> tmp_state" where
  "link_entry dir name i st =
     (let a = t_new_dirent st; dx = the (t_dirents st dir)
      in st\<lparr>t_dirents := (t_dirents st)
              (a \<mapsto> (tmp_dirent_init raw_dirent)\<lparr>td_name := name, td_inode := Some i,
                       td_index := td_next_index dx, td_parent := Some dir\<rparr>,
               dir \<mapsto> dx\<lparr>td_next_index := td_next_index dx + 1, td_children := td_children dx @ [a]\<rparr>),
            t_new_dirent := a + 1\<rparr>)"

lemma child_of_ENOENT:
  assumes "child_of st d name = Inl ENOENT" and "t_dirents st d = Some x" and "dirent_inode st d = Some (i, n)"
  shows "S_ISDIR (inode_mode n)" "name \<notin> entry_name st ` set (td_children x)"
  using assms by (auto simp: child_of_def find_None_iff split: if_splits option.splits)

lemma link_entry_grows:
  assumes "tmp_tree root st" and "t_dirents st dir = Some dx"
  shows "grows st (link_entry dir name i st)"
proof -
  have "t_dirents st (t_new_dirent st) = None" using assms(1) by (simp add: tmp_tree_def)
  then show ?thesis using assms(2) by (auto simp: grows_def link_entry_def Let_def)
qed

lemma tmp_tree_link:
  assumes t: "tmp_tree root st" and dx: "t_dirents st dir = Some dx"
    and no: "child_of st dir name = Inl ENOENT"
    and i: "t_inodes st i = Some n" "inode_ok n" "\<And>d x. t_dirents st d = Some x \<Longrightarrow> td_inode x \<noteq> Some i"
  shows "tmp_tree root (link_entry dir name i st)"
proof -
  let ?st = "link_entry dir name i st" and ?a = "t_new_dirent st"
  have new: "t_dirents st ?a = None" using t by (simp add: tmp_tree_def)
  then have neq: "dir \<noteq> ?a" using dx by auto
  have g: "grows st ?st" by (rule link_entry_grows [OF t dx])
  have ok: "entry_ok root st dir dx" using t dx by (simp add: tmp_tree_def)
  obtain j m where m: "td_inode dx = Some j" "t_inodes st j = Some m" "inode_ok m" "dirent_inode st dir = Some (j, m)"
    using tree_entry [OF t dx] by metis
  note no' = child_of_ENOENT [OF no dx m(4)]
  let ?dx = "dx\<lparr>td_next_index := td_next_index dx + 1, td_children := td_children dx @ [?a]\<rparr>"
  let ?ax = "(tmp_dirent_init raw_dirent)\<lparr>td_name := name, td_inode := Some i,
      td_index := td_next_index dx, td_parent := Some dir\<rparr>"
  have at: "t_dirents ?st ?a = Some ?ax" "t_dirents ?st dir = Some ?dx"
    "\<And>d. d \<noteq> ?a \<Longrightarrow> d \<noteq> dir \<Longrightarrow> t_dirents ?st d = t_dirents st d"
    "t_inodes ?st = t_inodes st" "t_new_dirent ?st = ?a + 1" "t_new_inode ?st = t_new_inode st"
    using dx neq by (simp_all add: link_entry_def Let_def)
  have root: "root \<noteq> ?a" using t new by (auto simp: tmp_tree_def)
  have "entry_ok root ?st ?a ?ax"
    using i neq root at by (simp add: entry_ok_def tmp_dirent_init_def)
  moreover have "entry_ok root ?st dir ?dx"
  proof -
    have old: "entry_ok root ?st dir dx" by (rule entry_ok_grows [OF ok g])
    have ch: "\<forall>c \<in> set (td_children dx). child_ok ?st dir dx c" using old unfolding entry_ok_def by blast
    have lt: "entry_index ?st c < td_next_index dx" "t_dirents st c \<noteq> None" if "c \<in> set (td_children dx)" for c
    proof -
      show "entry_index ?st c < td_next_index dx" using ch that by (auto simp: child_ok_def)
      show "t_dirents st c \<noteq> None" using tree_child [OF t dx that] by auto
    qed
    have "name \<notin> entry_name ?st ` set (td_children dx)"
    proof
      assume "name \<in> entry_name ?st ` set (td_children dx)"
      then obtain c where c: "c \<in> set (td_children dx)" "name = entry_name ?st c" by blast
      then have "name = entry_name st c" using grows_names(1) [OF g lt(2)] by metis
      then show False using no'(2) c(1) by blast
    qed
    then have "distinct (map (entry_name ?st) (td_children dx @ [?a]))"
      using old at(1) unfolding entry_ok_def by simp
    moreover have "sorted_wrt (\<lambda>a b. entry_index ?st a < entry_index ?st b) (td_children dx @ [?a])"
      using old lt(1) at(1) unfolding entry_ok_def sorted_wrt_append by simp
    moreover have "\<forall>c \<in> set (td_children dx). child_ok ?st dir ?dx c"
      using ch by (fastforce simp: child_ok_def)
    moreover have "child_ok ?st dir ?dx ?a" using at(1) by (simp add: child_ok_def)
    moreover have "if dir = root then td_parent ?dx = None
      else \<exists>p px. td_parent ?dx = Some p \<and> t_dirents ?st p = Some px \<and> dir \<in> set (td_children px)"
      using old unfolding entry_ok_def by (auto split: if_splits)
    ultimately show ?thesis using m no'(1) at(4) unfolding entry_ok_def by simp
  qed
  moreover have "entry_ok root ?st d x" if "t_dirents ?st d = Some x" "d \<noteq> ?a" "d \<noteq> dir" for d x
    using that at(3) t entry_ok_grows [OF _ g] by (metis tmp_tree_def)
  ultimately have "\<forall>d x. t_dirents ?st d = Some x \<longrightarrow> entry_ok root ?st d x" using at(1,2) by (metis option.inject)
  moreover have "d = d'"
    if "t_dirents ?st d = Some x" "t_dirents ?st d' = Some x'" "td_inode x = td_inode x'" for d d' x x'
  proof -
    have old: "\<exists>y. t_dirents st d = Some y \<and> td_inode y = td_inode x" if "t_dirents ?st d = Some x" "d \<noteq> ?a" for d x
      using that at(2,3) dx by (cases "d = dir") auto
    have a: "td_inode x = Some i" if "t_dirents ?st ?a = Some x" for x using that at(1) by auto
    have "d = ?a \<longleftrightarrow> d' = ?a" using old a i(3) that by metis
    then show "d = d'" using old that t unfolding tmp_tree_def by metis
  qed
  moreover have "\<forall>b. t_new_dirent ?st \<le> b \<longrightarrow> t_dirents ?st b = None"
    using t at neq dx by (auto simp: tmp_tree_def link_entry_def Let_def)
  moreover have "t_dirents ?st root \<noteq> None" using t g unfolding tmp_tree_def grows_def by fastforce
  moreover have "\<forall>i. t_new_inode ?st \<le> i \<longrightarrow> t_inodes ?st i = None" using t at(4,6) by (simp add: tmp_tree_def)
  ultimately show ?thesis unfolding tmp_tree_def by blast
qed

text \<open>The inode operations leave the counts of the entries alone.\<close>

lemma inode_ops_counted:
  "tmp_inode_new e mode (counted h st) = map_prod (\<lambda>x. x) (counted h) (tmp_inode_new e mode st)"
  "tmp_inode_retain i (counted h st) = map_option (counted h) (tmp_inode_retain i st)"
  "tmp_inode_release i (counted h st) = map_option (counted h) (tmp_inode_release i st)"
  by (auto simp: tmp_inode_new_def tmp_inode_retain_def tmp_inode_release_def tmp_inode_cleanup_def Let_def counted_def
      split: option.split)

definition new_node :: "tmp_env \<Rightarrow> nat \<Rightarrow> nat \<Rightarrow> tmp_inode" where
  "new_node e mode ino =
     \<lparr>ti_refcount = 1,
      ti_stat = \<lparr>st_inode = ino, st_mode = mode mod 2 ^ 16, st_uid = euid (te_cred e),
                 st_gid = egid (te_cred e), st_rdev = 0, st_size = 0\<rparr>,
      ti_data = (if S_ISREG (mode mod 2 ^ 16) then Some [] else None)\<rparr>"

definition add_inode :: "tmp_inode \<Rightarrow> tmp_state \<Rightarrow> tmp_state" where
  "add_inode n st = st\<lparr>next_inode := w64 (next_inode st + 1),
     t_inodes := (t_inodes st)(t_new_inode st \<mapsto> n), t_new_inode := t_new_inode st + 1\<rparr>"

lemma inode_new_cases:
  "tmp_inode_new e mode st =
     (if \<not> ok_inode e then (None, st)
      else if S_ISREG (mode mod 2 ^ 16) \<and> \<not> ok_data e then (None, st\<lparr>next_inode := w64 (next_inode st + 1)\<rparr>)
      else (Some (t_new_inode st), add_inode (new_node e mode (next_inode st)) st))"
  by (simp add: tmp_inode_new_def Let_def add_inode_def new_node_def)

lemma new_node_ok [simp]: "inode_ok (new_node e mode ino)" "inode_mode (new_node e mode ino) = mode mod 2 ^ 16"
  by (simp_all add: inode_ok_def new_node_def)

text \<open>The state with another inode at an address.\<close>

definition put_inode :: "nat \<Rightarrow> tmp_inode \<Rightarrow> tmp_state \<Rightarrow> tmp_state" where
  "put_inode i n st = st\<lparr>t_inodes := (t_inodes st)(i \<mapsto> n)\<rparr>"

lemma put_inode_simps [simp]:
  "t_dirents (put_inode i n st) = t_dirents st" "t_new_dirent (put_inode i n st) = t_new_dirent st"
  "t_new_inode (put_inode i n st) = t_new_inode st" "t_inodes (put_inode i n st) = (t_inodes st)(i \<mapsto> n)"
  "counted h (put_inode i n st) = put_inode i n (counted h st)" "room h (put_inode i n st) = room h st"
  by (simp_all add: put_inode_def counted_def room_def)

lemma add_inode_simps [simp]:
  "t_dirents (add_inode n st) = t_dirents st" "t_new_dirent (add_inode n st) = t_new_dirent st"
  "t_new_inode (add_inode n st) = t_new_inode st + 1"
  "t_inodes (add_inode n st) = (t_inodes st)(t_new_inode st \<mapsto> n)"
  "counted h (add_inode n st) = add_inode n (counted h st)" "room h (add_inode n st) = room h st"
  by (simp_all add: add_inode_def counted_def room_def)

lemma tree_fresh_inode:
  assumes "tmp_tree root st"
  shows "t_inodes st (t_new_inode st) = None" "t_dirents st d = Some x \<Longrightarrow> td_inode x \<noteq> Some (t_new_inode st)"
proof -
  show n: "t_inodes st (t_new_inode st) = None" using assms by (simp add: tmp_tree_def)
  show "td_inode x \<noteq> Some (t_new_inode st)" if "t_dirents st d = Some x"
    using tree_entry [OF assms that] n by (metis option.distinct(1) option.inject)
qed

lemma tmp_tree_add_inode:
  assumes "tmp_tree root st"
  shows "tmp_tree root (add_inode n st)"
proof (rule tmp_tree_inodes [OF assms])
  show "grows st (add_inode n st)" using tree_fresh_inode(1) [OF assms] by (auto simp: grows_def)
qed (use assms in \<open>auto simp: tmp_tree_def\<close>)

lemma put_inode_grows:
  assumes "t_inodes st i = Some m" and "inode_ok n" and "inode_mode n = inode_mode m"
  shows "grows st (put_inode i n st)"
  using assms by (auto simp: grows_def)

lemma tmp_tree_put_inode:
  assumes t: "tmp_tree root st" and m: "t_inodes st i = Some m" and "inode_ok n" and "inode_mode n = inode_mode m"
  shows "tmp_tree root (put_inode i n st)"
proof (rule tmp_tree_inodes [OF t])
  show "grows st (put_inode i n st)" by (rule put_inode_grows [OF assms(2-4)])
  have "i < t_new_inode st" using t m by (metis not_le option.distinct(1) tmp_tree_def)
  then show "t_new_inode (put_inode i n st) \<le> j \<Longrightarrow> t_inodes (put_inode i n st) j = None" for j
    using t by (auto simp: tmp_tree_def)
qed simp_all

lemma inode_retain_release:
  assumes "t_inodes st i = Some n" and "ti_refcount n = 1"
  shows "tmp_inode_retain i st = Some (put_inode i (n\<lparr>ti_refcount := 2\<rparr>) st)"
    "tmp_inode_release i (put_inode i (n\<lparr>ti_refcount := 2\<rparr>) st) = Some (put_inode i n st)"
    "tmp_inode_release i st = Some (tmp_inode_cleanup i st)"
proof -
  have n: "n\<lparr>ti_refcount := Suc 0\<rparr> = n" using assms(2) by (cases n) simp
  have "w32 (ti_refcount n + 1) = 2" using assms(2) by (simp add: w32_def)
  then show "tmp_inode_retain i st = Some (put_inode i (n\<lparr>ti_refcount := 2\<rparr>) st)"
    using assms(1) by (simp only: tmp_inode_retain_def put_inode_def option.case)
  show "tmp_inode_release i (put_inode i (n\<lparr>ti_refcount := 2\<rparr>) st) = Some (put_inode i n st)"
    using assms by (simp add: tmp_inode_release_def put_inode_def w32_def n)
  show "tmp_inode_release i st = Some (tmp_inode_cleanup i st)"
    using assms by (simp add: tmp_inode_release_def tmp_inode_cleanup_def w32_def)
qed

text \<open>A new entry, with and without a reference for the caller.\<close>

lemma link_counted:
  assumes t: "tmp_tree root st" and dx: "t_dirents st dir = Some dx"
    and r: "length (td_children dx) + h dir + 2 < 2 ^ 32" "td_next_index dx + 2 < 2 ^ 64"
    and h0: "h (t_new_dirent st) = 0"
  shows "(counted h st)\<lparr>t_dirents := (t_dirents (counted h st))
      (t_new_dirent st \<mapsto> (tmp_dirent_init raw_dirent)\<lparr>td_name := name, td_inode := Some i,
          td_index := td_next_index dx, td_parent := Some dir\<rparr>,
       dir \<mapsto> (set_count h' dir dx)\<lparr>td_next_index := w64 (td_next_index dx + 1),
          td_refcount := w32 (td_refcount (set_count h dir dx) + 1), td_children := td_children dx @ [t_new_dirent st]\<rparr>),
      t_new_dirent := t_new_dirent st + 1\<rparr> = counted h (link_entry dir name i st)"
proof -
  have new: "t_dirents st (t_new_dirent st) = None" using t by (simp add: tmp_tree_def)
  then have neq: "dir \<noteq> t_new_dirent st" using dx by auto
  have w: "w32 (td_refcount (set_count h dir dx) + 1) = 2 + length (td_children dx) + h dir"
    "w64 (td_next_index dx + 1) = td_next_index dx + 1"
    using r by (simp_all add: wrap_simps)
  show ?thesis unfolding w using dx neq new h0
    by (auto simp: counted_def link_entry_def Let_def set_count_def tmp_dirent_init_def fun_eq_iff)
qed

lemma dir_link_counted:
  assumes t: "tmp_tree root st" and dx: "t_dirents st dir = Some dx" and dir: "child_of st dir name = Inl ENOENT"
    and r: "length (td_children dx) + h dir + 2 < 2 ^ 32" "td_next_index dx + 2 < 2 ^ 64"
    and h0: "h (t_new_dirent st) = 0" and l: "length name \<le> MAX_NAME"
    and i: "t_inodes st i = Some n" "ti_refcount n = 1"
  shows "tmpfs_dir_link e dir name i out (counted h st) =
    Some (if \<not> ok_dirent e then (ENOMEM, None, counted h (tmp_inode_cleanup i st))
          else let st' = link_entry dir name i (put_inode i (n\<lparr>ti_refcount := 2\<rparr>) st); a = t_new_dirent st
               in if out then (0, Some a, counted (inc h a) st') else (0, None, counted h st'))"
proof -
  obtain j m where m: "dirent_inode st dir = Some (j, m)" using tree_entry [OF t dx] by metis
  note d = child_of_ENOENT(1) [OF dir dx m]
  show ?thesis
  proof (cases "ok_dirent e")
    case False
    then show ?thesis using dx m d inode_retain_release(3) [OF i]
      by (simp add: tmpfs_dir_link_def inode_ops_counted(3))
  next
    case True
    let ?st1 = "put_inode i (n\<lparr>ti_refcount := 2\<rparr>) st" and ?a = "t_new_dirent st"
    have n2: "grows st ?st1" by (auto simp: grows_def inode_ok_def i(1))
    have t1: "tmp_tree root ?st1"
    proof (rule tmp_tree_inodes [OF t n2])
      have "i < t_new_inode st" using t i(1) by (metis not_le option.distinct(1) tmp_tree_def)
      then show "t_new_inode ?st1 \<le> j \<Longrightarrow> t_inodes ?st1 j = None" for j using t by (auto simp: tmp_tree_def)
    qed simp_all
    have dx1: "t_dirents ?st1 dir = Some dx" and a1: "t_new_dirent ?st1 = ?a" using dx by simp_all
    have neq: "dir \<noteq> ?a" using t dx by (metis le_refl option.distinct(1) tmp_tree_def)
    have rt: "tmp_inode_retain i (counted h st) = Some (counted h ?st1)"
      using inode_retain_release(1) [OF i] by (simp add: inode_ops_counted(2))
    let ?S = "(counted h ?st1)\<lparr>t_dirents := (t_dirents (counted h ?st1))
      (?a \<mapsto> (tmp_dirent_init raw_dirent)\<lparr>td_name := name, td_inode := Some i,
          td_index := td_next_index dx, td_parent := Some dir\<rparr>,
       dir \<mapsto> (set_count h dir dx)\<lparr>td_next_index := w64 (td_next_index dx + 1),
          td_refcount := w32 (td_refcount (set_count h dir dx) + 1), td_children := td_children dx @ [?a]\<rparr>),
      t_new_dirent := ?a + 1\<rparr>"
    have lk: "?S = counted h (link_entry dir name i ?st1)"
      using link_counted [where h = h and h' = h and name = name and i = i, OF t1 dx1 r] h0 unfolding a1 by simp
    have ax: "\<exists>ax. t_dirents (link_entry dir name i ?st1) ?a = Some ax \<and> td_children ax = []"
      using neq by (simp add: link_entry_def Let_def tmp_dirent_init_def)
    then have ra: "tmp_dirent_retain ?a (counted h (link_entry dir name i ?st1)) =
        Some (counted (inc h ?a) (link_entry dir name i ?st1))"
      using retain_counted [of "link_entry dir name i ?st1" ?a _ h] h0 by auto
    have "tmpfs_dir_link e dir name i out (counted h st) =
        (if out then map_option (\<lambda>st3. (0, Some ?a, st3)) (tmp_dirent_retain ?a ?S) else Some (0, None, ?S))"
      using True d l by (simp add: tmpfs_dir_link_def dx m rt Let_def)
    then show ?thesis unfolding lk ra using True by (simp add: Let_def)
  qed
qed

section \<open>The abstract file system\<close>

text \<open>
  What a user sees: a map from paths to directories and file contents. Lookup reports a missing
  component before it looks at the next one.
\<close>

datatype tmp_node = Dir | File "byte list" | Other

definition node_of :: "tmp_inode \<Rightarrow> tmp_node" where
  "node_of n = (if S_ISDIR (inode_mode n) then Dir
                else if S_ISREG (inode_mode n) then File (the (ti_data n)) else Other)"

definition tmp_abs :: "nat \<Rightarrow> tmp_state \<Rightarrow> string list \<Rightarrow> tmp_node option" where
  "tmp_abs root st cs =
     (case tmp_resolve st root cs of
        Inl err \<Rightarrow> None
      | Inr d \<Rightarrow> map_option (\<lambda>(i, n). node_of n) (dirent_inode st d))"

fun spec_lookup :: "(string list \<Rightarrow> tmp_node option) \<Rightarrow> string list \<Rightarrow> string list \<Rightarrow> int + tmp_node" where
  "spec_lookup A pre [] = (case A pre of None \<Rightarrow> Inl ENOENT | Some node \<Rightarrow> Inr node)"
| "spec_lookup A pre (c # cs) =
     (if A pre = None then Inl ENOENT
      else if A pre \<noteq> Some Dir then Inl ENOTDIR
      else if A (pre @ [c]) = None then Inl ENOENT
      else spec_lookup A (pre @ [c]) cs)"

text \<open>Making a directory or a file: the new node, and whether there is memory for it.\<close>

definition spec_create ::
  "bool \<Rightarrow> tmp_node \<Rightarrow> string list \<Rightarrow> string \<Rightarrow> (string list \<Rightarrow> tmp_node option) \<Rightarrow>
   int \<times> (string list \<Rightarrow> tmp_node option)" where
  "spec_create memory node cs name A =
     (case spec_lookup A [] cs of
        Inl err \<Rightarrow> (err, A)
      | Inr Dir \<Rightarrow>
          if A (cs @ [name]) \<noteq> None then (EEXIST, A)
          else if \<not> memory then (ENOMEM, A)
          else (0, A(cs @ [name] \<mapsto> node))
      | Inr _ \<Rightarrow> (ENOTDIR, A))"

lemma resolve_append:
  "tmp_resolve st d (as @ bs) = (case tmp_resolve st d as of Inl err \<Rightarrow> Inl err | Inr k \<Rightarrow> tmp_resolve st k bs)"
  by (induction as arbitrary: d) (auto split: sum.split)

lemma resolve_snoc:
  "tmp_resolve st d (cs @ [c]) = (case tmp_resolve st d cs of Inl err \<Rightarrow> Inl err | Inr k \<Rightarrow> child_of st k c)"
  by (auto simp: resolve_append split: sum.split)

text \<open>Every entry has one path.\<close>

lemma resolve_unique:
  assumes t: "tmp_tree root st"
  shows "tmp_resolve st root cs = Inr d \<Longrightarrow> tmp_resolve st root cs' = Inr d \<Longrightarrow> cs = cs'"
proof (induction cs arbitrary: cs' d rule: rev_induct)
  have up: "\<exists>k kx. tmp_resolve st root xs = Inr k \<and> t_dirents st d = Some kx \<and> td_name kx = x \<and> td_parent kx = Some k"
    if snoc: "tmp_resolve st root (xs @ [x]) = Inr d" for xs x d
  proof -
    obtain k where k: "tmp_resolve st root xs = Inr k" "child_of st k x = Inr d"
      using snoc by (auto simp: resolve_snoc split: sum.splits)
    show ?thesis by (rule child_of_alive [OF t k(2)]) (use k(1) in auto)
  qed
  have root: "td_parent x = None" if "t_dirents st root = Some x" for x
    using t that by (auto simp: tmp_tree_def entry_ok_def)
  {
    case Nil
    then show ?case using up root by (cases cs' rule: rev_cases) fastforce+
  next
    case (snoc x xs)
    obtain k kx where k: "tmp_resolve st root xs = Inr k" "t_dirents st d = Some kx" "td_name kx = x" "td_parent kx = Some k"
      using up [OF snoc.prems(1)] by blast
    show ?case
    proof (cases cs' rule: rev_cases)
      case Nil
      then have "d = root" using snoc.prems(2) by simp
      then show ?thesis using root k by simp
    next
      case (snoc ys y)
      then obtain j where "tmp_resolve st root ys = Inr j" "td_name kx = y" "td_parent kx = Some j"
        using up [of ys y d] snoc.prems(2) k(2) by auto
      then show ?thesis using snoc.IH [of k ys] k snoc by simp
    qed
  }
qed

lemma abs_of_entry:
  assumes "tmp_resolve st root cs = Inr d" and "dirent_inode st d = Some (i, n)"
  shows "tmp_abs root st cs = Some (node_of n)"
  using assms by (simp add: tmp_abs_def)

lemma abs_None:
  assumes "tmp_tree root st"
  shows "tmp_abs root st cs = None \<longleftrightarrow> (\<exists>err. tmp_resolve st root cs = Inl err)"
proof (cases "tmp_resolve st root cs")
  case (Inr d)
  have "t_dirents st root \<noteq> None" using assms by (simp add: tmp_tree_def)
  then obtain x where "t_dirents st d = Some x" using resolve_alive [OF assms Inr] by auto
  then obtain i n where "dirent_inode st d = Some (i, n)" using tree_entry [OF assms] by metis
  then show ?thesis using abs_of_entry [OF Inr] Inr by simp
qed (simp add: tmp_abs_def)

lemma node_of_Dir [simp]: "node_of n = Dir \<longleftrightarrow> S_ISDIR (inode_mode n)"
  by (simp add: node_of_def)

lemma spec_lookup_resolve:
  assumes t: "tmp_tree root st" and p: "tmp_resolve st root pre = Inr d"
  shows "spec_lookup (tmp_abs root st) pre cs =
    (case tmp_resolve st d cs of Inl err \<Rightarrow> Inl err | Inr k \<Rightarrow> Inr (the (tmp_abs root st (pre @ cs))))"
  using p
proof (induction cs arbitrary: pre d)
  case Nil
  then have "tmp_abs root st pre \<noteq> None" using abs_None [OF t] by auto
  then show ?case using Nil by auto
next
  case (Cons c cs)
  have "t_dirents st root \<noteq> None" using t by (simp add: tmp_tree_def)
  then obtain x where x: "t_dirents st d = Some x" using resolve_alive [OF t Cons.prems] by auto
  obtain i n where n: "dirent_inode st d = Some (i, n)" using tree_entry [OF t x] by metis
  note a = abs_of_entry [OF Cons.prems n]
  show ?case
  proof (cases "child_of st d c")
    case (Inl err)
    then have "tmp_abs root st (pre @ [c]) = None" using abs_None [OF t] Cons.prems by (auto simp: resolve_snoc)
    moreover have "err = (if S_ISDIR (inode_mode n) then ENOENT else ENOTDIR)"
      using Inl x n by (auto simp: child_of_def split: if_splits option.splits)
    ultimately show ?thesis using a Inl by simp
  next
    case (Inr k)
    then have k: "tmp_resolve st root (pre @ [c]) = Inr k" using Cons.prems by (simp add: resolve_snoc)
    then have "tmp_abs root st (pre @ [c]) \<noteq> None" using abs_None [OF t] by auto
    moreover have "S_ISDIR (inode_mode n)" using Inr x n by (auto simp: child_of_def split: if_splits)
    ultimately show ?thesis using a Inr Cons.IH [OF k] by (auto split: sum.split)
  qed
qed

lemma resolve_counted [simp]:
  assumes "tmp_tree root st"
  shows "child_of (counted h st) d c = child_of st d c" "tmp_resolve (counted h st) d cs = tmp_resolve st d cs"
proof -
  show child: "child_of (counted h st) d c = child_of st d c" for d c
  proof (cases "t_dirents st d")
    case (Some x)
    have "find (\<lambda>k. entry_name (counted h st) k = c) (td_children x) = find (\<lambda>k. entry_name st k = c) (td_children x)"
    proof (intro find_cong refl)
      fix k assume "k \<in> set (td_children x)"
      then have "t_dirents st k \<noteq> None" using tree_child [OF assms Some] by (metis option.distinct(1))
      then show "(entry_name (counted h st) k = c) = (entry_name st k = c)"
        using entry_name_counted(1) [of st k h] by metis
    qed
    then show ?thesis using Some by (simp add: child_of_def split: option.split)
  qed (simp add: child_of_def)
  show "tmp_resolve (counted h st) d cs = tmp_resolve st d cs"
    by (induction cs arbitrary: d) (simp_all add: child split: sum.split)
qed

lemma abs_counted [simp]: "tmp_tree root st \<Longrightarrow> tmp_abs root (counted h st) = tmp_abs root st"
  by (simp add: tmp_abs_def fun_eq_iff split: sum.split)

text \<open>A new entry adds one path to the abstract file system.\<close>

lemma dirent_inode_link:
  assumes "tmp_tree root st" and "t_dirents st dir = Some dx"
  shows "dirent_inode (link_entry dir name i st) d =
    (if d = t_new_dirent st then map_option (Pair i) (t_inodes st i) else dirent_inode st d)"
proof -
  have "dir \<noteq> t_new_dirent st" using assms by (metis le_refl option.distinct(1) tmp_tree_def)
  then show ?thesis using assms(2)
    by (simp add: dirent_inode_def link_entry_def Let_def tmp_dirent_init_def split: option.split)
qed

lemma find_snoc: "find P (xs @ [x]) = (case find P xs of None \<Rightarrow> if P x then Some x else None | Some y \<Rightarrow> Some y)"
  by (induction xs) auto

lemma child_of_link:
  assumes t: "tmp_tree root st" and dx: "t_dirents st dir = Some dx" and no: "child_of st dir name = Inl ENOENT"
    and d: "t_dirents st d = Some x"
  shows "child_of (link_entry dir name i st) d c = (if d = dir \<and> c = name then Inr (t_new_dirent st) else child_of st d c)"
proof -
  let ?st = "link_entry dir name i st" and ?a = "t_new_dirent st"
  have neq: "dir \<noteq> ?a" "d \<noteq> ?a" using t dx d by (metis le_refl option.distinct(1) tmp_tree_def)+
  obtain j m where m: "dirent_inode st d = Some (j, m)" using tree_entry [OF t d] by metis
  have m': "dirent_inode ?st d = Some (j, m)" using m neq by (simp add: dirent_inode_link [OF t dx])
  have f: "find (\<lambda>k. entry_name ?st k = c) (td_children x) = find (\<lambda>k. entry_name st k = c) (td_children x)"
  proof (intro find_cong refl)
    fix k assume "k \<in> set (td_children x)"
    then have "t_dirents st k \<noteq> None" using tree_child [OF t d] by (metis option.distinct(1))
    then show "(entry_name ?st k = c) = (entry_name st k = c)"
      using grows_names(1) [OF link_entry_grows [OF t dx]] by metis
  qed
  show ?thesis
  proof (cases "d = dir")
    case False
    then have "t_dirents ?st d = Some x" using d neq by (simp add: link_entry_def Let_def)
    then show ?thesis using False d m m' f by (simp add: child_of_def split: option.split)
  next
    case True
    then have x: "dx = x" using d dx by simp
    have s: "S_ISDIR (inode_mode m)" "find (\<lambda>k. entry_name st k = name) (td_children x) = None"
      using no d m True by (auto simp: child_of_def split: if_splits option.splits)
    obtain x' where x': "t_dirents ?st dir = Some x'" "td_children x' = td_children x @ [?a]"
      using dx neq x by (simp add: link_entry_def Let_def)
    have "entry_name ?st ?a = name" using dx neq by (simp add: link_entry_def Let_def)
    then have "find (\<lambda>k. entry_name ?st k = c) (td_children x') =
        (if c = name then Some ?a else find (\<lambda>k. entry_name st k = c) (td_children x))"
      unfolding x'(2) find_snoc f using s(2) by (auto split: option.split)
    then show ?thesis using True d m m' s(1) x'(1) by (simp add: child_of_def)
  qed
qed

lemma abs_link:
  assumes t: "tmp_tree root st" and dx: "t_dirents st dir = Some dx" and no: "child_of st dir name = Inl ENOENT"
    and p: "tmp_resolve st root cs = Inr dir" and i: "t_inodes st i = Some n"
  shows "tmp_abs root (link_entry dir name i st) = (tmp_abs root st)(cs @ [name] \<mapsto> node_of n)"
    "tmp_resolve (link_entry dir name i st) root (cs @ [name]) = Inr (t_new_dirent st)"
proof -
  let ?st = "link_entry dir name i st" and ?a = "t_new_dirent st"
  have new: "t_dirents st ?a = None" using t by (simp add: tmp_tree_def)
  have neq: "dir \<noteq> ?a" using dx new by auto
  have rt: "t_dirents st root \<noteq> None" using t by (simp add: tmp_tree_def)
  have leaf: "\<exists>err. child_of ?st ?a c = Inl err" for c
  proof -
    have "\<exists>ax. t_dirents ?st ?a = Some ax \<and> td_children ax = []"
      using neq by (simp add: link_entry_def Let_def tmp_dirent_init_def)
    then show ?thesis by (auto simp: child_of_def split: option.split)
  qed
  have key: "(\<exists>d. d \<noteq> ?a \<and> tmp_resolve ?st root ds = Inr d \<and> tmp_resolve st root ds = Inr d \<and> ds \<noteq> cs @ [name]) \<or>
      (tmp_resolve ?st root ds = Inr ?a \<and> ds = cs @ [name]) \<or>
      (\<exists>e e'. tmp_resolve ?st root ds = Inl e \<and> tmp_resolve st root ds = Inl e' \<and> ds \<noteq> cs @ [name])" for ds
  proof (induction ds rule: rev_induct)
    case Nil
    then show ?case using rt new by auto
  next
    case (snoc c ds)
    from snoc.IH show ?case
    proof (elim disjE exE conjE)
      fix d
      assume d: "d \<noteq> ?a" "tmp_resolve ?st root ds = Inr d" "tmp_resolve st root ds = Inr d"
      obtain x where x: "t_dirents st d = Some x" using resolve_alive [OF t d(3) rt] by auto
      have here: "d = dir \<longleftrightarrow> ds = cs"
      proof
        assume "d = dir"
        then show "ds = cs" using resolve_unique [OF t d(3), of cs] p by simp
      next
        assume "ds = cs"
        then show "d = dir" using p d(3) by simp
      qed
      note child = child_of_link [OF t dx no x, of i c]
      show ?thesis
      proof (cases "d = dir \<and> c = name")
        case True
        then show ?thesis using d(2) child here by (simp add: resolve_snoc)
      next
        case False
        have "k \<noteq> ?a" if "child_of st d c = Inr k" for k
          by (rule child_of_alive [OF t that]) (use new in auto)
        then show ?thesis using False d(2,3) child here by (cases "child_of st d c") (auto simp: resolve_snoc)
      qed
    next
      assume ds: "tmp_resolve ?st root ds = Inr ?a" "ds = cs @ [name]"
      obtain e where "tmp_resolve ?st root (ds @ [c]) = Inl e" using leaf [of c] ds(1) by (auto simp: resolve_snoc)
      moreover have "tmp_resolve st root (ds @ [c]) = Inl ENOENT" using p no ds(2) by (simp add: resolve_append)
      ultimately show ?thesis using ds(2) by simp
    next
      fix e e'
      assume "tmp_resolve ?st root ds = Inl e" "tmp_resolve st root ds = Inl e'"
      then show ?thesis using p by (auto simp: resolve_snoc)
    qed
  qed
  have "tmp_abs root ?st ds = ((tmp_abs root st)(cs @ [name] \<mapsto> node_of n)) ds" for ds
    using key [of ds] i by (auto simp: tmp_abs_def dirent_inode_link [OF t dx])
  then show "tmp_abs root ?st = (tmp_abs root st)(cs @ [name] \<mapsto> node_of n)" by blast
  show "tmp_resolve ?st root (cs @ [name]) = Inr ?a" using key [of "cs @ [name]"] by blast
qed

section \<open>Making directories and files\<close>

lemma mode_bits:
  assumes "mode < 2 ^ 12" and "k \<in> {0x4000, 0x8000}"
  shows "(k OR mode) mod 2 ^ 16 AND S_IFMT = k"
proof -
  have "take_bit n mode AND push_bit n b = 0" for n b :: nat
    by (rule bit_eqI) (auto simp: bit_and_iff bit_take_bit_iff bit_push_bit_iff)
  from this [of 12 15] have "mode AND 0xf000 = 0" using assms(1) by (simp add: take_bit_nat_eq_self)
  moreover have "(k OR mode) mod 2 ^ 16 = k OR mode"
  proof -
    have "take_bit 16 k = k" "take_bit 16 mode = mode" using assms by (auto simp: take_bit_nat_eq_self)
    then show ?thesis unfolding take_bit_eq_mod [symmetric] by (simp add: take_bit_or)
  qed
  moreover have "0xf000 AND (k OR mode) = (0xf000 AND k) OR (0xf000 AND mode)" by (simp only: and_or_distrib)
  ultimately show ?thesis using assms(2) by (auto simp: S_IFMT_def and.commute)
qed

lemma existence_counted:
  assumes t: "tmp_tree root st" and d: "t_dirents st d = Some x" and r: "room h st"
  shows "tmpfs_dir_lookup_existence d name (counted (inc h a) st) =
    Some (case child_of st d name of Inl err \<Rightarrow> if err = ENOENT then 0 else err | Inr c \<Rightarrow> EEXIST, counted (inc h a) st)"
proof -
  have l: "tmpfs_dir_lookup d name (counted (inc h a) st) =
      Some (case child_of st d name of Inl err \<Rightarrow> (Inl err, counted (inc h a) st)
            | Inr k \<Rightarrow> (Inr k, counted (inc (inc h a) k) st))"
    using room_inc(2) [OF r] by (intro dir_lookup_counted [OF t d]) blast
  show ?thesis
  proof (cases "child_of st d name")
    case (Inr c)
    obtain cx where c: "t_dirents st c = Some cx" by (rule child_of_alive [OF t Inr])
    then show ?thesis using l Inr release_room(2) [OF c r] by (simp add: tmpfs_dir_lookup_existence_def)
  qed (use l in \<open>simp add: tmpfs_dir_lookup_existence_def\<close>)
qed

text \<open>The state after the inode \<open>n\<close> was made and linked.\<close>

definition created :: "nat \<Rightarrow> string \<Rightarrow> tmp_inode \<Rightarrow> tmp_state \<Rightarrow> tmp_state" where
  "created dir name n st = link_entry dir name (t_new_inode st) (add_inode n st)"

lemma child_of_inodes:
  assumes "t_dirents st' = t_dirents st" and "dirent_inode st' d = dirent_inode st d"
  shows "child_of st' d c = child_of st d c"
  unfolding child_of_def assms ..

lemma dirent_inode_add:
  assumes "tmp_tree root st"
  shows "dirent_inode (add_inode n st) d = dirent_inode st d"
  using tree_fresh_inode(2) [OF assms] by (auto simp: dirent_inode_def split: option.split)

lemma resolve_add:
  assumes "tmp_tree root st"
  shows "tmp_resolve (add_inode n st) d cs = tmp_resolve st d cs" "tmp_abs root (add_inode n st) = tmp_abs root st"
proof -
  have c: "child_of (add_inode n st) d c = child_of st d c" for d c
    by (intro child_of_inodes) (simp_all add: dirent_inode_add [OF assms])
  show r: "tmp_resolve (add_inode n st) d cs = tmp_resolve st d cs" for d cs
    by (induction cs arbitrary: d) (simp_all add: c split: sum.split)
  show "tmp_abs root (add_inode n st) = tmp_abs root st"
    unfolding tmp_abs_def fun_eq_iff r dirent_inode_add [OF assms] by simp
qed

lemma created_ok:
  assumes t: "tmp_tree root st" and dx: "t_dirents st dir = Some dx" and no: "child_of st dir name = Inl ENOENT"
    and p: "tmp_resolve st root cs = Inr dir" and n: "inode_ok n"
  shows "tmp_tree root (created dir name n st)"
    "tmp_abs root (created dir name n st) = (tmp_abs root st)(cs @ [name] \<mapsto> node_of n)"
    "tmp_resolve (created dir name n st) root (cs @ [name]) = Inr (t_new_dirent st)"
    "grows st (created dir name n st)"
    "t_dirents (created dir name n st) dir =
       Some (dx\<lparr>td_next_index := td_next_index dx + 1, td_children := td_children dx @ [t_new_dirent st]\<rparr>)"
proof -
  let ?st = "add_inode n st" and ?i = "t_new_inode st"
  have t1: "tmp_tree root ?st" by (rule tmp_tree_add_inode [OF t])
  have dx1: "t_dirents ?st dir = Some dx" using dx by simp
  have no1: "child_of ?st dir name = Inl ENOENT"
    using no child_of_inodes [of ?st st dir name] dirent_inode_add [OF t] by simp
  have p1: "tmp_resolve ?st root cs = Inr dir" using p resolve_add(1) [OF t] by simp
  have i: "t_inodes ?st ?i = Some n" by simp
  show "tmp_tree root (created dir name n st)"
    using tmp_tree_link [OF t1 dx1 no1 i n] tree_fresh_inode(2) [OF t] by (simp add: created_def)
  show "tmp_abs root (created dir name n st) = (tmp_abs root st)(cs @ [name] \<mapsto> node_of n)"
    using abs_link(1) [OF t1 dx1 no1 p1 i] resolve_add(2) [OF t] by (simp add: created_def)
  show "tmp_resolve (created dir name n st) root (cs @ [name]) = Inr (t_new_dirent st)"
    using abs_link(2) [OF t1 dx1 no1 p1 i] by (simp add: created_def)
  show "t_dirents (created dir name n st) dir =
      Some (dx\<lparr>td_next_index := td_next_index dx + 1, td_children := td_children dx @ [t_new_dirent st]\<rparr>)"
    using dx by (simp add: created_def link_entry_def Let_def)
  have new: "t_dirents st (t_new_dirent st) = None" "t_inodes st ?i = None"
    using t by (simp_all add: tmp_tree_def)
  then show "grows st (created dir name n st)"
    using dx by (auto simp: grows_def created_def link_entry_def Let_def)
qed

lemma created_rc:
  assumes "t_inodes st (t_new_inode st) = None"
  shows "put_inode (t_new_inode st) m (created dir name n st) = created dir name m st"
  by (simp add: created_def link_entry_def put_inode_def add_inode_def Let_def)

text \<open>\<^const>\<open>tmpfs_dir_link\<close> after \<^const>\<open>tmp_inode_new\<close>; the caller holds a reference to the parent.\<close>

lemma link_new_counted:
  assumes t: "tmp_tree root st" and r: "room h st" and dx: "t_dirents st dir = Some dx"
    and no: "child_of st dir name = Inl ENOENT" and h0: "h (t_new_dirent st) = 0"
    and l: "length name < MAX_NAME" and n: "inode_ok n" "ti_refcount n = 1"
  shows "tmpfs_dir_link e dir name (t_new_inode st) out (counted (inc h dir) (add_inode n st)) =
    Some (if \<not> ok_dirent e then (ENOMEM, None, counted (inc h dir) (tmp_inode_cleanup (t_new_inode st) (add_inode n st)))
          else let st' = created dir name (n\<lparr>ti_refcount := 2\<rparr>) st; a = t_new_dirent st
               in if out then (0, Some a, counted (inc (inc h dir) a) st') else (0, None, counted (inc h dir) st'))"
proof -
  let ?st = "add_inode n st" and ?i = "t_new_inode st"
  have dx1: "t_dirents ?st dir = Some dx" using dx by simp
  have no1: "child_of ?st dir name = Inl ENOENT"
    using no child_of_inodes [of ?st st dir name] dirent_inode_add [OF t] by simp
  have neq: "t_new_dirent st \<noteq> dir" using t dx by (metis le_refl option.distinct(1) tmp_tree_def)
  have "put_inode ?i (n\<lparr>ti_refcount := 2\<rparr>) ?st = add_inode (n\<lparr>ti_refcount := 2\<rparr>) st"
    by (simp add: put_inode_def add_inode_def)
  then show ?thesis
    using dir_link_counted [OF tmp_tree_add_inode [OF t] dx1 no1, where h = "inc h dir" and n = n and i = ?i]
      room_inc(2) [OF r dx, of dir] roomD(2) [OF r dx] h0 neq l n
    by (simp add: created_def)
qed

lemma release_created:
  assumes t: "tmp_tree root st" and r: "room h st" and dx: "t_dirents st dir = Some dx"
    and no: "child_of st dir name = Inl ENOENT" and p: "tmp_resolve st root cs = Inr dir" and n: "inode_ok n"
    and b: "h' dir \<le> h dir"
  shows "tmp_dirent_release dir (counted (inc h' dir) (created dir name n st)) = Some (counted h' (created dir name n st))"
  using release_counted [OF created_ok(5) [OF t dx no p n], of h'] roomD(1) [OF r dx] b by simp

lemma alive_grows: "grows st st' \<Longrightarrow> \<forall>d. t_dirents st d = None \<longrightarrow> h d = 0 \<Longrightarrow> \<forall>d. t_dirents st' d = None \<longrightarrow> h d = (0 :: nat)"
  unfolding grows_def by (metis option.distinct(1) option.exhaust)

lemma spec_create_cases:
  assumes t: "tmp_tree root st"
  shows "spec_create memory node cs name (tmp_abs root st) =
    (case tmp_resolve st root cs of
       Inl err \<Rightarrow> (err, tmp_abs root st)
     | Inr d \<Rightarrow> (case child_of st d name of
          Inl err \<Rightarrow> if err = ENOTDIR then (ENOTDIR, tmp_abs root st)
                     else if \<not> memory then (ENOMEM, tmp_abs root st)
                     else (0, (tmp_abs root st)(cs @ [name] \<mapsto> node))
        | Inr k \<Rightarrow> (EEXIST, tmp_abs root st)))"
proof (cases "tmp_resolve st root cs")
  case (Inl err)
  then show ?thesis using spec_lookup_resolve [OF t, of "[]" root cs] by (simp add: spec_create_def)
next
  case (Inr d)
  have "t_dirents st root \<noteq> None" using t by (simp add: tmp_tree_def)
  then obtain x where x: "t_dirents st d = Some x" using resolve_alive [OF t Inr] by auto
  obtain i n where n: "dirent_inode st d = Some (i, n)" using tree_entry [OF t x] by metis
  note a = abs_of_entry [OF Inr n]
  have s: "spec_lookup (tmp_abs root st) [] cs = Inr (node_of n)"
    using spec_lookup_resolve [OF t, of "[]" root cs] Inr a by simp
  show ?thesis
  proof (cases "child_of st d name")
    case (Inl err)
    then have no: "tmp_abs root st (cs @ [name]) = None" using abs_None [OF t] Inr by (auto simp: resolve_snoc)
    have e: "err = (if S_ISDIR (inode_mode n) then ENOENT else ENOTDIR)"
      using Inl x n by (auto simp: child_of_def split: if_splits option.splits)
    have "S_ISDIR (inode_mode n) \<longleftrightarrow> node_of n = Dir" by simp
    then show ?thesis using Inl Inr s e no by (cases "node_of n") (simp_all add: spec_create_def del: node_of_Dir)
  next
    case k: (Inr k)
    then have "tmp_abs root st (cs @ [name]) \<noteq> None" using abs_None [OF t] Inr by (auto simp: resolve_snoc)
    moreover have "node_of n = Dir" using k x n by (auto simp: child_of_def split: if_splits)
    ultimately show ?thesis using k Inr s by (simp add: spec_create_def del: node_of_Dir)
  qed
qed

lemma cleanup_new:
  assumes "tmp_tree root st"
  shows "tmp_inode_cleanup (t_new_inode st) (add_inode n st) =
      st\<lparr>next_inode := w64 (next_inode st + 1), t_new_inode := t_new_inode st + 1\<rparr>"
  using tree_fresh_inode(1) [OF assms] by (cases st) (simp add: tmp_inode_cleanup_def add_inode_def fun_upd_idem)

lemma skip_numbers:
  assumes t: "tmp_tree root st" and h: "\<forall>d. t_dirents st d = None \<longrightarrow> h d = 0"
    and s: "s = st\<lparr>next_inode := a, t_new_inode := t_new_inode st + k\<rparr>"
  shows "tmp_ok root h (counted h s)" "tmp_abs root s = tmp_abs root st" "tmp_tree root s"
proof -
  have g: "grows st s" by (auto simp: grows_def s)
  show t': "tmp_tree root s" by (rule tmp_tree_inodes [OF t g]) (use t in \<open>auto simp: s tmp_tree_def\<close>)
  show "tmp_ok root h (counted h s)" using tmp_ok_counted [OF t', of h] h by (simp add: s)
  have i: "dirent_inode s d = dirent_inode st d" for d
    by (simp add: dirent_inode_def s split: option.split)
  have c: "child_of s d c = child_of st d c" for d c by (intro child_of_inodes i) (simp add: s)
  have r: "tmp_resolve s d cs = tmp_resolve st d cs" for d cs
    by (induction cs arbitrary: d) (simp_all add: c split: sum.split)
  show "tmp_abs root s = tmp_abs root st" unfolding tmp_abs_def fun_eq_iff r i by simp
qed


text \<open>The references an open file holds.\<close>

definition fd_refs :: "tmp_fd \<Rightarrow> (nat \<Rightarrow> nat) \<Rightarrow> nat \<Rightarrow> nat" where
  "fd_refs fd h = (let h1 = (case tf_dirent fd of None \<Rightarrow> h | Some d \<Rightarrow> inc h d)
                   in case tf_dir_pos fd of None \<Rightarrow> h1 | Some c \<Rightarrow> inc h1 c)"

text \<open>A new descriptor for an entry; in a directory it starts at the first child.\<close>

definition fd_at :: "tmp_state \<Rightarrow> nat \<Rightarrow> tmp_fd" where
  "fd_at st d = \<lparr>tf_offset = 0, tf_dirent = Some d,
                 tf_dir_pos = (case td_children (the (t_dirents st d)) of [] \<Rightarrow> None | c # cs \<Rightarrow> Some c)\<rparr>"

lemma open_tail:
  assumes t: "tmp_tree root st" and r: "room h st \<or> td_children x = []" and x: "t_dirents st d = Some x"
    and fd: "ok_fd e"
    and start: "(if set_in flags O_CREAT then tmpfs_creat e root path flags mode s else tmpfs_lookup root path s) =
      Some (Inr d, counted (inc h d) st)"
  shows "tmpfs_open e root path flags mode s = Some (Inr (fd_at st d), counted (fd_refs (fd_at st d) h) st)"
proof (cases "td_children x")
  case Nil
  then show ?thesis using start x fd by (simp add: tmpfs_open_def fd_at_def fd_refs_def)
next
  case (Cons c cs)
  then have "c \<in> set (td_children x)" by simp
  then obtain cx where c: "t_dirents st c = Some cx" using tree_child [OF t x] by metis
  have "tmp_dirent_retain c (counted (inc h d) st) = Some (counted (inc (inc h d) c) st)"
    using retain_room(2) [OF c] r Cons by simp
  then show ?thesis using start x fd Cons by (simp add: tmpfs_open_def fd_at_def fd_refs_def tmpfs_fd_seekdir_def)
qed

lemma creat_counted:
  assumes ok: "tmp_ok root h st" and r: "room h st" and cs: "short_comps (cs @ [name])" and mode: "mode < 2 ^ 12"
    and e: "ok_inode e" "ok_data e" "ok_dirent e"
  shows "tmpfs_creat e root (join (cs @ [name])) flags mode st =
    Some (case tmp_resolve st root cs of
       Inl err \<Rightarrow> (Inl err, st)
     | Inr d \<Rightarrow> (case child_of st d name of
          Inl err \<Rightarrow> if err = ENOTDIR then (Inl ENOTDIR, st)
                     else let n = new_node e (0x8000 OR mode) (next_inode st)
                          in (Inr (t_new_dirent st), counted (inc h (t_new_dirent st)) (created d name n st))
        | Inr k \<Rightarrow> if set_in flags O_EXCL then (Inl EEXIST, st) else (Inr k, counted (inc h k) st)))"
proof -
  have st: "counted h st = st" and t: "tmp_tree root st" and h0: "\<forall>d. t_dirents st d = None \<longrightarrow> h d = 0"
    using ok by (simp_all add: tmp_ok_def)
  note lp = lookup_parent_counted [OF t r cs, unfolded st]
  show ?thesis
  proof (cases "tmp_resolve st root cs")
    case (Inl err)
    then show ?thesis using lp by (simp add: tmpfs_creat_def)
  next
    case (Inr d)
    have "t_dirents st root \<noteq> None" using t by (simp add: tmp_tree_def)
    then obtain x where x: "t_dirents st d = Some x" using resolve_alive [OF t Inr] by auto
    have dl: "tmpfs_dir_lookup d name (counted (inc h d) st) =
        Some (case child_of st d name of Inl err \<Rightarrow> (Inl err, counted (inc h d) st)
              | Inr k \<Rightarrow> (Inr k, counted (inc (inc h d) k) st))"
      using room_inc(2) [OF r] by (intro dir_lookup_counted [OF t x]) blast
    have rel: "tmp_dirent_release d (counted (inc h d) st) = Some st"
      using release_room(1) [OF x r] st by simp
    show ?thesis
    proof (cases "child_of st d name")
      case k: (Inr k)
      obtain kx where kx: "t_dirents st k = Some kx" by (rule child_of_alive [OF t k])
      have "tmp_dirent_release k (counted (inc (inc h d) k) st) = Some (counted (inc h d) st)"
        by (rule release_room(2) [OF kx r])
      moreover have "tmp_dirent_release d (counted (inc (inc h d) k) st) = Some (counted (inc h k) st)"
        unfolding inc_commute [of h d k] by (rule release_room(2) [OF x r])
      ultimately show ?thesis using lp dl rel k Inr by (simp add: tmpfs_creat_def)
    next
      case (Inl err)
      show ?thesis
      proof (cases "err = ENOENT")
        case False
        then have "err = ENOTDIR" using child_of_err [OF Inl] by blast
        then show ?thesis using lp dl rel Inr Inl by (simp add: tmpfs_creat_def)
      next
        case True
        let ?n = "new_node e (0x8000 OR mode) (next_inode st)" and ?i = "t_new_inode st" and ?a = "t_new_dirent st"
        have new: "tmp_inode_new e (0x8000 OR mode) (counted (inc h d) st) = (Some ?i, counted (inc h d) (add_inode ?n st))"
          using e by (simp add: inode_ops_counted(1) inode_new_cases)
        have no: "child_of st d name = Inl ENOENT" using Inl True by simp
        have l: "length name < MAX_NAME" using cs by simp
        have fresh: "t_dirents st ?a = None" using t by (simp add: tmp_tree_def)
        then have hn: "h ?a = 0" and neq: "?a \<noteq> d" using h0 x by auto
        have n1: "inode_ok ?n" "ti_refcount ?n = 1" by (simp_all add: new_node_def inode_ok_def)
        have link: "tmpfs_dir_link e d name ?i True (counted (inc h d) (add_inode ?n st)) =
            Some (0, Some ?a, counted (inc (inc h d) ?a) (created d name (?n\<lparr>ti_refcount := 2\<rparr>) st))"
          using link_new_counted [OF t r x no hn l n1, of e True] e(3) by (simp add: Let_def)
        have i: "t_inodes (created d name ?n st) ?i = Some ?n"
          by (simp add: created_def link_entry_def Let_def)
        have "tmp_inode_release ?i (created d name (?n\<lparr>ti_refcount := 2\<rparr>) st) = Some (created d name ?n st)"
          using inode_retain_release(2) [OF i n1(2)] created_rc [OF tree_fresh_inode(1) [OF t]] by simp
        then have irel: "tmp_inode_release ?i (counted (inc (inc h d) ?a) (created d name (?n\<lparr>ti_refcount := 2\<rparr>) st)) =
            Some (counted (inc (inc h d) ?a) (created d name ?n st))"
          by (simp add: inode_ops_counted(3))
        have "tmp_dirent_release d (counted (inc (inc h ?a) d) (created d name ?n st)) =
            Some (counted (inc h ?a) (created d name ?n st))"
          using neq by (intro release_created [OF t r x no Inr n1(1)]) simp
        then show ?thesis using lp dl Inr no new link irel inc_commute [of h d ?a]
          by (simp add: tmpfs_creat_def Let_def)
      qed
    qed
  qed
qed

text \<open>
  C34. \<^verbatim>\<open>tmpfs_open\<close> with \<^verbatim>\<open>O_CREAT\<close> creates an empty file exactly when the parent is a directory
  without an entry of that name, reports the errors of the lookup, refuses an existing entry with
  \<^verbatim>\<open>O_EXCL\<close> and opens it otherwise. The new descriptor refers to the entry at the path, and the
  counts grow by the references it holds. The allocations must succeed.
\<close>

theorem tmpfs_open_refines:
  assumes ok: "tmp_ok root h st" and r: "room h st" and cs: "short_comps (cs @ [name])" and mode: "mode < 2 ^ 12"
    and e: "ok_inode e" "ok_data e" "ok_dirent e" "ok_fd e" and fl: "set_in flags O_CREAT"
    and spec: "spec_create True (File []) cs name (tmp_abs root st) = (err, A)"
  shows "\<exists>res st'. tmpfs_open e root (join (cs @ [name])) flags mode st = Some (res, st') \<and>
    (case res of
       Inl err' \<Rightarrow> err' = err \<and> err < 0 \<and> (err = EEXIST \<longrightarrow> set_in flags O_EXCL) \<and> st' = st
     | Inr fd \<Rightarrow> (err = 0 \<or> err = EEXIST \<and> \<not> set_in flags O_EXCL) \<and> tmp_abs root st' = A \<and>
         tmp_ok root (fd_refs fd h) st' \<and>
         (\<exists>d. fd = fd_at st' d \<and> tmp_resolve st' root (cs @ [name]) = Inr d))"
proof -
  have st: "counted h st = st" and t: "tmp_tree root st" and h0: "\<forall>d. t_dirents st d = None \<longrightarrow> h d = 0"
    using ok by (simp_all add: tmp_ok_def)
  note cre = creat_counted [OF ok r cs mode e(1-3), of flags]
  note spec' = spec [unfolded spec_create_cases [OF t]]
  have fd_counted: "fd_at (counted g s) d = fd_at s d" if "t_dirents s d \<noteq> None" for g s d
    using that by (auto simp: fd_at_def)
  show ?thesis
  proof (cases "tmp_resolve st root cs")
    case (Inl err')
    then show ?thesis using cre spec' fl resolve_err [OF Inl] by (auto simp: tmpfs_open_def)
  next
    case (Inr d)
    have "t_dirents st root \<noteq> None" using t by (simp add: tmp_tree_def)
    then obtain x where x: "t_dirents st d = Some x" using resolve_alive [OF t Inr] by auto
    show ?thesis
    proof (cases "child_of st d name")
      case k: (Inr k)
      obtain kx where kx: "t_dirents st k = Some kx" by (rule child_of_alive [OF t k])
      have path: "tmp_resolve st root (cs @ [name]) = Inr k" using Inr k by (simp add: resolve_snoc)
      show ?thesis
      proof (cases "set_in flags O_EXCL")
        case True
        then show ?thesis using cre spec' fl Inr k by (simp add: tmpfs_open_def)
      next
        case False
        then have "tmpfs_open e root (join (cs @ [name])) flags mode st =
            Some (Inr (fd_at st k), counted (fd_refs (fd_at st k) h) st)"
          using cre fl Inr k r by (intro open_tail [OF t _ kx e(4)]) simp_all
        moreover have "\<exists>cx. t_dirents st c = Some cx" if "c \<in> set (td_children kx)" for c
          using tree_child [OF t kx that] by blast
        then have "\<forall>d. t_dirents st d = None \<longrightarrow> fd_refs (fd_at st k) h d = 0"
          using h0 kx by (force simp: fd_refs_def fd_at_def inc_def split: list.split)
        then have "tmp_ok root (fd_refs (fd_at st k) h) (counted (fd_refs (fd_at st k) h) st)"
          by (rule tmp_ok_counted [OF t])
        ultimately show ?thesis using spec' Inr k False t kx path by (auto simp: fd_counted)
      qed
    next
      case (Inl err')
      show ?thesis
      proof (cases "err' = ENOENT")
        case False
        then have "err' = ENOTDIR" using child_of_err [OF Inl] by blast
        then show ?thesis using cre spec' fl Inr Inl by (simp add: tmpfs_open_def)
      next
        case True
        let ?n = "new_node e (0x8000 OR mode) (next_inode st)" and ?a = "t_new_dirent st"
        let ?s = "created d name ?n st"
        have no: "child_of st d name = Inl ENOENT" using Inl True by simp
        have reg: "S_ISREG ((0x8000 OR mode) mod 2 ^ 16)" "\<not> S_ISDIR ((0x8000 OR mode) mod 2 ^ 16)"
          using mode_bits [OF mode, of "0x8000"] by (simp_all add: S_ISDIR_def S_ISREG_def)
        have n: "inode_ok ?n" "node_of ?n = File []" using reg by (simp_all add: node_of_def) (simp add: new_node_def)
        note cr = created_ok [OF t x no Inr n(1)]
        have neq: "d \<noteq> ?a" using t x by (metis le_refl option.distinct(1) tmp_tree_def)
        obtain ax where ax: "t_dirents ?s ?a = Some ax" "td_children ax = []"
          using neq by (simp add: created_def link_entry_def Let_def tmp_dirent_init_def)
        have fda: "fd_refs (fd_at ?s ?a) h = inc h ?a" using ax by (simp add: fd_refs_def fd_at_def)
        have "tmpfs_open e root (join (cs @ [name])) flags mode st =
            Some (Inr (fd_at ?s ?a), counted (fd_refs (fd_at ?s ?a) h) ?s)"
          using cre fl Inr no ax(2) by (intro open_tail [OF cr(1) _ ax(1) e(4)]) (simp_all add: Let_def)
        moreover have "\<forall>d. t_dirents ?s d = None \<longrightarrow> inc h ?a d = 0"
          using alive_grows [OF cr(4) h0] ax(1) by (auto simp: inc_def)
        then have "tmp_ok root (inc h ?a) (counted (inc h ?a) ?s)" by (rule tmp_ok_counted [OF cr(1)])
        ultimately show ?thesis using spec' Inr no cr(1,2,3) n(2) ax(1) by (auto simp: fd_counted fda)
      qed
    qed
  qed
qed

section \<open>File contents\<close>

text \<open>Bytes written at an offset; a gap behind the old end is filled with zeros.\<close>

definition write_at :: "nat \<Rightarrow> byte list \<Rightarrow> byte list \<Rightarrow> byte list" where
  "write_at off buf data =
     take off (data @ replicate (off - length data) 0) @ buf @ drop (off + length buf) data"

lemma node_of_File:
  assumes "inode_ok n" and "node_of n = File data"
  shows "S_ISREG (inode_mode n)" "\<not> S_ISDIR (inode_mode n)" "ti_data n = Some data" "length data = st_size (ti_stat n)"
  using assms by (auto simp: node_of_def inode_ok_def split: if_splits)

lemma child_of_put:
  assumes m: "t_inodes st i = Some m" and "inode_mode n = inode_mode m"
  shows "child_of (put_inode i n st) d c = child_of st d c"
proof (cases "dirent_inode st d")
  case None
  then have "t_dirents st d = None \<or> dirent_inode (put_inode i n st) d = None"
    using m by (auto simp: dirent_inode_def split: option.splits)
  then show ?thesis using None by (auto simp: child_of_def split: option.split)
next
  case (Some p)
  then obtain j k where "dirent_inode st d = Some (j, k)" by (cases p) auto
  moreover then have "dirent_inode (put_inode i n st) d = Some (j, if j = i then n else k)"
    by (auto simp: dirent_inode_def split: option.splits)
  moreover have "j = i \<Longrightarrow> k = m" using calculation(1) m by (auto simp: dirent_inode_def split: option.splits)
  ultimately show ?thesis using assms(2) by (auto simp: child_of_def split: option.split)
qed

lemma abs_put:
  assumes t: "tmp_tree root st" and p: "tmp_resolve st root cs = Inr d" and d: "dirent_inode st d = Some (i, m)"
    and n: "inode_mode n = inode_mode m"
  shows "tmp_abs root (put_inode i n st) = (tmp_abs root st)(cs \<mapsto> node_of n)"
    "tmp_resolve (put_inode i n st) k ds = tmp_resolve st k ds"
proof -
  have m: "t_inodes st i = Some m" using d by (auto simp: dirent_inode_def split: option.splits)
  have r: "tmp_resolve (put_inode i n st) k ds = tmp_resolve st k ds" for k ds
    by (induction ds arbitrary: k) (simp_all add: child_of_put [OF m n] split: sum.split)
  then show "tmp_resolve (put_inode i n st) k ds = tmp_resolve st k ds" .
  have rt: "t_dirents st root \<noteq> None" using t by (simp add: tmp_tree_def)
  obtain x where x: "t_dirents st d = Some x" "td_inode x = Some i"
    using d by (auto simp: dirent_inode_def split: option.splits)
  have "tmp_abs root (put_inode i n st) ds = ((tmp_abs root st)(cs \<mapsto> node_of n)) ds" for ds
  proof (cases "tmp_resolve st root ds")
    case (Inl err)
    then show ?thesis using p by (auto simp: tmp_abs_def r)
  next
    case (Inr k)
    obtain y where y: "t_dirents st k = Some y" using resolve_alive [OF t Inr rt] by auto
    obtain j l where l: "td_inode y = Some j" "t_inodes st j = Some l" using tree_entry [OF t y] by metis
    have same: "j = i \<longleftrightarrow> k = d"
    proof
      assume "j = i"
      then show "k = d" using t x y l(1) unfolding tmp_tree_def by metis
    qed (use x y l in simp)
    have path: "k = d \<longleftrightarrow> ds = cs"
    proof
      assume "k = d"
      then show "ds = cs" using resolve_unique [OF t Inr] p by simp
    qed (use p Inr in simp)
    show ?thesis using Inr y l same path x by (auto simp: tmp_abs_def r dirent_inode_def)
  qed
  then show "tmp_abs root (put_inode i n st) = (tmp_abs root st)(cs \<mapsto> node_of n)" by blast
qed

text \<open>Reading inside the file.\<close>

lemma read_inside:
  assumes "tmpfs_fd_inode fd st = Some (i, n)" and "inode_ok n" and "node_of n = File data"
    and "tf_offset fd \<le> length data" and "length data < 2 ^ 63"
  shows "tmpfs_read fd bufsize st =
    (let out = take bufsize (drop (tf_offset fd) data)
     in Some (int (length out), out, fd\<lparr>tf_offset := tf_offset fd + length out\<rparr>))"
proof -
  note f = node_of_File [OF assms(2,3)]
  let ?off = "tf_offset fd"
  have left: "sub64 (length data) ?off = length data - ?off" using assms(4,5) by (intro sub64_id) auto
  let ?m = "min bufsize (length data - ?off)"
  have m: "(if bufsize > length data - ?off then if ?off \<ge> length data then 0 else length data - ?off else bufsize) = ?m"
    using assms(4) by auto
  have g: "(if ?m = 0 then Some [] else get_bytes data ?off ?m) = Some (take bufsize (drop ?off data))"
    using assms(4) by (auto simp: get_bytes_def min_def)
  have "s64 (int ?m) = int ?m" "w64 (?off + ?m) = ?off + ?m"
    using assms(4,5) by (auto simp: min_def intro!: s64_id w64_id)
  moreover have "length (take bufsize (drop ?off data)) = ?m" by simp
  ultimately show ?thesis using assms(1) f(1-3)
    by (simp only: tmpfs_read_def f(4) [symmetric] left m g Let_def option.case prod.case not_True_eq_False if_False)
qed

text \<open>
  C16. A write to an open file changes the contents at the path of the file and nothing else in the
  abstract file system: the bytes appear at the offset, a hole before them reads as zeros, and the
  offset moves behind them. Reading them back from the old offset returns the bytes that were written.
\<close>

theorem tmpfs_write_read:
  assumes ok: "tmp_ok root h st" and fd: "tf_dirent fd = Some d" and p: "tmp_resolve st root cs = Inr d"
    and data: "tmp_abs root st cs = Some (File data)" and e: "ok_realloc e"
    and size: "length data < 2 ^ 63" "tf_offset fd + length buf < 2 ^ 63"
  shows "\<exists>st' fd'. tmpfs_write e fd buf st = Some (int (length buf), fd', st') \<and>
    fd' = fd\<lparr>tf_offset := tf_offset fd + length buf\<rparr> \<and> tmp_ok root h st' \<and>
    tmp_abs root st' = (tmp_abs root st)(cs \<mapsto> File (write_at (tf_offset fd) buf data)) \<and>
    tmpfs_read fd (length buf) st' = Some (int (length buf), buf, fd')"
proof -
  have st: "counted h st = st" and t: "tmp_tree root st" and h0: "\<forall>d. t_dirents st d = None \<longrightarrow> h d = 0"
    using ok by (simp_all add: tmp_ok_def)
  obtain i n where n: "dirent_inode st d = Some (i, n)" "node_of n = File data"
    using data p by (auto simp: tmp_abs_def)
  obtain x where x: "t_dirents st d = Some x" using n(1) by (auto simp: dirent_inode_def split: option.splits)
  have "inode_ok n" using tree_entry [OF t x] n(1) by (metis option.inject prod.inject)
  note f = node_of_File [OF this n(2)] and inode = this
  let ?off = "tf_offset fd" and ?new = "write_at (tf_offset fd) buf data"
  let ?stop = "?off + length buf" and ?fd = "fd\<lparr>tf_offset := tf_offset fd + length buf\<rparr>"
  have w: "w64 ?stop = ?stop" "s64 (int (length buf)) = int (length buf)" using size by (auto intro!: w64_id s64_id)
  let ?n = "n\<lparr>ti_stat := (ti_stat n)\<lparr>st_size := max (length data) ?stop\<rparr>, ti_data := Some ?new\<rparr>"
  have len: "length ?new = max (length data) ?stop" by (auto simp: write_at_def)
  have run: "tmpfs_write e fd buf st = Some (int (length buf), ?fd, put_inode i ?n st)"
  proof (cases "length data < ?stop")
    case True
    let ?g = "data @ replicate (?stop - length data) 0"
    have "put_bytes ?g ?off buf = Some ?new"
      using True by (auto simp: put_bytes_def write_at_def min_def take_replicate)
    moreover have "?g = ?new" if "buf = []" using that True by (simp add: write_at_def)
    ultimately have pb: "(if buf = [] then Some ?g else put_bytes ?g ?off buf) = Some ?new" by simp
    show ?thesis using True f(1-3) e n(1) fd w pb
      by (simp add: tmpfs_write_def tmpfs_fd_inode_def tmpfs_file_resize_def put_inode_def f(4) [symmetric] Let_def)
  next
    case False
    then have "put_bytes data ?off buf = Some ?new" by (simp add: put_bytes_def write_at_def)
    moreover have "data = ?new" if "buf = []" using that False by (simp add: write_at_def)
    ultimately have pb: "(if buf = [] then Some data else put_bytes data ?off buf) = Some ?new" by simp
    have "max (length data) ?stop = st_size (ti_stat n)" using False f(4) by simp
    then have n_eq: "?n = n\<lparr>ti_data := Some ?new\<rparr>" by simp
    show ?thesis unfolding n_eq using False f(1-3) n(1) fd w pb
      by (simp add: tmpfs_write_def tmpfs_fd_inode_def put_inode_def f(4) [symmetric] Let_def)
  qed
  have n': "inode_ok ?n" "inode_mode ?n = inode_mode n" "node_of ?n = File ?new"
    using inode f len by (simp_all add: inode_ok_def node_of_def)
  have i: "t_inodes st i = Some n" using n(1) by (auto simp: dirent_inode_def split: option.splits)
  have "tmp_tree root (put_inode i ?n st)" by (rule tmp_tree_put_inode [OF t i n'(1,2)])
  then have "tmp_ok root h (put_inode i ?n st)" using st h0 by (simp add: tmp_ok_def)
  moreover have "tmpfs_fd_inode fd (put_inode i ?n st) = Some (i, ?n)"
    using fd x n(1) by (auto simp: tmpfs_fd_inode_def dirent_inode_def split: option.splits)
  then have "tmpfs_read fd (length buf) (put_inode i ?n st) = Some (int (length buf), buf, ?fd)"
    using read_inside [OF _ n'(1,3), of fd _ i "length buf"] size len by (simp add: write_at_def Let_def)
  ultimately show ?thesis using run abs_put(1) [OF t p n(1) n'(2)] n'(3) by simp
qed

text \<open>
  C36. The offset may be moved behind the end of a file. A read there computes the number of bytes left
  in unsigned arithmetic, takes it for a huge number and copies memory behind the buffer of the file.
\<close>

theorem tmpfs_read_past_end:
  assumes n: "tmpfs_fd_inode fd st = Some (i, n)" "inode_ok n" "node_of n = File data"
    and off: "length data < off" "off < 2 ^ 63" and buf: "0 < bufsize" "bufsize < 2 ^ 63"
  shows "\<exists>fd'. tmpfs_lseek fd (int off) 0 st = Some (int off, fd') \<and> tmpfs_read fd' bufsize st = None"
proof -
  note f = node_of_File [OF n(2,3)]
  let ?fd = "fd\<lparr>tf_offset := off\<rparr>"
  have "tmpfs_lseek fd (int off) 0 st = Some (int off, ?fd)"
    using off(2) by (simp add: tmpfs_lseek_def generic_seek_def)
  moreover have "tmpfs_fd_inode ?fd st = Some (i, n)" using n(1) by (simp add: tmpfs_fd_inode_def)
  moreover have "sub64 (length data) off = 2 ^ 64 - (off - length data)"
    using off by (simp add: sub64_def w64_def)
  then have "\<not> bufsize > sub64 (length data) off" using off buf by simp
  moreover have "get_bytes data off bufsize = None" using off(1) by (simp add: get_bytes_def)
  ultimately show ?thesis using f(1-3) buf(1) by (simp add: tmpfs_read_def f(4) [symmetric] Let_def)
qed

section \<open>Reading a directory\<close>

lemma three_refs:
  assumes "t_dirents st d = Some x" and "room h st"
  shows "tmp_dirent_retain d (counted (inc (inc h a) b) st) = Some (counted (inc (inc (inc h a) b) d) st)"
    "tmp_dirent_release d (counted (inc (inc (inc h a) b) d) st) = Some (counted (inc (inc h a) b) st)"
  using retain_counted [OF assms(1)] release_counted [OF assms(1)] room_inc(3) [OF assms(2,1)] by simp_all

lemma fd_seekdir_counted:
  assumes r: "room h st" and d: "tf_dirent fd = Some d"
    and c: "\<And>c. pos = Some c \<Longrightarrow> t_dirents st c \<noteq> None" and b: "\<And>b. tf_dir_pos fd = Some b \<Longrightarrow> t_dirents st b \<noteq> None"
  shows "tmpfs_fd_seekdir fd pos (counted (fd_refs fd h) st) =
    Some (fd\<lparr>tf_dir_pos := pos\<rparr>, counted (fd_refs (fd\<lparr>tf_dir_pos := pos\<rparr>) h) st)"
proof -
  have two: "\<exists>x. t_dirents st c = Some x" if "pos = Some c" for c using c [OF that] by auto
  have one: "\<exists>x. t_dirents st b = Some x" if "tf_dir_pos fd = Some b" for b using b [OF that] by auto
  show ?thesis
  proof (cases "tf_dir_pos fd")
    case None
    then show ?thesis using d two retain_room(2) [OF _ r]
      by (cases pos) (auto simp: tmpfs_fd_seekdir_def fd_refs_def)
  next
    case (Some b)
    then obtain bx where bx: "t_dirents st b = Some bx" using one by blast
    show ?thesis
    proof (cases pos)
      case None
      then show ?thesis using d Some release_room(2) [OF bx r] by (simp add: tmpfs_fd_seekdir_def fd_refs_def)
    next
      case (Some c)
      then obtain cx where cx: "t_dirents st c = Some cx" using two by blast
      have "tmp_dirent_release b (counted (inc (inc (inc h d) b) c) st) = Some (counted (inc (inc h d) c) st)"
        unfolding inc_commute [of "inc h d" b c] by (rule three_refs(2) [OF bx r])
      then show ?thesis using d Some \<open>tf_dir_pos fd = Some b\<close> three_refs(1) [OF cx r]
        by (simp add: tmpfs_fd_seekdir_def fd_refs_def)
    qed
  qed
qed

lemma next_entry_append:
  "c \<notin> set as \<Longrightarrow> next_entry (as @ c # bs) c = Some (case bs of [] \<Rightarrow> None | b # _ \<Rightarrow> Some b)"
proof (induction as)
  case Nil
  then show ?case by (cases bs) auto
next
  case (Cons a as)
  then show ?case by (cases "as @ c # bs") auto
qed

lemma find_index_append:
  assumes "\<forall>a \<in> set as. \<exists>x. t_dirents st a = Some x \<and> td_index x < k"
  shows "find_index st k (as @ bs) = find_index st k bs"
  using assms by (induction as) auto

lemma children_split:
  assumes t: "tmp_tree root st" and x: "t_dirents st d = Some x" and c: "td_children x = as @ c # bs"
  obtains cx where "t_dirents st c = Some cx" "td_index cx < td_next_index x" "c \<notin> set as"
    "\<forall>a \<in> set as. \<exists>ax. t_dirents st a = Some ax \<and> td_index ax < td_index cx"
proof -
  have ok: "entry_ok root st d x" using t x by (simp add: tmp_tree_def)
  have mem: "a \<in> set (td_children x)" if "a \<in> set (as @ [c])" for a using that c by auto
  have "c \<in> set (td_children x)" using mem by simp
  then obtain cx where cx: "t_dirents st c = Some cx" "td_index cx < td_next_index x" by (rule tree_child [OF t x])
  have "sorted_wrt (\<lambda>a b. entry_index st a < entry_index st b) (as @ c # bs)"
    using ok c unfolding entry_ok_def by simp
  then have lt: "\<forall>a \<in> set as. entry_index st a < td_index cx" using cx(1) by (simp add: sorted_wrt_append)
  have "\<exists>ax. t_dirents st a = Some ax \<and> td_index ax < td_index cx" if "a \<in> set as" for a
  proof -
    have "a \<in> set (td_children x)" using mem that by simp
    then obtain ax where "t_dirents st a = Some ax" by (rule tree_child [OF t x])
    then show ?thesis using lt that by force
  qed
  moreover have "c \<notin> set as" using lt cx(1) by auto
  ultimately show thesis using that cx by blast
qed

text \<open>Reading a number of entries one after the other.\<close>

primrec readdir_n ::
  "nat \<Rightarrow> tmp_fd \<Rightarrow> tmp_state \<Rightarrow> ((nat \<times> string) list \<times> tmp_fd \<times> tmp_state) option" where
  "readdir_n 0 fd st = Some ([], fd, st)"
| "readdir_n (Suc n) fd st =
     (case tmpfs_readdir fd st of
        Some (res, Some entry, fd1, st1) \<Rightarrow>
          map_option (\<lambda>(es, s). (entry # es, s)) (readdir_n n fd1 st1)
      | _ \<Rightarrow> None)"

definition entry_of :: "tmp_state \<Rightarrow> nat \<Rightarrow> nat \<times> string" where
  "entry_of st d = (st_inode (ti_stat (snd (the (dirent_inode st d)))), entry_name st d)"

abbreviation pos_of :: "nat list \<Rightarrow> nat option" where
  "pos_of ds \<equiv> (case ds of [] \<Rightarrow> None | d # _ \<Rightarrow> Some d)"

lemma readdir_step:
  assumes t: "tmp_tree root st" and r: "room h st" and x: "t_dirents st d = Some x"
    and dir: "dirent_inode st d = Some (i, n)" "S_ISDIR (inode_mode n)"
    and fd: "tf_dirent fd = Some d" "tf_dir_pos fd = Some c" and c: "td_children x = as @ c # bs"
  shows "tmpfs_readdir fd (counted (fd_refs fd h) st) =
    Some (1, Some (entry_of st c), fd\<lparr>tf_dir_pos := pos_of bs\<rparr>, counted (fd_refs (fd\<lparr>tf_dir_pos := pos_of bs\<rparr>) h) st)"
proof -
  obtain cx where cx: "t_dirents st c = Some cx" "c \<notin> set as" by (rule children_split [OF t x c])
  obtain j m where m: "dirent_inode st c = Some (j, m)" using tree_entry [OF t cx(1)] by metis
  have b: "t_dirents st b \<noteq> None" if "pos_of bs = Some b" for b
  proof -
    have "b \<in> set (td_children x)" using that c by (auto split: list.splits)
    then show ?thesis using tree_child [OF t x] by (metis option.distinct(1))
  qed
  have "tmpfs_fd_seekdir fd (pos_of bs) (counted (fd_refs fd h) st) =
      Some (fd\<lparr>tf_dir_pos := pos_of bs\<rparr>, counted (fd_refs (fd\<lparr>tf_dir_pos := pos_of bs\<rparr>) h) st)"
    using b fd(2) cx(1) by (intro fd_seekdir_counted [OF r fd(1)]) auto
  then show ?thesis using x dir fd cx m c next_entry_append [OF cx(2), of bs]
    by (simp add: tmpfs_readdir_def entry_of_def)
qed

lemma readdir_rest:
  assumes t: "tmp_tree root st" and r: "room h st" and x: "t_dirents st d = Some x"
    and dir: "dirent_inode st d = Some (i, n)" "S_ISDIR (inode_mode n)"
  shows "tf_dirent fd = Some d \<Longrightarrow> tf_dir_pos fd = pos_of bs \<Longrightarrow> td_children x = as @ bs \<Longrightarrow>
    readdir_n (length bs) fd (counted (fd_refs fd h) st) =
    Some (map (entry_of st) bs, fd\<lparr>tf_dir_pos := None\<rparr>, counted (fd_refs (fd\<lparr>tf_dir_pos := None\<rparr>) h) st)"
proof (induction bs arbitrary: fd as)
  case Nil
  then have "fd\<lparr>tf_dir_pos := None\<rparr> = fd" by simp
  then show ?case by simp
next
  case (Cons c bs)
  then have c: "tf_dir_pos fd = Some c" by simp
  show ?case
    using Cons.IH [of "fd\<lparr>tf_dir_pos := pos_of bs\<rparr>" "as @ [c]"] Cons.prems
    by (simp add: readdir_step [OF t r x dir Cons.prems(1) c Cons.prems(3)])
qed

text \<open>
  C35. After a seek to the start, reading a directory entry by entry returns the inode number and the
  name of every child, each once and in the order of the list, then reports the end; the position
  gives back the references it held.
\<close>

theorem tmpfs_readdir_all:
  assumes t: "tmp_tree root st" and r: "room h st" and x: "t_dirents st d = Some x"
    and dir: "dirent_inode st d = Some (i, n)" "S_ISDIR (inode_mode n)"
    and fd: "tf_dirent fd = Some d" "\<forall>c. tf_dir_pos fd = Some c \<longrightarrow> t_dirents st c \<noteq> None"
  shows "\<exists>fd1 st1 fd2 st2. tmpfs_seekdir fd 0 (counted (fd_refs fd h) st) = Some (fd1, st1) \<and>
    readdir_n (length (td_children x)) fd1 st1 = Some (map (entry_of st) (td_children x), fd2, st2) \<and>
    tmpfs_readdir fd2 st2 = Some (0, None, fd2, st2) \<and> st2 = counted (inc h d) st"
proof -
  let ?fd1 = "fd\<lparr>tf_dir_pos := pos_of (td_children x)\<rparr>" and ?fd2 = "fd\<lparr>tf_dir_pos := None\<rparr>"
  have alive: "t_dirents st c \<noteq> None" if "c \<in> set (td_children x)" for c
    by (rule tree_child [OF t x that]) simp
  then have "find_index (counted (fd_refs fd h) st) 0 (td_children x) = Some (pos_of (td_children x))"
    by (cases "td_children x") (force split: option.split)+
  moreover have "tmpfs_fd_seekdir fd (pos_of (td_children x)) (counted (fd_refs fd h) st) =
      Some (?fd1, counted (fd_refs ?fd1 h) st)"
    using alive fd(2) by (intro fd_seekdir_counted [OF r fd(1)]) (auto split: list.splits)
  ultimately have "tmpfs_seekdir fd 0 (counted (fd_refs fd h) st) = Some (?fd1, counted (fd_refs ?fd1 h) st)"
    using x dir fd(1) by (simp add: tmpfs_seekdir_def)
  moreover have "readdir_n (length (td_children x)) ?fd1 (counted (fd_refs ?fd1 h) st) =
      Some (map (entry_of st) (td_children x), ?fd2, counted (fd_refs ?fd2 h) st)"
    using readdir_rest [OF t r x dir, of ?fd1 "td_children x" "[]"] fd(1) by simp
  moreover have "tmpfs_readdir ?fd2 (counted (fd_refs ?fd2 h) st) = Some (0, None, ?fd2, counted (fd_refs ?fd2 h) st)"
    using x dir fd(1) by (simp add: tmpfs_readdir_def)
  moreover have "fd_refs ?fd2 h = inc h d" using fd(1) by (simp add: fd_refs_def)
  ultimately show ?thesis by simp
qed

text \<open>
  The value of \<^verbatim>\<open>telldir\<close> leads \<^verbatim>\<open>seekdir\<close> back to the same position, from any other position of a
  descriptor of the same directory, the end included.
\<close>

theorem tmpfs_telldir_seekdir:
  assumes t: "tmp_tree root st" and r: "room h st" and x: "t_dirents st d = Some x"
    and dir: "dirent_inode st d = Some (i, n)" "S_ISDIR (inode_mode n)"
    and fd: "tf_dirent fd = Some d" "\<forall>c. tf_dir_pos fd = Some c \<longrightarrow> c \<in> set (td_children x)"
    and fd': "tf_dirent fd' = Some d" "\<forall>c. tf_dir_pos fd' = Some c \<longrightarrow> c \<in> set (td_children x)"
  shows "\<exists>ptr fd'' st''. tmpfs_telldir fd st = Some ptr \<and>
    tmpfs_seekdir fd' ptr (counted (fd_refs fd' h) st) = Some (fd'', st'') \<and>
    fd'' = fd'\<lparr>tf_dir_pos := tf_dir_pos fd\<rparr> \<and> st'' = counted (fd_refs fd'' h) st"
proof -
  let ?st = "counted (fd_refs fd' h) st"
  have alive: "\<exists>cx. t_dirents st c = Some cx \<and> td_index cx < td_next_index x" if "c \<in> set (td_children x)" for c
    by (rule tree_child [OF t x that]) simp
  have "\<exists>ptr. tmpfs_telldir fd st = Some ptr \<and> find_index ?st ptr (td_children x) = Some (tf_dir_pos fd)"
  proof (cases "tf_dir_pos fd")
    case None
    have "\<forall>c \<in> set (td_children x). \<exists>cx. t_dirents ?st c = Some cx \<and> td_index cx < 2 ^ 64 - 1"
      using alive roomD(2) [OF r x] by fastforce
    then have "find_index ?st (2 ^ 64 - 1) (td_children x) = Some None"
      using find_index_append [of "td_children x" ?st "2 ^ 64 - 1" "[]"] by simp
    then show ?thesis using None by (simp add: tmpfs_telldir_def)
  next
    case (Some c)
    then obtain as bs where s: "td_children x = as @ c # bs" using fd(2) by (meson split_list)
    obtain cx where cx: "t_dirents st c = Some cx"
      "\<forall>a \<in> set as. \<exists>ax. t_dirents st a = Some ax \<and> td_index ax < td_index cx" by (rule children_split [OF t x s])
    have "\<forall>a \<in> set as. \<exists>ax. t_dirents ?st a = Some ax \<and> td_index ax < td_index cx" using cx(2) by fastforce
    then have "find_index ?st (td_index cx) (td_children x) = Some (Some c)"
      unfolding s using find_index_append [of as ?st "td_index cx" "c # bs"] cx(1) by simp
    then show ?thesis using Some cx(1) by (simp add: tmpfs_telldir_def)
  qed
  then obtain ptr where p: "tmpfs_telldir fd st = Some ptr" "find_index ?st ptr (td_children x) = Some (tf_dir_pos fd)" by blast
  have "t_dirents st c \<noteq> None" if "tf_dir_pos fd = Some c \<or> tf_dir_pos fd' = Some c" for c
    using alive fd(2) fd'(2) that by blast
  then have "tmpfs_fd_seekdir fd' (tf_dir_pos fd) ?st =
      Some (fd'\<lparr>tf_dir_pos := tf_dir_pos fd\<rparr>, counted (fd_refs (fd'\<lparr>tf_dir_pos := tf_dir_pos fd\<rparr>) h) st)"
    by (intro fd_seekdir_counted [OF r fd'(1)]) auto
  then show ?thesis using p x dir fd'(1) by (simp add: tmpfs_seekdir_def)
qed

section \<open>Mounting, closing and naming\<close>

text \<open>The store of a new mount.\<close>

definition tmp_empty :: "nat \<Rightarrow> tmp_state" where
  "tmp_empty ino = \<lparr>t_inodes = Map.empty, t_dirents = Map.empty, t_new_inode = 0, t_new_dirent = 0, next_inode = ino\<rparr>"

definition mounted :: "tmp_env \<Rightarrow> nat \<Rightarrow> tmp_state" where
  "mounted e ino = \<lparr>t_inodes = [0 \<mapsto> new_node e 0x41ff ino],
     t_dirents = [0 \<mapsto> (tmp_dirent_init raw_dirent)\<lparr>td_inode := Some 0\<rparr>], t_new_inode = 1, t_new_dirent = 1,
     next_inode = w64 (ino + 1)\<rparr>"

lemma mounted_run:
  assumes "ok_inode e" and "ok_dirent e"
  shows "tmpfs_mount e (tmp_empty ino) = (0, Some 0, mounted e ino)"
  using assms by (simp add: tmpfs_mount_def inode_new_cases tmp_empty_def add_inode_def mounted_def tmp_dirent_init_def
      S_ISREG_def S_IFMT_def)

lemma mounted_ok:
  shows "tmp_ok 0 (\<lambda>d. 0) (mounted e ino)" "tmp_abs 0 (mounted e ino) = [[] \<mapsto> Dir]"
    "child_of (mounted e ino) 0 c = Inl ENOENT" "room h (mounted e ino) \<longleftrightarrow> h 0 + 4 < 2 ^ 32"
proof -
  let ?n = "new_node e 0x41ff ino" and ?x = "(tmp_dirent_init raw_dirent)\<lparr>td_inode := Some 0\<rparr>" and ?st = "mounted e ino"
  have x: "t_dirents ?st = [0 \<mapsto> ?x]" "t_inodes ?st = [0 \<mapsto> ?n]" "td_inode ?x = Some 0" "td_parent ?x = None"
    "td_children ?x = []" "td_next_index ?x = 0" by (simp_all add: mounted_def tmp_dirent_init_def)
  have dir: "S_ISDIR (inode_mode ?n)" by (simp add: S_ISDIR_def S_IFMT_def)
  have di: "dirent_inode ?st 0 = Some (0, ?n)" by (simp add: dirent_inode_def x)
  have "entry_ok 0 ?st 0 ?x" by (simp add: entry_ok_def x)
  then have "tmp_tree 0 ?st" by (simp add: tmp_tree_def x) (simp add: mounted_def)
  moreover have "set_count (\<lambda>d. 0) 0 ?x = ?x" by (simp add: set_count_def tmp_dirent_init_def)
  then have "counted (\<lambda>d. 0) ?st = ?st" by (simp add: counted_def mounted_def fun_eq_iff)
  ultimately show "tmp_ok 0 (\<lambda>d. 0) ?st" by (simp add: tmp_ok_def)
  have c: "child_of ?st 0 c = Inl ENOENT" for c using di dir by (simp add: child_of_def x)
  then show "child_of ?st 0 c = Inl ENOENT" .
  have "tmp_abs 0 ?st cs = [[] \<mapsto> Dir] cs" for cs using di dir c by (cases cs) (simp_all add: tmp_abs_def)
  then show "tmp_abs 0 ?st = [[] \<mapsto> Dir]" by blast
  show "room h ?st \<longleftrightarrow> h 0 + 4 < 2 ^ 32" by (simp add: room_def x)
qed

text \<open>
  A successful mount yields a well-formed file system in which only the root directory exists, and
  without memory the mount reports \<^verbatim>\<open>ENOMEM\<close> and leaves no objects behind.
\<close>

theorem tmpfs_mount_correct:
  "\<exists>err root st. tmpfs_mount e (tmp_empty ino) = (err, root, st) \<and>
    (if ok_inode e \<and> ok_dirent e
     then err = 0 \<and> root = Some 0 \<and> tmp_ok 0 (\<lambda>d. 0) st \<and> tmp_abs 0 st = [[] \<mapsto> Dir]
     else err = ENOMEM \<and> root = None \<and> t_inodes st = Map.empty \<and> t_dirents st = Map.empty)"
proof (cases "ok_inode e \<and> ok_dirent e")
  case False
  then show ?thesis by (auto simp: tmpfs_mount_def tmp_inode_new_def tmp_empty_def tmp_inode_cleanup_def S_ISREG_def S_IFMT_def)
next
  case True
  then show ?thesis using mounted_run [of e ino] mounted_ok(1,2) [of e ino] by simp
qed

text \<open>
  The loop of \<^verbatim>\<open>tmpfs_getpath\<close> never moves to the parent: the path of every entry but the root is
  reported as too long.
\<close>

theorem tmpfs_getpath_fails:
  assumes "tf_dirent fd = Some d" and "t_dirents st d = Some x" and "d \<noteq> root"
  shows "tmpfs_getpath root fd st = Some (Inl ENAMETOOLONG)"
proof -
  have "getpath_loop False name rm suffix = Inl ENAMETOOLONG" for name rm suffix
    by (induction "False" name rm suffix rule: getpath_loop.induct) (subst getpath_loop.simps, simp)
  then show ?thesis using assms by (simp add: tmpfs_getpath_def)
qed

text \<open>Closing a descriptor keeps the reference to the entry it would read next.\<close>

theorem tmpfs_close_leaks:
  assumes r: "room h st" and x: "t_dirents st d = Some x" and fd: "tf_dirent fd = Some d" "tf_dir_pos fd = Some c"
  shows "tmpfs_close fd (counted (fd_refs fd h) st) = Some (0, fd\<lparr>tf_dirent := None\<rparr>, counted (inc h c) st)"
proof -
  have "fd_refs fd h = inc (inc h c) d" using fd by (simp add: fd_refs_def inc_commute [of h d c])
  then show ?thesis using release_room(2) [OF x r] fd(1) by (simp add: tmpfs_close_def)
qed

section \<open>Examples\<close>

text \<open>A file system with one file \<^verbatim>\<open>/f\<close>, held by one descriptor.\<close>

definition demo_tenv :: tmp_env where
  "demo_tenv = \<lparr>ok_inode = True, ok_data = True, ok_dirent = True, ok_fd = True, ok_realloc = True,
     te_cred = \<lparr>euid = 0, egid = 0\<rparr>\<rparr>"

definition demo_node :: tmp_inode where
  "demo_node = new_node demo_tenv 0x81a4 8"

definition demo_tree :: tmp_state where
  "demo_tree = created 0 ''f'' demo_node (mounted demo_tenv 7)"

definition demo_fd :: tmp_fd where
  "demo_fd = \<lparr>tf_offset = 0, tf_dirent = Some 1, tf_dir_pos = None\<rparr>"

definition demo_dirfd :: tmp_fd where
  "demo_dirfd = \<lparr>tf_offset = 0, tf_dirent = Some 0, tf_dir_pos = None\<rparr>"

lemma demo_env_ok [simp]: "ok_inode demo_tenv" "ok_data demo_tenv" "ok_dirent demo_tenv" "ok_fd demo_tenv" "ok_realloc demo_tenv"
  by (simp_all add: demo_tenv_def)

lemma demo_room [simp]: "room (\<lambda>d. 0) (mounted demo_tenv 7)"
  by (simp add: mounted_ok(4))

lemma demo_node_ok: "inode_ok demo_node" "node_of demo_node = File []"
  by (simp_all add: demo_node_def node_of_def S_ISDIR_def S_ISREG_def S_IFMT_def) (simp add: new_node_def S_ISREG_def S_IFMT_def)

lemma demo_tree_ok:
  "tmp_tree 0 demo_tree" "tmp_abs 0 demo_tree = [[] \<mapsto> Dir, [''f''] \<mapsto> File []]"
  "tmp_resolve demo_tree 0 [''f''] = Inr 1" "tmp_ok 0 (inc (\<lambda>d. 0) 1) (counted (inc (\<lambda>d. 0) 1) demo_tree)"
  "\<exists>x. t_dirents demo_tree 0 = Some x \<and> td_children x = [1] \<and> td_next_index x = 1"
  "\<exists>x. t_dirents demo_tree 1 = Some x \<and> td_name x = ''f'' \<and> td_children x = [] \<and> td_next_index x = 0"
  "room h demo_tree \<longleftrightarrow> h 0 + 5 < 2 ^ 32 \<and> h 1 + 4 < 2 ^ 32"
proof -
  let ?st = "mounted demo_tenv 7"
  have t: "tmp_tree 0 ?st" using mounted_ok(1) [of demo_tenv 7] by (simp add: tmp_ok_def)
  have x: "t_dirents ?st 0 = Some ((tmp_dirent_init raw_dirent)\<lparr>td_inode := Some 0\<rparr>)" "t_new_dirent ?st = 1"
    by (simp_all add: mounted_def)
  show "tmp_tree 0 demo_tree"
    using created_ok(1) [OF t x(1) mounted_ok(3) _ demo_node_ok(1), of "[]" "''f''"] by (simp add: demo_tree_def)
  show "tmp_abs 0 demo_tree = [[] \<mapsto> Dir, [''f''] \<mapsto> File []]"
    using created_ok(2) [OF t x(1) mounted_ok(3) _ demo_node_ok(1), of "[]" "''f''"] mounted_ok(2)
    by (simp add: demo_tree_def demo_node_ok(2))
  show "tmp_resolve demo_tree 0 [''f''] = Inr 1"
    using created_ok(3) [OF t x(1) mounted_ok(3) _ demo_node_ok(1), of "[]" "''f''"] x(2) by (simp add: demo_tree_def)
  have d: "t_dirents demo_tree = [0 \<mapsto> (tmp_dirent_init raw_dirent)\<lparr>td_inode := Some 0, td_next_index := 1, td_children := [1]\<rparr>,
      1 \<mapsto> (tmp_dirent_init raw_dirent)\<lparr>td_name := ''f'', td_inode := Some 1, td_parent := Some 0\<rparr>]"
    by (auto simp: demo_tree_def created_def link_entry_def mounted_def Let_def tmp_dirent_init_def fun_eq_iff)
  have "\<forall>d. t_dirents demo_tree d = None \<longrightarrow> inc (\<lambda>d. 0) 1 d = 0" by (simp add: d inc_def)
  then show "tmp_ok 0 (inc (\<lambda>d. 0) 1) (counted (inc (\<lambda>d. 0) 1) demo_tree)"
    by (rule tmp_ok_counted [OF \<open>tmp_tree 0 demo_tree\<close>])
  show "\<exists>x. t_dirents demo_tree 0 = Some x \<and> td_children x = [1] \<and> td_next_index x = 1"
    "\<exists>x. t_dirents demo_tree 1 = Some x \<and> td_name x = ''f'' \<and> td_children x = [] \<and> td_next_index x = 0"
    by (simp_all add: d tmp_dirent_init_def)
  show "room h demo_tree \<longleftrightarrow> h 0 + 5 < 2 ^ 32 \<and> h 1 + 4 < 2 ^ 32"
    by (auto simp: room_def d tmp_dirent_init_def)
qed


theorem tmpfs_open_refines_witness:
  "\<exists>fd st'. tmpfs_open demo_tenv 0 ''/f'' (O_CREAT OR O_EXCL) 0x1a4 (mounted demo_tenv 7) = Some (Inr fd, st') \<and>
    tmp_abs 0 st' = [[] \<mapsto> Dir, [''f''] \<mapsto> File []] \<and> tmp_ok 0 (fd_refs fd (\<lambda>d. 0)) st'"
proof -
  let ?A = "[[] \<mapsto> Dir, [''f''] \<mapsto> File []]"
  have spec: "spec_create True (File []) [] ''f'' (tmp_abs 0 (mounted demo_tenv 7)) = (0, ?A)"
    by (simp add: mounted_ok(2) spec_create_def)
  have "short_comps ([] @ [''f''])" "set_in (O_CREAT OR O_EXCL) O_CREAT" "(0x1a4 :: nat) < 2 ^ 12"
    by (simp_all add: is_comp_def MAX_NAME_def set_in_def)
  from tmpfs_open_refines [OF mounted_ok(1) demo_room this(1,3) demo_env_ok(1-4) this(2) spec]
  obtain res st' where run: "tmpfs_open demo_tenv 0 ''/f'' (O_CREAT OR O_EXCL) 0x1a4 (mounted demo_tenv 7) = Some (res, st')"
    and res: "\<And>err. res \<noteq> Inl err" "\<And>fd. res = Inr fd \<Longrightarrow> tmp_abs 0 st' = ?A \<and> tmp_ok 0 (fd_refs fd (\<lambda>d. 0)) st'"
    by (elim exE conjE) (fastforce simp del: tmp_resolve.simps)
  show ?thesis using run res by (cases res) auto
qed

theorem tmpfs_write_read_witness:
  "\<exists>st' fd'. tmpfs_write demo_tenv (demo_fd\<lparr>tf_offset := 2\<rparr>) [65, 66] (counted (inc (\<lambda>d. 0) 1) demo_tree) = Some (2, fd', st') \<and>
    tmp_abs 0 st' = [[] \<mapsto> Dir, [''f''] \<mapsto> File [0, 0, 65, 66]]"
proof -
  have "tmp_resolve (counted (inc (\<lambda>d. 0) 1) demo_tree) 0 [''f''] = Inr 1"
    unfolding resolve_counted(2) [OF demo_tree_ok(1)] by (rule demo_tree_ok(3))
  moreover have "tmp_abs 0 (counted (inc (\<lambda>d. 0) 1) demo_tree) [''f''] = Some (File [])"
    using demo_tree_ok(1,2) by simp
  moreover have "write_at 2 [65, 66] [] = [0, 0, 65, 66]" by (simp add: write_at_def numeral_2_eq_2)
  ultimately show ?thesis
    using tmpfs_write_read [OF demo_tree_ok(4), of "demo_fd\<lparr>tf_offset := 2\<rparr>" 1 "[''f'']" "[]" demo_tenv "[65, 66]"]
      demo_tree_ok(1,2)
    by (auto simp: demo_fd_def simp del: tmp_resolve.simps)
qed

theorem tmpfs_read_past_end_witness:
  "\<exists>fd'. tmpfs_lseek demo_fd 10 0 demo_tree = Some (10, fd') \<and> tmpfs_read fd' 4 demo_tree = None"
proof -
  have "tmpfs_fd_inode demo_fd demo_tree = Some (1, demo_node)"
    by (simp add: tmpfs_fd_inode_def demo_fd_def demo_tree_def created_def link_entry_def Let_def dirent_inode_def mounted_def
        tmp_dirent_init_def)
  from tmpfs_read_past_end [OF this demo_node_ok, of 10 4] show ?thesis by simp
qed

lemma demo_root: "dirent_inode demo_tree 0 = Some (0, new_node demo_tenv 0x41ff 7)" "S_ISDIR (inode_mode (new_node e 0x41ff ino))"
  by (simp_all add: demo_tree_def created_def link_entry_def Let_def dirent_inode_def mounted_def tmp_dirent_init_def
      S_ISDIR_def S_IFMT_def)

theorem tmpfs_readdir_all_witness:
  "\<exists>fd1 st1 fd2 st2. tmpfs_seekdir demo_dirfd 0 (counted (fd_refs demo_dirfd (\<lambda>d. 0)) demo_tree) = Some (fd1, st1) \<and>
    readdir_n 1 fd1 st1 = Some ([(8, ''f'')], fd2, st2) \<and> tmpfs_readdir fd2 st2 = Some (0, None, fd2, st2)"
proof -
  obtain x where x: "t_dirents demo_tree 0 = Some x" "td_children x = [1]" using demo_tree_ok(5) by blast
  have e: "entry_of demo_tree 1 = (8, ''f'')"
    by (simp add: entry_of_def demo_tree_def created_def link_entry_def Let_def dirent_inode_def mounted_def tmp_dirent_init_def
        demo_node_def new_node_def)
  show ?thesis
    using tmpfs_readdir_all [OF demo_tree_ok(1) _ x(1) demo_root, of "\<lambda>d. 0" demo_dirfd] x(2) e
    by (auto simp: demo_tree_ok(7) demo_dirfd_def)
qed

theorem tmpfs_telldir_seekdir_witness:
  "\<exists>ptr fd'' st''. tmpfs_telldir demo_dirfd demo_tree = Some ptr \<and>
    tmpfs_seekdir (demo_dirfd\<lparr>tf_dir_pos := Some 1\<rparr>) ptr
      (counted (fd_refs (demo_dirfd\<lparr>tf_dir_pos := Some 1\<rparr>) (\<lambda>d. 0)) demo_tree) = Some (fd'', st'') \<and> tf_dir_pos fd'' = None"
proof -
  obtain x where x: "t_dirents demo_tree 0 = Some x" "td_children x = [1]" using demo_tree_ok(5) by blast
  show ?thesis
    using tmpfs_telldir_seekdir [OF demo_tree_ok(1) _ x(1) demo_root, of "\<lambda>d. 0" demo_dirfd "demo_dirfd\<lparr>tf_dir_pos := Some 1\<rparr>"] x(2)
    by (auto simp: demo_tree_ok(7) demo_dirfd_def)
qed

text \<open>
  The path of the mount point itself is empty inside the mount. Making a directory there does not
  report that it exists, but adds an entry without a name to the root.
\<close>

theorem tmpfs_mkdir_mount_point:
  "\<exists>st'. tmpfs_mkdir demo_tenv 0 [] 0x1ed (mounted demo_tenv 7) = Some (0, st') \<and> tmp_resolve st' 0 [[]] = Inr 1"
  by (simp add: tmpfs_mkdir_def tmpfs_lookup_parent_def tmpfs_lookup0_def tmpfs_walk.simps path_next_component_def
      tmp_dirent_retain_def tmp_dirent_release_def tmpfs_dir_lookup_existence_def tmpfs_dir_lookup_def dirent_inode_def
      mounted_def new_node_def tmp_dirent_init_def S_ISDIR_def S_ISREG_def S_IFMT_def w32_def inode_new_cases add_inode_def
      tmpfs_dir_link_def tmp_inode_retain_def Let_def child_of_def)

end
