(* ===== verification/Flock.thy ===== *)
theory Flock
  imports Prelude
begin

text \<open>
  POSIX record locks, \<^verbatim>\<open>fs/lock.c\<close>. The locks of an inode are the list \<^verbatim>\<open>posix_locks\<close>, in
  its order. Positions are integers; the subtraction in \<^verbatim>\<open>file_locks_adjacent\<close> is undefined in C
  for a lock that starts at the smallest 64-bit number.
\<close>

section \<open>Definitions\<close>

abbreviation (input) F_RDLCK :: nat where "F_RDLCK \<equiv> 0"

abbreviation (input) F_WRLCK :: nat where "F_WRLCK \<equiv> 1"

abbreviation (input) F_UNLCK :: nat where "F_UNLCK \<equiv> 2"

record file_lock =
  l_start :: int
  l_end :: int
  l_type :: nat
  l_pid :: int
  l_owner :: nat

definition file_locks_overlap :: "file_lock \<Rightarrow> file_lock \<Rightarrow> bool" where
  "file_locks_overlap a b \<longleftrightarrow> l_end a \<ge> l_start b \<and> l_end b \<ge> l_start a"

definition file_locks_conflict :: "file_lock \<Rightarrow> file_lock \<Rightarrow> bool" where
  "file_locks_conflict a b \<longleftrightarrow>
     l_owner a \<noteq> l_owner b \<and> file_locks_overlap a b \<and> (l_type a = F_WRLCK \<or> l_type b = F_WRLCK)"

definition file_locks_adjacent :: "file_lock \<Rightarrow> file_lock \<Rightarrow> bool" where
  "file_locks_adjacent a b \<longleftrightarrow> l_end a = l_start b - 1 \<or> l_end b = l_start a - 1"

definition file_lock_test :: "file_lock list \<Rightarrow> file_lock \<Rightarrow> file_lock option" where
  "file_lock_test ls request = find (\<lambda>l. file_locks_conflict l request) ls"

definition file_lock_copy :: "file_lock \<Rightarrow> file_lock" where
  "file_lock_copy l =
     \<lparr>l_start = l_start l, l_end = l_end l, l_type = l_type l, l_pid = l_pid l, l_owner = l_owner l\<rparr>"

text \<open>Extending the request until it covers a lock of the same type.\<close>

definition merge_lock :: "file_lock \<Rightarrow> file_lock \<Rightarrow> file_lock" where
  "merge_lock request l =
     (let r1 = (if l_start l < l_start request then request\<lparr>l_start := l_start l\<rparr> else request)
      in if l_end l > l_end r1 then r1\<lparr>l_end := l_end l\<rparr> else r1)"

text \<open>
  Subtracting the request from an overlapping lock of another type: what remains of the lock. The
  last alternative is not reached; the assertions in the two before it hold for overlapping locks.
\<close>

definition subtract_lock :: "file_lock \<Rightarrow> file_lock \<Rightarrow> file_lock list" where
  "subtract_lock request l =
     (if l_start request > l_start l \<and> l_end request < l_end l
      then [l\<lparr>l_end := l_start request - 1\<rparr>, (file_lock_copy l)\<lparr>l_start := l_end request + 1\<rparr>]
      else if l_start request \<le> l_start l \<and> l_end request \<ge> l_end l then []
      else if l_start l < l_start request then [l\<lparr>l_end := l_start request - 1\<rparr>]
      else if l_end l > l_end request then [l\<lparr>l_start := l_end request + 1\<rparr>]
      else [l])"

text \<open>
  The loop over the locks: what it leaves in front of its last position, the request it extended,
  the locks from the last position on, and whether a waiter was notified.
\<close>

fun acquire_scan ::
  "bool \<Rightarrow> file_lock \<Rightarrow> file_lock list \<Rightarrow> file_lock list \<times> file_lock \<times> file_lock list \<times> bool" where
  "acquire_scan found request [] = ([], request, [], False)"
| "acquire_scan found request (l # ls) =
     (if l_owner l \<noteq> l_owner request then
        (if found then ([], request, l # ls, False)
         else let (done, r, rest, n) = acquire_scan False request ls in (l # done, r, rest, n))
      else if l_type request = l_type l then
        (if \<not> file_locks_overlap l request \<and> \<not> file_locks_adjacent request l
         then let (done, r, rest, n) = acquire_scan True request ls in (l # done, r, rest, n)
         else acquire_scan True (merge_lock request l) ls)
      else
        (if \<not> file_locks_overlap l request
         then let (done, r, rest, n) = acquire_scan True request ls in (l # done, r, rest, n)
         else let (done, r, rest, n) = acquire_scan True request ls
              in (subtract_lock request l @ done, r, rest, True)))"

definition file_lock_acquire :: "file_lock list \<Rightarrow> file_lock \<Rightarrow> int \<times> file_lock list \<times> bool" where
  "file_lock_acquire ls request =
     (if l_type request \<noteq> F_UNLCK \<and> list_ex (\<lambda>l. file_locks_conflict l request) ls
      then (EAGAIN, ls, False)
      else let (done, r, rest, n) = acquire_scan False request ls
           in (0, done @ (if l_type request \<noteq> F_UNLCK then [file_lock_copy r] else []) @ rest, n))"

abbreviation (input) OFF_T_MAX :: int where "OFF_T_MAX \<equiv> 2 ^ 63 - 1"

record flock =
  k_type :: nat
  k_whence :: nat
  k_start :: int
  k_len :: int
  k_pid :: int

text \<open>
  \<open>cur\<close> is what \<^verbatim>\<open>lseek\<close> reports, \<^const>\<open>None\<close> when the file has no such function, and \<open>size\<close> what
  \<^verbatim>\<open>fstat\<close> reports. Sums wrap at 64 bits where C leaves the overflow undefined.
\<close>

definition lock_offset :: "int option \<Rightarrow> int + int \<Rightarrow> nat \<Rightarrow> int + int" where
  "lock_offset cur sz whence =
     (if whence = 0 then Inr 0
      else if whence = 1 then
        (case cur of None \<Rightarrow> Inr 0 | Some offset \<Rightarrow> if offset < 0 then Inl (s32 offset) else Inr offset)
      else if whence = 2 then
        (case sz of Inl err \<Rightarrow> Inl err | Inr n \<Rightarrow> Inr n)
      else Inl EINVAL)"

definition file_lock_from_flock ::
  "int option \<Rightarrow> int + int \<Rightarrow> nat \<Rightarrow> int \<Rightarrow> flock \<Rightarrow> int + file_lock" where
  "file_lock_from_flock cur sz owner pid fl =
     (case lock_offset cur sz (k_whence fl) of
        Inl err \<Rightarrow> Inl err
      | Inr offset \<Rightarrow>
          let start = s64 (k_start fl + offset)
          in Inr \<lparr>l_start = (if k_len fl < 0 then s64 (start - 1 + k_len fl + 1) else start),
                  l_end = (if k_len fl > 0 then s64 (start + k_len fl - 1)
                           else if k_len fl < 0 then s64 (start - 1) else OFF_T_MAX),
                  l_type = k_type fl, l_pid = pid, l_owner = owner\<rparr>)"

definition flock_from_file_lock :: "file_lock \<Rightarrow> flock" where
  "flock_from_file_lock l =
     \<lparr>k_type = l_type l, k_whence = 0, k_start = l_start l,
      k_len = (if l_end l \<noteq> OFF_T_MAX then s64 (l_end l - l_start l + 1) else 0), k_pid = l_pid l\<rparr>"

definition fcntl_getlk ::
  "int option \<Rightarrow> int + int \<Rightarrow> nat \<Rightarrow> int \<Rightarrow> file_lock list \<Rightarrow> flock \<Rightarrow> int \<times> flock" where
  "fcntl_getlk cur sz owner pid ls fl =
     (if k_type fl \<noteq> F_RDLCK \<and> k_type fl \<noteq> F_WRLCK then (EINVAL, fl)
      else case file_lock_from_flock cur sz owner pid fl of
             Inl err \<Rightarrow> (err, fl)
           | Inr request \<Rightarrow>
               (case file_lock_test ls request of
                  Some l \<Rightarrow> (0, flock_from_file_lock l)
                | None \<Rightarrow> (0, fl\<lparr>k_type := F_UNLCK\<rparr>)))"

text \<open>
  The retry loop. \<open>waits\<close> lists, for each wait on the condition, what \<^verbatim>\<open>wait_for\<close> returns and the
  locks of the inode afterwards; the value is \<^const>\<open>None\<close> while the call is still waiting.
\<close>

fun setlk_loop ::
  "bool \<Rightarrow> file_lock \<Rightarrow> file_lock list \<Rightarrow> (int \<times> file_lock list) list \<Rightarrow> (int \<times> file_lock list) option" where
  "setlk_loop blocking request ls waits =
     (case file_lock_acquire ls request of
        (err, ls', n) \<Rightarrow>
          if err = EAGAIN \<and> blocking then
            (case waits of
               [] \<Rightarrow> None
             | (werr, ls1) # rest \<Rightarrow>
                 if werr < 0 then Some (werr, ls1) else setlk_loop blocking request ls1 rest)
          else Some (err, ls'))"

definition fcntl_setlk ::
  "int option \<Rightarrow> int + int \<Rightarrow> nat \<Rightarrow> int \<Rightarrow> nat \<Rightarrow> flock \<Rightarrow> bool \<Rightarrow> file_lock list \<Rightarrow>
   (int \<times> file_lock list) list \<Rightarrow> (int \<times> file_lock list) option" where
  "fcntl_setlk cur sz owner pid fd_flags fl blocking ls waits =
     (if k_type fl \<noteq> F_RDLCK \<and> k_type fl \<noteq> F_WRLCK \<and> k_type fl \<noteq> F_UNLCK then Some (EINVAL, ls)
      else let fd_mode = fd_flags AND 3
           in if k_type fl = F_RDLCK \<and> fd_mode = 1 then Some (EBADF, ls)
              else if k_type fl = F_WRLCK \<and> fd_mode = 0 then Some (EBADF, ls)
              else case file_lock_from_flock cur sz owner pid fl of
                     Inl err \<Rightarrow> Some (err, ls)
                   | Inr request \<Rightarrow> setlk_loop blocking request ls waits)"

definition file_lock_remove_owned_by :: "nat \<Rightarrow> file_lock list \<Rightarrow> file_lock list" where
  "file_lock_remove_owned_by owner ls = filter (\<lambda>l. l_owner l \<noteq> owner) ls"

section \<open>What a list of locks grants\<close>

definition covers :: "file_lock \<Rightarrow> int \<Rightarrow> bool" where
  "covers l x \<longleftrightarrow> l_start l \<le> x \<and> x \<le> l_end l"

text \<open>Owner \<open>ow\<close> holds a lock of type \<open>t\<close> on the byte \<open>x\<close>.\<close>

definition locked :: "file_lock list \<Rightarrow> nat \<Rightarrow> int \<Rightarrow> nat \<Rightarrow> bool" where
  "locked ls ow x t \<longleftrightarrow> (\<exists>l \<in> set ls. l_owner l = ow \<and> l_type l = t \<and> covers l x)"

definition held :: "file_lock list \<Rightarrow> nat \<Rightarrow> int \<Rightarrow> bool" where
  "held ls ow x \<longleftrightarrow> (\<exists>l \<in> set ls. l_owner l = ow \<and> covers l x)"

text \<open>Locks of one owner are disjoint, and they stand next to each other in the list.\<close>

definition apart :: "file_lock \<Rightarrow> file_lock \<Rightarrow> bool" where
  "apart a b \<longleftrightarrow> (l_owner a = l_owner b \<longrightarrow> (\<forall>x. \<not> (covers a x \<and> covers b x)))"

fun grouped :: "nat list \<Rightarrow> bool" where
  "grouped [] = True"
| "grouped (x # xs) = (grouped xs \<and> (x \<in> set xs \<longrightarrow> hd xs = x))"

definition lock_wf :: "file_lock \<Rightarrow> bool" where
  "lock_wf l \<longleftrightarrow> l_start l \<le> l_end l"

definition locks_ok :: "file_lock list \<Rightarrow> bool" where
  "locks_ok ls \<longleftrightarrow> sorted_wrt apart ls \<and> grouped (map l_owner ls) \<and>
     (\<forall>l \<in> set ls. lock_wf l \<and> l_type l \<noteq> F_UNLCK)"

lemma locked_simps [simp]:
  "\<not> locked [] ow x t"
  "locked (l # ls) ow x t \<longleftrightarrow> l_owner l = ow \<and> l_type l = t \<and> covers l x \<or> locked ls ow x t"
  "locked (as @ bs) ow x t \<longleftrightarrow> locked as ow x t \<or> locked bs ow x t"
  by (auto simp: locked_def)

lemma held_Cons [simp]: "held (l # ls) ow x \<longleftrightarrow> l_owner l = ow \<and> covers l x \<or> held ls ow x"
  by (auto simp: held_def)

lemma overlap_covers:
  "lock_wf a \<Longrightarrow> lock_wf b \<Longrightarrow> file_locks_overlap a b \<longleftrightarrow> (\<exists>x. covers a x \<and> covers b x)"
proof
  assume wf: "lock_wf a" "lock_wf b" and "file_locks_overlap a b"
  then have "covers a (max (l_start a) (l_start b)) \<and> covers b (max (l_start a) (l_start b))"
    by (auto simp: file_locks_overlap_def covers_def lock_wf_def)
  then show "\<exists>x. covers a x \<and> covers b x" by blast
qed (auto simp: file_locks_overlap_def covers_def)

lemma merge_lock_simps [simp]:
  "l_owner (merge_lock r l) = l_owner r" "l_type (merge_lock r l) = l_type r"
  "l_pid (merge_lock r l) = l_pid r"
  by (simp_all add: merge_lock_def Let_def)

lemma covers_merge:
  assumes "lock_wf r" "lock_wf l" "file_locks_overlap l r \<or> file_locks_adjacent r l"
  shows "covers (merge_lock r l) x \<longleftrightarrow> covers r x \<or> covers l x" "lock_wf (merge_lock r l)"
  using assms by (auto simp: merge_lock_def covers_def lock_wf_def file_locks_overlap_def
      file_locks_adjacent_def)

lemma subtract_lock_ok:
  assumes "lock_wf r" "lock_wf l" "file_locks_overlap l r"
  shows "\<forall>d \<in> set (subtract_lock r l). l_owner d = l_owner l \<and> l_type d = l_type l \<and> lock_wf d"
    and "(\<exists>d \<in> set (subtract_lock r l). covers d x) \<longleftrightarrow> covers l x \<and> \<not> covers r x"
    and "sorted_wrt apart (subtract_lock r l)"
  using assms
  by (auto simp: subtract_lock_def file_lock_copy_def covers_def lock_wf_def file_locks_overlap_def apart_def)

text \<open>What the loop leaves, compared with the locks it passed.\<close>

definition scanned :: "file_lock \<Rightarrow> file_lock list \<Rightarrow> file_lock list \<Rightarrow> file_lock \<Rightarrow> bool" where
  "scanned r pre done r' \<longleftrightarrow>
     l_owner r' = l_owner r \<and> l_type r' = l_type r \<and> lock_wf r' \<and>
     (\<forall>ow x t. ow \<noteq> l_owner r \<longrightarrow> (locked done ow x t \<longleftrightarrow> locked pre ow x t)) \<and>
     (\<forall>x. covers r' x \<or> locked done (l_owner r) x (l_type r) \<longleftrightarrow>
          covers r x \<or> locked pre (l_owner r) x (l_type r)) \<and>
     (\<forall>x t. t \<noteq> l_type r \<longrightarrow>
        (locked done (l_owner r) x t \<longleftrightarrow> locked pre (l_owner r) x t \<and> \<not> covers r x)) \<and>
     (\<forall>x. covers r x \<longrightarrow> covers r' x) \<and>
     (\<forall>x. covers r' x \<longrightarrow> covers r x \<or> locked pre (l_owner r) x (l_type r)) \<and>
     (\<forall>d \<in> set done. apart d r' \<and> lock_wf d \<and> l_type d \<in> l_type ` set pre \<and> l_owner d \<in> l_owner ` set pre) \<and>
     (\<forall>d \<in> set done. \<forall>x. covers d x \<longrightarrow> held pre (l_owner d) x) \<and>
     sorted_wrt apart done"

lemma apart_locked:
  assumes "\<forall>b \<in> set bs. apart a b" "locked bs (l_owner a) x t"
  shows "\<not> covers a x"
  using assms by (auto simp: locked_def apart_def)

lemma apart_held:
  assumes "\<forall>b \<in> set bs. apart a b" "held bs (l_owner a) x"
  shows "\<not> covers a x"
  using assms by (auto simp: held_def apart_def)

lemma apart_commute: "apart a b \<longleftrightarrow> apart b a"
  by (auto simp: apart_def)

lemma scanned_within: "scanned r pre done r' \<Longrightarrow> d \<in> set done \<Longrightarrow> covers d x \<Longrightarrow> held pre (l_owner d) x"
  by (simp add: scanned_def)

lemma scanned_keep:
  assumes s: "scanned r pre done r'" and wf: "lock_wf l" and apart: "\<forall>b \<in> set pre. apart l b"
    and out: "l_owner l = l_owner r \<Longrightarrow> \<forall>x. \<not> (covers l x \<and> covers r x)"
  shows "scanned r (l # pre) (l # done) r'"
proof -
  have l_r': "apart l r'"
  proof (cases "l_owner l = l_owner r")
    case True
    then have "\<not> (covers l x \<and> covers r' x)" for x
      using s out apart_locked[OF apart, of x] unfolding scanned_def by metis
    then show ?thesis by (simp add: apart_def)
  next
    case False
    then show ?thesis using s by (simp add: apart_def scanned_def)
  qed
  have l_done: "\<forall>d \<in> set done. apart l d"
  proof
    fix d assume d: "d \<in> set done"
    show "apart l d" unfolding apart_def
    proof (intro impI allI notI)
      fix x assume own: "l_owner l = l_owner d" and c: "covers l x \<and> covers d x"
      then show False using apart_held[OF apart, of x] scanned_within[OF s d] by simp
    qed
  qed
  show ?thesis using s wf l_r' l_done out unfolding scanned_def
    by (elim conjE) (intro conjI; auto)
qed

lemma scanned_merge:
  assumes s: "scanned (merge_lock r l) pre done r'" and wf: "lock_wf r" "lock_wf l"
    and apart: "\<forall>b \<in> set pre. apart l b" and l: "l_owner l = l_owner r" "l_type l = l_type r"
    and near: "file_locks_overlap l r \<or> file_locks_adjacent r l"
  shows "scanned r (l # pre) done r'"
proof -
  have m: "covers (merge_lock r l) x \<longleftrightarrow> covers r x \<or> covers l x" for x by (rule covers_merge(1)[OF wf near])
  have "locked pre (l_owner r) x t \<Longrightarrow> \<not> covers l x" for x t using apart_locked[OF apart] l(1) by metis
  then show ?thesis using s l unfolding scanned_def merge_lock_simps m
    by (elim conjE) (intro conjI; auto)
qed

lemma scanned_subtract:
  assumes s: "scanned r pre done r'" and wf: "lock_wf r" "lock_wf l"
    and apart: "\<forall>b \<in> set pre. apart l b" and l: "l_owner l = l_owner r" "l_type l \<noteq> l_type r"
    and over: "file_locks_overlap l r"
  shows "scanned r (l # pre) (subtract_lock r l @ done) r'"
proof -
  note sub = subtract_lock_ok[OF wf over]
  have piece: "covers l x" "\<not> covers r x" if "d \<in> set (subtract_lock r l)" "covers d x" for d x
    using that sub(2) by blast+
  have lk: "locked (subtract_lock r l) ow x t \<longleftrightarrow> l_owner l = ow \<and> l_type l = t \<and> covers l x \<and> \<not> covers r x" for ow x t
    using sub(1) sub(2)[of x] unfolding locked_def by metis
  have no: "locked pre (l_owner r) x t \<Longrightarrow> \<not> covers l x" for x t using apart_locked[OF apart] l(1) by metis
  have p_r': "apart d r'" if d: "d \<in> set (subtract_lock r l)" for d
    unfolding apart_def
  proof (intro impI allI notI)
    fix x assume "covers d x \<and> covers r' x"
    then show False using piece[OF d, of x] s no[of x "l_type r"] unfolding scanned_def by blast
  qed
  have p_done: "apart d e" if d: "d \<in> set (subtract_lock r l)" and e: "e \<in> set done" for d e
    unfolding apart_def
  proof (intro impI allI notI)
    fix x assume own: "l_owner d = l_owner e" and c: "covers d x \<and> covers e x"
    have "l_owner e = l_owner l" using own sub(1) d by simp
    then show False using apart_held[OF apart, of x] scanned_within[OF s e] piece[OF d] c by simp
  qed
  show ?thesis using s l sub(1,3) lk no p_r' p_done piece unfolding scanned_def sorted_wrt_append
    by (elim conjE) (intro conjI; auto)
qed

lemma scanned_Nil: "lock_wf r \<Longrightarrow> scanned r [] [] r"
  by (simp add: scanned_def)

lemma acquire_scan_ok:
  assumes "acquire_scan found r ls = (dn, r', rest, n)" "sorted_wrt apart ls" "\<forall>l \<in> set ls. lock_wf l" "lock_wf r"
  shows "\<exists>pre. ls = pre @ rest \<and> scanned r pre dn r'"
  using assms
proof (induction found r ls arbitrary: dn r' rest n rule: acquire_scan.induct)
  case (1 found r)
  then show ?case using scanned_Nil by simp
next
  case (2 found r l ls)
  have wf: "lock_wf l" "\<forall>l \<in> set ls. lock_wf l" "lock_wf r" using "2.prems" by auto
  have srt: "sorted_wrt apart ls" "\<forall>b \<in> set ls. apart l b" using "2.prems"(2) by auto
  have sub: "\<forall>b \<in> set pre. apart l b" if "ls = pre @ rest'" for pre rest' using srt(2) that by auto
  have over: "file_locks_overlap l r \<longleftrightarrow> (\<exists>x. covers l x \<and> covers r x)"
    using overlap_covers[OF wf(1,3)] .
  show ?case
  proof (cases "l_owner l = l_owner r")
    case False
    show ?thesis
    proof (cases found)
      case True
      then show ?thesis using "2.prems"(1) False scanned_Nil[OF wf(3)] by auto
    next
      case nf: False
      obtain d where s: "acquire_scan False r ls = (d, r', rest, n)" "dn = l # d"
        using "2.prems"(1) False nf by (auto split: prod.splits)
      obtain pre where pre: "ls = pre @ rest" "scanned r pre d r'"
        using "2.IH"(1)[OF False nf s(1) srt(1) wf(2,3)] by blast
      have "scanned r (l # pre) (l # d) r'"
        by (rule scanned_keep[OF pre(2) wf(1) sub[OF pre(1)]]) (use False in simp)
      then show ?thesis using pre(1) s(2) by auto
    qed
  next
    case own: True
    show ?thesis
    proof (cases "l_type r = l_type l \<and> (file_locks_overlap l r \<or> file_locks_adjacent r l)")
      case True
      then have s: "acquire_scan True (merge_lock r l) ls = (dn, r', rest, n)"
        using "2.prems"(1) own by auto
      have near: "file_locks_overlap l r \<or> file_locks_adjacent r l" using True by simp
      obtain pre where pre: "ls = pre @ rest" "scanned (merge_lock r l) pre dn r'"
        using "2.IH"(3)[of dn r' rest n] own True s srt(1) wf(2) covers_merge(2)[OF wf(3,1) near] by auto
      have "scanned r (l # pre) dn r'"
        by (rule scanned_merge[OF pre(2) wf(3,1) sub[OF pre(1)] own _ near]) (use True in simp)
      then show ?thesis using pre(1) by auto
    next
      case apt: False
      show ?thesis
      proof (cases "file_locks_overlap l r")
        case True
        then have ty: "l_type l \<noteq> l_type r" using apt by auto
        obtain d n' where s: "acquire_scan True r ls = (d, r', rest, n')" "dn = subtract_lock r l @ d"
          using "2.prems"(1) own ty True by (auto split: prod.splits)
        obtain pre where pre: "ls = pre @ rest" "scanned r pre d r'"
          using "2.IH"(5)[of d r' rest n'] own ty True s(1) srt(1) wf(2,3) by auto
        have "scanned r (l # pre) (subtract_lock r l @ d) r'"
          by (rule scanned_subtract[OF pre(2) wf(3,1) sub[OF pre(1)] own ty True])
        then show ?thesis using pre(1) s(2) by auto
      next
        case False
        obtain d n' where s: "acquire_scan True r ls = (d, r', rest, n')" "dn = l # d"
          using "2.prems"(1) own apt False by (auto split: prod.splits if_splits)
        obtain pre where pre: "ls = pre @ rest" "scanned r pre d r'"
          using "2.IH"(2)[of d r' rest n'] "2.IH"(4)[of d r' rest n'] own apt False s(1) srt(1) wf(2,3)
          by (cases "l_type r = l_type l") auto
        have "scanned r (l # pre) (l # d) r'"
          by (rule scanned_keep[OF pre(2) wf(1) sub[OF pre(1)]]) (use over False in blast)
        then show ?thesis using pre(1) s(2) by auto
      qed
    qed
  qed
qed

text \<open>The loop stops behind the locks of the owner, which stand together.\<close>

lemma acquire_scan_rest:
  assumes "acquire_scan found r ls = (dn, r', rest, n)" "grouped (map l_owner ls)"
    and "found \<Longrightarrow> l_owner r \<in> l_owner ` set ls \<Longrightarrow> l_owner (hd ls) = l_owner r"
  shows "l_owner r \<notin> l_owner ` set rest"
  using assms
proof (induction found r ls arbitrary: dn r' rest n rule: acquire_scan.induct)
  case (1 found r)
  then show ?case by simp
next
  case (2 found r l ls)
  have grp: "grouped (map l_owner ls)" using "2.prems"(2) by simp
  have grp_hd: "l_owner (hd ls) = l_owner l" if "l_owner l \<in> l_owner ` set ls"
    using "2.prems"(2) that hd_map[of ls l_owner] by (cases "ls = []") auto
  show ?case
  proof (cases "l_owner l = l_owner r")
    case False
    then show ?thesis using "2.prems" "2.IH"(1) grp by (auto split: prod.splits if_splits)
  next
    case True
    then have hd: "l_owner r \<in> l_owner ` set ls \<Longrightarrow> l_owner (hd ls) = l_owner r" using grp_hd by simp
    show ?thesis using "2.prems"(1) "2.IH"(2-5) grp hd True
      by (auto split: prod.splits if_splits)
  qed
qed

lemma grouped_run: "grouped cs \<Longrightarrow> set bs \<subseteq> {x} \<Longrightarrow> x \<notin> set cs \<Longrightarrow> grouped (bs @ cs)"
proof (induction bs)
  case (Cons b bs)
  then show ?case by (cases bs) auto
qed simp

lemma grouped_swap:
  assumes "grouped (as @ bs @ cs)" "set bs \<subseteq> {x}" "set bs' \<subseteq> {x}" "x \<notin> set as" "x \<notin> set cs"
    "bs = [] \<Longrightarrow> cs = []"
  shows "grouped (as @ bs' @ cs)"
  using assms
proof (induction as)
  case Nil
  have "grouped cs" using Nil.prems(1) by (induction bs) auto
  then show ?case using Nil.prems(3,5) grouped_run by simp
next
  case (Cons a as)
  have "grouped (as @ bs' @ cs)" using Cons by auto
  moreover have "hd (as @ bs' @ cs) = a" if a: "a \<in> set (as @ bs' @ cs)"
  proof -
    have "a \<noteq> x" using Cons.prems(4) by auto
    then have "a \<in> set (as @ bs @ cs)" using a Cons.prems(3) by auto
    then have hd: "hd (as @ bs @ cs) = a" using Cons.prems(1) by auto
    show ?thesis
    proof (cases as)
      case Nil
      then have "bs = []" using hd \<open>a \<noteq> x\<close> Cons.prems(2) by (cases bs) auto
      then have "a \<notin> set cs" using Cons.prems(6) by simp
      then show ?thesis using a Nil \<open>a \<noteq> x\<close> Cons.prems(3) by auto
    next
      case (Cons b bs)
      then show ?thesis using hd by simp
    qed
  qed
  ultimately show ?case by simp
qed

lemma subtract_lock_owner: "d \<in> set (subtract_lock r l) \<Longrightarrow> l_owner d = l_owner l"
  by (auto simp: subtract_lock_def file_lock_copy_def split: if_splits)

lemma acquire_scan_found:
  "acquire_scan True r ls = (dn, r', rest, n) \<Longrightarrow>
   \<exists>bs. ls = bs @ rest \<and> (\<forall>l \<in> set bs \<union> set dn. l_owner l = l_owner r)"
proof (induction ls arbitrary: r dn r' rest n)
  case Nil
  then show ?case by simp
next
  case (Cons l ls)
  show ?case
  proof (cases "l_owner l = l_owner r")
    case False
    then show ?thesis using Cons.prems by auto
  next
    case own: True
    have step: "\<exists>bs. l # ls = bs @ rest \<and> (\<forall>l \<in> set bs \<union> set dn. l_owner l = l_owner r)"
      if s: "acquire_scan True q ls = (d, r1, rest, n1)" and d: "dn = p @ d"
        and q: "l_owner q = l_owner r" and p: "\<forall>x \<in> set p. l_owner x = l_owner r" for q d r1 n1 p
    proof -
      obtain bs where "ls = bs @ rest" "\<forall>l \<in> set bs \<union> set d. l_owner l = l_owner r"
        using Cons.IH[OF s] q by auto
      then have "l # ls = (l # bs) @ rest" "\<forall>l \<in> set (l # bs) \<union> set dn. l_owner l = l_owner r"
        using own d p by auto
      then show ?thesis by blast
    qed
    obtain d r1 rest1 n1 where s: "acquire_scan True r ls = (d, r1, rest1, n1)" by (metis prod_cases4)
    have piece: "\<forall>x \<in> set (subtract_lock r l). l_owner x = l_owner r" using subtract_lock_owner own by auto
    show ?thesis
      using Cons.prems own s step[of "merge_lock r l" dn r' n "[]"] step[of r d r1 n1 "[l]"]
        step[of r d r1 n1 "subtract_lock r l"] piece
      by (auto split: if_splits)
  qed
qed

lemma acquire_scan_shape:
  "acquire_scan False r ls = (dn, r', rest, n) \<Longrightarrow>
   \<exists>as bs bs'. ls = as @ bs @ rest \<and> dn = as @ bs' \<and> (\<forall>l \<in> set bs \<union> set bs'. l_owner l = l_owner r) \<and>
     (\<forall>l \<in> set as. l_owner l \<noteq> l_owner r) \<and> (bs = [] \<longrightarrow> rest = [])"
proof (induction ls arbitrary: dn r' rest n)
  case Nil
  then show ?case by simp
next
  case (Cons l ls)
  show ?case
  proof (cases "l_owner l = l_owner r")
    case False
    then obtain d where s: "acquire_scan False r ls = (d, r', rest, n)" "dn = l # d"
      using Cons.prems by (auto split: prod.splits)
    then obtain as bs bs' where "ls = as @ bs @ rest" "d = as @ bs'"
      "\<forall>l \<in> set bs \<union> set bs'. l_owner l = l_owner r" "\<forall>l \<in> set as. l_owner l \<noteq> l_owner r" "bs = [] \<longrightarrow> rest = []"
      using Cons.IH[OF s(1)] by blast
    then show ?thesis using s(2) False by (intro exI[of _ "l # as"] exI[of _ bs] exI[of _ bs']) auto
  next
    case True
    then have "acquire_scan True r (l # ls) = (dn, r', rest, n)" using Cons.prems by simp
    then obtain bs where bs: "l # ls = bs @ rest" "\<forall>l \<in> set bs \<union> set dn. l_owner l = l_owner r"
      using acquire_scan_found by blast
    moreover have "bs \<noteq> []"
    proof
      assume "bs = []"
      then have "length rest = Suc (length ls)" using bs(1) by (metis append_Nil length_Cons)
      moreover have "length rest \<le> length ls"
        using Cons.prems True by (auto split: prod.splits if_splits dest!: acquire_scan_found)
      ultimately show False by simp
    qed
    ultimately show ?thesis by (intro exI[of _ "[]"] exI[of _ bs] exI[of _ dn]) auto
  qed
qed

section \<open>Acquiring and releasing\<close>

lemma file_lock_acquire_ok:
  assumes ok: "locks_ok ls" and wf: "lock_wf r"
    and res: "file_lock_acquire ls r = (0, ls', n)"
  shows "locks_ok ls'" and "locked ls' ow x t \<longleftrightarrow>
    (if ow = l_owner r \<and> covers r x then t = l_type r \<and> t \<noteq> F_UNLCK else locked ls ow x t)"
proof -
  obtain dn r' rest n' where s: "acquire_scan False r ls = (dn, r', rest, n')" by (metis prod_cases4)
  let ?new = "if l_type r \<noteq> F_UNLCK then [file_lock_copy r'] else []"
  have ls': "ls' = dn @ ?new @ rest"
    using res s by (auto simp: file_lock_acquire_def split: if_splits)
  have ok': "sorted_wrt apart ls" "grouped (map l_owner ls)" "\<forall>l \<in> set ls. lock_wf l" "\<forall>l \<in> set ls. l_type l \<noteq> F_UNLCK"
    using ok by (auto simp: locks_ok_def)
  obtain pre where pre: "ls = pre @ rest" and sc: "scanned r pre dn r'"
    using acquire_scan_ok[OF s ok'(1,3) wf] by blast
  have rest: "l_owner r \<notin> l_owner ` set rest" using acquire_scan_rest[OF s ok'(2)] by simp
  have copy: "l_owner (file_lock_copy r') = l_owner r" "l_type (file_lock_copy r') = l_type r"
    "covers (file_lock_copy r') y = covers r' y" "lock_wf (file_lock_copy r')" for y
    using sc by (auto simp: file_lock_copy_def covers_def lock_wf_def scanned_def)
  have no_rest: "\<not> locked rest (l_owner r) x t" using rest by (auto simp: locked_def image_iff)
  have no_unl: "\<not> locked pre (l_owner r) x F_UNLCK" using ok'(4) pre by (auto simp: locked_def)
  have dn_ty: "l_type d \<noteq> F_UNLCK" if "d \<in> set dn" for d
    using that sc ok'(4) pre by (auto simp: scanned_def)
  then have no_unl_dn: "\<not> locked dn (l_owner r) x F_UNLCK" by (auto simp: locked_def)
  have new: "locked ?new ow x t \<longleftrightarrow> l_type r \<noteq> F_UNLCK \<and> ow = l_owner r \<and> t = l_type r \<and> covers r' x"
    using copy by auto
  show "locked ls' ow x t \<longleftrightarrow>
    (if ow = l_owner r \<and> covers r x then t = l_type r \<and> t \<noteq> F_UNLCK else locked ls ow x t)"
  proof (cases "ow = l_owner r")
    case False
    then show ?thesis using sc by (simp add: ls' pre new scanned_def)
  next
    case own: True
    show ?thesis
    proof (cases "t = l_type r")
      case True
      have "covers r' x \<or> locked dn ow x t \<longleftrightarrow> covers r x \<or> locked pre ow x t"
        using sc own True by (simp add: scanned_def)
      then show ?thesis using own True new no_rest no_unl no_unl_dn
        by (cases "t = F_UNLCK") (auto simp: ls' pre)
    next
      case False
      have "locked dn ow x t \<longleftrightarrow> locked pre ow x t \<and> \<not> covers r x"
        using sc own False by (simp add: scanned_def)
      then show ?thesis using own False new no_rest by (auto simp: ls' pre)
    qed
  qed
  obtain as bs bs' where shape: "ls = as @ bs @ rest" "dn = as @ bs'"
    "\<forall>l \<in> set bs \<union> set bs'. l_owner l = l_owner r" "\<forall>l \<in> set as. l_owner l \<noteq> l_owner r" "bs = [] \<longrightarrow> rest = []"
    using acquire_scan_shape[OF s] by blast
  have "grouped (map l_owner as @ map l_owner (bs' @ ?new) @ map l_owner rest)"
    by (rule grouped_swap[of _ "map l_owner bs" _ "l_owner r"])
      (use ok'(2) shape rest copy(1) in auto)
  then have grp: "grouped (map l_owner ls')" using ls' shape(2) by simp
  have srt_rest: "sorted_wrt apart rest" using ok'(1) pre by (simp add: sorted_wrt_append)
  have dn_rest: "apart d e" if "d \<in> set dn" "e \<in> set rest" for d e
    unfolding apart_def
  proof (intro impI allI notI)
    fix y assume own: "l_owner d = l_owner e" and c: "covers d y \<and> covers e y"
    then have "held pre (l_owner e) y" using scanned_within[OF sc that(1)] by simp
    then obtain p where "p \<in> set pre" "l_owner p = l_owner e" "covers p y" by (auto simp: held_def)
    then show False using ok'(1) pre that(2) c by (auto simp: sorted_wrt_append apart_def)
  qed
  have new_rest: "apart e f" if "e \<in> set ?new" "f \<in> set rest" for e f
    using that rest copy(1) by (auto simp: apart_def image_iff split: if_splits)
  have dn_new: "apart d e" if "d \<in> set dn" "e \<in> set ?new" for d e
  proof -
    have "apart d r'" using sc that(1) by (simp add: scanned_def)
    then show ?thesis using that(2) copy sc by (auto simp: apart_def scanned_def split: if_splits)
  qed
  have "sorted_wrt apart ls'"
    using sc srt_rest dn_rest new_rest dn_new unfolding ls' sorted_wrt_append
    by (auto simp: scanned_def split: if_splits)
  moreover have "\<forall>l \<in> set ls'. lock_wf l \<and> l_type l \<noteq> F_UNLCK"
  proof
    fix l assume "l \<in> set ls'"
    then consider "l \<in> set dn" | "l \<in> set ?new" | "l \<in> set rest" by (auto simp: ls')
    then show "lock_wf l \<and> l_type l \<noteq> F_UNLCK"
      using sc ok'(3,4) pre copy by cases (auto simp: scanned_def split: if_splits)
  qed
  ultimately show "locks_ok ls'" using grp by (simp add: locks_ok_def)
qed

text \<open>No byte that one owner has locked for writing is locked by another.\<close>

definition exclusive :: "file_lock list \<Rightarrow> bool" where
  "exclusive ls \<longleftrightarrow> (\<forall>ow ow' x t. ow \<noteq> ow' \<longrightarrow> locked ls ow x F_WRLCK \<longrightarrow> \<not> locked ls ow' x t)"

lemma no_conflict_locked:
  assumes "\<not> list_ex (\<lambda>l. file_locks_conflict l r) ls" "covers r x" "locked ls ow x t" "ow \<noteq> l_owner r"
  shows "t \<noteq> F_WRLCK \<and> l_type r \<noteq> F_WRLCK"
proof -
  obtain l where l: "l \<in> set ls" "l_owner l = ow" "l_type l = t" "covers l x"
    using assms(3) by (auto simp: locked_def)
  then have "file_locks_overlap l r" using assms(2) by (auto simp: file_locks_overlap_def covers_def)
  then show ?thesis using l assms(1,4) by (auto simp: list_ex_iff file_locks_conflict_def)
qed

text \<open>
  C9. Placing or removing a record lock keeps the list well formed and exclusive. It either
  changes exactly the requested bytes of the requesting owner to the requested type, whatever
  merging and splitting this takes, or refuses with \<^verbatim>\<open>EAGAIN\<close> and no change because a lock
  of another owner conflicts.
\<close>

theorem file_lock_acquire_correct:
  assumes ok: "locks_ok ls" "exclusive ls" and wf: "lock_wf r"
  shows "(\<exists>ls' n. file_lock_acquire ls r = (0, ls', n) \<and> locks_ok ls' \<and> exclusive ls' \<and>
      (\<forall>ow x t. locked ls' ow x t \<longleftrightarrow>
        (if ow = l_owner r \<and> covers r x then t = l_type r \<and> t \<noteq> F_UNLCK else locked ls ow x t))) \<or>
    (file_lock_acquire ls r = (EAGAIN, ls, False) \<and> l_type r \<noteq> F_UNLCK \<and>
      (\<exists>l \<in> set ls. file_locks_conflict l r))"
proof (cases "l_type r \<noteq> F_UNLCK \<and> list_ex (\<lambda>l. file_locks_conflict l r) ls")
  case True
  then show ?thesis by (auto simp: file_lock_acquire_def list_ex_iff)
next
  case False
  obtain dn r' rest n' where s: "acquire_scan False r ls = (dn, r', rest, n')" by (metis prod_cases4)
  obtain ls' n where res: "file_lock_acquire ls r = (0, ls', n)"
    using False s by (auto simp: file_lock_acquire_def)
  note new = file_lock_acquire_ok[OF ok(1) wf res]
  have "exclusive ls'" unfolding exclusive_def
  proof (intro allI impI notI)
    fix ow ow' x t
    assume ne: "ow \<noteq> ow'" and a: "locked ls' ow x F_WRLCK" and b: "locked ls' ow' x t"
    have un: "F_WRLCK \<noteq> F_UNLCK" by simp
    consider "ow = l_owner r \<and> covers r x" | "ow' = l_owner r \<and> covers r x"
      | "locked ls ow x F_WRLCK" "locked ls ow' x t"
      using a b new(2)[of ow x F_WRLCK] new(2)[of ow' x t] by (auto split: if_splits)
    then show False
    proof cases
      case 1
      then have "l_type r = F_WRLCK" "locked ls ow' x t"
        using a b new(2)[of ow x F_WRLCK] new(2)[of ow' x t] ne by auto
      then show False using no_conflict_locked[of r ls x ow' t] False 1 ne un by auto
    next
      case 2
      then have "l_type r \<noteq> F_UNLCK" "locked ls ow x F_WRLCK"
        using a b new(2)[of ow x F_WRLCK] new(2)[of ow' x t] ne by auto
      then show False using no_conflict_locked[of r ls x ow F_WRLCK] False 2 ne by auto
    next
      case 3
      then show False using ok(2) ne by (auto simp: exclusive_def)
    qed
  qed
  then show ?thesis using res new by blast
qed

theorem file_lock_acquire_correct_witness:
  "\<exists>ls' n. file_lock_acquire [\<lparr>l_start = 0, l_end = 9, l_type = F_WRLCK, l_pid = 1, l_owner = 1\<rparr>]
      \<lparr>l_start = 3, l_end = 5, l_type = F_UNLCK, l_pid = 1, l_owner = 1\<rparr> = (0, ls', n) \<and>
    locked ls' 1 2 F_WRLCK \<and> \<not> locked ls' 1 4 F_WRLCK \<and> locked ls' 1 6 F_WRLCK"
proof -
  let ?l = "\<lparr>l_start = 0, l_end = 9, l_type = F_WRLCK, l_pid = 1, l_owner = 1\<rparr>"
  let ?r = "\<lparr>l_start = 3, l_end = 5, l_type = F_UNLCK, l_pid = 1, l_owner = 1\<rparr>"
  have "locks_ok [?l]" "exclusive [?l]" "lock_wf ?r"
    by (auto simp: locks_ok_def exclusive_def lock_wf_def)
  from file_lock_acquire_correct[OF this] obtain ls' n where
    "file_lock_acquire [?l] ?r = (0, ls', n)"
    "\<forall>ow x t. locked ls' ow x t \<longleftrightarrow>
        (if ow = l_owner ?r \<and> covers ?r x then t = l_type ?r \<and> t \<noteq> F_UNLCK else locked [?l] ow x t)"
    by auto
  then show ?thesis by (auto simp: covers_def)
qed

end
