(* ===== verification/Fd.thy ===== *)
theory Fd
  imports Flock
begin

text \<open>
  File descriptors, \<^verbatim>\<open>fs/fd.c\<close>. An open file \<^verbatim>\<open>struct fd\<close> is an object of a store, a table maps
  numbers to objects and has a bit for close-on-exec per number. What the functions behind
  \<^verbatim>\<open>fd->ops\<close> return are fields of the object; \<open>fd_fs_close\<close> is the result of
  \<^verbatim>\<open>mount->fs->close\<close> when that function exists and is not \<^verbatim>\<open>ops->close\<close> itself. An access outside the arrays of the table and a failed
  assertion are \<^const>\<open>None\<close>.
\<close>

section \<open>Definitions\<close>

record fdo =
  fd_refcount :: nat
  fd_flags :: nat
  fd_inode :: "nat option"
  fd_mount :: "nat option"
  fd_close_op :: "int option"
  fd_fs_close :: "int option"
  fd_getflags_op :: "(nat \<Rightarrow> int) option"
  fd_setflags_op :: "(nat \<Rightarrow> nat \<Rightarrow> int \<times> nat) option"

record fdtable =
  t_refcount :: nat
  t_size :: nat
  t_files :: "nat option list"
  t_cloexec :: "bool list"

text \<open>The calls \<^verbatim>\<open>fd_close\<close> makes on the last reference, in their order.\<close>

datatype fd_event =
    Poll_cleanup nat | Ops_close nat | Fs_close nat | Inode_release nat | Mount_release nat | Freed nat

text \<open>
  The state: the table a call works on and its address, the objects, the calls made when objects
  were destroyed, the locks of each inode, the 64-bit limit \<^verbatim>\<open>RLIMIT_NOFILE\<close> and whether \<^verbatim>\<open>malloc\<close>
  fails.
\<close>

record fdstate =
  files :: fdtable
  table_id :: nat
  objs :: "nat \<Rightarrow> fdo option"
  events :: "fd_event list"
  flocks :: "nat \<Rightarrow> file_lock list"
  nofile :: nat
  oom :: bool

definition fd_create ::
  "bool \<Rightarrow> int option \<Rightarrow> (nat \<Rightarrow> int) option \<Rightarrow> (nat \<Rightarrow> nat \<Rightarrow> int \<times> nat) option \<Rightarrow> fdo option" where
  "fd_create fails close_op getflags_op setflags_op =
     (if fails then None
      else Some \<lparr>fd_refcount = 1, fd_flags = 0, fd_inode = None, fd_mount = None, fd_close_op = close_op,
                 fd_fs_close = None, fd_getflags_op = getflags_op, fd_setflags_op = setflags_op\<rparr>)"

text \<open>Retaining or closing an object that does not exist any more is a use after free.\<close>

definition fd_retain :: "nat \<Rightarrow> fdstate \<Rightarrow> fdstate option" where
  "fd_retain i st =
     (case objs st i of
        None \<Rightarrow> None
      | Some x \<Rightarrow> Some (st\<lparr>objs := (objs st)(i \<mapsto> x\<lparr>fd_refcount := w32 (fd_refcount x + 1)\<rparr>)\<rparr>))"

definition close_err :: "fdo \<Rightarrow> int" where
  "close_err x =
     (let err = (case fd_close_op x of Some e \<Rightarrow> e | None \<Rightarrow> 0)
      in if fd_mount x \<noteq> None
         then (case fd_fs_close x of Some e \<Rightarrow> if e < 0 then e else err | None \<Rightarrow> err) else err)"

definition close_events :: "nat \<Rightarrow> fdo \<Rightarrow> fd_event list" where
  "close_events i x =
     [Poll_cleanup i]
     @ (if fd_close_op x \<noteq> None then [Ops_close i] else [])
     @ (if fd_mount x \<noteq> None \<and> fd_fs_close x \<noteq> None then [Fs_close i] else [])
     @ (case fd_inode x of Some n \<Rightarrow> [Inode_release n] | None \<Rightarrow> [])
     @ (case fd_mount x of Some m \<Rightarrow> [Mount_release m] | None \<Rightarrow> [])
     @ [Freed i]"

definition fd_close :: "nat \<Rightarrow> fdstate \<Rightarrow> (int \<times> fdstate) option" where
  "fd_close i st =
     (case objs st i of
        None \<Rightarrow> None
      | Some x \<Rightarrow>
          let k = w32 (fd_refcount x + (2 ^ 32 - 1))
          in if k = 0
             then Some (close_err x, st\<lparr>objs := (objs st)(i := None), events := events st @ close_events i x\<rparr>)
             else Some (0, st\<lparr>objs := (objs st)(i \<mapsto> x\<lparr>fd_refcount := k\<rparr>)\<rparr>))"

definition BITS_SIZE :: "nat \<Rightarrow> nat" where "BITS_SIZE bits = (bits - 1) div 8 + 1"

definition bit_get :: "int \<Rightarrow> bool list \<Rightarrow> bool option" where
  "bit_get i bs = (if 0 \<le> i \<and> nat i < length bs then Some (bs ! nat i) else None)"

definition bit_put :: "int \<Rightarrow> bool \<Rightarrow> bool list \<Rightarrow> bool list option" where
  "bit_put i v bs = (if 0 \<le> i \<and> nat i < length bs then Some (bs[nat i := v]) else None)"

definition fdtable_resize :: "bool \<Rightarrow> fdtable \<Rightarrow> nat \<Rightarrow> (int \<times> fdtable) option" where
  "fdtable_resize fails t sz =
     (if \<not> sz > t_size t then None
      else if fails then Some (ENOMEM, t)
      else Some (0, t\<lparr>t_files := t_files t @ replicate (sz - t_size t) None,
                      t_cloexec := t_cloexec t @ replicate (8 * BITS_SIZE sz - length (t_cloexec t)) False,
                      t_size := sz\<rparr>))"

definition fdtable_new :: "bool \<Rightarrow> nat \<Rightarrow> (int + fdtable) option" where
  "fdtable_new fails sz =
     (if fails then Some (Inl ENOMEM)
      else map_option (\<lambda>(err, t). if err < 0 then Inl err else Inr t)
             (fdtable_resize fails \<lparr>t_refcount = 1, t_size = 0, t_files = [], t_cloexec = []\<rparr> sz))"

text \<open>The addition \<^verbatim>\<open>max + 1\<close> is on \<^verbatim>\<open>int\<close>: it must not overflow.\<close>

definition fdtable_expand :: "int \<Rightarrow> fdstate \<Rightarrow> (int \<times> fdstate) option" where
  "fdtable_expand hi st =
     (if hi + 1 \<ge> 2 ^ 31 then None
      else
        let sz = nat ((hi + 1) mod 2 ^ 32)
        in if sz > nofile st then Some (EMFILE, st)
           else if t_size (files st) \<ge> sz then Some (0, st)
           else map_option (\<lambda>(err, t). (err, st\<lparr>files := t\<rparr>)) (fdtable_resize (oom st) (files st) sz))"

text \<open>
  The bound is the size of the table of the \<^emph>\<open>current\<close> task, \<open>cs\<close>, whatever table is read; the outer
  \<^const>\<open>None\<close> is a read behind the array.
\<close>

definition fdtable_get :: "nat \<Rightarrow> fdtable \<Rightarrow> int \<Rightarrow> nat option option" where
  "fdtable_get cs t f =
     (if f < 0 \<or> nat f \<ge> cs then Some None
      else if nat f < length (t_files t) then Some (t_files t ! nat f) else None)"

definition f_get :: "int \<Rightarrow> fdstate \<Rightarrow> nat option option" where
  "f_get f st = fdtable_get (t_size (files st)) (files st) f"

text \<open>Writing a slot of the array \<^verbatim>\<open>files\<close>, and its bit.\<close>

definition put_file :: "int \<Rightarrow> nat option \<Rightarrow> fdstate \<Rightarrow> fdstate option" where
  "put_file f v st =
     (if 0 \<le> f \<and> nat f < length (t_files (files st))
      then Some (st\<lparr>files := (files st)\<lparr>t_files := (t_files (files st))[nat f := v]\<rparr>\<rparr>) else None)"

definition put_cloexec :: "int \<Rightarrow> bool \<Rightarrow> fdstate \<Rightarrow> fdstate option" where
  "put_cloexec f v st =
     map_option (\<lambda>bs. st\<lparr>files := (files st)\<lparr>t_cloexec := bs\<rparr>\<rparr>) (bit_put f v (t_cloexec (files st)))"

definition first_free :: "nat option list \<Rightarrow> nat \<Rightarrow> nat \<Rightarrow> nat" where
  "first_free fs start sz =
     (case find (\<lambda>f. fs ! f = None) [start..<sz] of Some f \<Rightarrow> f | None \<Rightarrow> max start sz)"

definition f_install_start :: "nat \<Rightarrow> int \<Rightarrow> fdstate \<Rightarrow> (int \<times> fdstate) option" where
  "f_install_start fd start st =
     (if start < 0 then None
      else
        let sz = min (w32 (nofile st)) (t_size (files st));
            f = first_free (t_files (files st)) (nat start) sz
        in case (if f \<ge> sz then fdtable_expand (int f) st else Some (0, st)) of
             None \<Rightarrow> None
           | Some (err, st1) \<Rightarrow>
               if err < 0 then map_option (\<lambda>(e, st2). (err, st2)) (fd_close fd st1)
               else (case put_file (int f) (Some fd) st1 of
                       None \<Rightarrow> None
                     | Some st2 \<Rightarrow> map_option (\<lambda>st3. (int f, st3)) (put_cloexec (int f) False st2)))"

abbreviation (input) O_NONBLOCK :: nat where "O_NONBLOCK \<equiv> 2 ^ 11"

abbreviation (input) O_APPEND :: nat where "O_APPEND \<equiv> 2 ^ 10"

abbreviation (input) O_CLOEXEC :: nat where "O_CLOEXEC \<equiv> 2 ^ 19"

definition fd_getflags :: "fdo \<Rightarrow> int" where
  "fd_getflags x = (case fd_getflags_op x of Some g \<Rightarrow> g (fd_flags x) | None \<Rightarrow> int (fd_flags x))"

abbreviation FD_ALLOWED_FLAGS :: nat where "FD_ALLOWED_FLAGS \<equiv> O_APPEND OR O_NONBLOCK"

definition clear_bits :: "nat \<Rightarrow> nat \<Rightarrow> nat" where
  "clear_bits x m = x XOR (x AND m)"

definition fd_setflags :: "nat \<Rightarrow> nat \<Rightarrow> fdstate \<Rightarrow> (int \<times> fdstate) option" where
  "fd_setflags i flags st =
     (case objs st i of
        None \<Rightarrow> None
      | Some x \<Rightarrow>
          let (err, fl) = (case fd_setflags_op x of
                             Some s \<Rightarrow> s (fd_flags x) flags
                           | None \<Rightarrow> (0, clear_bits (fd_flags x) FD_ALLOWED_FLAGS OR (flags AND FD_ALLOWED_FLAGS)))
          in Some (err, st\<lparr>objs := (objs st)(i := Some (x\<lparr>fd_flags := fl\<rparr>))\<rparr>))"

definition f_install :: "nat \<Rightarrow> nat \<Rightarrow> fdstate \<Rightarrow> (int \<times> fdstate) option" where
  "f_install fd flags st =
     (case f_install_start fd 0 st of
        None \<Rightarrow> None
      | Some (f, st1) \<Rightarrow>
          if f \<ge> 0 then
            (case (if flags AND O_CLOEXEC \<noteq> 0 then put_cloexec f True st1 else Some st1) of
               None \<Rightarrow> None
             | Some st2 \<Rightarrow>
                 if flags AND O_NONBLOCK \<noteq> 0
                 then map_option (\<lambda>(e, st3). (f, st3)) (fd_setflags fd O_NONBLOCK st2)
                 else Some (f, st2))
          else Some (f, st1))"

definition remove_locks :: "nat option \<Rightarrow> fdstate \<Rightarrow> fdstate" where
  "remove_locks inode st =
     (case inode of
        None \<Rightarrow> st
      | Some i \<Rightarrow> st\<lparr>flocks := (flocks st)(i := file_lock_remove_owned_by (table_id st) (flocks st i))\<rparr>)"

definition fdtable_close :: "nat \<Rightarrow> int \<Rightarrow> fdstate \<Rightarrow> (int \<times> fdstate) option" where
  "fdtable_close cs f st =
     (case fdtable_get cs (files st) f of
        None \<Rightarrow> None
      | Some None \<Rightarrow> Some (EBADF, st)
      | Some (Some i) \<Rightarrow>
          (case objs st i of
             None \<Rightarrow> None
           | Some x \<Rightarrow>
               (case fd_close i (remove_locks (fd_inode x) st) of
                  None \<Rightarrow> None
                | Some (err, st1) \<Rightarrow>
                    (case put_file f None st1 of
                       None \<Rightarrow> None
                     | Some st2 \<Rightarrow> map_option (\<lambda>st3. (err, st3)) (put_cloexec f False st2)))))"

definition f_close :: "int \<Rightarrow> fdstate \<Rightarrow> (int \<times> fdstate) option" where
  "f_close f st = fdtable_close (t_size (files st)) f st"

definition sys_close :: "int \<Rightarrow> fdstate \<Rightarrow> (int \<times> fdstate) option" where
  "sys_close f st = f_close f st"

text \<open>The loops over the numbers of a table, closing those that pass a test.\<close>

fun close_each :: "nat \<Rightarrow> (fdstate \<Rightarrow> nat \<Rightarrow> bool option) \<Rightarrow> nat list \<Rightarrow> fdstate \<Rightarrow> fdstate option" where
  "close_each cs test [] st = Some st"
| "close_each cs test (f # fs) st =
     (case test st f of
        None \<Rightarrow> None
      | Some b \<Rightarrow>
          if b then (case fdtable_close cs (int f) st of
                       None \<Rightarrow> None
                     | Some (err, st1) \<Rightarrow> close_each cs test fs st1)
          else close_each cs test fs st)"

definition fdtable_do_cloexec :: "nat \<Rightarrow> fdstate \<Rightarrow> fdstate option" where
  "fdtable_do_cloexec cs st =
     close_each cs (\<lambda>st f. bit_get (int f) (t_cloexec (files st))) [0..<t_size (files st)] st"

text \<open>After the last reference the arrays are freed.\<close>

definition fdtable_release :: "nat \<Rightarrow> fdstate \<Rightarrow> fdstate option" where
  "fdtable_release cs st =
     (let k = w32 (t_refcount (files st) + (2 ^ 32 - 1));
          st1 = st\<lparr>files := (files st)\<lparr>t_refcount := k\<rparr>\<rparr>
      in if k = 0
         then map_option (\<lambda>st2. st2\<lparr>files := (files st2)\<lparr>t_files := [], t_cloexec := []\<rparr>\<rparr>)
                (close_each cs (\<lambda>st f. Some True) [0..<t_size (files st)] st1)
         else Some st1)"

fun retain_all :: "nat option list \<Rightarrow> fdstate \<Rightarrow> fdstate option" where
  "retain_all [] st = Some st"
| "retain_all (None # fs) st = retain_all fs st"
| "retain_all (Some i # fs) st =
     (case fd_retain i st of None \<Rightarrow> None | Some st1 \<Rightarrow> retain_all fs st1)"

text \<open>The copy for a new process: the new table, with one more reference to every file in it.\<close>

definition fdtable_copy :: "fdstate \<Rightarrow> ((int + fdtable) \<times> fdstate) option" where
  "fdtable_copy st =
     (case fdtable_new (oom st) (t_size (files st)) of
        None \<Rightarrow> None
      | Some (Inl err) \<Rightarrow> Some (Inl err, st)
      | Some (Inr t) \<Rightarrow>
          map_option
            (\<lambda>st1. (Inr (t\<lparr>t_files := t_files (files st), t_cloexec := t_cloexec (files st)\<rparr>), st1))
            (retain_all (t_files (files st)) st))"

definition sys_dup :: "int \<Rightarrow> fdstate \<Rightarrow> (int \<times> fdstate) option" where
  "sys_dup f st =
     (case f_get f st of
        None \<Rightarrow> None
      | Some None \<Rightarrow> Some (EBADF, st)
      | Some (Some fd) \<Rightarrow> (case fd_retain fd st of None \<Rightarrow> None | Some st1 \<Rightarrow> f_install fd 0 st1))"

definition sys_dup3 :: "int \<Rightarrow> int \<Rightarrow> nat \<Rightarrow> fdstate \<Rightarrow> (int \<times> fdstate) option" where
  "sys_dup3 f new_f flags st =
     (case f_get f st of
        None \<Rightarrow> None
      | Some None \<Rightarrow> Some (EBADF, st)
      | Some (Some fd) \<Rightarrow>
          (case fdtable_expand new_f st of
             None \<Rightarrow> None
           | Some (err, st1) \<Rightarrow>
               if err < 0 then Some (err, st1)
               else (case fd_retain fd st1 of
                       None \<Rightarrow> None
                     | Some st2 \<Rightarrow>
                         (case f_close new_f st2 of
                            None \<Rightarrow> None
                          | Some (e, st3) \<Rightarrow>
                              (case put_file new_f (Some fd) st3 of
                                 None \<Rightarrow> None
                               | Some st4 \<Rightarrow>
                                   if flags AND O_CLOEXEC \<noteq> 0
                                   then map_option (\<lambda>st5. (new_f, st5)) (put_cloexec new_f True st4)
                                   else Some (new_f, st4))))))"

definition sys_dup2 :: "int \<Rightarrow> int \<Rightarrow> fdstate \<Rightarrow> (int \<times> fdstate) option" where
  "sys_dup2 f new_f = sys_dup3 f new_f 0"

subsection \<open>fcntl\<close>

text \<open>The fields of \<^verbatim>\<open>struct flock32_\<close> are unsigned; they are widened and truncated by assignment.\<close>

record flock32 =
  h_type :: nat
  h_whence :: nat
  h_start :: nat
  h_len :: nat
  h_pid :: int

definition flock_widen :: "flock32 \<Rightarrow> flock" where
  "flock_widen h = \<lparr>k_type = h_type h, k_whence = h_whence h, k_start = int (h_start h),
     k_len = int (h_len h), k_pid = h_pid h\<rparr>"

definition flock_narrow :: "flock \<Rightarrow> flock32" where
  "flock_narrow k = \<lparr>h_type = k_type k, h_whence = k_whence k, h_start = nat (k_start k mod 2 ^ 32),
     h_len = nat (k_len k mod 2 ^ 32), h_pid = k_pid k\<rparr>"

datatype written = Written32 flock32 | Written64 flock

text \<open>
  What \<^verbatim>\<open>sys_fcntl\<close> takes from outside: the structures it reads at an address (\<^const>\<open>None\<close>: the read
  faults), whether the write back succeeds, what \<^verbatim>\<open>lseek\<close> and \<^verbatim>\<open>fstat\<close> report, the process id, and the
  waits of a blocking request.
\<close>

record fcntl_env =
  e_read32 :: "nat \<Rightarrow> flock32 option"
  e_read64 :: "nat \<Rightarrow> flock option"
  e_write_ok :: bool
  e_cur :: "int option"
  e_size :: "int + int"
  e_pid :: int
  e_waits :: "(int \<times> file_lock list) list"

abbreviation (input) F_DUPFD :: nat where "F_DUPFD \<equiv> 0"

abbreviation (input) F_GETFD :: nat where "F_GETFD \<equiv> 1"

abbreviation (input) F_SETFD :: nat where "F_SETFD \<equiv> 2"

abbreviation (input) F_GETFL :: nat where "F_GETFL \<equiv> 3"

abbreviation (input) F_SETFL :: nat where "F_SETFL \<equiv> 4"

abbreviation (input) F_GETLK :: nat where "F_GETLK \<equiv> 5"

abbreviation (input) F_SETLK :: nat where "F_SETLK \<equiv> 6"

abbreviation (input) F_SETLKW :: nat where "F_SETLKW \<equiv> 7"

abbreviation (input) F_GETLK64 :: nat where "F_GETLK64 \<equiv> 12"

abbreviation (input) F_SETLK64 :: nat where "F_SETLK64 \<equiv> 13"

abbreviation (input) F_SETLKW64 :: nat where "F_SETLKW64 \<equiv> 14"

abbreviation (input) F_DUPFD_CLOEXEC :: nat where "F_DUPFD_CLOEXEC \<equiv> 1030"

text \<open>
  The result is the return value, \<^const>\<open>None\<close> while the call waits, the structure written back, and
  the state.
\<close>

type_synonym fcntl_result = "(int option \<times> written option \<times> fdstate) option"

definition ret :: "(int \<times> fdstate) option \<Rightarrow> fcntl_result" where
  "ret r = map_option (\<lambda>(v, st). (Some v, None, st)) r"

text \<open>
  The checks \<^verbatim>\<open>fcntl_getlk\<close> and \<^verbatim>\<open>fcntl_setlk\<close> make before they use \<^verbatim>\<open>fd->inode\<close>, which a socket does not
  have: behind them the null pointer is used.
\<close>

definition getlk_refused :: "flock \<Rightarrow> int option" where
  "getlk_refused fl = (if k_type fl \<noteq> F_RDLCK \<and> k_type fl \<noteq> F_WRLCK then Some EINVAL else None)"

definition fd_mode_flags :: "fdo \<Rightarrow> nat" where
  "fd_mode_flags x = nat (fd_getflags x mod 2 ^ 32)"

definition setlk_refused :: "fdo \<Rightarrow> flock \<Rightarrow> int option" where
  "setlk_refused x fl =
     (if k_type fl \<noteq> F_RDLCK \<and> k_type fl \<noteq> F_WRLCK \<and> k_type fl \<noteq> F_UNLCK then Some EINVAL
      else if k_type fl = F_RDLCK \<and> fd_mode_flags x AND 3 = 1 then Some EBADF
      else if k_type fl = F_WRLCK \<and> fd_mode_flags x AND 3 = 0 then Some EBADF
      else None)"

definition do_getlk ::
  "fcntl_env \<Rightarrow> flock option \<Rightarrow> (flock \<Rightarrow> written) \<Rightarrow> fdo \<Rightarrow> fdstate \<Rightarrow> fcntl_result" where
  "do_getlk env arg wr x st =
     (case arg of
        None \<Rightarrow> Some (Some EFAULT, None, st)
      | Some fl \<Rightarrow>
          (case fd_inode x of
             None \<Rightarrow> map_option (\<lambda>err. (Some err, None, st)) (getlk_refused fl)
           | Some i \<Rightarrow>
               let (err, out) = fcntl_getlk (e_cur env) (e_size env) (table_id st) (e_pid env) (flocks st i) fl
               in if err \<ge> 0 then (if e_write_ok env then Some (Some err, Some (wr out), st)
                                   else Some (Some EFAULT, None, st))
                  else Some (Some err, None, st)))"

definition do_setlk :: "fcntl_env \<Rightarrow> flock option \<Rightarrow> bool \<Rightarrow> fdo \<Rightarrow> fdstate \<Rightarrow> fcntl_result" where
  "do_setlk env arg blocking x st =
     (case arg of
        None \<Rightarrow> Some (Some EFAULT, None, st)
      | Some fl \<Rightarrow>
          (case fd_inode x of
             None \<Rightarrow> map_option (\<lambda>err. (Some err, None, st)) (setlk_refused x fl)
           | Some i \<Rightarrow>
               (case fcntl_setlk (e_cur env) (e_size env) (table_id st) (e_pid env)
                       (fd_mode_flags x) fl blocking (flocks st i) (e_waits env) of
                  None \<Rightarrow> Some (None, None, st)
                | Some (err, ls) \<Rightarrow> Some (Some err, None, st\<lparr>flocks := (flocks st)(i := ls)\<rparr>))))"

definition dupfd :: "nat \<Rightarrow> nat \<Rightarrow> fdstate \<Rightarrow> (int \<times> fdstate) option" where
  "dupfd fd arg st =
     (case fd_retain fd st of None \<Rightarrow> None | Some st1 \<Rightarrow> f_install_start fd (s32 (int arg)) st1)"

definition sys_fcntl :: "fcntl_env \<Rightarrow> int \<Rightarrow> nat \<Rightarrow> nat \<Rightarrow> fdstate \<Rightarrow> fcntl_result" where
  "sys_fcntl env f cmd arg st =
     (case f_get f st of
        None \<Rightarrow> None
      | Some None \<Rightarrow> ret (Some (EBADF, st))
      | Some (Some fd) \<Rightarrow>
          (case objs st fd of
             None \<Rightarrow> None
           | Some x \<Rightarrow>
               if cmd = F_DUPFD then ret (dupfd fd arg st)
               else if cmd = F_DUPFD_CLOEXEC then
                 (case dupfd fd arg st of
                    None \<Rightarrow> None
                  | Some (new_f, st1) \<Rightarrow> ret (map_option (\<lambda>st2. (new_f, st2)) (put_cloexec new_f True st1)))
               else if cmd = F_GETFD then
                 ret (map_option (\<lambda>b. (if b then 1 else 0, st)) (bit_get f (t_cloexec (files st))))
               else if cmd = F_SETFD then
                 ret (map_option (\<lambda>st1. (0, st1)) (put_cloexec f (arg AND 1 \<noteq> 0) st))
               else if cmd = F_GETFL then ret (Some (fd_getflags x, st))
               else if cmd = F_SETFL then ret (fd_setflags fd arg st)
               else if cmd = F_GETLK then
                 do_getlk env (map_option flock_widen (e_read32 env arg)) (\<lambda>k. Written32 (flock_narrow k)) x st
               else if cmd = F_GETLK64 then do_getlk env (e_read64 env arg) Written64 x st
               else if cmd = F_SETLK \<or> cmd = F_SETLKW then
                 do_setlk env (map_option flock_widen (e_read32 env arg)) (cmd = F_SETLKW64) x st
               else if cmd = F_SETLK64 \<or> cmd = F_SETLKW64 then
                 do_setlk env (e_read64 env arg) (cmd = F_SETLKW) x st
               else ret (Some (EINVAL, st))))"

definition sys_fcntl32 :: "fcntl_env \<Rightarrow> int \<Rightarrow> nat \<Rightarrow> nat \<Rightarrow> fdstate \<Rightarrow> fcntl_result" where
  "sys_fcntl32 env f cmd arg st =
     (if cmd = F_GETLK64 \<or> cmd = F_SETLK64 \<or> cmd = F_SETLKW64 then ret (Some (EINVAL, st))
      else sys_fcntl env f cmd arg st)"

section \<open>The reference counts\<close>

definition table_ok :: "fdtable \<Rightarrow> bool" where
  "table_ok t \<longleftrightarrow> length (t_files t) = t_size t \<and> length (t_cloexec t) = 8 * BITS_SIZE (t_size t)
     \<and> 0 < t_size t \<and> t_size t \<le> 2 ^ 30"

definition refs :: "fdstate \<Rightarrow> nat \<Rightarrow> nat" where
  "refs st i = count_list (t_files (files st)) (Some i)"

definition count_ok :: "fdo option \<Rightarrow> nat \<Rightarrow> bool" where
  "count_ok x n = (case x of None \<Rightarrow> n = 0 | Some y \<Rightarrow> fd_refcount y = n \<and> 0 < n \<and> n < 2 ^ 32)"

text \<open>
  An object exists exactly while it is referred to, and its count is the number of slots that hold
  it plus the references \<open>ext\<close> held elsewhere: other tables, calls in progress.
\<close>

definition fd_inv :: "fdstate \<Rightarrow> (nat \<Rightarrow> nat) \<Rightarrow> bool" where
  "fd_inv st ext \<longleftrightarrow> table_ok (files st) \<and> (\<forall>i. count_ok (objs st i) (refs st i + ext i))"

text \<open>What the calls leave alone.\<close>

definition same_env :: "fdstate \<Rightarrow> fdstate \<Rightarrow> bool" where
  "same_env st st' \<longleftrightarrow> nofile st' = nofile st \<and> oom st' = oom st \<and> table_id st' = table_id st"

lemma same_env_refl [simp]: "same_env st st"
  by (simp add: same_env_def)

lemma same_env_trans: "same_env a b \<Longrightarrow> same_env b c \<Longrightarrow> same_env a c"
  by (simp add: same_env_def)

lemma count_list_update:
  assumes "k < length xs"
  shows "count_list (xs[k := v]) y + (if xs ! k = y then 1 else 0)
           = count_list xs y + (if v = y then 1 else 0)"
  using assms
proof (induction xs arbitrary: k)
  case (Cons x xs)
  show ?case
  proof (cases k)
    case (Suc m)
    then show ?thesis using Cons.IH [of m] Cons.prems by (auto split: if_splits)
  qed simp
qed simp

lemma count_list_le: "count_list xs y \<le> length xs"
  by (induction xs) auto

lemma BITS_SIZE_enough: "0 < n \<Longrightarrow> n \<le> 8 * BITS_SIZE n"
  unfolding BITS_SIZE_def by presburger

lemma BITS_SIZE_mono: "m \<le> n \<Longrightarrow> BITS_SIZE m \<le> BITS_SIZE n"
  unfolding BITS_SIZE_def by (simp add: div_le_mono diff_le_mono)

lemma fd_inv_table: "fd_inv st ext \<Longrightarrow> table_ok (files st)"
  by (simp add: fd_inv_def)

lemma fd_inv_obj: "fd_inv st ext \<Longrightarrow> count_ok (objs st i) (refs st i + ext i)"
  by (simp add: fd_inv_def)

lemma refs_slot:
  assumes "k < length (t_files (files st))" "t_files (files st) ! k = Some i"
  shows "0 < refs st i"
  using assms unfolding refs_def by (metis count_list_0_iff neq0_conv nth_mem)

lemma fd_retain_inv:
  assumes inv: "fd_inv st ext" and pos: "0 < refs st i + ext i" and room: "refs st i + ext i + 1 < 2 ^ 32"
  shows "\<exists>st'. fd_retain i st = Some st' \<and> fd_inv st' (ext(i := ext i + 1)) \<and> files st' = files st
           \<and> same_env st st'"
proof -
  obtain x where x: "objs st i = Some x" "fd_refcount x = refs st i + ext i"
    using fd_inv_obj [OF inv, of i] pos by (auto simp: count_ok_def split: option.splits)
  have "fd_inv (st\<lparr>objs := (objs st)(i \<mapsto> x\<lparr>fd_refcount := w32 (fd_refcount x + 1)\<rparr>)\<rparr>) (ext(i := ext i + 1))"
    using inv x room by (auto simp: fd_inv_def count_ok_def refs_def w32_def)
  then show ?thesis using x by (simp add: fd_retain_def same_env_def)
qed

lemma fd_close_inv:
  assumes inv: "fd_inv st ext" and pos: "0 < ext i"
  shows "\<exists>e st'. fd_close i st = Some (e, st') \<and> fd_inv st' (ext(i := ext i - 1)) \<and> files st' = files st
           \<and> same_env st st'"
proof -
  obtain x where x: "objs st i = Some x" "fd_refcount x = refs st i + ext i" "fd_refcount x < 2 ^ 32"
    using fd_inv_obj [OF inv, of i] pos by (auto simp: count_ok_def split: option.splits)
  have k: "w32 (fd_refcount x + (2 ^ 32 - 1)) = refs st i + ext i - 1"
  proof -
    have "fd_refcount x + (2 ^ 32 - 1) = (refs st i + ext i - 1) + 2 ^ 32" using x pos by simp
    then have "w32 (fd_refcount x + (2 ^ 32 - 1)) = (refs st i + ext i - 1) mod 2 ^ 32"
      unfolding w32_def by (metis mod_add_self2)
    then show ?thesis using x by simp
  qed
  have upd: "fd_inv (st\<lparr>objs := (objs st)(i := y), events := es\<rparr>) (ext(i := ext i - 1))"
    if "count_ok y (refs st i + ext i - 1)" for y es
    using inv that pos by (simp add: fd_inv_def refs_def)
  show ?thesis
  proof (cases "refs st i + ext i - 1 = 0")
    case True
    then show ?thesis
      using upd [of None] x k by (simp add: fd_close_def Let_def count_ok_def same_env_def)
  next
    case False
    then show ?thesis
      using upd [of "Some (x\<lparr>fd_refcount := refs st i + ext i - 1\<rparr>)" "events st"] x k
      by (simp add: fd_close_def Let_def count_ok_def same_env_def)
  qed
qed

lemma put_file_inv:
  assumes inv: "fd_inv st ext" and f: "0 \<le> f" "nat f < t_size (files st)"
    and free: "t_files (files st) ! nat f = None" and pos: "0 < ext i"
  shows "\<exists>st'. put_file f (Some i) st = Some st' \<and> fd_inv st' (ext(i := ext i - 1))
           \<and> t_size (files st') = t_size (files st) \<and> same_env st st'"
proof -
  have len: "nat f < length (t_files (files st))" using f fd_inv_table [OF inv] by (simp add: table_ok_def)
  have c: "count_list ((t_files (files st))[nat f := Some i]) (Some j)
             = count_list (t_files (files st)) (Some j) + (if i = j then 1 else 0)" for j
    using count_list_update [OF len, of "Some i" "Some j"] free by simp
  show ?thesis
    using inv f len pos
    by (auto simp: put_file_def fd_inv_def table_ok_def refs_def c same_env_def)
qed

lemma take_file_inv:
  assumes inv: "fd_inv st ext" and f: "0 \<le> f" "nat f < t_size (files st)"
    and slot: "t_files (files st) ! nat f = Some i"
  shows "\<exists>st'. put_file f None st = Some st' \<and> fd_inv st' (ext(i := ext i + 1))
           \<and> t_size (files st') = t_size (files st) \<and> same_env st st' \<and> t_files (files st') ! nat f = None"
proof -
  have len: "nat f < length (t_files (files st))" using f fd_inv_table [OF inv] by (simp add: table_ok_def)
  have c: "count_list ((t_files (files st))[nat f := None]) (Some j) + (if i = j then 1 else 0)
             = count_list (t_files (files st)) (Some j)" for j
    using count_list_update [OF len, of None "Some j"] slot by simp
  have d: "count_list ((t_files (files st))[nat f := None]) (Some i) + (ext i + 1)
             = count_list (t_files (files st)) (Some i) + ext i"
    using c [of i] by simp
  have e: "j \<noteq> i \<Longrightarrow> count_list ((t_files (files st))[nat f := None]) (Some j)
             = count_list (t_files (files st)) (Some j)" for j
    using c [of j] by simp
  have "count_ok (objs st j) (count_list ((t_files (files st))[nat f := None]) (Some j)
           + (ext(i := ext i + 1)) j)" for j
  proof (cases "j = i")
    case True
    then show ?thesis using fd_inv_obj [OF inv, of i] unfolding refs_def by (metis d fun_upd_same)
  next
    case False
    then show ?thesis using fd_inv_obj [OF inv, of j] e [of j] by (simp add: refs_def)
  qed
  then show ?thesis
    using fd_inv_table [OF inv] f len
    by (auto simp: put_file_def fd_inv_def table_ok_def refs_def same_env_def)
qed

lemma put_cloexec_inv:
  assumes inv: "fd_inv st ext" and f: "0 \<le> f" "nat f < t_size (files st)"
  shows "\<exists>st'. put_cloexec f v st = Some st' \<and> fd_inv st' ext \<and> t_size (files st') = t_size (files st)
           \<and> t_files (files st') = t_files (files st) \<and> same_env st st'"
proof -
  have "nat f < length (t_cloexec (files st))"
    using f fd_inv_table [OF inv] BITS_SIZE_enough [of "t_size (files st)"] by (simp add: table_ok_def)
  then show ?thesis
    using inv f by (auto simp: put_cloexec_def bit_put_def fd_inv_def table_ok_def refs_def same_env_def)
qed

lemma remove_locks_inv [simp]:
  "fd_inv (remove_locks n st) ext = fd_inv st ext" "files (remove_locks n st) = files st"
  "same_env st (remove_locks n st)"
  by (auto simp: remove_locks_def fd_inv_def refs_def same_env_def split: option.splits)

lemma fd_close_put_file:
  assumes "fd_close i st = Some (e, st1)" "put_file f v st = Some st2"
  shows "\<exists>st3. put_file f v st1 = Some st3 \<and> fd_close i st2 = Some (e, st3)"
  using assms by (auto simp: fd_close_def put_file_def Let_def split: option.splits if_splits)

lemma f_get_eq:
  assumes "table_ok (files st)"
  shows "f_get f st = Some (if 0 \<le> f \<and> nat f < t_size (files st) then t_files (files st) ! nat f else None)"
  using assms by (auto simp: f_get_def fdtable_get_def table_ok_def)

lemma f_get_Some:
  assumes "table_ok (files st)" "f_get f st = Some (Some i)"
  shows "0 \<le> f" "nat f < t_size (files st)" "t_files (files st) ! nat f = Some i" "0 < refs st i"
  using assms refs_slot [of "nat f" st i]
  by (auto simp: f_get_eq table_ok_def split: if_splits)

lemma refs_less: "table_ok (files st) \<Longrightarrow> refs st i < 2 ^ 31"
  unfolding refs_def table_ok_def using count_list_le [of "t_files (files st)" "Some i"] by simp

lemma f_close_inv:
  assumes inv: "fd_inv st ext"
  shows "\<exists>e st'. f_close f st = Some (e, st') \<and> fd_inv st' ext \<and> t_size (files st') = t_size (files st)
           \<and> same_env st st' \<and> (0 \<le> f \<longrightarrow> nat f < t_size (files st) \<longrightarrow> t_files (files st') ! nat f = None)"
proof -
  note tab = fd_inv_table [OF inv]
  have get: "fdtable_get (t_size (files st)) (files st) f
      = Some (if 0 \<le> f \<and> nat f < t_size (files st) then t_files (files st) ! nat f else None)"
    using f_get_eq [OF tab, of f] by (simp add: f_get_def)
  show ?thesis
  proof (cases "\<exists>i. f_get f st = Some (Some i)")
    case False
    then have "fdtable_get (t_size (files st)) (files st) f = Some None"
      by (metis f_get_def get option.exhaust)
    then show ?thesis using inv get by (auto simp: f_close_def fdtable_close_def split: if_splits)
  next
    case True
    then obtain i where i: "f_get f st = Some (Some i)" by blast
    note f = f_get_Some [OF tab i]
    obtain x where x: "objs st i = Some x"
      using fd_inv_obj [OF inv, of i] f(4) by (auto simp: count_ok_def split: option.splits)
    let ?r = "remove_locks (fd_inode x) st"
    have r: "fd_inv ?r ext" using inv by simp
    obtain st2 where st2: "put_file f None ?r = Some st2" "fd_inv st2 (ext(i := ext i + 1))"
        "t_size (files st2) = t_size (files st)" "same_env ?r st2" "t_files (files st2) ! nat f = None"
      using take_file_inv [OF r f(1)] f(2,3) by (auto simp: same_env_def)
    obtain e st3 where st3: "fd_close i st2 = Some (e, st3)" "fd_inv st3 ext" "files st3 = files st2"
        "same_env st2 st3"
      using fd_close_inv [OF st2(2), of i] by auto
    obtain e' st1 where st1: "fd_close i ?r = Some (e', st1)"
      using x by (cases "fd_close i ?r")
        (auto simp: fd_close_def remove_locks_def Let_def split: option.splits if_splits)
    have put: "put_file f None st1 = Some st3" "e' = e"
      using fd_close_put_file [OF st1 st2(1)] st3(1) by auto
    obtain st4 where st4: "put_cloexec f False st3 = Some st4" "fd_inv st4 ext"
        "t_size (files st4) = t_size (files st3)" "t_files (files st4) = t_files (files st3)" "same_env st3 st4"
      using put_cloexec_inv [OF st3(2) f(1), of False] f(2) st2(3) st3(3) by auto
    have "f_close f st = Some (e, st4)"
      using i x st1 put st4(1) by (simp add: f_close_def fdtable_close_def f_get_def)
    then show ?thesis
      using st4 st3 st2 remove_locks_inv(3) [of st "fd_inode x"] by (auto simp: same_env_def)
  qed
qed

lemma fdtable_resize_ok:
  assumes "table_ok t" "t_size t < sz" "sz \<le> 2 ^ 30"
  shows "\<exists>t'. fdtable_resize fails t sz = Some (if fails then ENOMEM else 0, t') \<and> table_ok t'
           \<and> t_size t \<le> t_size t' \<and> (\<not> fails \<longrightarrow> t_size t' = sz)
           \<and> t_files t' = t_files t @ replicate (t_size t' - t_size t) None"
  using assms BITS_SIZE_mono [of "t_size t" sz]
  by (auto simp: fdtable_resize_def table_ok_def)

lemma fdtable_expand_inv:
  assumes inv: "fd_inv st ext" and f: "0 \<le> f" "f + 1 < 2 ^ 31" and lim: "nofile st \<le> 2 ^ 30"
  shows "\<exists>e st'. fdtable_expand f st = Some (e, st') \<and> fd_inv st' ext \<and> same_env st st'
           \<and> t_size (files st) \<le> t_size (files st') \<and> (0 \<le> e \<longrightarrow> e = 0 \<and> nat f < t_size (files st') \<and> nat f < nofile st)
           \<and> (\<forall>k < t_size (files st). t_files (files st') ! k = t_files (files st) ! k)
           \<and> (\<forall>k. t_size (files st) \<le> k \<longrightarrow> k < t_size (files st') \<longrightarrow> t_files (files st') ! k = None)
           \<and> objs st' = objs st"
proof -
  note tab = fd_inv_table [OF inv]
  have sz: "nat ((f + 1) mod 2 ^ 32) = nat f + 1" using f by simp
  consider (limit) "nat f + 1 > nofile st" | (fits) "nat f + 1 \<le> nofile st" "nat f + 1 \<le> t_size (files st)"
    | (grow) "nat f + 1 \<le> nofile st" "t_size (files st) < nat f + 1" by linarith
  then show ?thesis
  proof cases
    case limit
    then show ?thesis using inv f sz by (simp add: fdtable_expand_def Let_def)
  next
    case fits
    then show ?thesis using inv f sz by (simp add: fdtable_expand_def Let_def)
  next
    case grow
    have "nat f + 1 \<le> 2 ^ 30" using grow(1) lim by linarith
    then obtain t' where t': "fdtable_resize (oom st) (files st) (nat f + 1) = Some (if oom st then ENOMEM else 0, t')"
        "table_ok t'" "t_size (files st) \<le> t_size t'" "\<not> oom st \<longrightarrow> t_size t' = nat f + 1"
        "t_files t' = t_files (files st) @ replicate (t_size t' - t_size (files st)) None"
      using fdtable_resize_ok [OF tab grow(2), of "oom st"] by blast
    have e: "fdtable_expand f st = Some (if oom st then ENOMEM else 0, st\<lparr>files := t'\<rparr>)"
      using grow f sz t'(1) by (simp add: fdtable_expand_def Let_def)
    have c: "count_list (t_files t') (Some j) = count_list (t_files (files st)) (Some j)" for j
      using t'(5) by (simp add: count_list_0_iff)
    have "fd_inv (st\<lparr>files := t'\<rparr>) ext"
      using inv t'(2) c by (simp add: fd_inv_def refs_def)
    then show ?thesis
      using e t' tab grow by (auto simp: same_env_def nth_append table_ok_def)
  qed
qed

lemma first_free_free:
  assumes "first_free fs start sz < sz"
  shows "fs ! first_free fs start sz = None"
proof (cases "find (\<lambda>f. fs ! f = None) [start..<sz]")
  case None
  then show ?thesis using assms by (simp add: first_free_def)
next
  case (Some a)
  then have "fs ! a = None" by (auto simp: find_Some_iff)
  then show ?thesis using Some by (simp add: first_free_def)
qed

lemma first_free_bound: "first_free fs start sz \<le> max start sz"
  by (auto simp: first_free_def find_Some_iff split: option.splits)

text \<open>
  Installing: with the limit in range, the number is a free slot, the reference moves into the
  table, and on an error it is dropped.
\<close>

lemma f_install_start_inv:
  assumes inv: "fd_inv st ext" and pos: "0 < ext fd" and start: "0 \<le> start" "start + 1 < 2 ^ 31"
    and lim: "nofile st \<le> 2 ^ 30"
  shows "\<exists>f st'. f_install_start fd start st = Some (f, st') \<and> fd_inv st' (ext(fd := ext fd - 1))
           \<and> same_env st st' \<and> t_size (files st) \<le> t_size (files st')
           \<and> (0 \<le> f \<longrightarrow> nat f < t_size (files st') \<and> t_files (files st') ! nat f = Some fd)"
proof -
  note tab = fd_inv_table [OF inv]
  have w: "w32 (nofile st) = nofile st" using lim by (simp add: w32_def)
  define sz where "sz = min (nofile st) (t_size (files st))"
  define f where "f = first_free (t_files (files st)) (nat start) sz"
  have szle: "sz \<le> t_size (files st)" "sz \<le> nofile st" by (simp_all add: sz_def)
  have fb: "int f + 1 < 2 ^ 31"
    using first_free_bound [of "t_files (files st)" "nat start" sz] start szle lim by (auto simp: f_def max_def split: if_splits)
  have unf: "f_install_start fd start st =
     (case (if f \<ge> sz then fdtable_expand (int f) st else Some (0, st)) of
        None \<Rightarrow> None
      | Some (err, st1) \<Rightarrow>
          if err < 0 then map_option (\<lambda>(e, st2). (err, st2)) (fd_close fd st1)
          else (case put_file (int f) (Some fd) st1 of
                  None \<Rightarrow> None
                | Some st2 \<Rightarrow> map_option (\<lambda>st3. (int f, st3)) (put_cloexec (int f) False st2)))"
    using start by (simp only: f_install_start_def Let_def f_def sz_def w not_less [symmetric] if_False)
  obtain e st1 where st1: "(if f \<ge> sz then fdtable_expand (int f) st else Some (0, st)) = Some (e, st1)"
      "fd_inv st1 ext" "same_env st st1" "t_size (files st) \<le> t_size (files st1)"
      "0 \<le> e \<Longrightarrow> f < t_size (files st1) \<and> t_files (files st1) ! f = None"
  proof (cases "f \<ge> sz")
    case True
    obtain e st1 where x: "fdtable_expand (int f) st = Some (e, st1)" "fd_inv st1 ext" "same_env st st1"
        "t_size (files st) \<le> t_size (files st1)"
        "0 \<le> e \<longrightarrow> e = 0 \<and> f < t_size (files st1) \<and> f < nofile st"
        "\<forall>k. t_size (files st) \<le> k \<longrightarrow> k < t_size (files st1) \<longrightarrow> t_files (files st1) ! k = None"
      using fdtable_expand_inv [OF inv _ fb lim] by auto
    show thesis
    proof (rule that [of e st1])
      show "0 \<le> e \<Longrightarrow> f < t_size (files st1) \<and> t_files (files st1) ! f = None"
        using x(5,6) True by (auto simp: sz_def)
    qed (use x True in auto)
  next
    case False
    then have "t_files (files st) ! f = None" "f < sz"
      using first_free_free [of "t_files (files st)" "nat start" sz] by (simp_all add: f_def)
    then show thesis using that [of 0 st] inv False szle by simp
  qed
  show ?thesis
  proof (cases "e < 0")
    case True
    then show ?thesis
      using fd_close_inv [OF st1(2) pos] st1 unf by (force simp: same_env_def)
  next
    case False
    then have fr: "f < t_size (files st1)" "t_files (files st1) ! f = None" using st1(5) by auto
    obtain st2 where st2: "put_file (int f) (Some fd) st1 = Some st2" "fd_inv st2 (ext(fd := ext fd - 1))"
        "t_size (files st2) = t_size (files st1)" "same_env st1 st2"
      using put_file_inv [OF st1(2), of "int f"] fr pos by auto
    have slot: "t_files (files st2) ! f = Some fd"
      using st2(1) fr fd_inv_table [OF st1(2)] by (auto simp: put_file_def table_ok_def split: if_splits)
    obtain st3 where st3: "put_cloexec (int f) False st2 = Some st3" "fd_inv st3 (ext(fd := ext fd - 1))"
        "t_size (files st3) = t_size (files st2)" "t_files (files st3) = t_files (files st2)" "same_env st2 st3"
      using put_cloexec_inv [OF st2(2), of "int f" False] fr st2(3) by auto
    show ?thesis
      using st1 st2 st3 slot fr False unf by (auto simp: same_env_def)
  qed
qed

lemma fd_setflags_inv:
  assumes inv: "fd_inv st ext" and pos: "0 < refs st i + ext i"
  shows "\<exists>e st'. fd_setflags i flags st = Some (e, st') \<and> fd_inv st' ext \<and> files st' = files st \<and> same_env st st'"
proof -
  obtain x where x: "objs st i = Some x" "count_ok (Some x) (refs st i + ext i)"
    using fd_inv_obj [OF inv, of i] pos by (auto simp: count_ok_def split: option.splits)
  then have "fd_inv (st\<lparr>objs := (objs st)(i \<mapsto> x\<lparr>fd_flags := fl\<rparr>)\<rparr>) ext" for fl
    using inv by (simp add: fd_inv_def refs_def count_ok_def)
  then show ?thesis
    using x(1) by (auto simp: fd_setflags_def same_env_def Let_def split: prod.splits)
qed

lemma fd_retain_room:
  assumes "fd_inv st ext" "0 < refs st i" "\<forall>j. ext j < 2 ^ 31"
  shows "\<exists>st'. fd_retain i st = Some st' \<and> fd_inv st' (ext(i := ext i + 1)) \<and> files st' = files st
           \<and> same_env st st'"
proof -
  have "refs st i < 2 ^ 31" "ext i < 2 ^ 31" using refs_less fd_inv_table assms by blast+
  then have "refs st i + ext i + 1 < 2 ^ 32" by simp
  then show ?thesis using fd_retain_inv assms by simp
qed

lemma dupfd_inv:
  assumes inv: "fd_inv st ext" and pos: "0 < refs st i" and ext: "\<forall>j. ext j < 2 ^ 31"
    and arg: "0 \<le> start" "start + 1 < 2 ^ 31" and lim: "nofile st \<le> 2 ^ 30"
  shows "\<exists>st1 f st'. fd_retain i st = Some st1 \<and> f_install_start i start st1 = Some (f, st')
           \<and> fd_inv st' ext \<and> same_env st st' \<and> (0 \<le> f \<longrightarrow> nat f < t_size (files st'))"
proof -
  obtain st1 where st1: "fd_retain i st = Some st1" "fd_inv st1 (ext(i := ext i + 1))" "same_env st st1"
    using fd_retain_room [OF inv pos ext] by blast
  have lim1: "nofile st1 \<le> 2 ^ 30" using lim st1(3) by (simp add: same_env_def)
  have moved: "(ext(i := ext i + 1))(i := (ext(i := ext i + 1)) i - 1) = ext" by auto
  have "0 < (ext(i := ext i + 1)) i" by simp
  then obtain f st' where "f_install_start i start st1 = Some (f, st')" "fd_inv st' ext" "same_env st1 st'"
      "0 \<le> f \<longrightarrow> nat f < t_size (files st')"
    using f_install_start_inv [OF st1(2) _ arg lim1, of i] unfolding moved by blast
  then show ?thesis using st1 same_env_trans by blast
qed

lemma sys_dup_inv:
  assumes inv: "fd_inv st ext" and ext: "\<forall>j. ext j < 2 ^ 31" and lim: "nofile st \<le> 2 ^ 30"
  shows "\<exists>r st'. sys_dup f st = Some (r, st') \<and> fd_inv st' ext \<and> same_env st st'"
proof (cases "\<exists>i. f_get f st = Some (Some i)")
  case False
  then show ?thesis using inv f_get_eq [OF fd_inv_table [OF inv], of f]
    by (auto simp: sys_dup_def split: option.splits)
next
  case True
  then obtain i where i: "f_get f st = Some (Some i)" by blast
  from dupfd_inv [OF inv f_get_Some(4) [OF fd_inv_table [OF inv] i] ext, of 0] lim i
  show ?thesis by (auto simp: sys_dup_def f_install_def)
qed

lemma sys_dup3_inv:
  assumes inv: "fd_inv st ext" and ext: "\<forall>j. ext j < 2 ^ 31" and lim: "nofile st \<le> 2 ^ 30"
    and new: "0 \<le> new_f" "new_f + 1 < 2 ^ 31"
  shows "\<exists>r st'. sys_dup3 f new_f flags st = Some (r, st') \<and> fd_inv st' ext \<and> same_env st st'"
proof (cases "\<exists>i. f_get f st = Some (Some i)")
  case False
  then show ?thesis using inv f_get_eq [OF fd_inv_table [OF inv], of f]
    by (auto simp: sys_dup3_def split: option.splits)
next
  case True
  then obtain i where i: "f_get f st = Some (Some i)" by blast
  note g = f_get_Some [OF fd_inv_table [OF inv] i]
  obtain e st1 where st1: "fdtable_expand new_f st = Some (e, st1)" "fd_inv st1 ext" "same_env st st1"
      "0 \<le> e \<longrightarrow> nat new_f < t_size (files st1)" "t_size (files st) \<le> t_size (files st1)"
      "\<forall>k < t_size (files st). t_files (files st1) ! k = t_files (files st) ! k"
    using fdtable_expand_inv [OF inv new lim] by blast
  show ?thesis
  proof (cases "e < 0")
    case True
    then show ?thesis using i st1 by (simp add: sys_dup3_def)
  next
    case False
    have "nat f < length (t_files (files st1))" "t_files (files st1) ! nat f = Some i"
      using g st1 fd_inv_table [OF st1(2)] by (auto simp: table_ok_def)
    then have pos: "0 < refs st1 i" by (rule refs_slot)
    obtain st2 where st2: "fd_retain i st1 = Some st2" "fd_inv st2 (ext(i := ext i + 1))"
        "files st2 = files st1" "same_env st1 st2"
      using fd_retain_room [OF st1(2) pos ext] by blast
    obtain e' st3 where st3: "f_close new_f st2 = Some (e', st3)" "fd_inv st3 (ext(i := ext i + 1))"
        "t_size (files st3) = t_size (files st2)" "same_env st2 st3" "t_files (files st3) ! nat new_f = None"
      using f_close_inv [OF st2(2), of new_f] new False st1(4) st2(3) by auto
    obtain st4 where st4: "put_file new_f (Some i) st3 = Some st4" "fd_inv st4 ext"
        "t_size (files st4) = t_size (files st3)" "same_env st3 st4"
      using put_file_inv [OF st3(2) new(1) _ st3(5), of i] False st1(4) st2(3) st3(3) by auto
    obtain st5 where st5: "put_cloexec new_f True st4 = Some st5" "fd_inv st5 ext" "same_env st4 st5"
      using put_cloexec_inv [OF st4(2) new(1), of True] False st1(4) st2(3) st3(3) st4(3) by auto
    show ?thesis
      using i st1 st2 st3 st4 st5 False by (auto simp: sys_dup3_def same_env_def)
  qed
qed

lemma close_each_inv:
  assumes "fd_inv st ext" "\<forall>f \<in> set fs. f < t_size (files st)" "cs = t_size (files st)"
    and "\<And>s f. fd_inv s ext \<Longrightarrow> f < t_size (files s) \<Longrightarrow> test s f \<noteq> None"
  shows "\<exists>st'. close_each cs test fs st = Some st' \<and> fd_inv st' ext \<and> same_env st st'"
  using assms(1-3)
proof (induction fs arbitrary: st)
  case (Cons f fs)
  obtain b where b: "test st f = Some b" using assms(4) [of st f] Cons.prems by auto
  show ?case
  proof (cases b)
    case True
    obtain e st1 where st1: "f_close (int f) st = Some (e, st1)" "fd_inv st1 ext"
        "t_size (files st1) = t_size (files st)" "same_env st st1"
      using f_close_inv [OF Cons.prems(1), of "int f"] by blast
    then show ?thesis
      using Cons.IH [of st1] Cons.prems b True by (auto simp: f_close_def same_env_def)
  next
    case False
    then show ?thesis using Cons.IH [of st] Cons.prems b by auto
  qed
qed simp

lemma fdtable_do_cloexec_inv:
  assumes inv: "fd_inv st ext"
  shows "\<exists>st'. fdtable_do_cloexec (t_size (files st)) st = Some st' \<and> fd_inv st' ext \<and> same_env st st'"
  unfolding fdtable_do_cloexec_def
proof (rule close_each_inv [OF inv])
  show "bit_get (int f) (t_cloexec (files s)) \<noteq> None" if "fd_inv s ext" "f < t_size (files s)" for s f
    using that BITS_SIZE_enough [of "t_size (files s)"] fd_inv_table [of s ext]
    by (simp add: bit_get_def table_ok_def)
qed auto

section \<open>Properties\<close>

text \<open>The calls of a process on its table.\<close>

datatype fd_call =
    Close int | Dup int | Dup2 int int | Dup3 int int nat | Dupfd fcntl_env int nat | Exec

fun fd_do :: "fd_call \<Rightarrow> fdstate \<Rightarrow> fdstate option" where
  "fd_do (Close f) st = map_option snd (sys_close f st)"
| "fd_do (Dup f) st = map_option snd (sys_dup f st)"
| "fd_do (Dup2 f new_f) st = map_option snd (sys_dup2 f new_f st)"
| "fd_do (Dup3 f new_f flags) st = map_option snd (sys_dup3 f new_f flags st)"
| "fd_do (Dupfd env f arg) st = map_option (\<lambda>r. snd (snd r)) (sys_fcntl32 env f F_DUPFD arg st)"
| "fd_do Exec st = fdtable_do_cloexec (t_size (files st)) st"

fun fd_run :: "fd_call list \<Rightarrow> fdstate \<Rightarrow> fdstate option" where
  "fd_run [] st = Some st"
| "fd_run (c # cs) st = (case fd_do c st of None \<Rightarrow> None | Some st1 \<Rightarrow> fd_run cs st1)"

text \<open>The numbers a call chooses are not negative and leave room for the addition of 1.\<close>

fun fd_call_ok :: "fd_call \<Rightarrow> bool" where
  "fd_call_ok (Dup2 f new_f) = (0 \<le> new_f \<and> new_f + 1 < 2 ^ 31)"
| "fd_call_ok (Dup3 f new_f flags) = (0 \<le> new_f \<and> new_f + 1 < 2 ^ 31)"
| "fd_call_ok (Dupfd env f arg) = (arg + 1 < 2 ^ 31)"
| "fd_call_ok c = True"

lemma s32_small: "x < 2 ^ 31 \<Longrightarrow> s32 (int x) = int x"
  by (simp add: s32_def)

lemma fcntl_dupfd_inv:
  assumes inv: "fd_inv st ext" and ext: "\<forall>j. ext j < 2 ^ 31" and lim: "nofile st \<le> 2 ^ 30"
    and arg: "arg + 1 < 2 ^ 31"
  shows "\<exists>r st'. sys_fcntl32 env f F_DUPFD arg st = Some (r, None, st') \<and> fd_inv st' ext \<and> same_env st st'"
proof (cases "\<exists>i. f_get f st = Some (Some i)")
  case False
  then show ?thesis using inv f_get_eq [OF fd_inv_table [OF inv], of f]
    by (auto simp: sys_fcntl32_def sys_fcntl_def ret_def split: option.splits)
next
  case True
  then obtain i where i: "f_get f st = Some (Some i)" by blast
  note pos = f_get_Some(4) [OF fd_inv_table [OF inv] i]
  obtain x where x: "objs st i = Some x"
    using fd_inv_obj [OF inv, of i] pos by (auto simp: count_ok_def split: option.splits)
  have a: "s32 (int arg) = int arg" using arg by (intro s32_small) simp
  from dupfd_inv [OF inv pos ext, of "int arg"] arg lim i x a
  show ?thesis
    by (auto simp: sys_fcntl32_def sys_fcntl_def dupfd_def ret_def)
qed

lemma fd_do_inv:
  assumes "fd_inv st ext" "\<forall>j. ext j < 2 ^ 31" "nofile st \<le> 2 ^ 30" "fd_call_ok c"
  shows "\<exists>st'. fd_do c st = Some st' \<and> fd_inv st' ext \<and> same_env st st'"
proof (cases c)
  case (Close f)
  then show ?thesis using f_close_inv [OF assms(1), of f] by (auto simp: sys_close_def)
next
  case (Dup f)
  then show ?thesis using sys_dup_inv [OF assms(1-3), of f] by auto
next
  case (Dup2 f new_f)
  then show ?thesis using sys_dup3_inv [OF assms(1-3), of new_f f 0] assms(4) by (auto simp: sys_dup2_def)
next
  case (Dup3 f new_f flags)
  then show ?thesis using sys_dup3_inv [OF assms(1-3), of new_f f flags] assms(4) by auto
next
  case (Dupfd env f arg)
  then show ?thesis using fcntl_dupfd_inv [OF assms(1-3), of arg env f] assms(4) by auto
next
  case Exec
  then show ?thesis using fdtable_do_cloexec_inv [OF assms(1)] by auto
qed

text \<open>
  C10. Any sequence of \<^verbatim>\<open>close\<close>, \<^verbatim>\<open>dup\<close>, \<^verbatim>\<open>dup2\<close>, \<^verbatim>\<open>dup3\<close>, \<^verbatim>\<open>F_DUPFD\<close> and \<^verbatim>\<open>exec\<close> with numbers in range runs
  without an access outside the table, without using a freed file, and keeps the reference counts
  exact: an open file exists exactly as long as a slot or a reference from outside refers to it.
\<close>
theorem fd_calls_keep_counts:
  assumes "fd_inv st ext" "\<forall>j. ext j < 2 ^ 31" "nofile st \<le> 2 ^ 30" "\<forall>c \<in> set cs. fd_call_ok c"
  shows "\<exists>st'. fd_run cs st = Some st' \<and> fd_inv st' ext"
  using assms
proof (induction cs arbitrary: st)
  case (Cons c cs)
  obtain st1 where st1: "fd_do c st = Some st1" "fd_inv st1 ext" "same_env st st1"
    using fd_do_inv [OF Cons.prems(1-3), of c] Cons.prems(4) by auto
  then have "nofile st1 \<le> 2 ^ 30" using Cons.prems(3) by (simp add: same_env_def)
  then show ?case using Cons.IH [OF st1(2) Cons.prems(2)] Cons.prems(4) st1(1) by simp
qed simp

text \<open>A table of three slots, its first one open.\<close>

definition one_fd :: fdo where
  "one_fd = \<lparr>fd_refcount = 1, fd_flags = 2, fd_inode = Some 7, fd_mount = Some 1, fd_close_op = Some 0,
     fd_fs_close = None, fd_getflags_op = None, fd_setflags_op = None\<rparr>"

definition one_file :: fdstate where
  "one_file =
     \<lparr>files = \<lparr>t_refcount = 1, t_size = 3, t_files = [Some 5, None, None], t_cloexec = replicate 8 False\<rparr>,
      table_id = 1, objs = [5 \<mapsto> one_fd], events = [], flocks = (\<lambda>i. []), nofile = 1024, oom = False\<rparr>"

lemma one_file_inv: "fd_inv one_file (\<lambda>i. 0)"
  by (simp add: fd_inv_def one_file_def one_fd_def table_ok_def refs_def count_ok_def BITS_SIZE_def)

theorem fd_calls_keep_counts_witness:
  "\<exists>st'. fd_run [Dup 0, Dup3 0 6 O_CLOEXEC, Close 0, Exec, Close 1] one_file = Some st' \<and> fd_inv st' (\<lambda>i. 0)"
  by (rule fd_calls_keep_counts [OF one_file_inv]) (simp_all add: one_file_def)

text \<open>
  \<^verbatim>\<open>dup2(f, -1)\<close> of an open file passes the check of \<^verbatim>\<open>fdtable_expand\<close>, whose unsigned size is 0, and
  writes in front of the array \<^verbatim>\<open>files\<close>.
\<close>
theorem sys_dup2_minus_one:
  assumes "f_get f st = Some (Some i)"
  shows "fdtable_expand (-1) st = Some (0, st) \<and> sys_dup2 f (-1) st = None"
proof -
  have e: "fdtable_expand (-1) st = Some (0, st)" by (simp add: fdtable_expand_def)
  have "put_file (-1) v s = None" for v s by (simp add: put_file_def)
  then show ?thesis using e assms
    by (auto simp: sys_dup2_def sys_dup3_def split: option.splits)
qed

theorem sys_dup2_minus_one_witness: "sys_dup2 0 (-1) one_file = None"
proof -
  have "f_get 0 one_file = Some (Some 5)" by (simp add: f_get_def fdtable_get_def one_file_def)
  from sys_dup2_minus_one [OF this] show ?thesis by simp
qed

lemma setlk_loop_nonblocking: "setlk_loop False request ls waits \<noteq> None"
  by (subst setlk_loop.simps) (simp split: prod.splits)

lemma do_setlk_nonblocking:
  "do_setlk env arg False x st = Some (r, w, st') \<Longrightarrow> r \<noteq> None"
  using setlk_loop_nonblocking
  by (auto simp: do_setlk_def fcntl_setlk_def Let_def split: option.splits if_splits sum.splits prod.splits)

lemma do_getlk_returns: "do_getlk env arg wr x st = Some (r, w, st') \<Longrightarrow> r \<noteq> None"
  by (auto simp: do_getlk_def Let_def split: option.splits if_splits prod.splits)

lemma ret_returns: "ret v = Some (r, w, st') \<Longrightarrow> r \<noteq> None"
  by (auto simp: ret_def)

text \<open>
  C31. No \<^verbatim>\<open>fcntl\<close> ever waits, not even \<^verbatim>\<open>F_SETLKW\<close> and \<^verbatim>\<open>F_SETLKW64\<close>, which ask for it: each passes the
  comparison with the other command as \<^verbatim>\<open>blocking\<close>.
\<close>
theorem sys_fcntl_never_waits:
  assumes "sys_fcntl env f cmd arg st = Some (r, w, st')"
  shows "r \<noteq> None"
proof -
  have ne: "F_SETLKW \<noteq> F_SETLKW64" "F_SETLK \<noteq> F_SETLKW64" "F_SETLK64 \<noteq> F_SETLKW"
    by simp_all
  show ?thesis
    using assms ne do_setlk_nonblocking do_getlk_returns ret_returns
    unfolding sys_fcntl_def by (auto split: option.splits if_splits prod.splits)
qed

text \<open>Another table holds a write lock on the file.\<close>

definition busy_env :: fcntl_env where
  "busy_env = \<lparr>e_read32 = (\<lambda>a. Some \<lparr>h_type = F_WRLCK, h_whence = 0, h_start = 0, h_len = 10, h_pid = 0\<rparr>),
     e_read64 = (\<lambda>a. None), e_write_ok = True, e_cur = None, e_size = Inr 0, e_pid = 4, e_waits = []\<rparr>"

definition busy_file :: fdstate where
  "busy_file = one_file\<lparr>flocks := (\<lambda>i. [\<lparr>l_start = 0, l_end = 4, l_type = F_WRLCK, l_pid = 3, l_owner = 2\<rparr>])\<rparr>"

theorem sys_fcntl_never_waits_witness:
  "\<exists>r w st'. sys_fcntl busy_env 0 F_SETLKW 0 busy_file = Some (r, w, st') \<and> r = Some EAGAIN \<and> r \<noteq> None"
proof -
  have "map_option fst (sys_fcntl busy_env 0 F_SETLKW 0 busy_file) = Some (Some EAGAIN)"
    by code_simp
  then obtain w st' where "sys_fcntl busy_env 0 F_SETLKW 0 busy_file = Some (Some EAGAIN, w, st')"
    by auto
  then show ?thesis using sys_fcntl_never_waits by blast
qed

text \<open>
  The limit has 64 bits, \<^verbatim>\<open>f_install_start\<close> keeps the low 32: with a limit that is a multiple of
  \<^verbatim>\<open>2^32\<close> the search ends at once, and \<^verbatim>\<open>dup\<close> overwrites the file in slot 0, whose reference is lost.
\<close>
theorem sys_dup_overwrites:
  assumes inv: "fd_inv st ext" and ext: "\<forall>j. ext j < 2 ^ 31"
    and lim: "nofile st mod 2 ^ 32 = 0" "0 < nofile st" and get: "f_get f st = Some (Some i)"
  shows "\<exists>st'. sys_dup f st = Some (0, st') \<and> t_files (files st') = (t_files (files st))[0 := Some i]
           \<and> (\<forall>j. j \<noteq> i \<longrightarrow> objs st' j = objs st j)"
proof -
  note tab = fd_inv_table [OF inv]
  obtain st1 where st1: "fd_retain i st = Some st1" "fd_inv st1 (ext(i := ext i + 1))"
      "files st1 = files st" "same_env st st1"
    using fd_retain_room [OF inv f_get_Some(4) [OF tab get] ext] by blast
  have o: "\<forall>j. j \<noteq> i \<longrightarrow> objs st1 j = objs st j"
    using st1(1) by (auto simp: fd_retain_def split: option.splits)
  have w: "w32 (nofile st1) = 0" "0 < nofile st1"
    using lim st1(4) by (simp_all add: w32_def same_env_def)
  have sz: "0 < t_size (files st1)" using tab st1(3) by (simp add: table_ok_def)
  have ff: "first_free (t_files (files st1)) 0 0 = 0" by (simp add: first_free_def)
  have exp: "fdtable_expand 0 st1 = Some (0, st1)"
    using w sz by (simp add: fdtable_expand_def Let_def)
  have len: "0 < length (t_files (files st1))" "0 < length (t_cloexec (files st1))"
    using fd_inv_table [OF st1(2)] by (auto simp: table_ok_def BITS_SIZE_def)
  have "\<exists>st'. f_install_start i 0 st1 = Some (0, st') \<and> objs st' = objs st1
      \<and> t_files (files st') = (t_files (files st1))[0 := Some i]"
    using w len ff exp by (simp add: f_install_start_def Let_def put_file_def put_cloexec_def bit_put_def)
  then show ?thesis
    using get st1 o by (auto simp: sys_dup_def f_install_def)
qed

text \<open>Two files are open and the limit is \<^verbatim>\<open>2^32\<close>.\<close>

definition two_files :: fdstate where
  "two_files = one_file\<lparr>nofile := 2 ^ 32, objs := [5 \<mapsto> one_fd, 6 \<mapsto> one_fd],
     files := \<lparr>t_refcount = 1, t_size = 3, t_files = [Some 5, Some 6, None], t_cloexec = replicate 8 False\<rparr>\<rparr>"

theorem sys_dup_overwrites_witness:
  "\<exists>st'. sys_dup 1 two_files = Some (0, st') \<and> t_files (files st') = [Some 6, Some 6, None]
     \<and> objs st' 5 = Some one_fd"
proof -
  have inv: "fd_inv two_files (\<lambda>i. 0)"
    by (simp add: fd_inv_def two_files_def one_file_def one_fd_def table_ok_def refs_def count_ok_def BITS_SIZE_def)
  have get: "f_get 1 two_files = Some (Some 6)" by (simp add: f_get_def fdtable_get_def two_files_def)
  from sys_dup_overwrites [OF inv _ _ _ get] show ?thesis by (auto simp: two_files_def one_file_def)
qed

end
