(* ===== verification/Futex.thy ===== *)
theory Futex
  imports Prelude
begin

text \<open>
  Futexes, \<^verbatim>\<open>kernel/futex.c\<close>. A futex is an object with an address in a guest memory, a reference
  count and the queue of its waiting threads; the objects hang in the chains of a hash table. All
  of it is protected by \<^verbatim>\<open>futex_lock\<close>, which \<^verbatim>\<open>futex_wait\<close> gives up only inside \<^verbatim>\<open>wait_for\<close>: the call is
  two steps, and the steps of other threads stand between them. \<^const>\<open>None\<close> is a failed assertion, the
  use of a freed futex, or of the null pointer that a failed \<^verbatim>\<open>malloc\<close> leaves.
\<close>

section \<open>Definitions\<close>

abbreviation (input) FUTEX_WAIT :: nat where "FUTEX_WAIT \<equiv> 0"

abbreviation (input) FUTEX_WAKE :: nat where "FUTEX_WAKE \<equiv> 1"

abbreviation (input) FUTEX_REQUEUE :: nat where "FUTEX_REQUEUE \<equiv> 3"

abbreviation (input) FUTEX_PRIVATE_FLAG :: nat where "FUTEX_PRIVATE_FLAG \<equiv> 128"

abbreviation (input) FUTEX_HASH_SIZE :: nat where "FUTEX_HASH_SIZE \<equiv> 2 ^ 12"

record futex =
  fx_refcount :: nat
  fx_mem :: nat
  fx_addr :: nat
  fx_queue :: "nat list"

text \<open>
  The state: the chains, the objects, \<^verbatim>\<open>wait.futex\<close> of every thread inside \<^verbatim>\<open>wait_for\<close>, and the threads
  notified there.
\<close>

record fxstate =
  fx_chains :: "nat \<Rightarrow> nat list"
  futexes :: "nat \<Rightarrow> futex option"
  waits :: "nat \<Rightarrow> nat option"
  notified :: "nat set"

definition init_futex_hash :: fxstate where
  "init_futex_hash = \<lparr>fx_chains = (\<lambda>b. []), futexes = (\<lambda>i. None), waits = (\<lambda>t. None), notified = {}\<rparr>"

definition futex_hash :: "nat \<Rightarrow> nat \<Rightarrow> nat" where
  "futex_hash mem addr = (addr XOR mem) mod FUTEX_HASH_SIZE"

fun find_futex :: "(nat \<Rightarrow> futex option) \<Rightarrow> nat \<Rightarrow> nat \<Rightarrow> nat list \<Rightarrow> nat option option" where
  "find_futex fs mem addr [] = Some None"
| "find_futex fs mem addr (i # chain) =
     (case fs i of
        None \<Rightarrow> None
      | Some f \<Rightarrow> if fx_addr f = addr \<and> fx_mem f = mem then Some (Some i) else find_futex fs mem addr chain)"

definition futex_ref :: "(nat \<Rightarrow> nat) \<Rightarrow> nat \<Rightarrow> fxstate \<Rightarrow> fxstate" where
  "futex_ref g i st =
     st\<lparr>futexes := (futexes st)(i := map_option (\<lambda>f. f\<lparr>fx_refcount := w32 (g (fx_refcount f))\<rparr>) (futexes st i))\<rparr>"

text \<open>\<open>fresh\<close> is what \<^verbatim>\<open>malloc\<close> returns; without it the callers use a null pointer.\<close>

definition futex_get :: "nat option \<Rightarrow> nat \<Rightarrow> nat \<Rightarrow> fxstate \<Rightarrow> (nat \<times> fxstate) option" where
  "futex_get fresh mem addr st =
     (let b = futex_hash mem addr
      in case find_futex (futexes st) mem addr (fx_chains st b) of
           None \<Rightarrow> None
         | Some (Some i) \<Rightarrow> Some (i, futex_ref (\<lambda>n. n + 1) i st)
         | Some None \<Rightarrow>
             map_option
               (\<lambda>i. (i, st\<lparr>futexes := (futexes st)(i \<mapsto> \<lparr>fx_refcount = 1, fx_mem = mem, fx_addr = addr, fx_queue = []\<rparr>),
                           fx_chains := (fx_chains st)(b := i # fx_chains st b)\<rparr>)) fresh)"

definition futex_put :: "nat \<Rightarrow> fxstate \<Rightarrow> fxstate option" where
  "futex_put i st =
     (case futexes st i of
        None \<Rightarrow> None
      | Some f \<Rightarrow>
          if w32 (fx_refcount f + (2 ^ 32 - 1)) = 0
          then if fx_queue f \<noteq> [] then None
               else let b = futex_hash (fx_mem f) (fx_addr f)
                    in Some (st\<lparr>futexes := (futexes st)(i := None),
                                fx_chains := (fx_chains st)(b := remove1 i (fx_chains st b))\<rparr>)
          else Some (futex_ref (\<lambda>n. n + (2 ^ 32 - 1)) i st))"

definition set_queue :: "nat \<Rightarrow> nat list \<Rightarrow> fxstate \<Rightarrow> fxstate" where
  "set_queue i q st = st\<lparr>futexes := (futexes st)(i := map_option (\<lambda>f. f\<lparr>fx_queue := q\<rparr>) (futexes st i))\<rparr>"

definition queue_of :: "fxstate \<Rightarrow> nat \<Rightarrow> nat list" where
  "queue_of st i = (case futexes st i of None \<Rightarrow> [] | Some f \<Rightarrow> fx_queue f)"

text \<open>
  \<^verbatim>\<open>futex_wait\<close> up to \<^verbatim>\<open>wait_for\<close>: \<open>load\<close> is the value at the address, \<^const>\<open>None\<close> if it is not mapped.
  The result is the error of a call that does not wait.
\<close>

definition futex_wait_begin ::
  "nat option \<Rightarrow> nat \<Rightarrow> nat \<Rightarrow> nat \<Rightarrow> nat \<Rightarrow> nat option \<Rightarrow> fxstate \<Rightarrow> (int option \<times> fxstate) option" where
  "futex_wait_begin fresh t mem uaddr val load st =
     (case futex_get fresh mem uaddr st of
        None \<Rightarrow> None
      | Some (i, st1) \<Rightarrow>
          (case load of
             None \<Rightarrow> map_option (\<lambda>st2. (Some EFAULT, st2)) (futex_put i st1)
           | Some tmp \<Rightarrow>
               if tmp \<noteq> val then map_option (\<lambda>st2. (Some EAGAIN, st2)) (futex_put i st1)
               else Some (None, (set_queue i (queue_of st1 i @ [t]) st1)
                                  \<lparr>waits := (waits st1)(t \<mapsto> i), notified := notified st1 - {t}\<rparr>)))"

text \<open>
  After \<^verbatim>\<open>wait_for\<close>: the thread leaves the queue it is still linked in, if any, and drops the futex
  that \<^verbatim>\<open>wait.futex\<close> names now.
\<close>

definition unlink :: "nat \<Rightarrow> fxstate \<Rightarrow> fxstate" where
  "unlink t st = st\<lparr>futexes := (\<lambda>i. map_option (\<lambda>f. f\<lparr>fx_queue := remove1 t (fx_queue f)\<rparr>) (futexes st i))\<rparr>"

definition futex_wait_end :: "nat \<Rightarrow> fxstate \<Rightarrow> fxstate option" where
  "futex_wait_end t st =
     (case waits st t of
        None \<Rightarrow> None
      | Some i \<Rightarrow> map_option (\<lambda>st1. st1\<lparr>waits := (waits st1)(t := None), notified := notified st1 - {t}\<rparr>)
                    (futex_put i (unlink t st)))"

text \<open>
  Moving the waiter \<open>t\<close> from the futex \<open>i\<close> to \<open>j\<close>, and the loop over the queue, whose next entry is
  read before the body changes the list.
\<close>

definition requeue_one :: "nat \<Rightarrow> nat \<Rightarrow> nat \<Rightarrow> fxstate \<Rightarrow> fxstate option" where
  "requeue_one i j t st =
     (let st1 = unlink t st;
          st2 = set_queue j (queue_of st1 j @ [t]) st1
      in case (futexes st2 i, futexes st2 j) of
           (Some f, Some g) \<Rightarrow>
             if fx_refcount f \<le> 1 then None
             else Some ((futex_ref (\<lambda>n. n + 1) j (futex_ref (\<lambda>n. n + (2 ^ 32 - 1)) i st2))
                          \<lparr>waits := (waits st2)(t \<mapsto> j)\<rparr>)
         | _ \<Rightarrow> None)"

definition next_in :: "nat list \<Rightarrow> nat \<Rightarrow> nat option" where
  "next_in q t = (case dropWhile (\<lambda>x. x \<noteq> t) q of x # y # r \<Rightarrow> Some y | _ \<Rightarrow> None)"

fun requeue_loop :: "nat \<Rightarrow> nat \<Rightarrow> nat \<Rightarrow> nat option \<Rightarrow> fxstate \<Rightarrow> (nat \<times> fxstate) option" where
  "requeue_loop i j n None st = Some (0, st)"
| "requeue_loop i j 0 (Some t) st = Some (0, st)"
| "requeue_loop i j (Suc n) (Some t) st =
     (case requeue_one i j t st of
        None \<Rightarrow> None
      | Some st1 \<Rightarrow>
          map_option (\<lambda>(k, st2). (k + 1, st2)) (requeue_loop i j n (next_in (queue_of st i) t) st1))"

definition list_first :: "'a list \<Rightarrow> 'a option" where
  "list_first q = (case q of [] \<Rightarrow> None | x # r \<Rightarrow> Some x)"

text \<open>The result counts unsigned, with 32 bits.\<close>

definition futex_wakelike ::
  "nat option \<Rightarrow> nat option \<Rightarrow> nat \<Rightarrow> nat \<Rightarrow> nat \<Rightarrow> nat \<Rightarrow> nat \<Rightarrow> nat \<Rightarrow> fxstate \<Rightarrow> (nat \<times> fxstate) option" where
  "futex_wakelike fresh fresh2 mem op uaddr wake_max requeue_max requeue_addr st =
     (case futex_get fresh mem uaddr st of
        None \<Rightarrow> None
      | Some (i, st1) \<Rightarrow>
          let q = queue_of st1 i; woken = min wake_max (length q);
              st2 = (set_queue i (drop woken q) st1)\<lparr>notified := notified st1 \<union> set (take woken q)\<rparr>
          in if op = FUTEX_REQUEUE then
               (case futex_get fresh2 mem requeue_addr st2 of
                  None \<Rightarrow> None
                | Some (j, st3) \<Rightarrow>
                    (case requeue_loop i j requeue_max (list_first (queue_of st3 i)) st3 of
                       None \<Rightarrow> None
                     | Some (requeued, st4) \<Rightarrow>
                         (case futex_put j st4 of
                            None \<Rightarrow> None
                          | Some st5 \<Rightarrow> map_option (\<lambda>st6. (w32 (woken + requeued), st6)) (futex_put i st5))))
             else map_option (\<lambda>st3. (woken, st3)) (futex_put i st2))"

definition futex_wake :: "nat option \<Rightarrow> nat \<Rightarrow> nat \<Rightarrow> nat \<Rightarrow> fxstate \<Rightarrow> (nat \<times> fxstate) option" where
  "futex_wake fresh mem uaddr wake_max = futex_wakelike fresh None mem FUTEX_WAKE uaddr wake_max 0 0"

text \<open>
  The system call: \<open>timeout_ok\<close> tells whether the timeout could be read. The result is \<^const>\<open>None\<close>
  while the thread waits.
\<close>

definition sys_futex ::
  "nat option \<Rightarrow> nat option \<Rightarrow> nat \<Rightarrow> nat \<Rightarrow> bool \<Rightarrow> nat option \<Rightarrow> nat \<Rightarrow> nat \<Rightarrow> nat \<Rightarrow> nat \<Rightarrow> nat \<Rightarrow> fxstate \<Rightarrow>
   (int option \<times> fxstate) option" where
  "sys_futex fresh fresh2 t mem timeout_ok load uaddr op val timeout_or_val2 uaddr2 st =
     (let cmd = op AND (2 ^ 32 - 1 - FUTEX_PRIVATE_FLAG);
          ret_count = map_option (\<lambda>(k, st). (Some (int k), st))
      in if cmd = FUTEX_WAIT \<and> timeout_or_val2 \<noteq> 0 \<and> \<not> timeout_ok then Some (Some EFAULT, st)
         else if cmd = FUTEX_WAIT then futex_wait_begin fresh t mem uaddr val load st
         else if cmd = FUTEX_WAKE then ret_count (futex_wakelike fresh fresh2 mem cmd uaddr val 0 0 st)
         else if cmd = FUTEX_REQUEUE
         then ret_count (futex_wakelike fresh fresh2 mem cmd uaddr val timeout_or_val2 uaddr2 st)
         else Some (Some ENOSYS, st))"

definition sys_set_robust_list :: "nat \<Rightarrow> nat \<Rightarrow> nat \<Rightarrow> int \<times> nat" where
  "sys_set_robust_list robust_list len old = (if len \<noteq> 12 then (EINVAL, old) else (0, robust_list))"

text \<open>The value and the length written back, each with whether its write succeeds.\<close>

definition sys_get_robust_list ::
  "bool \<Rightarrow> bool \<Rightarrow> bool \<Rightarrow> nat \<Rightarrow> int \<times> nat option \<times> nat option" where
  "sys_get_robust_list is_current put_list put_len robust_list =
     (if \<not> is_current then (EPERM, None, None)
      else if \<not> put_list then (EFAULT, None, None)
      else if \<not> put_len then (EFAULT, Some robust_list, None)
      else (0, Some robust_list, Some 12))"

section \<open>The invariant\<close>

definition waiters :: "fxstate \<Rightarrow> nat \<Rightarrow> nat set" where
  "waiters st i = {t. waits st t = Some i}"

definition key :: "fxstate \<Rightarrow> nat \<Rightarrow> (nat \<times> nat) option" where
  "key st i = map_option (\<lambda>f. (fx_mem f, fx_addr f)) (futexes st i)"

text \<open>The count of a futex: its waiting threads and the calls \<open>ext\<close> in progress.\<close>

definition futex_ok :: "fxstate \<Rightarrow> nat \<Rightarrow> nat \<Rightarrow> bool" where
  "futex_ok st i e =
     (case futexes st i of
        None \<Rightarrow> waiters st i = {} \<and> e = 0
      | Some f \<Rightarrow> fx_refcount f = card (waiters st i) + e \<and> 0 < fx_refcount f
          \<and> set (fx_queue f) \<subseteq> waiters st i \<and> distinct (fx_queue f))"

text \<open>The chains hold every futex once, in the chain of its key, and no key twice.\<close>

definition chains_ok :: "(nat \<Rightarrow> nat list) \<Rightarrow> (nat \<Rightarrow> (nat \<times> nat) option) \<Rightarrow> bool" where
  "chains_ok cs k \<longleftrightarrow>
     (\<forall>b. distinct (cs b) \<and> (\<forall>i. i \<in> set (cs b) \<longleftrightarrow> (\<exists>m a. k i = Some (m, a) \<and> futex_hash m a = b)))
     \<and> (\<forall>i j. k i \<noteq> None \<longrightarrow> k i = k j \<longrightarrow> i = j)"

text \<open>A thread inside \<^verbatim>\<open>wait_for\<close> is in the queue of its futex or has been notified, never both.\<close>

definition no_lost :: "fxstate \<Rightarrow> bool" where
  "no_lost st \<longleftrightarrow> (\<forall>t i. waits st t = Some i \<longrightarrow> (t \<in> set (queue_of st i)) \<noteq> (t \<in> notified st))"

definition few_waits :: "fxstate \<Rightarrow> bool" where
  "few_waits st \<longleftrightarrow> finite {t. waits st t \<noteq> None} \<and> card {t. waits st t \<noteq> None} < 2 ^ 31"

definition fx_inv :: "fxstate \<Rightarrow> (nat \<Rightarrow> nat) \<Rightarrow> bool" where
  "fx_inv st ext \<longleftrightarrow> (\<forall>i. futex_ok st i (ext i)) \<and> chains_ok (fx_chains st) (key st) \<and> no_lost st \<and> few_waits st"

definition same_waits :: "fxstate \<Rightarrow> fxstate \<Rightarrow> bool" where
  "same_waits st st' \<longleftrightarrow> waits st' = waits st \<and> notified st' = notified st \<and> queue_of st' = queue_of st"

lemma fx_inv_init: "fx_inv init_futex_hash (\<lambda>i. 0)"
  by (simp add: fx_inv_def init_futex_hash_def futex_ok_def waiters_def chains_ok_def key_def no_lost_def
      few_waits_def)

lemma fx_inv_futex: "fx_inv st ext \<Longrightarrow> futex_ok st i (ext i)"
  by (simp add: fx_inv_def)

lemma fx_inv_Some:
  assumes "fx_inv st ext" "futexes st i = Some f"
  shows "fx_refcount f = card (waiters st i) + ext i" "0 < fx_refcount f"
    "set (fx_queue f) \<subseteq> waiters st i" "distinct (fx_queue f)"
  using fx_inv_futex [OF assms(1), of i] assms(2) unfolding futex_ok_def by auto

lemma fx_inv_None:
  assumes "fx_inv st ext" "futexes st i = None"
  shows "waiters st i = {}" "ext i = 0"
  using fx_inv_futex [OF assms(1), of i] assms(2) by (simp_all add: futex_ok_def)

lemma one_call_bound [simp]: "\<forall>j. ((\<lambda>i. 0 :: nat)(i := 1)) j < 2 ^ 31"
  by simp

lemma one_call_done [simp]: "((\<lambda>i. 0 :: nat)(i := 1))(i := ((\<lambda>i. 0 :: nat)(i := 1)) i - 1) = (\<lambda>i. 0)"
  by auto

lemma waiters_few:
  assumes "few_waits st"
  shows "finite (waiters st i)" "card (waiters st i) < 2 ^ 31"
proof -
  have s: "waiters st i \<subseteq> {t. waits st t \<noteq> None}" by (auto simp: waiters_def)
  show "finite (waiters st i)" using assms s finite_subset unfolding few_waits_def by blast
  show "card (waiters st i) < 2 ^ 31"
    using assms card_mono [OF _ s] unfolding few_waits_def by (meson le_less_trans)
qed

lemma find_futex_spec:
  assumes "\<forall>i \<in> set chain. fs i \<noteq> None"
  shows "\<exists>r. find_futex fs mem addr chain = Some r \<and>
    (case r of None \<Rightarrow> \<forall>i \<in> set chain. \<forall>f. fs i = Some f \<longrightarrow> (fx_mem f, fx_addr f) \<noteq> (mem, addr)
     | Some i \<Rightarrow> i \<in> set chain \<and> (\<exists>f. fs i = Some f \<and> fx_mem f = mem \<and> fx_addr f = addr))"
  using assms
proof (induction chain)
  case (Cons i chain)
  obtain f where f: "fs i = Some f" using Cons.prems by auto
  show ?case
  proof (cases "fx_addr f = addr \<and> fx_mem f = mem")
    case True
    then show ?thesis using f by auto
  next
    case False
    obtain r where "find_futex fs mem addr chain = Some r"
      "case r of None \<Rightarrow> \<forall>i \<in> set chain. \<forall>f. fs i = Some f \<longrightarrow> (fx_mem f, fx_addr f) \<noteq> (mem, addr)
       | Some i \<Rightarrow> i \<in> set chain \<and> (\<exists>f. fs i = Some f \<and> fx_mem f = mem \<and> fx_addr f = addr)"
      using Cons by auto
    then show ?thesis using f False by (auto split: option.splits)
  qed
qed simp

lemma waiters_update [simp]:
  "waiters (st\<lparr>futexes := x\<rparr>) = waiters st" "waiters (st\<lparr>fx_chains := c\<rparr>) = waiters st"
  "waiters (st\<lparr>notified := n\<rparr>) = waiters st"
  by (auto simp: waiters_def fun_eq_iff)

lemma futex_ref_simps [simp]:
  "key (futex_ref g i st) = key st" "fx_chains (futex_ref g i st) = fx_chains st"
  "queue_of (futex_ref g i st) = queue_of st" "waits (futex_ref g i st) = waits st"
  "notified (futex_ref g i st) = notified st" "waiters (futex_ref g i st) = waiters st"
  by (auto simp: futex_ref_def key_def queue_of_def waiters_def fun_eq_iff option.map_comp o_def split: option.splits)

lemma futex_ref_get [simp]: "j \<noteq> i \<Longrightarrow> futexes (futex_ref g i st) j = futexes st j"
  by (simp add: futex_ref_def)

lemma futex_ref_ok:
  assumes "futex_ok st i e" "futexes st i \<noteq> None" "\<And>n. n = card (waiters st i) + e \<Longrightarrow> w32 (g n) = card (waiters st i) + e'"
    "0 < card (waiters st i) + e'"
  shows "futex_ok (futex_ref g i st) i e'"
  using assms by (auto simp: futex_ok_def futex_ref_def split: option.splits)

lemma futex_ref_other: "j \<noteq> i \<Longrightarrow> futex_ok (futex_ref g i st) j e = futex_ok st j e"
  by (simp add: futex_ok_def futex_ref_def split: option.split)

lemma fx_inv_ref:
  assumes inv: "fx_inv st ext" and i: "futexes st i \<noteq> None"
    and g: "w32 (g (card (waiters st i) + ext i)) = card (waiters st i) + e'" "0 < card (waiters st i) + e'"
  shows "fx_inv (futex_ref g i st) (ext(i := e'))"
proof -
  have "futex_ok (futex_ref g i st) j ((ext(i := e')) j)" for j
    using inv i g futex_ref_ok [of st i "ext i" g e'] futex_ref_other [of j i g st]
    by (cases "j = i") (auto simp: fx_inv_def)
  then show ?thesis using inv by (simp add: fx_inv_def no_lost_def few_waits_def)
qed

lemma chains_ok_add:
  assumes "chains_ok cs k" "k i = None" "\<forall>j. k j \<noteq> Some (m, a)"
  shows "chains_ok (cs(futex_hash m a := i # cs (futex_hash m a))) (k(i \<mapsto> (m, a)))"
  using assms unfolding chains_ok_def by (auto split: if_splits)

lemma chains_ok_remove:
  assumes "chains_ok cs k" "k i = Some (m, a)"
  shows "chains_ok (cs(futex_hash m a := remove1 i (cs (futex_hash m a)))) (k(i := None))"
  using assms unfolding chains_ok_def by (auto split: if_splits)

lemma w32_pred: "0 < n \<Longrightarrow> n < 2 ^ 32 \<Longrightarrow> w32 (n + (2 ^ 32 - 1)) = n - 1"
proof -
  assume n: "0 < n" "n < 2 ^ 32"
  then have "n + (2 ^ 32 - 1) = (n - 1) + 2 ^ 32" by simp
  then have "w32 (n + (2 ^ 32 - 1)) = (n - 1) mod 2 ^ 32" unfolding w32_def by (metis mod_add_self2)
  then show ?thesis using n by simp
qed

lemma fx_inv_count:
  assumes "fx_inv st ext" "\<forall>j. ext j < 2 ^ 31"
  shows "card (waiters st i) + ext i < 2 ^ 32 - 1"
proof -
  have "card (waiters st i) < 2 ^ 31" "ext i < 2 ^ 31"
    using assms waiters_few unfolding fx_inv_def by blast+
  then show ?thesis by simp
qed

lemma futex_get_inv:
  assumes inv: "fx_inv st ext" and ext: "\<forall>j. ext j < 2 ^ 31" and n: "futexes st n = None"
  shows "\<exists>i st'. futex_get (Some n) mem addr st = Some (i, st') \<and> fx_inv st' (ext(i := ext i + 1))
    \<and> same_waits st st' \<and> key st' i = Some (mem, addr)
    \<and> (\<forall>j. futexes st j \<noteq> None \<longrightarrow> key st' j = key st j) \<and> (\<forall>j. j \<noteq> i \<longrightarrow> futexes st' j = futexes st j)"
proof -
  let ?b = "futex_hash mem addr"
  have ch: "chains_ok (fx_chains st) (key st)" using inv by (simp add: fx_inv_def)
  have in_chain: "i \<in> set (fx_chains st b) \<longleftrightarrow> (\<exists>m a. key st i = Some (m, a) \<and> futex_hash m a = b)" for i b
    using ch by (simp add: chains_ok_def)
  have "\<forall>i \<in> set (fx_chains st ?b). futexes st i \<noteq> None" using in_chain by (auto simp: key_def)
  then obtain r where r: "find_futex (futexes st) mem addr (fx_chains st ?b) = Some r"
    "case r of None \<Rightarrow> \<forall>i \<in> set (fx_chains st ?b). \<forall>f. futexes st i = Some f \<longrightarrow> (fx_mem f, fx_addr f) \<noteq> (mem, addr)
     | Some i \<Rightarrow> i \<in> set (fx_chains st ?b) \<and> (\<exists>f. futexes st i = Some f \<and> fx_mem f = mem \<and> fx_addr f = addr)"
    using find_futex_spec by blast
  show ?thesis
  proof (cases r)
    case (Some i)
    then have i: "key st i = Some (mem, addr)" "futexes st i \<noteq> None" using r(2) by (auto simp: key_def)
    have "fx_inv (futex_ref (\<lambda>n. n + 1) i st) (ext(i := ext i + 1))"
      using fx_inv_count [OF inv ext, of i] by (intro fx_inv_ref [OF inv i(2)]) (simp_all add: w32_def)
    then show ?thesis
      using r(1) Some i by (auto simp: futex_get_def same_waits_def Let_def)
  next
    case None
    let ?f = "\<lparr>fx_refcount = 1, fx_mem = mem, fx_addr = addr, fx_queue = []\<rparr>"
    let ?st = "st\<lparr>futexes := (futexes st)(n \<mapsto> ?f), fx_chains := (fx_chains st)(?b := n # fx_chains st ?b)\<rparr>"
    have k: "key ?st = (key st)(n \<mapsto> (mem, addr))" by (auto simp: key_def fun_eq_iff)
    have nokey: "\<forall>j. key st j \<noteq> Some (mem, addr)"
    proof (intro allI notI)
      fix j assume j: "key st j = Some (mem, addr)"
      then have "j \<in> set (fx_chains st ?b)" using in_chain by blast
      then show False using j r(2) None by (auto simp: key_def)
    qed
    have kn: "key st n = None" using n by (simp add: key_def)
    have c: "chains_ok (fx_chains ?st) (key ?st)"
      using chains_ok_add [OF ch kn nokey] k by simp
    have q: "queue_of ?st = queue_of st" using n by (auto simp: queue_of_def fun_eq_iff)
    note z = fx_inv_None [OF inv n]
    have "futex_ok ?st j ((ext(n := ext n + 1)) j)" for j
      using fx_inv_futex [OF inv, of j] z by (cases "j = n") (auto simp: futex_ok_def split: option.splits)
    then have "fx_inv ?st (ext(n := ext n + 1))"
      using inv c q by (simp add: fx_inv_def no_lost_def few_waits_def)
    then show ?thesis using r(1) None k q n by (auto simp: futex_get_def same_waits_def Let_def)
  qed
qed

lemma futex_put_inv:
  assumes inv: "fx_inv st ext" and ext: "\<forall>j. ext j < 2 ^ 31" and pos: "0 < ext i"
  shows "\<exists>st'. futex_put i st = Some st' \<and> fx_inv st' (ext(i := ext i - 1)) \<and> same_waits st st'"
proof -
  obtain f where f: "futexes st i = Some f" "fx_refcount f = card (waiters st i) + ext i"
      "set (fx_queue f) \<subseteq> waiters st i"
    using inv pos by (fastforce simp: fx_inv_def futex_ok_def split: option.splits)
  have few: "few_waits st" using inv by (simp add: fx_inv_def)
  have w: "w32 (fx_refcount f + (2 ^ 32 - 1)) = card (waiters st i) + ext i - 1"
    using w32_pred [of "fx_refcount f"] fx_inv_count [OF inv ext, of i] f pos by simp
  show ?thesis
  proof (cases "card (waiters st i) + ext i - 1 = 0")
    case True
    then have e: "ext i = 1" "card (waiters st i) = 0" using pos by linarith+
    then have none: "waiters st i = {}" using waiters_few [OF few] by simp
    then have q: "fx_queue f = []" using f(3) by simp
    let ?b = "futex_hash (fx_mem f) (fx_addr f)"
    let ?st = "st\<lparr>futexes := (futexes st)(i := None), fx_chains := (fx_chains st)(?b := remove1 i (fx_chains st ?b))\<rparr>"
    have k: "key ?st = (key st)(i := None)" by (auto simp: key_def fun_eq_iff)
    have "key st i = Some (fx_mem f, fx_addr f)" using f by (simp add: key_def)
    then have c: "chains_ok (fx_chains ?st) (key ?st)"
      using chains_ok_remove [of "fx_chains st" "key st" i] inv k by (simp add: fx_inv_def)
    have qo: "queue_of ?st = queue_of st" using f q by (auto simp: queue_of_def fun_eq_iff)
    have "futex_ok ?st j ((ext(i := ext i - 1)) j)" for j
      using fx_inv_futex [OF inv, of j] none e by (cases "j = i") (auto simp: futex_ok_def split: option.splits)
    then have "fx_inv ?st (ext(i := ext i - 1))"
      using inv c qo by (simp add: fx_inv_def no_lost_def few_waits_def)
    then show ?thesis using f w True q qo by (simp add: futex_put_def same_waits_def Let_def)
  next
    case False
    have "fx_inv (futex_ref (\<lambda>n. n + (2 ^ 32 - 1)) i st) (ext(i := ext i - 1))"
      using f w False pos by (intro fx_inv_ref [OF inv]) simp_all
    then show ?thesis using f w False by (simp add: futex_put_def same_waits_def)
  qed
qed

text \<open>A thread that leaves, and one that joins, the waiters of a futex.\<close>

definition detach :: "nat \<Rightarrow> fxstate \<Rightarrow> fxstate" where
  "detach t st = (unlink t st)\<lparr>waits := (waits st)(t := None), notified := notified st - {t}\<rparr>"

definition attach :: "nat \<Rightarrow> nat \<Rightarrow> fxstate \<Rightarrow> fxstate" where
  "attach t i st = (set_queue i (queue_of st i @ [t]) st)\<lparr>waits := (waits st)(t \<mapsto> i), notified := notified st - {t}\<rparr>"

lemma futex_ok_queue: "futex_ok st i e \<Longrightarrow> set (queue_of st i) \<subseteq> waiters st i \<and> distinct (queue_of st i)"
  by (auto simp: futex_ok_def queue_of_def split: option.splits)

lemma fx_inv_queue: "fx_inv st ext \<Longrightarrow> set (queue_of st i) \<subseteq> waiters st i \<and> distinct (queue_of st i)"
  using futex_ok_queue unfolding fx_inv_def by blast

lemma key_unlink [simp]: "key (unlink t st) = key st"
  by (auto simp: key_def unlink_def fun_eq_iff option.map_comp o_def)

lemma key_set_queue [simp]: "key (set_queue i q st) = key st"
  by (auto simp: key_def set_queue_def fun_eq_iff option.map_comp o_def)

lemma key_update [simp]:
  "key (st\<lparr>waits := w\<rparr>) = key st" "key (st\<lparr>notified := n\<rparr>) = key st"
  by (auto simp: key_def fun_eq_iff)

lemma queue_of_unlink: "queue_of (unlink t st) i = remove1 t (queue_of st i)"
  by (auto simp: queue_of_def unlink_def split: option.splits)

lemma queue_of_set_queue: "queue_of (set_queue i q st) j = (if j = i \<and> futexes st i \<noteq> None then q else queue_of st j)"
  by (auto simp: queue_of_def set_queue_def split: option.splits)

lemma queue_of_update [simp]:
  "queue_of (st\<lparr>waits := w\<rparr>) = queue_of st" "queue_of (st\<lparr>notified := n\<rparr>) = queue_of st"
  by (auto simp: queue_of_def fun_eq_iff)

lemma few_waits_less:
  assumes "few_waits st" "{t. waits st' t \<noteq> None} \<subseteq> {t. waits st t \<noteq> None}"
  shows "few_waits st'"
  using assms card_mono [OF _ assms(2)] finite_subset unfolding few_waits_def by (meson le_less_trans)

lemma detach_inv:
  assumes inv: "fx_inv st ext" and t: "waits st t = Some i"
  shows "fx_inv (detach t st) (ext(i := ext i + 1))"
proof -
  let ?st = "detach t st"
  have few: "few_waits st" using inv by (simp add: fx_inv_def)
  have w: "waiters ?st j = waiters st j - {t}" for j by (auto simp: waiters_def detach_def)
  have ti: "t \<in> waiters st i" using t by (simp add: waiters_def)
  have tj: "j \<noteq> i \<Longrightarrow> t \<notin> waiters st j" for j using t by (simp add: waiters_def)
  have q: "queue_of ?st j = remove1 t (queue_of st j)" for j by (simp add: detach_def queue_of_unlink)
  have "futex_ok ?st j ((ext(i := ext i + 1)) j)" for j
  proof (cases "futexes st j")
    case None
    then have "waiters st j = {}" "ext j = 0" "j \<noteq> i" using fx_inv_None [OF inv None] ti by auto
    then show ?thesis using None w [of j] by (simp add: futex_ok_def detach_def unlink_def)
  next
    case (Some f)
    note f = fx_inv_Some [OF inv Some]
    have "card (waiters st j - {t}) + (ext(i := ext i + 1)) j = card (waiters st j) + ext j"
    proof (cases "j = i")
      case True
      then have "0 < card (waiters st i)" using ti waiters_few(1) [OF few] card_gt_0_iff by blast
      then show ?thesis using True ti by (simp add: card_Diff_singleton)
    next
      case False
      then show ?thesis using tj by simp
    qed
    then show ?thesis
      using Some f w [of j] by (auto simp: futex_ok_def detach_def unlink_def simp del: fun_upd_apply)
  qed
  moreover have "no_lost ?st"
    using inv fx_inv_queue [OF inv] q by (auto simp: fx_inv_def no_lost_def detach_def)
  moreover have "few_waits ?st" by (rule few_waits_less [OF few]) (auto simp: detach_def)
  moreover have "fx_chains ?st = fx_chains st" "key ?st = key st" by (simp_all add: detach_def unlink_def) (simp add: unlink_def [symmetric])
  ultimately show ?thesis using inv by (simp add: fx_inv_def)
qed

lemma attach_inv:
  assumes inv: "fx_inv st (ext(i := ext i + 1))" and t: "waits st t = None"
    and room: "card {t. waits st t \<noteq> None} + 1 < 2 ^ 31"
  shows "fx_inv (attach t i st) ext"
proof -
  let ?st = "attach t i st"
  have few: "few_waits st" using inv by (simp add: fx_inv_def)
  obtain f where f: "futexes st i = Some f"
    using inv by (fastforce simp: fx_inv_def futex_ok_def split: option.splits)
  have w: "waiters ?st j = (if j = i then insert t (waiters st i) else waiters st j)" for j
    using t by (auto simp: waiters_def attach_def set_queue_def)
  have tn: "t \<notin> waiters st j" for j using t by (simp add: waiters_def)
  have q: "queue_of ?st j = (if j = i then queue_of st i @ [t] else queue_of st j)" for j
    using f by (simp add: attach_def queue_of_set_queue)
  have "futex_ok ?st j (ext j)" for j
  proof (cases "j = i")
    case True
    have g: "fx_refcount f = card (waiters st i) + (ext i + 1)" "set (fx_queue f) \<subseteq> waiters st i" "distinct (fx_queue f)"
      using fx_inv_Some [OF inv f] by simp_all
    have "t \<notin> set (fx_queue f)" using g(2) tn by blast
    then show ?thesis
      using True f g w [of i] tn [of i] waiters_few(1) [OF few, of i]
      by (auto simp: futex_ok_def attach_def set_queue_def queue_of_def)
  next
    case False
    have "futex_ok st j (ext j)" using inv False unfolding fx_inv_def by (metis fun_upd_other)
    then show ?thesis
      using False w [of j] unfolding futex_ok_def by (simp add: attach_def set_queue_def split: option.splits) auto
  qed
  moreover have "no_lost ?st"
    using inv fx_inv_queue [OF inv] q tn by (auto simp: fx_inv_def no_lost_def attach_def set_queue_def)
  moreover have "few_waits ?st"
  proof -
    have "{s. waits ?st s \<noteq> None} = insert t {s. waits st s \<noteq> None}" by (auto simp: attach_def set_queue_def)
    then show ?thesis using few room t by (simp add: few_waits_def)
  qed
  moreover have "fx_chains ?st = fx_chains st" "key ?st = key st"
    by (simp_all add: attach_def) (simp add: set_queue_def)
  ultimately show ?thesis using inv by (simp add: fx_inv_def)
qed

lemma wake_inv:
  assumes inv: "fx_inv st ext"
  shows "fx_inv ((set_queue i (drop k (queue_of st i)) st)\<lparr>notified := notified st \<union> set (take k (queue_of st i))\<rparr>) ext"
    (is "fx_inv ?st ext")
proof -
  let ?q = "queue_of st i"
  note Q = fx_inv_queue [OF inv]
  have dist: "distinct ?q" "set (take k ?q) \<inter> set (drop k ?q) = {}"
    using Q by (simp_all add: set_take_disj_set_drop_if_distinct)
  have parts: "set ?q = set (take k ?q) \<union> set (drop k ?q)" by (metis append_take_drop_id set_append)
  have w: "waiters ?st = waiters st" by (auto simp: waiters_def set_queue_def fun_eq_iff)
  have q: "queue_of ?st j = (if j = i then drop k ?q else queue_of st j)" for j
    by (auto simp: queue_of_set_queue) (simp add: queue_of_def)
  have "futex_ok ?st j (ext j)" for j
  proof -
    have "futex_ok st j (ext j)" using inv by (simp add: fx_inv_def)
    then show ?thesis
      using w set_drop_subset [of k ?q] by (cases "j = i"; cases "futexes st j") (auto simp: futex_ok_def set_queue_def queue_of_def)
  qed
  moreover have "no_lost ?st"
    unfolding no_lost_def
  proof (intro allI impI)
    fix t j assume "waits ?st t = Some j"
    then have tj: "waits st t = Some j" by (simp add: set_queue_def)
    then have n: "(t \<in> set (queue_of st j)) \<noteq> (t \<in> notified st)" using inv by (simp add: fx_inv_def no_lost_def)
    have "j \<noteq> i \<Longrightarrow> t \<notin> set (take k ?q)"
      using Q [of i] tj in_set_takeD [of t k ?q] by (auto simp: waiters_def)
    then show "(t \<in> set (queue_of ?st j)) \<noteq> (t \<in> notified ?st)"
      using n dist parts q [of j] by (cases "j = i") auto
  qed
  moreover have "few_waits ?st" using inv by (simp add: fx_inv_def few_waits_def set_queue_def)
  moreover have "fx_chains ?st = fx_chains st" "key ?st = key st" by (simp_all add: set_queue_def) (simp add: set_queue_def [symmetric])
  ultimately show ?thesis using inv by (simp add: fx_inv_def)
qed

section \<open>The calls\<close>

lemma futex_wait_begin_inv:
  assumes inv: "fx_inv st (\<lambda>i. 0)" and n: "futexes st n = None" and t: "waits st t = None"
    and room: "card {t. waits st t \<noteq> None} + 1 < 2 ^ 31"
  shows "\<exists>r st'. futex_wait_begin (Some n) t mem uaddr val load st = Some (r, st') \<and> fx_inv st' (\<lambda>i. 0)"
proof -
  obtain i st1 where g: "futex_get (Some n) mem uaddr st = Some (i, st1)" "fx_inv st1 ((\<lambda>i. 0)(i := 1))"
      "same_waits st st1"
    using futex_get_inv [OF inv _ n, of mem uaddr] by auto
  obtain st2 where p: "futex_put i st1 = Some st2" "fx_inv st2 (\<lambda>i. 0)"
    using futex_put_inv [OF g(2) one_call_bound, of i] unfolding one_call_done by auto
  have "fx_inv (attach t i st1) (\<lambda>i. 0)"
    using attach_inv [of st1 "\<lambda>i. 0" i t] g(2,3) t room by (simp add: same_waits_def)
  then show ?thesis
    using g(1) p by (auto simp: futex_wait_begin_def attach_def split: option.splits)
qed

lemma futex_put_update:
  "futex_put i (st\<lparr>waits := w, notified := n\<rparr>) = map_option (\<lambda>s. s\<lparr>waits := w, notified := n\<rparr>) (futex_put i st)"
  by (simp add: futex_put_def futex_ref_def Let_def split: option.split)

lemma futex_put_waits: "futex_put i st = Some st' \<Longrightarrow> waits st' = waits st \<and> notified st' = notified st"
  by (auto simp: futex_put_def Let_def split: option.splits if_splits)

lemma futex_wait_end_inv:
  assumes inv: "fx_inv st (\<lambda>i. 0)" and t: "waits st t = Some i"
  shows "\<exists>st'. futex_wait_end t st = Some st' \<and> fx_inv st' (\<lambda>i. 0) \<and> waits st' = (waits st)(t := None)"
proof -
  have d: "fx_inv (detach t st) ((\<lambda>i. 0)(i := 1))" using detach_inv [OF inv t] by simp
  obtain st1 where p: "futex_put i (detach t st) = Some st1" "fx_inv st1 (\<lambda>i. 0)" "same_waits (detach t st) st1"
    using futex_put_inv [OF d one_call_bound, of i] unfolding one_call_done by auto
  obtain s where s: "futex_put i (unlink t st) = Some s"
      "st1 = s\<lparr>waits := (waits st)(t := None), notified := notified st - {t}\<rparr>"
    using p(1) unfolding detach_def futex_put_update by auto
  have "waits s = waits st" "notified s = notified st"
    using futex_put_waits [OF s(1)] by (simp_all add: unlink_def)
  then have "futex_wait_end t st = Some st1" using t s by (simp add: futex_wait_end_def)
  then show ?thesis using p s by simp
qed

lemma requeue_one_inv:
  assumes inv: "fx_inv st ext" and ext: "\<forall>j. ext j < 2 ^ 30" and pos: "0 < ext i" "0 < ext j"
    and t: "t \<in> set (queue_of st i)"
  shows "\<exists>st'. requeue_one i j t st = Some st' \<and> fx_inv st' ext \<and> notified st' = notified st
    \<and> queue_of st' i = (if i = j then remove1 t (queue_of st i) @ [t] else remove1 t (queue_of st i))"
proof -
  have ti: "waits st t = Some i" using fx_inv_queue [OF inv, of i] t by (auto simp: waiters_def)
  have nt: "t \<notin> notified st" using inv ti t by (auto simp: fx_inv_def no_lost_def)
  let ?d = "detach t st" and ?m = "futex_ref (\<lambda>n. n + (2 ^ 32 - 1)) i (detach t st)"
  let ?p = "futex_ref (\<lambda>n. n + 1) j ?m"
  have d: "fx_inv ?d (ext(i := ext i + 1))" by (rule detach_inv [OF inv ti])
  have objs: "\<exists>f. futexes s k = Some f" if "fx_inv s e" "0 < e k" for s e k
    using that by (fastforce simp: fx_inv_def futex_ok_def split: option.splits)
  have e31: "\<forall>k. ext k + 1 < 2 ^ 31"
  proof
    fix k
    have "ext k < 2 ^ 30" using ext by blast
    then show "ext k + 1 < 2 ^ 31" by simp
  qed
  have d31: "\<forall>k. (ext(i := ext i + 1)) k < 2 ^ 31" "\<forall>k. ext k < 2 ^ 31"
    using e31 by (auto intro: Suc_lessD)
  have m: "fx_inv ?m ext"
  proof -
    have "fx_inv ?m ((ext(i := ext i + 1))(i := ext i))"
      using objs [OF d, of i] fx_inv_count [OF d d31(1), of i] pos w32_pred [of "card (waiters ?d i) + (ext i + 1)"]
      by (intro fx_inv_ref [OF d]) auto
    then show ?thesis by simp
  qed
  have p: "fx_inv ?p (ext(j := ext j + 1))"
    using objs [OF m pos(2)] fx_inv_count [OF m d31(2), of j]
    by (intro fx_inv_ref [OF m]) (auto simp: w32_def)
  have few: "few_waits st" using inv by (simp add: fx_inv_def)
  have room: "card {s. waits ?p s \<noteq> None} + 1 < 2 ^ 31"
  proof -
    have "{s. waits ?p s \<noteq> None} = {s. waits st s \<noteq> None} - {t}" by (auto simp: detach_def)
    moreover have "t \<in> {s. waits st s \<noteq> None}" "finite {s. waits st s \<noteq> None}" using ti few by (auto simp: few_waits_def)
    ultimately show ?thesis using few card_Suc_Diff1 [of "{s. waits st s \<noteq> None}" t] by (simp add: few_waits_def)
  qed
  have a: "fx_inv (attach t j ?p) ext" using attach_inv [OF p _ room] by (simp add: detach_def)
  obtain f where f: "futexes st i = Some f" using objs [OF inv pos(1)] by blast
  obtain g where g: "futexes st j = Some g" using objs [OF inv pos(2)] by blast
  have "1 < fx_refcount f"
  proof -
    have "futex_ok st i (ext i)" using inv by (simp add: fx_inv_def)
    moreover have "t \<in> waiters st i" using ti by (simp add: waiters_def)
    then have "0 < card (waiters st i)" using waiters_few(1) [OF few] card_gt_0_iff by blast
    ultimately show ?thesis using f pos by (simp add: futex_ok_def)
  qed
  then have "requeue_one i j t st = Some (attach t j ?p)"
    using f g nt
    by (auto simp: requeue_one_def Let_def attach_def detach_def unlink_def set_queue_def futex_ref_def queue_of_def
        fun_eq_iff)
  moreover have "queue_of (attach t j ?p) i = (if i = j then remove1 t (queue_of st i) @ [t] else remove1 t (queue_of st i))"
    using objs [OF p, of j] by (auto simp: attach_def queue_of_set_queue detach_def queue_of_unlink)
  ultimately show ?thesis using a nt by (simp add: attach_def set_queue_def detach_def)
qed

lemma next_in_set:
  assumes "distinct q" "next_in q t = Some y"
  shows "y \<in> set q" "y \<noteq> t"
proof -
  obtain x r where r: "dropWhile (\<lambda>x. x \<noteq> t) q = x # y # r"
    using assms(2) by (auto simp: next_in_def split: list.splits)
  then have "x = t" using hd_dropWhile [of "\<lambda>x. x \<noteq> t" q] by simp
  moreover have "distinct (x # y # r)" using r assms(1) by (metis distinct_dropWhile)
  moreover have "set (x # y # r) \<subseteq> set q" using r set_dropWhileD by (metis subsetI)
  ultimately show "y \<in> set q" "y \<noteq> t" by auto
qed

lemma requeue_loop_inv:
  assumes "fx_inv st ext" "\<forall>j. ext j < 2 ^ 30" "0 < ext i" "0 < ext j" "set_option cur \<subseteq> set (queue_of st i)"
  shows "\<exists>k st'. requeue_loop i j n cur st = Some (k, st') \<and> fx_inv st' ext \<and> k \<le> n \<and> notified st' = notified st"
  using assms
proof (induction i j n cur st rule: requeue_loop.induct)
  case (3 i j n t st)
  obtain st1 where st1: "requeue_one i j t st = Some st1" "fx_inv st1 ext" "notified st1 = notified st"
      "queue_of st1 i = (if i = j then remove1 t (queue_of st i) @ [t] else remove1 t (queue_of st i))"
    using requeue_one_inv [OF "3.prems"(1-4), of t] "3.prems"(5) by auto
  have "set_option (next_in (queue_of st i) t) \<subseteq> set (queue_of st1 i)"
    using next_in_set [of "queue_of st i" t] fx_inv_queue [OF "3.prems"(1), of i] st1(4)
    by (auto simp: in_set_remove1 split: if_splits)
  then obtain k st2 where "requeue_loop i j n (next_in (queue_of st i) t) st1 = Some (k, st2)"
      "fx_inv st2 ext" "k \<le> n" "notified st2 = notified st1"
    using "3.IH" [OF st1(1,2) "3.prems"(2-4)] by blast
  then show ?case using st1 by simp
qed auto

lemma find_futex_in: "find_futex fs mem addr chain = Some (Some i) \<Longrightarrow> i \<in> set chain"
  by (induction chain) (auto split: option.splits if_splits)

lemma list_first_set: "set_option (list_first q) \<subseteq> set q"
  by (cases q) (auto simp: list_first_def)

text \<open>
  Both kinds of wake: the first \<open>wake_max\<close> threads of the queue of the address are notified, in
  whatever state the table is.
\<close>

lemma futex_wakelike_inv:
  assumes inv: "fx_inv st (\<lambda>i. 0)" and n: "futexes st n = None" "futexes st n2 = None" "n \<noteq> n2"
  shows "\<exists>i k st'. futex_wakelike (Some n) (Some n2) mem op uaddr wake_max requeue_max requeue_addr st = Some (k, st')
    \<and> fx_inv st' (\<lambda>i. 0) \<and> notified st' = notified st \<union> set (take wake_max (queue_of st i))
    \<and> (key st i = Some (mem, uaddr) \<or> (\<forall>j. key st j \<noteq> Some (mem, uaddr)) \<and> queue_of st i = [])
    \<and> (op \<noteq> FUTEX_REQUEUE \<longrightarrow> k = min wake_max (length (queue_of st i)))"
proof -
  obtain i st1 where g: "futex_get (Some n) mem uaddr st = Some (i, st1)" "fx_inv st1 ((\<lambda>i. 0)(i := 1))"
      "same_waits st st1" "key st1 i = Some (mem, uaddr)" "\<forall>j. futexes st j \<noteq> None \<longrightarrow> key st1 j = key st j"
      "\<forall>j. j \<noteq> i \<longrightarrow> futexes st1 j = futexes st j"
    using futex_get_inv [OF inv _ n(1), of mem uaddr] by auto
  define q where "q = queue_of st i"
  define k where "k = min wake_max (length q)"
  have q1: "queue_of st1 i = q" "notified st1 = notified st" using g(3) by (simp_all add: q_def same_waits_def)
  have tk: "take k q = take wake_max q" by (simp add: k_def min_def)
  let ?st2 = "(set_queue i (drop k q) st1)\<lparr>notified := notified st1 \<union> set (take k q)\<rparr>"
  have st2: "fx_inv ?st2 ((\<lambda>i. 0)(i := 1))" using wake_inv [OF g(2), of k i] q1 by simp
  have keyi: "key st i = Some (mem, uaddr) \<or> (\<forall>j. key st j \<noteq> Some (mem, uaddr)) \<and> queue_of st i = []"
  proof (cases "futexes st i")
    case None
    have "key st j \<noteq> Some (mem, uaddr)" for j
    proof
      assume j: "key st j = Some (mem, uaddr)"
      then have "futexes st j \<noteq> None" by (auto simp: key_def)
      then have "key st1 j = key st1 i" "key st1 i \<noteq> None" using g(4,5) j by auto
      then have "j = i" using g(2) unfolding fx_inv_def chains_ok_def by metis
      then show False using None j by (simp add: key_def)
    qed
    then show ?thesis using None by (simp add: queue_of_def)
  next
    case (Some f)
    then show ?thesis using g(4,5) by auto
  qed
  have n2: "futexes ?st2 n2 = None"
  proof -
    have "n2 \<noteq> i"
    proof
      assume "n2 = i"
      then have "futex_get (Some n) mem uaddr st = Some (n2, st1)" using g(1) by simp
      then have "find_futex (futexes st) mem uaddr (fx_chains st (futex_hash mem uaddr)) = Some (Some n2)"
        using n by (auto simp: futex_get_def Let_def split: option.splits)
      then have "n2 \<in> set (fx_chains st (futex_hash mem uaddr))"
        by (rule find_futex_in)
      then show False using inv n(2) unfolding fx_inv_def chains_ok_def key_def by fastforce
    qed
    then show ?thesis using g(6) n(2) by (simp add: set_queue_def)
  qed
  show ?thesis
  proof (cases "op = FUTEX_REQUEUE")
    case False
    obtain st3 where st3: "futex_put i ?st2 = Some st3" "fx_inv st3 (\<lambda>i. 0)" "same_waits ?st2 st3"
      using futex_put_inv [OF st2 one_call_bound, of i] unfolding one_call_done by auto
    have "futex_wakelike (Some n) (Some n2) mem op uaddr wake_max requeue_max requeue_addr st = Some (k, st3)"
      using False g(1) q1 st3(1) by (simp add: futex_wakelike_def Let_def k_def)
    then show ?thesis using st3 keyi tk q1
      by (intro exI [of _ i] exI [of _ k] exI [of _ st3]) (simp add: same_waits_def k_def q_def)
  next
    case True
    obtain j st3 where j: "futex_get (Some n2) mem requeue_addr ?st2 = Some (j, st3)"
        "fx_inv st3 (((\<lambda>i. 0)(i := 1))(j := ((\<lambda>i. 0)(i := 1)) j + 1))" "same_waits ?st2 st3"
      using futex_get_inv [OF st2 one_call_bound n2, of mem requeue_addr] by blast
    define ext where "ext = ((\<lambda>i. 0 :: nat)(i := 1))(j := ((\<lambda>i. 0)(i := 1)) j + 1)"
    have ext: "\<forall>x. ext x < 2 ^ 30" "\<forall>x. ext x < 2 ^ 31" "0 < ext i" "0 < ext j" by (simp_all add: ext_def)
    have restored: "ext(j := ext j - 1) = (\<lambda>i. 0)(i := 1)" by (auto simp: ext_def)
    obtain r st4 where r: "requeue_loop i j requeue_max (list_first (queue_of st3 i)) st3 = Some (r, st4)"
        "fx_inv st4 ext" "notified st4 = notified st3"
      using requeue_loop_inv [OF j(2) [folded ext_def] ext(1,3,4) list_first_set, of requeue_max] by blast
    obtain st5 where st5: "futex_put j st4 = Some st5" "fx_inv st5 ((\<lambda>i. 0)(i := 1))" "same_waits st4 st5"
      using futex_put_inv [OF r(2) ext(2,4)] unfolding restored by blast
    obtain st6 where st6: "futex_put i st5 = Some st6" "fx_inv st6 (\<lambda>i. 0)" "same_waits st5 st6"
      using futex_put_inv [OF st5(2) one_call_bound, of i] unfolding one_call_done by auto
    have "futex_wakelike (Some n) (Some n2) mem op uaddr wake_max requeue_max requeue_addr st = Some (w32 (k + r), st6)"
      using True g(1) q1 j(1) r(1) st5(1) st6(1) by (simp add: futex_wakelike_def Let_def k_def)
    then show ?thesis using st6 st5(3) r(3) j(3) keyi tk q1 True
      by (intro exI [of _ i] exI [of _ "w32 (k + r)"] exI [of _ st6]) (simp add: same_waits_def q_def)
  qed
qed

section \<open>Interleavings\<close>

text \<open>
  The steps of the threads between two releases of \<^verbatim>\<open>futex_lock\<close>. A thread that waits takes its
  second step at any time: it was notified, its time is over, or it woke up for no reason. \<^verbatim>\<open>malloc\<close>
  returns unused objects, and fewer than \<open>2 ^ 31\<close> threads exist.
\<close>

inductive fx_step :: "fxstate \<Rightarrow> fxstate \<Rightarrow> bool" where
  sleep: "fx_step st st'" if "futex_wait_begin (Some n) t mem uaddr val load st = Some (r, st')"
    "futexes st n = None" "waits st t = None" "card {t. waits st t \<noteq> None} + 1 < 2 ^ 31"
| resume: "fx_step st st'" if "futex_wait_end t st = Some st'"
| wake: "fx_step st st'" if "futex_wakelike (Some n) (Some n2) mem op uaddr wake_max requeue_max requeue_addr st = Some (k, st')"
    "futexes st n = None" "futexes st n2 = None" "n \<noteq> n2"

inductive_cases fx_stepE: "fx_step st st'"

inductive fx_reach :: "fxstate \<Rightarrow> bool" where
  init: "fx_reach init_futex_hash"
| step: "fx_reach st \<Longrightarrow> fx_step st st' \<Longrightarrow> fx_reach st'"

lemma fx_step_inv:
  assumes "fx_step st st'" "fx_inv st (\<lambda>i. 0)"
  shows "fx_inv st' (\<lambda>i. 0)"
  using assms
proof (cases rule: fx_step.cases)
  case (sleep n t mem uaddr val load r)
  then show ?thesis using futex_wait_begin_inv [OF assms(2), of n t mem uaddr val load] by auto
next
  case (resume t)
  then obtain i where "waits st t = Some i" by (auto simp: futex_wait_end_def split: option.splits)
  then show ?thesis using futex_wait_end_inv [OF assms(2)] resume by force
next
  case (wake n n2 mem op uaddr wake_max requeue_max requeue_addr k)
  then show ?thesis
    using futex_wakelike_inv [OF assms(2), of n n2 mem op uaddr wake_max requeue_max requeue_addr] by auto
qed

lemma fx_reach_inv: "fx_reach st \<Longrightarrow> fx_inv st (\<lambda>i. 0)"
  by (induction rule: fx_reach.induct) (auto intro: fx_inv_init fx_step_inv)

text \<open>
  C11. In every interleaving of waits, time-outs, wakes and requeues no waiter is lost: each thread
  inside \<^verbatim>\<open>wait_for\<close> is in the queue of a futex that exists or has been notified. No assertion fails,
  and no freed futex is used: every call that may come next returns.
\<close>
theorem futex_no_lost_waiter:
  assumes "fx_reach st" and "futexes st n = None" "futexes st n2 = None" "n \<noteq> n2"
  shows "(\<forall>t i. waits st t = Some i \<longrightarrow>
            futexes st i \<noteq> None \<and> (t \<in> set (queue_of st i)) \<noteq> (t \<in> notified st) \<and> futex_wait_end t st \<noteq> None)
    \<and> (\<forall>t. waits st t = None \<longrightarrow> card {t. waits st t \<noteq> None} + 1 < 2 ^ 31 \<longrightarrow>
            futex_wait_begin (Some n) t mem uaddr val load st \<noteq> None)
    \<and> futex_wakelike (Some n) (Some n2) mem op uaddr wake_max requeue_max requeue_addr st \<noteq> None"
proof -
  have inv: "fx_inv st (\<lambda>i. 0)" by (rule fx_reach_inv [OF assms(1)])
  have "futexes st i \<noteq> None" if "waits st t = Some i" for t i
    using fx_inv_None [OF inv] that by (auto simp: waiters_def)
  moreover have "(t \<in> set (queue_of st i)) \<noteq> (t \<in> notified st)" if "waits st t = Some i" for t i
    using inv that by (simp add: fx_inv_def no_lost_def)
  moreover have "futex_wait_end t st \<noteq> None" if "waits st t = Some i" for t i
    using futex_wait_end_inv [OF inv that] by auto
  moreover have "futex_wait_begin (Some n) t mem uaddr val load st \<noteq> None"
    if "waits st t = None" "card {t. waits st t \<noteq> None} + 1 < 2 ^ 31" for t
    using futex_wait_begin_inv [OF inv assms(2) that, of mem uaddr val load] by auto
  moreover have "futex_wakelike (Some n) (Some n2) mem op uaddr wake_max requeue_max requeue_addr st \<noteq> None"
    using futex_wakelike_inv [OF inv assms(2-4), of mem op uaddr wake_max requeue_max requeue_addr] by auto
  ultimately show ?thesis by blast
qed

text \<open>Thread 7 waits on address 16 of memory 4096.\<close>

definition one_waiter :: fxstate where
  "one_waiter = attach 7 1 (snd (the (futex_get (Some 1) 4096 16 init_futex_hash)))"

lemma one_waiter_begin: "futex_wait_begin (Some 1) 7 4096 16 0 (Some 0) init_futex_hash = Some (None, one_waiter)"
  by (simp add: futex_wait_begin_def one_waiter_def futex_get_def init_futex_hash_def attach_def Let_def)

lemma one_waiter_reach: "fx_reach one_waiter"
  by (rule fx_reach.step [OF fx_reach.init], rule fx_step.sleep [OF one_waiter_begin])
     (simp_all add: init_futex_hash_def)

lemma one_waiter_state:
  "waits one_waiter = [7 \<mapsto> 1]" "queue_of one_waiter 1 = [7]" "key one_waiter 1 = Some (4096, 16)"
  "futexes one_waiter 2 = None" "futexes one_waiter 3 = None" "notified one_waiter = {}"
  by (simp_all add: one_waiter_def attach_def set_queue_def futex_get_def init_futex_hash_def queue_of_def key_def Let_def)

theorem futex_no_lost_waiter_witness:
  "futex_wait_end 7 one_waiter \<noteq> None \<and> (7 \<in> set (queue_of one_waiter 1)) \<noteq> (7 \<in> notified one_waiter)"
  using futex_no_lost_waiter [OF one_waiter_reach one_waiter_state(4,5)] one_waiter_state(1) by simp

text \<open>
  \<^verbatim>\<open>futex_wake\<close> wakes in the order of waiting: in every reachable state it notifies exactly the
  first \<open>wake_max\<close> threads of the queue at the address, and returns their number.
\<close>
theorem futex_wake_fifo:
  assumes "fx_reach st" "key st i = Some (mem, uaddr)" "futexes st n = None"
  shows "\<exists>st'. futex_wake (Some n) mem uaddr wake_max st = Some (min wake_max (length (queue_of st i)), st')
    \<and> notified st' = notified st \<union> set (take wake_max (queue_of st i))"
proof -
  have inv: "fx_inv st (\<lambda>i. 0)" by (rule fx_reach_inv [OF assms(1)])
  obtain j st1 where g: "futex_get (Some n) mem uaddr st = Some (j, st1)" "fx_inv st1 ((\<lambda>i. 0)(j := 1))"
      "same_waits st st1" "key st1 j = Some (mem, uaddr)" "\<forall>j. futexes st j \<noteq> None \<longrightarrow> key st1 j = key st j"
    using futex_get_inv [OF inv _ assms(3), of mem uaddr] by auto
  have "futexes st i \<noteq> None" using assms(2) by (auto simp: key_def)
  then have "key st1 i = key st1 j" "key st1 i \<noteq> None" using g(4,5) assms(2) by auto
  then have ij: "j = i" using g(2) unfolding fx_inv_def chains_ok_def by metis
  let ?k = "min wake_max (length (queue_of st i))"
  let ?st2 = "(set_queue i (drop ?k (queue_of st1 i)) st1)\<lparr>notified := notified st1 \<union> set (take ?k (queue_of st1 i))\<rparr>"
  have st2: "fx_inv ?st2 ((\<lambda>i. 0)(i := 1))" using wake_inv [OF g(2), of ?k i] ij by simp
  obtain st3 where "futex_put i ?st2 = Some st3" "same_waits ?st2 st3"
    using futex_put_inv [OF st2 one_call_bound, of i] by auto
  then show ?thesis using g(1,3) ij
    by (auto simp: futex_wake_def futex_wakelike_def same_waits_def Let_def min_def)
qed

theorem futex_wake_fifo_witness:
  "\<exists>st'. futex_wake (Some 2) 4096 16 5 one_waiter = Some (1, st') \<and> notified st' = {7}"
  using futex_wake_fifo [OF one_waiter_reach one_waiter_state(3,4), of 5]
  by (simp add: one_waiter_state del: One_nat_def) (simp only: One_nat_def)

end
