(* ===== verification/Task.thy ===== *)
theory Task
  imports Prelude
begin

text \<open>
  Tasks, thread groups, process groups and sessions: \<^verbatim>\<open>kernel/task.h\<close>, \<^verbatim>\<open>kernel/task.c\<close>,
  \<^verbatim>\<open>kernel/group.c\<close> and the copy of a group in \<^verbatim>\<open>kernel/fork.c\<close>. Tasks and groups are objects of a
  store. A group is an entry of at most one list of a process group and one of a session;
  \<open>tg_in_pgroup\<close> and \<open>tg_in_session\<close> say in the lists of which number, and are \<^const>\<open>None\<close> where the
  pointers of the entry are null. \<^const>\<open>None\<close> as a result is a null pointer, an access outside an array
  or a loop that does not end.
\<close>

section \<open>Definitions\<close>

abbreviation (input) MAX_PID :: nat where "MAX_PID \<equiv> 32768"

text \<open>The variants of the union in \<^verbatim>\<open>struct siginfo_\<close> that are filled in.\<close>

datatype siginfo_data = Si_none | Si_kill nat nat | Si_child nat nat nat

record siginfo =
  si_sig :: nat
  si_code :: int
  si_data :: siginfo_data

record sigaction =
  sa_handler :: u32
  sa_flags :: u32
  sa_restorer :: u32
  sa_mask :: u64

record sighand =
  sh_refcount :: nat
  sh_action :: "sigaction list"
  sh_altstack :: u32
  sh_altstack_size :: u32

record task =
  tk_group :: nat
  tk_pid :: nat
  tk_tgid :: nat
  tk_uid :: nat
  tk_euid :: nat
  tk_suid :: nat
  tk_sighand :: "nat option"
  tk_blocked :: u64
  tk_pending :: u64
  tk_waiting :: u64
  tk_queue :: "siginfo list"
  tk_saved_mask :: u64
  tk_has_saved_mask :: bool
  tk_traced :: bool
  tk_ptrace_stopped :: bool
  tk_ptrace_signal :: nat
  tk_parent :: "nat option"
  tk_children :: "nat list"
  tk_clear_tid :: nat
  tk_robust_list :: nat
  tk_exit_code :: nat
  tk_zombie :: bool
  tk_exiting :: bool
  tk_exit_signal :: nat

record tgroup =
  tg_threads :: "nat list"
  tg_leader :: nat
  tg_sid :: nat
  tg_pgid :: nat
  tg_in_session :: "nat option"
  tg_in_pgroup :: "nat option"
  tg_stopped :: bool
  tg_tty :: "nat option"
  tg_doing_group_exit :: bool
  tg_group_exit_code :: nat

record pid =
  p_task :: "nat option"
  p_session :: "nat list"
  p_pgroup :: "nat list"

text \<open>
  Wake-ups of host threads, changes of the reference count of a terminal, and an \<^verbatim>\<open>unlock\<close> of
  \<^verbatim>\<open>pids_lock\<close> by a thread that does not hold it, in their order.
\<close>

datatype kevent = Thread_kill nat | Notify_stopped nat | Notify_child nat | Tty_retain nat | Tty_release nat
  | Extra_unlock

text \<open>
  The state. \<open>pids_locked\<close> is set when a function returns without giving \<^verbatim>\<open>pids_lock\<close> back;
  \<open>tty_session\<close> is the field \<^verbatim>\<open>session\<close> of each terminal.
\<close>

record kstate =
  pids :: "nat \<Rightarrow> pid"
  cur_pid :: nat
  tasks :: "nat \<Rightarrow> task option"
  groups :: "nat \<Rightarrow> tgroup option"
  sighands :: "nat \<Rightarrow> sighand option"
  tty_session :: "nat \<Rightarrow> nat"
  pids_locked :: bool
  kevents :: "kevent list"

definition pid_empty :: "pid \<Rightarrow> bool" where
  "pid_empty p \<longleftrightarrow> p_task p = None \<and> p_session p = [] \<and> p_pgroup p = []"

text \<open>
  The array has \<^verbatim>\<open>MAX_PID + 1\<close> entries and the test lets that number itself pass: the entry behind
  the array is read, the outer \<^const>\<open>None\<close>.
\<close>

definition pid_get :: "nat \<Rightarrow> kstate \<Rightarrow> nat option option" where
  "pid_get i st =
     (if i > MAX_PID + 1 then Some None
      else if i = MAX_PID + 1 then None
      else if pid_empty (pids st i) then Some None else Some (Some i))"

definition pid_get_task_zombie :: "nat \<Rightarrow> kstate \<Rightarrow> nat option option" where
  "pid_get_task_zombie i st = map_option (\<lambda>r. case r of None \<Rightarrow> None | Some j \<Rightarrow> p_task (pids st j)) (pid_get i st)"

definition pid_get_task :: "nat \<Rightarrow> kstate \<Rightarrow> nat option option" where
  "pid_get_task i st =
     (case pid_get_task_zombie i st of
        None \<Rightarrow> None
      | Some None \<Rightarrow> Some None
      | Some (Some t) \<Rightarrow>
          (case tasks st t of
             None \<Rightarrow> None
           | Some k \<Rightarrow> if tk_zombie k then Some None else Some (Some t)))"

text \<open>The search for a free number; it does not end when there is none.\<close>

definition succ_pid :: "nat \<Rightarrow> nat" where
  "succ_pid c = (if c + 1 > MAX_PID then 1 else c + 1)"

partial_function (option) next_pid :: "(nat \<Rightarrow> pid) \<Rightarrow> nat \<Rightarrow> nat option" where
  "next_pid ps c = (let c' = succ_pid c in if pid_empty (ps c') then Some c' else next_pid ps c')"

definition zero_task :: task where
  "zero_task = \<lparr>tk_group = 0, tk_pid = 0, tk_tgid = 0, tk_uid = 0, tk_euid = 0, tk_suid = 0,
     tk_sighand = None, tk_blocked = 0, tk_pending = 0, tk_waiting = 0, tk_queue = [], tk_saved_mask = 0,
     tk_has_saved_mask = False, tk_traced = False, tk_ptrace_stopped = False, tk_ptrace_signal = 0, tk_parent = None, tk_children = [], tk_clear_tid = 0,
     tk_robust_list = 0, tk_exit_code = 0, tk_zombie = False, tk_exiting = False, tk_exit_signal = 0\<rparr>"

definition upd_task :: "nat \<Rightarrow> (task \<Rightarrow> task) \<Rightarrow> kstate \<Rightarrow> kstate" where
  "upd_task t f st = st\<lparr>tasks := (tasks st)(t := map_option f (tasks st t))\<rparr>"

definition upd_group :: "nat \<Rightarrow> (tgroup \<Rightarrow> tgroup) \<Rightarrow> kstate \<Rightarrow> kstate" where
  "upd_group g f st = st\<lparr>groups := (groups st)(g := map_option f (groups st g))\<rparr>"

definition upd_pid :: "nat \<Rightarrow> (pid \<Rightarrow> pid) \<Rightarrow> kstate \<Rightarrow> kstate" where
  "upd_pid i f st = st\<lparr>pids := (pids st)(i := f (pids st i))\<rparr>"

text \<open>\<open>fresh\<close> is the memory \<^verbatim>\<open>malloc\<close> returns. The inner option is the returned pointer.\<close>

definition task_create :: "nat option \<Rightarrow> nat option \<Rightarrow> kstate \<Rightarrow> (nat option \<times> kstate) option" where
  "task_create fresh parent st =
     (case next_pid (pids st) (cur_pid st) of
        None \<Rightarrow> None
      | Some c \<Rightarrow>
          let st1 = upd_pid c (\<lambda>p. p\<lparr>p_session := [], p_pgroup := []\<rparr>) (st\<lparr>cur_pid := c\<rparr>)
          in case fresh of
               None \<Rightarrow> Some (None, st1\<lparr>pids_locked := True\<rparr>)
             | Some t \<Rightarrow>
                 (case (case parent of None \<Rightarrow> Some zero_task | Some p \<Rightarrow> tasks st p) of
                    None \<Rightarrow> None
                  | Some k \<Rightarrow>
                      let new = k\<lparr>tk_pid := c, tk_children := [],
                                  tk_parent := (case parent of None \<Rightarrow> tk_parent k | Some p \<Rightarrow> Some p),
                                  tk_pending := 0, tk_queue := [], tk_clear_tid := 0, tk_robust_list := 0\<rparr>;
                          st2 = upd_pid c (\<lambda>p. p\<lparr>p_task := Some t\<rparr>) st1;
                          st3 = (case parent of
                                   None \<Rightarrow> st2
                                 | Some p \<Rightarrow> upd_task p (\<lambda>k. k\<lparr>tk_children := t # tk_children k\<rparr>) st2)
                      in Some (Some t, st3\<lparr>tasks := (tasks st3)(t \<mapsto> new)\<rparr>)))"

definition task_destroy :: "nat \<Rightarrow> kstate \<Rightarrow> kstate option" where
  "task_destroy t st =
     (case tasks st t of
        None \<Rightarrow> None
      | Some k \<Rightarrow>
          let st1 = (case tk_parent k of
                       None \<Rightarrow> st
                     | Some p \<Rightarrow> upd_task p (\<lambda>q. q\<lparr>tk_children := remove1 t (tk_children q)\<rparr>) st)
          in case pid_get (tk_pid k) st1 of
               Some (Some i) \<Rightarrow> Some ((upd_pid i (\<lambda>p. p\<lparr>p_task := None\<rparr>) st1)\<lparr>tasks := (tasks st1)(t := None)\<rparr>)
             | _ \<Rightarrow> None)"

definition task_is_leader :: "nat \<Rightarrow> kstate \<Rightarrow> bool" where
  "task_is_leader t st =
     (case tasks st t of None \<Rightarrow> False
      | Some k \<Rightarrow> (case groups st (tk_group k) of None \<Rightarrow> False | Some g \<Rightarrow> tg_leader g = t))"

subsection \<open>Process groups and sessions\<close>

text \<open>\<^verbatim>\<open>list_remove\<close>, \<^verbatim>\<open>list_remove_safe\<close> and \<^verbatim>\<open>list_add\<close> on the entries of a group.\<close>

definition leave_pgroup :: "nat \<Rightarrow> kstate \<Rightarrow> kstate" where
  "leave_pgroup g st =
     (case groups st g of
        None \<Rightarrow> st
      | Some k \<Rightarrow>
          (case tg_in_pgroup k of
             None \<Rightarrow> st
           | Some i \<Rightarrow> upd_group g (\<lambda>k. k\<lparr>tg_in_pgroup := None\<rparr>)
                         (upd_pid i (\<lambda>p. p\<lparr>p_pgroup := remove1 g (p_pgroup p)\<rparr>) st)))"

definition join_pgroup :: "nat \<Rightarrow> nat \<Rightarrow> kstate \<Rightarrow> kstate" where
  "join_pgroup g i st =
     upd_group g (\<lambda>k. k\<lparr>tg_in_pgroup := Some i\<rparr>) (upd_pid i (\<lambda>p. p\<lparr>p_pgroup := g # p_pgroup p\<rparr>) st)"

definition leave_session :: "nat \<Rightarrow> kstate \<Rightarrow> kstate" where
  "leave_session g st =
     (case groups st g of
        None \<Rightarrow> st
      | Some k \<Rightarrow>
          (case tg_in_session k of
             None \<Rightarrow> st
           | Some i \<Rightarrow> upd_group g (\<lambda>k. k\<lparr>tg_in_session := None\<rparr>)
                         (upd_pid i (\<lambda>p. p\<lparr>p_session := remove1 g (p_session p)\<rparr>) st)))"

definition join_session :: "nat \<Rightarrow> nat \<Rightarrow> kstate \<Rightarrow> kstate" where
  "join_session g i st =
     upd_group g (\<lambda>k. k\<lparr>tg_in_session := Some i\<rparr>) (upd_pid i (\<lambda>p. p\<lparr>p_session := g # p_session p\<rparr>) st)"

abbreviation dword :: "int \<Rightarrow> nat" where "dword x \<equiv> nat (x mod 2 ^ 32)"

text \<open>\<^verbatim>\<open>setpgid\<close>: the first group of the process group \<open>pgid\<close> is in the session of \<open>g\<close>.\<close>

definition setpgid_same_session :: "tgroup \<Rightarrow> int \<Rightarrow> int \<Rightarrow> kstate \<Rightarrow> bool option" where
  "setpgid_same_session g i pgid st =
     (if i = pgid then Some True
      else case pid_get (dword pgid) st of
             None \<Rightarrow> None
           | Some None \<Rightarrow> Some False
           | Some (Some j) \<Rightarrow>
               (case p_pgroup (pids st j) of
                  [] \<Rightarrow> Some False
                | f # _ \<Rightarrow> map_option (\<lambda>h. tg_sid g = tg_sid h) (groups st f)))"

text \<open>
  The new entry goes into the list of the number \<open>id\<close>, not of the number \<open>pgid\<close>: see
  \<^verbatim>\<open>list_add(&pid->pgroup, ...)\<close>.
\<close>

definition sys_setpgid :: "nat \<Rightarrow> int \<Rightarrow> int \<Rightarrow> kstate \<Rightarrow> (int \<times> kstate) option" where
  "sys_setpgid cur id0 pgid0 st =
     (case tasks st cur of
        None \<Rightarrow> None
      | Some me \<Rightarrow>
          let id = (if id0 = 0 then int (tk_pid me) else id0);
              pgid = (if pgid0 = 0 then id else pgid0)
          in case pid_get (dword id) st of
               None \<Rightarrow> None
             | Some None \<Rightarrow> Some (ESRCH, st)
             | Some (Some i) \<Rightarrow>
                 (case p_task (pids st i) of
                    None \<Rightarrow> Some (ESRCH, st)
                  | Some t \<Rightarrow>
                      (case tasks st t of
                         None \<Rightarrow> None
                       | Some k \<Rightarrow>
                           (case groups st (tk_group k) of
                              None \<Rightarrow> None
                            | Some g \<Rightarrow>
                                (case (setpgid_same_session g id pgid st, tasks st (tg_leader g)) of
                                   (None, _) \<Rightarrow> None
                                 | (Some False, _) \<Rightarrow> Some (EPERM, st)
                                 | (Some True, leader) \<Rightarrow>
                                     if t \<noteq> cur \<and> tk_parent k \<noteq> Some cur then Some (ESRCH, st)
                                     else (case leader of
                                             None \<Rightarrow> None
                                           | Some l \<Rightarrow>
                                               if tg_sid g = tk_pid l then Some (EPERM, st)
                                               else if int (tg_pgid g) = pgid then Some (0, st)
                                               else if tg_in_pgroup g = None then None
                                               else Some (0, join_pgroup (tk_group k) i
                                                      (upd_group (tk_group k) (\<lambda>g. g\<lparr>tg_pgid := dword pgid\<rparr>)
                                                         (leave_pgroup (tk_group k) st)))))))))"

definition sys_getpgid :: "nat \<Rightarrow> int \<Rightarrow> kstate \<Rightarrow> int option" where
  "sys_getpgid cur i st =
     (case (if i \<noteq> 0 then pid_get_task (dword i) st else Some (Some cur)) of
        None \<Rightarrow> None
      | Some None \<Rightarrow> Some ESRCH
      | Some (Some t) \<Rightarrow>
          (case tasks st t of
             None \<Rightarrow> None
           | Some k \<Rightarrow> map_option (\<lambda>g. int (tg_pgid g)) (groups st (tk_group k))))"

text \<open>A session that ends gives its terminal back.\<close>

definition task_leave_session :: "nat \<Rightarrow> kstate \<Rightarrow> kstate option" where
  "task_leave_session t st =
     (case tasks st t of
        None \<Rightarrow> None
      | Some k \<Rightarrow>
          (case groups st (tk_group k) of
             None \<Rightarrow> None
           | Some g \<Rightarrow>
               let st1 = leave_session (tk_group k) st
               in case tg_tty g of
                    None \<Rightarrow> Some st1
                  | Some y \<Rightarrow>
                      (case pid_get (tg_sid g) st1 of
                         Some (Some i) \<Rightarrow>
                           let st2 = (if p_session (pids st1 i) = []
                                      then st1\<lparr>tty_session := (tty_session st1)(y := 0)\<rparr> else st1)
                           in Some ((upd_group (tk_group k) (\<lambda>g. g\<lparr>tg_tty := None\<rparr>) st2)
                                      \<lparr>kevents := kevents st2 @ [Tty_release y]\<rparr>)
                       | _ \<Rightarrow> None)))"

definition task_setsid :: "nat \<Rightarrow> kstate \<Rightarrow> (int \<times> kstate) option" where
  "task_setsid t st =
     (case tasks st t of
        None \<Rightarrow> None
      | Some k \<Rightarrow>
          (case groups st (tk_group k) of
             None \<Rightarrow> None
           | Some g \<Rightarrow>
               (case tasks st (tg_leader g) of
                  None \<Rightarrow> None
                | Some l \<Rightarrow>
                    let new_sid = tk_pid l
                    in if tg_pgid g = new_sid \<or> tg_sid g = new_sid then Some (EPERM, st)
                       else (case task_leave_session t st of
                               None \<Rightarrow> None
                             | Some st1 \<Rightarrow>
                                 (case pid_get (tk_pid k) st1 of
                                    Some (Some i) \<Rightarrow>
                                      Some (int new_sid,
                                        upd_group (tk_group k) (\<lambda>g. g\<lparr>tg_pgid := new_sid\<rparr>)
                                          (join_pgroup (tk_group k) i
                                             (leave_pgroup (tk_group k)
                                                (upd_group (tk_group k) (\<lambda>g. g\<lparr>tg_sid := new_sid\<rparr>)
                                                   (join_session (tk_group k) i st1)))))
                                  | _ \<Rightarrow> None)))))"

definition sys_getsid :: "nat \<Rightarrow> kstate \<Rightarrow> nat option" where
  "sys_getsid cur st =
     (case tasks st cur of None \<Rightarrow> None | Some k \<Rightarrow> map_option tg_sid (groups st (tk_group k)))"

text \<open>
  The group of a new process stands right behind the old one in both lists. \<open>fresh\<close> is the memory
  \<^verbatim>\<open>malloc\<close> returns, which is not checked.
\<close>

fun insert_behind :: "nat \<Rightarrow> nat \<Rightarrow> nat list \<Rightarrow> nat list" where
  "insert_behind x new [] = []"
| "insert_behind x new (y # ys) = (if y = x then y # new # ys else y # insert_behind x new ys)"

definition tgroup_copy :: "nat option \<Rightarrow> nat \<Rightarrow> kstate \<Rightarrow> kstate option" where
  "tgroup_copy fresh old st =
     (case (fresh, groups st old) of
        (Some new, Some g) \<Rightarrow>
          (case (tg_in_pgroup g, tg_in_session g) of
             (Some i, Some j) \<Rightarrow>
               let st1 = st\<lparr>groups := (groups st)(new \<mapsto> g\<lparr>tg_threads := [], tg_doing_group_exit := False\<rparr>)\<rparr>;
                   st2 = upd_pid i (\<lambda>p. p\<lparr>p_pgroup := insert_behind old new (p_pgroup p)\<rparr>) st1;
                   st3 = upd_pid j (\<lambda>p. p\<lparr>p_session := insert_behind old new (p_session p)\<rparr>) st2
               in Some (case tg_tty g of
                          None \<Rightarrow> st3
                        | Some y \<Rightarrow> st3\<lparr>kevents := kevents st3 @ [Tty_retain y]\<rparr>)
           | _ \<Rightarrow> None)
      | _ \<Rightarrow> None)"

text \<open>
  The first part of \<^verbatim>\<open>construct_task\<close>: a process of a new session. \<open>ft\<close> and \<open>fg\<close> are the memory of
  the task and of the group; neither is checked.
\<close>

definition construct_session :: "nat option \<Rightarrow> nat option \<Rightarrow> nat option \<Rightarrow> kstate \<Rightarrow> (int \<times> kstate) option" where
  "construct_session ft fg parent st =
     (case task_create ft parent st of
        Some (Some t, st1) \<Rightarrow>
          (case fg of
             None \<Rightarrow> None
           | Some g \<Rightarrow>
               let new = \<lparr>tg_threads = [t], tg_leader = t, tg_sid = 0, tg_pgid = 0, tg_in_session = None,
                          tg_in_pgroup = None, tg_stopped = False, tg_tty = None,
                          tg_doing_group_exit = False, tg_group_exit_code = 0\<rparr>
               in task_setsid t
                    (upd_task t (\<lambda>k. k\<lparr>tk_group := g, tk_tgid := tk_pid k\<rparr>)
                       (st1\<lparr>groups := (groups st1)(g \<mapsto> new)\<rparr>)))
      | _ \<Rightarrow> None)"

text \<open>The state before the first process.\<close>

definition empty_kstate :: kstate where
  "empty_kstate = \<lparr>pids = \<lambda>_. \<lparr>p_task = None, p_session = [], p_pgroup = []\<rparr>, cur_pid = 0, tasks = Map.empty,
     groups = Map.empty, sighands = Map.empty, tty_session = \<lambda>_. 0, pids_locked = False, kevents = []\<rparr>"

section \<open>Lists and their members\<close>

text \<open>
  Lists \<open>L\<close> indexed by numbers, with at most one entry per object: \<open>K\<close> gives the list an object is in.
\<close>

definition ring :: "(nat \<Rightarrow> nat list) \<Rightarrow> (nat \<Rightarrow> nat option) \<Rightarrow> bool" where
  "ring L K \<longleftrightarrow> (\<forall>i. distinct (L i)) \<and> (\<forall>i g. g \<in> set (L i) \<longleftrightarrow> K g = Some i)"

lemma ring_leave: "ring L K \<Longrightarrow> K g = Some i \<Longrightarrow> ring (L(i := remove1 g (L i))) (K(g := None))"
  by (auto simp: ring_def)

lemma ring_join: "ring L K \<Longrightarrow> K g = None \<Longrightarrow> ring (L(i := g # L i)) (K(g := Some i))"
  by (auto simp: ring_def)

lemma set_insert_behind: "set (insert_behind x new ys) = (if x \<in> set ys then insert new (set ys) else set ys)"
  by (induction ys) auto

lemma distinct_insert_behind: "distinct ys \<Longrightarrow> new \<notin> set ys \<Longrightarrow> distinct (insert_behind x new ys)"
  by (induction ys) (auto simp: set_insert_behind)

lemma ring_insert:
  assumes "ring L K" "K x = Some i" "K new = None"
  shows "ring (L(i := insert_behind x new (L i))) (K(new := Some i))"
proof -
  have "x \<in> set (L i)" "new \<notin> set (L i)" "distinct (L i)"
    using assms by (auto simp: ring_def)
  then show ?thesis
    using assms by (auto simp: ring_def set_insert_behind distinct_insert_behind)
qed

abbreviation pgroup_lists :: "kstate \<Rightarrow> nat \<Rightarrow> nat list" where
  "pgroup_lists st \<equiv> \<lambda>i. p_pgroup (pids st i)"

abbreviation session_lists :: "kstate \<Rightarrow> nat \<Rightarrow> nat list" where
  "session_lists st \<equiv> \<lambda>i. p_session (pids st i)"

abbreviation pgroup_of :: "kstate \<Rightarrow> nat \<Rightarrow> nat option" where
  "pgroup_of st \<equiv> \<lambda>g. Option.bind (groups st g) tg_in_pgroup"

abbreviation session_of :: "kstate \<Rightarrow> nat \<Rightarrow> nat option" where
  "session_of st \<equiv> \<lambda>g. Option.bind (groups st g) tg_in_session"

definition links_ok :: "kstate \<Rightarrow> bool" where
  "links_ok st \<longleftrightarrow> ring (pgroup_lists st) (pgroup_of st) \<and> ring (session_lists st) (session_of st)"

text \<open>Every group is in the lists its two numbers name.\<close>

definition ids_ok :: "kstate \<Rightarrow> bool" where
  "ids_ok st \<longleftrightarrow> (\<forall>g k. groups st g = Some k \<longrightarrow>
     tg_in_pgroup k = Some (tg_pgid k) \<and> tg_in_session k = Some (tg_sid k))"

section \<open>Allocation of process numbers\<close>

lemma next_pid_free:
  assumes "next_pid ps c = Some r"
  shows "1 \<le> r \<and> r \<le> MAX_PID \<and> pid_empty (ps r)"
  using assms
proof (rule next_pid.raw_induct [of "\<lambda>ps c r. 1 \<le> r \<and> r \<le> MAX_PID \<and> pid_empty (ps r)", rotated])
  fix f :: "(nat \<Rightarrow> pid) \<Rightarrow> nat \<Rightarrow> nat option" and ps c r
  assume ih: "\<And>ps c r. f ps c = Some r \<Longrightarrow> 1 \<le> r \<and> r \<le> MAX_PID \<and> pid_empty (ps r)"
    and eq: "(let c' = succ_pid c in if pid_empty (ps c') then Some c' else f ps c') = Some r"
  show "1 \<le> r \<and> r \<le> MAX_PID \<and> pid_empty (ps r)"
  proof (cases "pid_empty (ps (succ_pid c))")
    case True
    with eq show ?thesis
      by (auto simp: Let_def succ_pid_def split: if_splits)
  next
    case False
    with eq show ?thesis
      using ih by (simp add: Let_def)
  qed
qed

lemma succ_pid_add: "c + n \<le> MAX_PID \<Longrightarrow> (succ_pid ^^ n) c = c + n"
  by (induction n) (auto simp: succ_pid_def)

lemma succ_pid_reaches:
  assumes "1 \<le> i" "i \<le> MAX_PID" "c \<le> MAX_PID"
  shows "\<exists>n. (succ_pid ^^ Suc n) c = i"
proof -
  have "(succ_pid ^^ Suc (MAX_PID - c)) c = 1"
    using succ_pid_add [of c "MAX_PID - c"] assms by (simp add: succ_pid_def)
  moreover have "(succ_pid ^^ (i - 1)) 1 = i"
    using succ_pid_add [of 1 "i - 1"] assms by simp
  ultimately have "(succ_pid ^^ ((i - 1) + Suc (MAX_PID - c))) c = i"
    unfolding funpow_add by simp
  then show ?thesis
    by (metis add_Suc_right)
qed

lemma next_pid_finds: "pid_empty (ps ((succ_pid ^^ Suc n) c)) \<Longrightarrow> \<exists>r. next_pid ps c = Some r"
proof (induction n arbitrary: c)
  case 0
  then show ?case
    by (subst next_pid.simps) (simp add: Let_def)
next
  case (Suc n)
  have "\<exists>r. next_pid ps (succ_pid c) = Some r"
    using Suc.prems by (intro Suc.IH) (simp add: funpow_swap1)
  then show ?case
    by (subst next_pid.simps) (simp add: Let_def)
qed

lemma next_pid_defined:
  assumes "c \<le> MAX_PID"
  shows "(\<exists>r. next_pid ps c = Some r) \<longleftrightarrow> (\<exists>i. 1 \<le> i \<and> i \<le> MAX_PID \<and> pid_empty (ps i))"
proof
  assume "\<exists>r. next_pid ps c = Some r"
  then show "\<exists>i. 1 \<le> i \<and> i \<le> MAX_PID \<and> pid_empty (ps i)"
    using next_pid_free by blast
next
  assume "\<exists>i. 1 \<le> i \<and> i \<le> MAX_PID \<and> pid_empty (ps i)"
  then obtain i n where "pid_empty (ps i)" "(succ_pid ^^ Suc n) c = i"
    using succ_pid_reaches [OF _ _ assms] by blast
  then show "\<exists>r. next_pid ps c = Some r"
    using next_pid_finds [of ps n c] by simp
qed

lemmas upd_simps = upd_task_def upd_group_def upd_pid_def

lemma upd_task_Some: "tasks st t = Some k \<Longrightarrow> tasks (upd_task t f st) t = Some (f k)"
  by (simp add: upd_task_def)

lemma leave_pgroup_links: "links_ok st \<Longrightarrow> links_ok (leave_pgroup g st)"
proof (cases "pgroup_of st g")
  case None
  then show "links_ok st \<Longrightarrow> ?thesis"
    by (cases "groups st g") (auto simp: leave_pgroup_def)
next
  case (Some i)
  then obtain k where k: "groups st g = Some k" "tg_in_pgroup k = Some i"
    by (auto simp: bind_eq_Some_conv)
  have "pgroup_lists (leave_pgroup g st) = (pgroup_lists st)(i := remove1 g (pgroup_lists st i))"
    "pgroup_of (leave_pgroup g st) = (pgroup_of st)(g := None)"
    "session_lists (leave_pgroup g st) = session_lists st" "session_of (leave_pgroup g st) = session_of st"
    using k by (auto simp: leave_pgroup_def upd_simps fun_eq_iff)
  then show "links_ok st \<Longrightarrow> ?thesis"
    using ring_leave [of "pgroup_lists st" "pgroup_of st" g i] Some unfolding links_ok_def by presburger
qed

lemma leave_session_links: "links_ok st \<Longrightarrow> links_ok (leave_session g st)"
proof (cases "session_of st g")
  case None
  then show "links_ok st \<Longrightarrow> ?thesis"
    by (cases "groups st g") (auto simp: leave_session_def)
next
  case (Some i)
  then obtain k where k: "groups st g = Some k" "tg_in_session k = Some i"
    by (auto simp: bind_eq_Some_conv)
  have "session_lists (leave_session g st) = (session_lists st)(i := remove1 g (session_lists st i))"
    "session_of (leave_session g st) = (session_of st)(g := None)"
    "pgroup_lists (leave_session g st) = pgroup_lists st" "pgroup_of (leave_session g st) = pgroup_of st"
    using k by (auto simp: leave_session_def upd_simps fun_eq_iff)
  then show "links_ok st \<Longrightarrow> ?thesis"
    using ring_leave [of "session_lists st" "session_of st" g i] Some unfolding links_ok_def by presburger
qed

lemma join_pgroup_links:
  assumes "links_ok st" "groups st g = Some k" "tg_in_pgroup k = None"
  shows "links_ok (join_pgroup g i st)"
proof -
  have "pgroup_lists (join_pgroup g i st) = (pgroup_lists st)(i := g # pgroup_lists st i)"
    "pgroup_of (join_pgroup g i st) = (pgroup_of st)(g := Some i)"
    "session_lists (join_pgroup g i st) = session_lists st" "session_of (join_pgroup g i st) = session_of st"
    using assms(2) by (auto simp: join_pgroup_def upd_simps fun_eq_iff)
  moreover have "pgroup_of st g = None"
    using assms by simp
  ultimately show ?thesis
    using ring_join [of "pgroup_lists st" "pgroup_of st" g i] assms(1) unfolding links_ok_def by presburger
qed

lemma join_session_links:
  assumes "links_ok st" "groups st g = Some k" "tg_in_session k = None"
  shows "links_ok (join_session g i st)"
proof -
  have "session_lists (join_session g i st) = (session_lists st)(i := g # session_lists st i)"
    "session_of (join_session g i st) = (session_of st)(g := Some i)"
    "pgroup_lists (join_session g i st) = pgroup_lists st" "pgroup_of (join_session g i st) = pgroup_of st"
    using assms(2) by (auto simp: join_session_def upd_simps fun_eq_iff)
  moreover have "session_of st g = None"
    using assms by simp
  ultimately show ?thesis
    using ring_join [of "session_lists st" "session_of st" g i] assms(1) unfolding links_ok_def by presburger
qed

lemma upd_group_links:
  assumes "links_ok st" "\<And>k. tg_in_pgroup (f k) = tg_in_pgroup k" "\<And>k. tg_in_session (f k) = tg_in_session k"
  shows "links_ok (upd_group g f st)"
proof -
  have "pgroup_of (upd_group g f st) = pgroup_of st" "session_of (upd_group g f st) = session_of st"
    using assms(2,3) by (auto simp: upd_simps fun_eq_iff split: bind_splits)
  then show ?thesis
    using assms(1) by (simp add: links_ok_def upd_simps)
qed

lemma links_cong:
  "groups st' = groups st \<Longrightarrow> (\<And>i. p_pgroup (pids st' i) = p_pgroup (pids st i)) \<Longrightarrow>
   (\<And>i. p_session (pids st' i) = p_session (pids st i)) \<Longrightarrow> links_ok st' \<longleftrightarrow> links_ok st"
  by (simp add: links_ok_def)

text \<open>What leaving and joining do to the group itself.\<close>

lemma leave_pgroup_groups:
  "groups (leave_pgroup g st) = (groups st)(g := map_option (\<lambda>k. k\<lparr>tg_in_pgroup := None\<rparr>) (groups st g))"
  by (auto simp: leave_pgroup_def upd_simps fun_eq_iff split: option.splits)

lemma leave_session_groups:
  "groups (leave_session g st) = (groups st)(g := map_option (\<lambda>k. k\<lparr>tg_in_session := None\<rparr>) (groups st g))"
  by (auto simp: leave_session_def upd_simps fun_eq_iff split: option.splits)

lemma join_groups:
  "groups (join_pgroup g i st) = (groups st)(g := map_option (\<lambda>k. k\<lparr>tg_in_pgroup := Some i\<rparr>) (groups st g))"
  "groups (join_session g i st) = (groups st)(g := map_option (\<lambda>k. k\<lparr>tg_in_session := Some i\<rparr>) (groups st g))"
  by (simp_all add: join_pgroup_def join_session_def upd_simps)

lemmas groups_simps = leave_pgroup_groups leave_session_groups join_groups

lemma task_leave_session_links:
  assumes "task_leave_session t st = Some st'" "tasks st t = Some k" "groups st (tk_group k) = Some g"
  shows "groups st' = (groups st)(tk_group k \<mapsto> g\<lparr>tg_in_session := None, tg_tty := None\<rparr>)"
    and "tasks st' = tasks st"
    and "links_ok st \<Longrightarrow> links_ok st'"
proof -
  define s1 where "s1 = leave_session (tk_group k) st"
  have frame: "tasks s1 = tasks st" "groups s1 = (groups st)(tk_group k \<mapsto> g\<lparr>tg_in_session := None\<rparr>)"
    using assms(3) by (auto simp: s1_def leave_session_def upd_simps split: option.splits)
  have links: "links_ok st \<Longrightarrow> links_ok s1"
    by (simp add: s1_def leave_session_links)
  have views: "tasks st' = tasks s1 \<and> pids st' = pids s1 \<and> groups st' = groups (upd_group (tk_group k) (\<lambda>g. g\<lparr>tg_tty := None\<rparr>) s1)"
    using assms frame(2)
    by (cases g) (auto simp: task_leave_session_def s1_def [symmetric] Let_def upd_simps split: option.splits if_splits)
  then have "links_ok st' \<longleftrightarrow> links_ok (upd_group (tk_group k) (\<lambda>g. g\<lparr>tg_tty := None\<rparr>) s1)"
    by (intro links_cong) (auto simp: upd_simps)
  moreover have "links_ok st \<Longrightarrow> links_ok (upd_group (tk_group k) (\<lambda>g. g\<lparr>tg_tty := None\<rparr>) s1)"
    using links by (intro upd_group_links) auto
  ultimately have "groups st' = (groups st)(tk_group k \<mapsto> g\<lparr>tg_in_session := None, tg_tty := None\<rparr>)
    \<and> tasks st' = tasks st \<and> (links_ok st \<longrightarrow> links_ok st')"
    using views frame by (auto simp: upd_simps)
  then show "groups st' = (groups st)(tk_group k \<mapsto> g\<lparr>tg_in_session := None, tg_tty := None\<rparr>)"
    "tasks st' = tasks st" "links_ok st \<Longrightarrow> links_ok st'"
    by auto
qed

lemma task_setsid_links:
  assumes "task_setsid t st = Some (r, st')" "links_ok st"
  shows "links_ok st'"
proof (cases "st' = st")
  case False
  from assms(1) False obtain k g l s1 i where
    k: "tasks st t = Some k" "groups st (tk_group k) = Some g" and l: "tasks st (tg_leader g) = Some l"
    and s1: "task_leave_session t st = Some s1"
    and st': "st' = upd_group (tk_group k) (\<lambda>g. g\<lparr>tg_pgid := tk_pid l\<rparr>)
      (join_pgroup (tk_group k) i (leave_pgroup (tk_group k)
        (upd_group (tk_group k) (\<lambda>g. g\<lparr>tg_sid := tk_pid l\<rparr>) (join_session (tk_group k) i s1))))"
    by (auto simp: task_setsid_def Let_def split: option.splits if_splits)
  note left = task_leave_session_links [OF s1 k]
  have "links_ok (join_session (tk_group k) i s1)"
    using left assms(2) by (intro join_session_links) auto
  then have "links_ok (leave_pgroup (tk_group k) (upd_group (tk_group k) (\<lambda>g. g\<lparr>tg_sid := tk_pid l\<rparr>) (join_session (tk_group k) i s1)))"
    by (intro leave_pgroup_links upd_group_links) auto
  then have "links_ok (join_pgroup (tk_group k) i (leave_pgroup (tk_group k)
        (upd_group (tk_group k) (\<lambda>g. g\<lparr>tg_sid := tk_pid l\<rparr>) (join_session (tk_group k) i s1))))"
    by (rule join_pgroup_links) (auto simp: groups_simps upd_group_def left)
  then show ?thesis
    unfolding st' by (intro upd_group_links) auto
qed (use assms in simp)

lemma pid_get_Some: "pid_get i st = Some (Some j) \<Longrightarrow> j = i \<and> i \<le> MAX_PID \<and> \<not> pid_empty (pids st i)"
  by (auto simp: pid_get_def split: if_splits)

lemma task_setsid_groups:
  assumes "task_setsid t st = Some (r, st')" "tasks st t = Some k" "groups st (tk_group k) = Some g"
    "tasks st (tg_leader g) = Some l" "tg_pgid g \<noteq> tk_pid l" "tg_sid g \<noteq> tk_pid l"
  shows "groups st' = (groups st)(tk_group k \<mapsto> g\<lparr>tg_sid := tk_pid l, tg_pgid := tk_pid l,
      tg_in_session := Some (tk_pid k), tg_in_pgroup := Some (tk_pid k), tg_tty := None\<rparr>)"
proof -
  from assms obtain s1 where s1: "task_leave_session t st = Some s1"
    and st': "st' = upd_group (tk_group k) (\<lambda>g. g\<lparr>tg_pgid := tk_pid l\<rparr>)
      (join_pgroup (tk_group k) (tk_pid k) (leave_pgroup (tk_group k)
        (upd_group (tk_group k) (\<lambda>g. g\<lparr>tg_sid := tk_pid l\<rparr>) (join_session (tk_group k) (tk_pid k) s1))))"
    by (auto simp: task_setsid_def Let_def split: option.splits if_splits dest!: pid_get_Some)
  show ?thesis
    unfolding st' by (cases g) (simp add: upd_group_def groups_simps task_leave_session_links(1) [OF s1 assms(2,3)])
qed

lemma sys_setpgid_cases:
  assumes "sys_setpgid cur id0 pgid0 st = Some (r, st')" "st' \<noteq> st"
  obtains me i t k g where
    "tasks st cur = Some me" "p_task (pids st i) = Some t" "tasks st t = Some k" "groups st (tk_group k) = Some g"
    "i = dword (if id0 = 0 then int (tk_pid me) else id0)" "tg_in_pgroup g \<noteq> None"
    "st' = join_pgroup (tk_group k) i (upd_group (tk_group k)
       (\<lambda>g. g\<lparr>tg_pgid := dword (if pgid0 = 0 then if id0 = 0 then int (tk_pid me) else id0 else pgid0)\<rparr>)
       (leave_pgroup (tk_group k) st))"
proof -
  obtain me where me: "tasks st cur = Some me"
    using assms(1) by (cases "tasks st cur") (auto simp: sys_setpgid_def)
  define i where "i = (if id0 = 0 then int (tk_pid me) else id0)"
  define q where "q = (if pgid0 = 0 then i else pgid0)"
  note run = assms(1) [unfolded sys_setpgid_def me option.case Let_def, folded i_def, folded q_def]
  obtain j where j: "pid_get (dword i) st = Some (Some j)"
    using run assms(2) by (auto split: option.splits)
  obtain t where t: "p_task (pids st j) = Some t"
    using run assms(2) j by (cases "p_task (pids st j)") auto
  obtain k where k: "tasks st t = Some k"
    using run j t by (cases "tasks st t") auto
  obtain g where g: "groups st (tk_group k) = Some g"
    using run j t k by (cases "groups st (tk_group k)") auto
  have ok: "setpgid_same_session g i q st = Some True"
    using run assms(2) j t k g by (auto split: option.splits bool.splits)
  have "tg_in_pgroup g \<noteq> None \<and> st' = join_pgroup (tk_group k) j
      (upd_group (tk_group k) (\<lambda>g. g\<lparr>tg_pgid := dword q\<rparr>) (leave_pgroup (tk_group k) st))"
    using run assms(2) j t k g ok by (auto split: option.splits if_splits)
  then show thesis
    using that [of me j t k g] me t k g pid_get_Some [OF j] unfolding q_def i_def by auto
qed

lemma sys_setpgid_links:
  assumes "sys_setpgid cur id0 pgid0 st = Some (r, st')" "links_ok st"
  shows "links_ok st'"
proof (cases "st' = st")
  case False
  with assms(1) show ?thesis
  proof (rule sys_setpgid_cases)
    fix me i t k g
    assume "groups st (tk_group k) = Some g"
      and st': "st' = join_pgroup (tk_group k) i (upd_group (tk_group k)
         (\<lambda>g. g\<lparr>tg_pgid := dword (if pgid0 = 0 then if id0 = 0 then int (tk_pid me) else id0 else pgid0)\<rparr>)
         (leave_pgroup (tk_group k) st))"
    then show ?thesis
      unfolding st' by (intro join_pgroup_links upd_group_links leave_pgroup_links assms(2))
        (auto simp: groups_simps upd_group_def)
  qed
qed (use assms in simp)

lemma ids_ok_update:
  "ids_ok st \<Longrightarrow> groups st' = (groups st)(g := x) \<Longrightarrow>
   (\<And>k. x = Some k \<Longrightarrow> tg_in_pgroup k = Some (tg_pgid k) \<and> tg_in_session k = Some (tg_sid k)) \<Longrightarrow> ids_ok st'"
  by (auto simp: ids_ok_def)

text \<open>The leader of a group starts a session; another thread would enter the lists of its own number.\<close>

lemma task_setsid_ids:
  assumes "task_setsid t st = Some (r, st')" "ids_ok st" "task_is_leader t st"
  shows "ids_ok st'"
proof -
  obtain k g where k: "tasks st t = Some k" "groups st (tk_group k) = Some g" and l: "tg_leader g = t"
    using assms(3) by (auto simp: task_is_leader_def split: option.splits)
  show ?thesis
  proof (cases "tg_pgid g = tk_pid k \<or> tg_sid g = tk_pid k")
    case True
    then show ?thesis
      using assms k l by (auto simp: task_setsid_def)
  next
    case False
    then have "groups st' = (groups st)(tk_group k \<mapsto> g\<lparr>tg_sid := tk_pid k, tg_pgid := tk_pid k,
      tg_in_session := Some (tk_pid k), tg_in_pgroup := Some (tk_pid k), tg_tty := None\<rparr>)"
      using task_setsid_groups [OF assms(1) k, of k] k l by simp
    then show ?thesis
      by (rule ids_ok_update [OF assms(2)]) auto
  qed
qed

lemma sys_setpgid_own_ids:
  assumes "sys_setpgid cur i pgid st = Some (r, st')" "ids_ok st" "pgid = 0 \<or> pgid = i"
  shows "ids_ok st'"
proof (cases "st' = st")
  case False
  with assms(1) show ?thesis
  proof (rule sys_setpgid_cases)
    fix me j t k g
    assume "groups st (tk_group k) = Some g" "j = dword (if i = 0 then int (tk_pid me) else i)"
      "st' = join_pgroup (tk_group k) j (upd_group (tk_group k)
         (\<lambda>g. g\<lparr>tg_pgid := dword (if pgid = 0 then if i = 0 then int (tk_pid me) else i else pgid)\<rparr>)
         (leave_pgroup (tk_group k) st))"
    then have "groups st' = (groups st)(tk_group k \<mapsto> g\<lparr>tg_in_pgroup := Some j, tg_pgid := j\<rparr>)"
      using assms(3) by (cases g) (auto simp: groups_simps upd_group_def)
    then show ?thesis
      by (rule ids_ok_update [OF assms(2)]) (use \<open>groups st (tk_group k) = Some g\<close> assms(2) in \<open>auto simp: ids_ok_def\<close>)
  qed
qed (use assms in simp)

lemma tgroup_copy_cases:
  assumes "tgroup_copy fresh old st = Some st'"
  obtains new g i j where "fresh = Some new" "groups st old = Some g" "tg_in_pgroup g = Some i"
    "tg_in_session g = Some j"
    "groups st' = (groups st)(new \<mapsto> g\<lparr>tg_threads := [], tg_doing_group_exit := False\<rparr>)"
    "pids st' = pids (upd_pid j (\<lambda>p. p\<lparr>p_session := insert_behind old new (p_session p)\<rparr>)
       (upd_pid i (\<lambda>p. p\<lparr>p_pgroup := insert_behind old new (p_pgroup p)\<rparr>) st))"
proof -
  from assms obtain new g i j where g: "fresh = Some new" "groups st old = Some g"
      "tg_in_pgroup g = Some i" "tg_in_session g = Some j"
    by (auto simp: tgroup_copy_def split: option.splits)
  then show thesis
    using assms by (intro that [OF g]) (cases "tg_tty g"; auto simp: tgroup_copy_def Let_def upd_simps)+
qed

lemma tgroup_copy_links:
  assumes "tgroup_copy fresh old st = Some st'" "links_ok st" "\<And>new. fresh = Some new \<Longrightarrow> groups st new = None"
  shows "links_ok st'"
  using assms(1)
proof (rule tgroup_copy_cases)
  fix new g i j
  assume g: "fresh = Some new" "groups st old = Some g" "tg_in_pgroup g = Some i" "tg_in_session g = Some j"
    and st': "groups st' = (groups st)(new \<mapsto> g\<lparr>tg_threads := [], tg_doing_group_exit := False\<rparr>)"
    "pids st' = pids (upd_pid j (\<lambda>p. p\<lparr>p_session := insert_behind old new (p_session p)\<rparr>)
       (upd_pid i (\<lambda>p. p\<lparr>p_pgroup := insert_behind old new (p_pgroup p)\<rparr>) st))"
  have new: "groups st new = None"
    using assms(3) g(1) by simp
  have "pgroup_lists st' = (pgroup_lists st)(i := insert_behind old new (pgroup_lists st i))"
    "session_lists st' = (session_lists st)(j := insert_behind old new (session_lists st j))"
    by (simp_all add: st' upd_pid_def fun_eq_iff)
  moreover have "pgroup_of st' = (pgroup_of st)(new := Some i)" "session_of st' = (session_of st)(new := Some j)"
    using g by (simp_all add: st' fun_eq_iff)
  ultimately show ?thesis
    using ring_insert [of "pgroup_lists st" "pgroup_of st" old i new]
      ring_insert [of "session_lists st" "session_of st" old j new] assms(2) g new
    unfolding links_ok_def by simp
qed

lemma tgroup_copy_ids:
  assumes "tgroup_copy fresh old st = Some st'" "ids_ok st"
  shows "ids_ok st'"
  using assms(1)
proof (rule tgroup_copy_cases)
  fix new g
  assume g: "groups st old = Some g"
    and st': "groups st' = (groups st)(new \<mapsto> g\<lparr>tg_threads := [], tg_doing_group_exit := False\<rparr>)"
  show ?thesis
    by (rule ids_ok_update [OF assms(2) st']) (use g assms(2) in \<open>auto simp: ids_ok_def\<close>)
qed

lemma task_create_frame:
  assumes "task_create ft parent st = Some (r, st')"
  shows "groups st' = groups st" "p_pgroup (pids st' i) = p_pgroup (pids st i)"
    "p_session (pids st' i) = p_session (pids st i)" "sighands st' = sighands st" "tty_session st' = tty_session st"
proof -
  obtain c where c: "next_pid (pids st) (cur_pid st) = Some c"
    using assms by (auto simp: task_create_def split: option.splits)
  have "pid_empty (pids st c)"
    using next_pid_free [OF c] by simp
  then show "groups st' = groups st" "p_pgroup (pids st' i) = p_pgroup (pids st i)"
    "p_session (pids st' i) = p_session (pids st i)" "sighands st' = sighands st" "tty_session st' = tty_session st"
    using assms c
    by (auto simp: task_create_def Let_def upd_simps pid_empty_def split: option.splits)
qed

lemma task_create_task:
  assumes "task_create ft parent st = Some (Some t, st')"
  shows "\<exists>k. tasks st' t = Some k \<and> tk_pid k = cur_pid st' \<and> 1 \<le> tk_pid k"
proof -
  obtain c where c: "next_pid (pids st) (cur_pid st) = Some c"
    using assms by (auto simp: task_create_def split: option.splits)
  then show ?thesis
    using assms next_pid_free [OF c] by (auto simp: task_create_def Let_def upd_simps split: option.splits)
qed

lemma construct_session_groups:
  assumes "construct_session ft fg parent st = Some (r, st')" "links_ok st" "ids_ok st"
    "\<And>g. fg = Some g \<Longrightarrow> groups st g = None"
  shows "links_ok st' \<and> ids_ok st'"
proof -
  from assms(1) obtain t st1 g where t: "task_create ft parent st = Some (Some t, st1)" "fg = Some g"
    by (auto simp: construct_session_def split: option.splits)
  obtain k where k: "tasks st1 t = Some k" "1 \<le> tk_pid k"
    using task_create_task [OF t(1)] by blast
  define new where "new = \<lparr>tg_threads = [t], tg_leader = t, tg_sid = 0, tg_pgid = 0, tg_in_session = None,
    tg_in_pgroup = None, tg_stopped = False, tg_tty = None, tg_doing_group_exit = False, tg_group_exit_code = 0\<rparr>"
  define st2 where "st2 = upd_task t (\<lambda>k. k\<lparr>tk_group := g, tk_tgid := tk_pid k\<rparr>) (st1\<lparr>groups := (groups st1)(g \<mapsto> new)\<rparr>)"
  have run: "task_setsid t st2 = Some (r, st')"
    using assms(1) t by (simp add: construct_session_def st2_def new_def)
  have fresh: "groups st g = None"
    using assms(4) t(2) by simp
  have views: "pgroup_of st2 = pgroup_of st" "session_of st2 = session_of st"
    using fresh by (auto simp: st2_def new_def upd_simps task_create_frame [OF t(1)] fun_eq_iff)
  have "links_ok st2"
    using assms(2) unfolding links_ok_def views by (simp add: st2_def upd_simps task_create_frame [OF t(1)])
  then have "links_ok st'"
    by (rule task_setsid_links [OF run])
  moreover have "groups st' = (groups st2)(g \<mapsto> new\<lparr>tg_sid := tk_pid k, tg_pgid := tk_pid k,
      tg_in_session := Some (tk_pid k), tg_in_pgroup := Some (tk_pid k), tg_tty := None\<rparr>)"
    using task_setsid_groups [OF run, of "k\<lparr>tk_group := g, tk_tgid := tk_pid k\<rparr>" new "k\<lparr>tk_group := g, tk_tgid := tk_pid k\<rparr>"] k
    by (simp add: st2_def upd_simps new_def)
  then have "groups st' = (groups st)(g \<mapsto> new\<lparr>tg_sid := tk_pid k, tg_pgid := tk_pid k,
      tg_in_session := Some (tk_pid k), tg_in_pgroup := Some (tk_pid k), tg_tty := None\<rparr>)"
    by (simp add: st2_def upd_simps task_create_frame [OF t(1)])
  then have "ids_ok st'"
    by (rule ids_ok_update [OF assms(3)]) auto
  ultimately show ?thesis
    by simp
qed

section \<open>Properties\<close>

text \<open>
  C13. Bounds of process numbers. When some number from 1 to the maximum is free, a fork ends and gives
  the child a number in that range that was free before; the table then leads from the number to the
  child, no other number changes, the child is the first child of its parent and has no pending
  signal. When every number is taken, the search does not end.
\<close>

theorem task_create_pid:
  assumes "cur_pid st \<le> MAX_PID" "tasks st p = Some k" "tasks st t = None"
  shows "if \<exists>i. 1 \<le> i \<and> i \<le> MAX_PID \<and> pid_empty (pids st i)
    then \<exists>c st' k'. task_create (Some t) (Some p) st = Some (Some t, st') \<and>
        1 \<le> c \<and> c \<le> MAX_PID \<and> pid_empty (pids st c) \<and> cur_pid st' = c \<and>
        p_task (pids st' c) = Some t \<and> (\<forall>j. j = c \<or> pids st' j = pids st j) \<and>
        tasks st' t = Some k' \<and> tk_pid k' = c \<and> tk_parent k' = Some p \<and> tk_pending k' = 0 \<and> tk_queue k' = [] \<and>
        tasks st' p = Some (k\<lparr>tk_children := t # tk_children k\<rparr>)
    else task_create (Some t) (Some p) st = None"
proof (cases "next_pid (pids st) (cur_pid st)")
  case None
  then show ?thesis
    using next_pid_defined [OF assms(1), of "pids st"] by (simp add: task_create_def)
next
  case (Some c)
  moreover have "t \<noteq> p"
    using assms by auto
  ultimately show ?thesis
    using assms(2) next_pid_free [OF Some] next_pid_defined [OF assms(1), of "pids st"]
    by (intro if_bool_eq_conj [THEN iffD2] conjI impI exI [of _ c]) (auto simp: task_create_def Let_def upd_simps)
qed

theorem task_create_pid_witness:
  "\<exists>c st'. task_create (Some 1) (Some 0)
      (empty_kstate\<lparr>pids := (pids empty_kstate)(1 := \<lparr>p_task = Some 0, p_session = [], p_pgroup = []\<rparr>),
         cur_pid := 32768, tasks := [0 \<mapsto> zero_task\<lparr>tk_pid := 1\<rparr>]\<rparr>) = Some (Some 1, st') \<and>
    2 \<le> c \<and> c \<le> MAX_PID \<and> cur_pid st' = c \<and> p_task (pids st' c) = Some 1"
proof -
  define st where "st = empty_kstate\<lparr>pids := (pids empty_kstate)(1 := \<lparr>p_task = Some 0, p_session = [], p_pgroup = []\<rparr>),
         cur_pid := 32768, tasks := [0 \<mapsto> zero_task\<lparr>tk_pid := 1\<rparr>]\<rparr>"
  have free: "pid_empty (pids st 2)" and used: "\<not> pid_empty (pids st 1)"
    by (simp_all add: st_def empty_kstate_def pid_empty_def)
  have ex: "\<exists>i. 1 \<le> i \<and> i \<le> MAX_PID \<and> pid_empty (pids st i)"
    by (rule exI [of _ 2]) (simp add: free)
  have "\<exists>c st'. task_create (Some 1) (Some 0) st = Some (Some 1, st') \<and> 1 \<le> c \<and> c \<le> MAX_PID \<and>
      pid_empty (pids st c) \<and> cur_pid st' = c \<and> p_task (pids st' c) = Some 1"
    using task_create_pid [of st 0 "zero_task\<lparr>tk_pid := 1\<rparr>" 1, unfolded if_P [OF ex]]
    by (force simp: st_def)
  then obtain c st' where c: "task_create (Some 1) (Some 0) st = Some (Some 1, st')" "1 \<le> c" "c \<le> MAX_PID"
      "pid_empty (pids st c)" "cur_pid st' = c" "p_task (pids st' c) = Some 1"
    by blast
  then have "c \<noteq> 1"
    using used by auto
  with c show ?thesis
    unfolding st_def by (intro exI [of _ c] exI [of _ st']) auto
qed

text \<open>
  C33. \<^verbatim>\<open>setpgid\<close> with a process group other than the process's own number, when it changes the group,
  records the new number but enters the group into the list of the process: the list of the process
  group it joins, which signals to that group follow, does not have it.
\<close>

theorem sys_setpgid_wrong_list:
  assumes "sys_setpgid cur i pgid st = Some (r, st')" "st' \<noteq> st" "links_ok st"
    "0 < i" "i < 2 ^ 31" "0 < pgid" "pgid < 2 ^ 31" "i \<noteq> pgid"
  shows "\<exists>g k. groups st' g = Some k \<and> tg_pgid k = nat pgid \<and> g \<in> set (p_pgroup (pids st' (nat i))) \<and>
    g \<notin> set (p_pgroup (pids st' (nat pgid)))"
  using assms(1,2)
proof (rule sys_setpgid_cases)
  fix me j t k g
  assume g: "groups st (tk_group k) = Some g" and j: "j = dword (if i = 0 then int (tk_pid me) else i)"
    and st': "st' = join_pgroup (tk_group k) j (upd_group (tk_group k)
         (\<lambda>g. g\<lparr>tg_pgid := dword (if pgid = 0 then if i = 0 then int (tk_pid me) else i else pgid)\<rparr>)
         (leave_pgroup (tk_group k) st))"
  have ji: "j = nat i"
    using j assms by simp
  have k': "groups st' (tk_group k) = Some (g\<lparr>tg_in_pgroup := Some j, tg_pgid := nat pgid\<rparr>)"
    unfolding st' using g assms by (cases g) (simp add: groups_simps upd_group_def)
  have "ring (pgroup_lists st') (pgroup_of st')"
    using sys_setpgid_links [OF assms(1,3)] by (simp add: links_ok_def)
  then have member: "tk_group k \<in> set (p_pgroup (pids st' x)) \<longleftrightarrow> x = j" for x
    using k' by (auto simp: ring_def)
  have "nat pgid \<noteq> j"
    using ji assms by simp
  with member [of j] member [of "nat pgid"] k' ji show ?thesis
    by (intro exI [of _ "tk_group k"] exI [of _ "g\<lparr>tg_in_pgroup := Some j, tg_pgid := nat pgid\<rparr>"]) simp
qed

text \<open>A session of three processes, of which the third has a process group of its own.\<close>

definition demo_group :: "nat \<Rightarrow> nat \<Rightarrow> tgroup" where
  "demo_group t pgid = \<lparr>tg_threads = [t], tg_leader = t, tg_sid = 1, tg_pgid = pgid, tg_in_session = Some 1,
     tg_in_pgroup = Some pgid, tg_stopped = False, tg_tty = None, tg_doing_group_exit = False, tg_group_exit_code = 0\<rparr>"

definition demo_task :: "nat \<Rightarrow> task" where
  "demo_task t = zero_task\<lparr>tk_pid := t + 1, tk_tgid := t + 1, tk_group := t, tk_sighand := Some 0,
     tk_parent := (if t = 0 then None else Some 0)\<rparr>"

definition demo_kstate :: kstate where
  "demo_kstate = empty_kstate\<lparr>
     pids := (pids empty_kstate)(1 := \<lparr>p_task = Some 0, p_session = [0, 1, 2], p_pgroup = [0, 1]\<rparr>,
       2 := \<lparr>p_task = Some 1, p_session = [], p_pgroup = []\<rparr>, 3 := \<lparr>p_task = Some 2, p_session = [], p_pgroup = [2]\<rparr>),
     cur_pid := 3, tasks := [0 \<mapsto> demo_task 0, 1 \<mapsto> demo_task 1, 2 \<mapsto> demo_task 2],
     groups := [0 \<mapsto> demo_group 0 1, 1 \<mapsto> demo_group 1 1, 2 \<mapsto> demo_group 2 3]\<rparr>"

lemmas demo_defs = demo_kstate_def demo_group_def demo_task_def empty_kstate_def zero_task_def

lemma demo_links: "links_ok demo_kstate"
  by (auto simp: links_ok_def ring_def demo_kstate_def demo_group_def empty_kstate_def bind_eq_Some_conv split: if_splits)

lemma demo_setpgid:
  "sys_setpgid 1 2 3 demo_kstate = Some (0, join_pgroup 1 2 (upd_group 1 (\<lambda>g. g\<lparr>tg_pgid := 3\<rparr>) (leave_pgroup 1 demo_kstate)))"
  by (simp add: sys_setpgid_def setpgid_same_session_def pid_get_def pid_empty_def demo_defs)

theorem sys_setpgid_wrong_list_witness:
  "\<exists>st' g k. sys_setpgid 1 2 3 demo_kstate = Some (0, st') \<and> groups st' g = Some k \<and> tg_pgid k = 3 \<and>
     g \<in> set (p_pgroup (pids st' 2)) \<and> g \<notin> set (p_pgroup (pids st' 3))"
proof -
  define st' where "st' = join_pgroup 1 2 (upd_group 1 (\<lambda>g. g\<lparr>tg_pgid := 3\<rparr>) (leave_pgroup 1 demo_kstate))"
  have "tg_pgid (the (groups st' 1)) = 3" "tg_pgid (the (groups demo_kstate 1)) = 1"
    by (simp_all add: st'_def groups_simps upd_group_def demo_defs)
  then have "st' \<noteq> demo_kstate"
    by auto
  then show ?thesis
    using sys_setpgid_wrong_list [of 1 2 3 demo_kstate 0 st'] demo_links demo_setpgid unfolding st'_def by auto
qed

end
