(* ===== verification/Signal.thy ===== *)
theory Signal
  imports Task
begin

text \<open>
  Signals: \<^verbatim>\<open>kernel/signal.h\<close> and \<^verbatim>\<open>kernel/signal.c\<close>. The state is that of \<^verbatim>\<open>Task\<close>; the registers of the
  running task and the frames put on its stack are in \<open>sigenv\<close>. What a copy from or to guest memory
  yields is an argument of the call: \<open>user_arg\<close> for a copy from an address that may be null, a set of
  addresses for copies that fail. \<^const>\<open>None\<close> as a result is a failed assertion, an access outside an
  array, a null pointer or a call that does not return. Memory for queue entries is available, and
  the pointer \<^verbatim>\<open>waiting_cond\<close>, which nothing sets, is null.
\<close>

section \<open>Definitions\<close>

subsection \<open>Signal sets and actions\<close>

abbreviation (input) NUM_SIGS :: nat where "NUM_SIGS \<equiv> 64"
abbreviation (input) SIGKILL :: nat where "SIGKILL \<equiv> 9"
abbreviation (input) SIGSEGV :: nat where "SIGSEGV \<equiv> 11"
abbreviation (input) SIGCONT :: nat where "SIGCONT \<equiv> 18"
abbreviation (input) SIGSTOP :: nat where "SIGSTOP \<equiv> 19"
abbreviation (input) SIGTTIN :: nat where "SIGTTIN \<equiv> 21"
abbreviation (input) SIGTTOU :: nat where "SIGTTOU \<equiv> 22"

abbreviation SIGINFO_NIL :: siginfo where
  "SIGINFO_NIL \<equiv> \<lparr>si_sig = 0, si_code = 128, si_data = Si_none\<rparr>"

definition sig_mask :: "nat \<Rightarrow> u64 option" where
  "sig_mask sig = (if 1 \<le> sig \<and> sig < NUM_SIGS then Some (push_bit (sig - 1) 1) else None)"

definition signal_is_blockable :: "nat \<Rightarrow> bool" where
  "signal_is_blockable sig \<longleftrightarrow> sig \<noteq> SIGKILL \<and> sig \<noteq> SIGSTOP"

abbreviation UNBLOCKABLE_MASK :: u64 where
  "UNBLOCKABLE_MASK \<equiv> push_bit 8 1 OR push_bit 18 1"

datatype signal_act = SIGNAL_IGNORE | SIGNAL_KILL | SIGNAL_CALL_HANDLER | SIGNAL_STOP

definition default_action :: "nat \<Rightarrow> signal_act" where
  "default_action sig =
     (if sig \<in> {23, 18, 17, 29, 28} then SIGNAL_IGNORE
      else if sig \<in> {19, 20, 21, 22} then SIGNAL_STOP else SIGNAL_KILL)"

definition signal_action :: "sighand \<Rightarrow> nat \<Rightarrow> signal_act option" where
  "signal_action sh sig =
     (if signal_is_blockable sig then
        if sig \<ge> length (sh_action sh) then None
        else let h = sa_handler (sh_action sh ! sig)
             in Some (if h = 1 then SIGNAL_IGNORE else if h \<noteq> 0 then SIGNAL_CALL_HANDLER else default_action sig)
      else Some (default_action sig))"

subsection \<open>Sending\<close>

definition deliver_signal_unlocked :: "nat \<Rightarrow> nat \<Rightarrow> nat \<Rightarrow> siginfo \<Rightarrow> kstate \<Rightarrow> kstate option" where
  "deliver_signal_unlocked cur t sig info st =
     (case (tasks st t, sig_mask sig) of
        (Some k, Some m) \<Rightarrow>
          if tk_pending k AND m \<noteq> 0 then Some st
          else
            let st1 = upd_task t (\<lambda>k. k\<lparr>tk_pending := tk_pending k OR m, tk_queue := tk_queue k @ [info\<lparr>si_sig := sig\<rparr>]\<rparr>) st
            in if tk_blocked k AND NOT (tk_waiting k) AND m \<noteq> 0 \<and> signal_is_blockable sig then Some st1
               else if t \<noteq> cur then Some (st1\<lparr>kevents := kevents st1 @ [Thread_kill t]\<rparr>)
               else Some st1
      | _ \<Rightarrow> None)"

definition task_sighand :: "nat \<Rightarrow> kstate \<Rightarrow> (nat \<times> sighand) option" where
  "task_sighand t st =
     (case tasks st t of
        None \<Rightarrow> None
      | Some k \<Rightarrow> (case tk_sighand k of None \<Rightarrow> None | Some s \<Rightarrow> map_option (Pair s) (sighands st s)))"

definition deliver_signal :: "nat \<Rightarrow> nat \<Rightarrow> nat \<Rightarrow> siginfo \<Rightarrow> kstate \<Rightarrow> kstate option" where
  "deliver_signal cur t sig info st =
     (case task_sighand t st of None \<Rightarrow> None | Some _ \<Rightarrow> deliver_signal_unlocked cur t sig info st)"

definition send_signal :: "nat \<Rightarrow> nat \<Rightarrow> nat \<Rightarrow> siginfo \<Rightarrow> kstate \<Rightarrow> kstate option" where
  "send_signal cur t sig info st =
     (if sig = 0 then Some st
      else case tasks st t of
        None \<Rightarrow> None
      | Some k \<Rightarrow>
          if tk_zombie k \<or> tk_exiting k then Some st
          else case task_sighand t st of
            None \<Rightarrow> None
          | Some (_, sh) \<Rightarrow>
              (case signal_action sh sig of
                 None \<Rightarrow> None
               | Some a \<Rightarrow>
                   (case (if a = SIGNAL_IGNORE then Some st else deliver_signal_unlocked cur t sig info st) of
                      None \<Rightarrow> None
                    | Some st1 \<Rightarrow>
                        if sig = SIGCONT \<or> sig = SIGKILL
                        then let st2 = upd_group (tk_group k) (\<lambda>g. g\<lparr>tg_stopped := False\<rparr>) st1
                             in Some (st2\<lparr>kevents := kevents st2 @ [Notify_stopped (tk_group k)]\<rparr>)
                        else Some st1)))"

definition try_self_signal :: "nat \<Rightarrow> nat \<Rightarrow> kstate \<Rightarrow> (bool \<times> kstate) option" where
  "try_self_signal cur sig st =
     (if sig \<noteq> SIGTTIN \<and> sig \<noteq> SIGTTOU then None
      else case (task_sighand cur st, tasks st cur, sig_mask sig) of
        (Some (_, sh), Some k, Some m) \<Rightarrow>
          (case signal_action sh sig of
             None \<Rightarrow> None
           | Some a \<Rightarrow>
               if a \<noteq> SIGNAL_IGNORE \<and> tk_blocked k AND m = 0
               then map_option (Pair True) (deliver_signal_unlocked cur cur sig SIGINFO_NIL st)
               else Some (False, st))
      | _ \<Rightarrow> None)"

fun send_leaders :: "nat \<Rightarrow> nat list \<Rightarrow> nat \<Rightarrow> siginfo \<Rightarrow> kstate \<Rightarrow> kstate option" where
  "send_leaders cur [] sig info st = Some st"
| "send_leaders cur (g # gs) sig info st =
     (case groups st g of
        None \<Rightarrow> None
      | Some k \<Rightarrow>
          (case send_signal cur (tg_leader k) sig info st of
             None \<Rightarrow> None
           | Some st' \<Rightarrow> send_leaders cur gs sig info st'))"

definition send_group_signal :: "nat \<Rightarrow> nat \<Rightarrow> nat \<Rightarrow> siginfo \<Rightarrow> kstate \<Rightarrow> (int \<times> kstate) option" where
  "send_group_signal cur pgid sig info st =
     (case pid_get pgid st of
        None \<Rightarrow> None
      | Some None \<Rightarrow> Some (ESRCH, st)
      | Some (Some i) \<Rightarrow> map_option (Pair 0) (send_leaders cur (p_pgroup (pids st i)) sig info st))"

subsection \<open>Handler frames\<close>

text \<open>
  The registers of \<^verbatim>\<open>struct cpu_state\<close> that signals read or write. The carry and overflow flags live in
  \<open>cf\<close> and \<open>ov\<close>; the other arithmetic flags are in \<open>eflags\<close> or, where a bit of \<^verbatim>\<open>flags_res\<close> says so,
  computed from \<open>res\<close>, \<open>op1\<close> and \<open>op2\<close>.
\<close>

record cpu =
  eax :: u32
  ecx :: u32
  edx :: u32
  ebx :: u32
  esp :: u32
  ebp :: u32
  esi :: u32
  edi :: u32
  eip :: u32
  eflags :: u32
  cf :: bool
  ov :: bool
  res :: u32
  op1 :: u32
  op2 :: u32
  pf_res :: bool
  zf_res :: bool
  sf_res :: bool
  af_ops :: bool
  segfault_addr :: u32
  trapno :: u32

definition put_flag :: "nat \<Rightarrow> bool \<Rightarrow> u32 \<Rightarrow> u32" where
  "put_flag n b w = (if b then set_bit n w else unset_bit n w)"

definition collapse_flags :: "cpu \<Rightarrow> cpu" where
  "collapse_flags c =
     (let zf = (if zf_res c then res c = 0 else Bit_Operations.bit (eflags c) 6);
          sf = (if sf_res c then Bit_Operations.bit (res c) 31 else Bit_Operations.bit (eflags c) 7);
          pf = (if pf_res c then even (length (filter (Bit_Operations.bit (res c)) [0..<8]))
                else Bit_Operations.bit (eflags c) 2);
          af = (if af_ops c then Bit_Operations.bit (op1 c XOR op2 c XOR res c) 4
                else Bit_Operations.bit (eflags c) 4)
      in c\<lparr>eflags := put_flag 9 True (put_flag 5 False (put_flag 3 False (put_flag 1 True
             (put_flag 4 af (put_flag 0 (cf c) (put_flag 11 (ov c)
               (put_flag 2 pf (put_flag 7 sf (put_flag 6 zf (eflags c)))))))))),
           zf_res := False, sf_res := False, pf_res := False, af_ops := False\<rparr>)"

record sigcontext =
  sc_di :: u32
  sc_si :: u32
  sc_bp :: u32
  sc_sp :: u32
  sc_bx :: u32
  sc_dx :: u32
  sc_cx :: u32
  sc_ax :: u32
  sc_trapno :: u32
  sc_ip :: u32
  sc_flags :: u32
  sc_sp_at_signal :: u32
  sc_oldmask :: u32
  sc_cr2 :: u32

text \<open>\<^verbatim>\<open>INT_GPF\<close> is 13.\<close>

definition setup_sigcontext :: "cpu \<Rightarrow> u64 \<Rightarrow> sigcontext \<times> cpu" where
  "setup_sigcontext c blocked =
     (let c' = collapse_flags c
      in (\<lparr>sc_di = edi c, sc_si = esi c, sc_bp = ebp c, sc_sp = esp c, sc_bx = ebx c, sc_dx = edx c,
           sc_cx = ecx c, sc_ax = eax c, sc_trapno = trapno c, sc_ip = eip c, sc_flags = eflags c',
           sc_sp_at_signal = esp c, sc_oldmask = ucast blocked,
           sc_cr2 = (if trapno c = 13 then segfault_addr c else 0)\<rparr>, c'))"

record stack_t =
  ss_stack :: u32
  ss_flags :: u32
  ss_size :: u32

record sigframe =
  sf_restorer :: u32
  sf_sig :: nat
  sf_sc :: sigcontext
  sf_extramask :: u32

record rt_sigframe =
  rf_restorer :: u32
  rf_sig :: nat
  rf_pinfo :: u32
  rf_puc :: u32
  rf_info :: siginfo
  uc_stack :: stack_t
  uc_mcontext :: sigcontext
  uc_sigmask :: u64

datatype frame = Sigframe sigframe | Rt_sigframe rt_sigframe

definition is_on_altstack :: "u32 \<Rightarrow> sighand \<Rightarrow> bool" where
  "is_on_altstack sp sh \<longleftrightarrow> sh_altstack sh < sp \<and> sp \<le> sh_altstack sh + sh_altstack_size sh"

definition altstack_to_user :: "u32 \<Rightarrow> sighand \<Rightarrow> stack_t" where
  "altstack_to_user sp sh =
     \<lparr>ss_stack = sh_altstack sh,
      ss_flags = (if sh_altstack sh = 0 then 2 else 0) OR (if is_on_altstack sp sh then 1 else 0),
      ss_size = sh_altstack_size sh\<rparr>"

text \<open>\<open>tramp\<close> is the address of the trampoline in the vdso; \<open>pinfo\<close> and \<open>puc\<close> are filled in later.\<close>

definition setup_sigframe :: "u32 \<Rightarrow> siginfo \<Rightarrow> cpu \<Rightarrow> u64 \<Rightarrow> sigframe \<times> cpu" where
  "setup_sigframe tramp info c blocked =
     (let (sc, c') = setup_sigcontext c blocked
      in (\<lparr>sf_restorer = tramp, sf_sig = si_sig info, sf_sc = sc, sf_extramask = ucast (drop_bit 32 blocked)\<rparr>, c'))"

definition setup_rt_sigframe :: "u32 \<Rightarrow> siginfo \<Rightarrow> sighand \<Rightarrow> cpu \<Rightarrow> u64 \<Rightarrow> rt_sigframe \<times> cpu" where
  "setup_rt_sigframe tramp info sh c blocked =
     (let (sc, c') = setup_sigcontext c blocked
      in (\<lparr>rf_restorer = tramp, rf_sig = si_sig info, rf_pinfo = 0, rf_puc = 0, rf_info = info,
           uc_stack = altstack_to_user (esp c) sh, uc_mcontext = sc, uc_sigmask = blocked\<rparr>, c'))"

text \<open>The sizes of the two structures and the offsets of their fields.\<close>

abbreviation (input) sigframe_size :: u32 where "sigframe_size \<equiv> 732"
abbreviation (input) rt_sigframe_size :: u32 where "rt_sigframe_size \<equiv> 268"

text \<open>
  Where the frame goes. \<open>xs\<close> and \<open>fxs\<close> are \<^verbatim>\<open>xsave_extra\<close> and \<^verbatim>\<open>fxsave_extra\<close>, 0 outside of the
  comparison tool \<^verbatim>\<open>ptraceomatic\<close>.
\<close>

definition frame_sp :: "u32 \<Rightarrow> u32 \<Rightarrow> sighand \<Rightarrow> u32 \<Rightarrow> u32 \<Rightarrow> u32" where
  "frame_sp xs fxs sh sp frame_size =
     (let sp1 = (if sh_altstack sh \<noteq> 0 \<and> \<not> is_on_altstack sp sh then sh_altstack sh + sh_altstack_size sh else sp);
          sp2 = (if xs \<noteq> 0 then ((sp1 - xs) AND NOT 0x3f) - fxs else sp1);
          sp3 = sp2 - frame_size
      in ((sp3 + 4) AND NOT 0xf) - 4)"

text \<open>
  What the running task does next: it goes on, \<^verbatim>\<open>do_exit_group\<close> is called with a status, or it waits
  for its tracer in \<^verbatim>\<open>signal_delivery_stop\<close>.
\<close>

datatype sig_out = Running | Exit_group nat | Delivery_stop siginfo

record sigenv =
  sk :: kstate
  scpu :: cpu
  frames :: "(u32 \<times> frame) list"
  sout :: sig_out

text \<open>Parameters of the frame: the two trampolines and the two sizes of the comparison tool.\<close>

record sigparams =
  sp_tramp :: u32
  sp_rt_tramp :: u32
  sp_xsave :: u32
  sp_fxsave :: u32

text \<open>
  \<open>wfail\<close> says at which addresses the frame cannot be written. \<^verbatim>\<open>deliver_signal\<close> then takes the lock of
  the handlers, which \<^verbatim>\<open>receive_signals\<close> holds: the call does not return.
\<close>

definition install_frame :: "sigparams \<Rightarrow> u32 set \<Rightarrow> nat \<Rightarrow> nat \<Rightarrow> sighand \<Rightarrow> task \<Rightarrow> siginfo \<Rightarrow> sigenv \<Rightarrow> sigenv option" where
  "install_frame ps wfail cur s sh k info env =
     (case sig_mask (si_sig info) of
        None \<Rightarrow> None
      | Some m \<Rightarrow>
          let action = sh_action sh ! si_sig info;
              rt = (sa_flags action AND 4 \<noteq> 0);
              sp = frame_sp (sp_xsave ps) (sp_fxsave ps) sh (esp (scpu env)) (if rt then rt_sigframe_size else sigframe_size);
              (fr, c1) = (if rt
                 then let (f, c) = setup_rt_sigframe (sp_rt_tramp ps) info sh (scpu env) (tk_blocked k)
                      in (Rt_sigframe (f\<lparr>rf_pinfo := sp + 16, rf_puc := sp + 144\<rparr>), c\<lparr>edx := sp + 16, ecx := sp + 144\<rparr>)
                 else let (f, c) = setup_sigframe (sp_tramp ps) info (scpu env) (tk_blocked k)
                      in (Sigframe f, c));
              c2 = c1\<lparr>eax := of_nat (si_sig info), eip := sa_handler action, esp := sp\<rparr>;
              blocked = (if sa_flags action AND 0x40000000 = 0 then tk_blocked k OR m else tk_blocked k) OR sa_mask action;
              st1 = upd_task cur (\<lambda>k. k\<lparr>tk_blocked := blocked\<rparr>) (sk env);
              sh1 = (if sa_flags action AND 0x80000000 \<noteq> 0
                     then sh\<lparr>sh_action := (sh_action sh)[si_sig info := \<lparr>sa_handler = 0, sa_flags = 0, sa_restorer = 0, sa_mask = 0\<rparr>]\<rparr>
                     else sh)
          in if sp \<in> wfail then None
             else Some (env\<lparr>sk := st1\<lparr>sighands := (sighands st1)(s \<mapsto> sh1)\<rparr>, scpu := c2, frames := (sp, fr) # frames env\<rparr>))"

definition receive_signal :: "sigparams \<Rightarrow> u32 set \<Rightarrow> nat \<Rightarrow> siginfo \<Rightarrow> sigenv \<Rightarrow> sigenv option" where
  "receive_signal ps wfail cur info env =
     (case (task_sighand cur (sk env), tasks (sk env) cur) of
        (Some (s, sh), Some k) \<Rightarrow>
          (case signal_action sh (si_sig info) of
             None \<Rightarrow> None
           | Some SIGNAL_IGNORE \<Rightarrow> Some env
           | Some SIGNAL_STOP \<Rightarrow>
               Some (env\<lparr>sk := upd_group (tk_group k)
                 (\<lambda>g. g\<lparr>tg_stopped := True, tg_group_exit_code := push_bit 8 (si_sig info) OR 0x7f\<rparr>) (sk env)\<rparr>)
           | Some SIGNAL_KILL \<Rightarrow> Some (env\<lparr>sout := Exit_group (si_sig info)\<rparr>)
           | Some SIGNAL_CALL_HANDLER \<Rightarrow> install_frame ps wfail cur s sh k info env)
      | _ \<Rightarrow> None)"

text \<open>The loop over the queue, with the mask \<open>blocked\<close> it was entered with.\<close>

fun receive_queue :: "sigparams \<Rightarrow> u32 set \<Rightarrow> nat \<Rightarrow> u64 \<Rightarrow> siginfo list \<Rightarrow> sigenv \<Rightarrow> sigenv option" where
  "receive_queue ps wfail cur blocked [] env = Some env"
| "receive_queue ps wfail cur blocked (i # is) env =
     (case (sig_mask (si_sig i), tasks (sk env) cur) of
        (Some m, Some k) \<Rightarrow>
          if blocked AND m \<noteq> 0 then receive_queue ps wfail cur blocked is env
          else
            let env1 = env\<lparr>sk := upd_task cur (\<lambda>k. k\<lparr>tk_queue := remove1 i (tk_queue k),
                                                       tk_pending := tk_pending k AND NOT m\<rparr>) (sk env)\<rparr>
            in if tk_traced k \<and> si_sig i \<noteq> SIGKILL then Some (env1\<lparr>sout := Delivery_stop i\<rparr>)
               else (case receive_signal ps wfail cur i env1 of
                       None \<Rightarrow> None
                     | Some env2 \<Rightarrow>
                         if sout env2 = Running then receive_queue ps wfail cur blocked is env2 else Some env2)
      | _ \<Rightarrow> None)"

definition notify_parent_stopped :: "nat \<Rightarrow> kstate \<Rightarrow> kstate option" where
  "notify_parent_stopped cur st =
     (case tasks st cur of
        None \<Rightarrow> None
      | Some k \<Rightarrow>
          (case (tk_parent k, groups st (tk_group k)) of
             (Some p, Some g) \<Rightarrow>
               (case (tasks st p, tasks st (tg_leader g)) of
                  (Some pk, Some l) \<Rightarrow>
                    send_signal cur p (tk_exit_signal l) SIGINFO_NIL
                      (st\<lparr>kevents := kevents st @ [Notify_child (tk_group pk)]\<rparr>)
                | _ \<Rightarrow> None)
           | _ \<Rightarrow> None))"

definition receive_signals :: "sigparams \<Rightarrow> u32 set \<Rightarrow> nat \<Rightarrow> sigenv \<Rightarrow> sigenv option" where
  "receive_signals ps wfail cur env =
     (case tasks (sk env) cur of
        None \<Rightarrow> None
      | Some k \<Rightarrow>
          (case (groups (sk env) (tk_group k), task_sighand cur (sk env)) of
             (Some g, Some _) \<Rightarrow>
               let blocked = (if tk_has_saved_mask k then tk_blocked k AND tk_saved_mask k else tk_blocked k);
                   env1 = (if tk_has_saved_mask k
                           then env\<lparr>sk := upd_task cur (\<lambda>k. k\<lparr>tk_has_saved_mask := False, tk_blocked := tk_saved_mask k\<rparr>) (sk env)\<rparr>
                           else env)
               in (case receive_queue ps wfail cur blocked (tk_queue k) env1 of
                     None \<Rightarrow> None
                   | Some env2 \<Rightarrow>
                       if sout env2 \<noteq> Running \<or> tg_stopped g then Some env2
                       else (case groups (sk env2) (tk_group k) of
                               None \<Rightarrow> None
                             | Some g' \<Rightarrow>
                                 if tg_stopped g'
                                 then map_option (\<lambda>st. env2\<lparr>sk := st\<rparr>) (notify_parent_stopped cur (sk env2))
                                 else Some env2))
           | _ \<Rightarrow> None))"

subsection \<open>Return from a handler\<close>

abbreviation (input) USE_FLAGS :: u32 where
  "USE_FLAGS \<equiv> 0x50dd5"

definition restore_sigcontext :: "sigcontext \<Rightarrow> cpu \<Rightarrow> cpu" where
  "restore_sigcontext x c =
     (let c1 = collapse_flags (c\<lparr>eax := sc_ax x, ebx := sc_bx x, ecx := sc_cx x, edx := sc_dx x, edi := sc_di x,
                 esi := sc_si x, ebp := sc_bp x, esp := sc_sp x, eip := sc_ip x\<rparr>)
      in c1\<lparr>eflags := (sc_flags x AND USE_FLAGS) OR (eflags c1 AND NOT USE_FLAGS)\<rparr>)"

definition sigmask_set :: "nat \<Rightarrow> u64 \<Rightarrow> kstate \<Rightarrow> kstate" where
  "sigmask_set cur sset st = upd_task cur (\<lambda>k. k\<lparr>tk_blocked := sset AND NOT UNBLOCKABLE_MASK\<rparr>) st"

text \<open>\<open>mem\<close> gives the frame that can be read at an address of the guest.\<close>

definition sys_rt_sigreturn :: "(u32 \<Rightarrow> rt_sigframe option) \<Rightarrow> nat \<Rightarrow> sigenv \<Rightarrow> (u32 \<times> sigenv) option" where
  "sys_rt_sigreturn mem cur env =
     (case mem (esp (scpu env) - 4) of
        None \<Rightarrow> map_option (\<lambda>st. (word_of_int EFAULT, env\<lparr>sk := st\<rparr>)) (deliver_signal cur cur SIGSEGV SIGINFO_NIL (sk env))
      | Some f \<Rightarrow>
          (case task_sighand cur (sk env) of
             None \<Rightarrow> None
           | Some (s, sh) \<Rightarrow>
               let c = restore_sigcontext (uc_mcontext f) (scpu env);
                   sh' = (if \<not> is_on_altstack (esp c) sh \<and> ss_size (uc_stack f) \<ge> 2048
                          then sh\<lparr>sh_altstack := ss_stack (uc_stack f), sh_altstack_size := ss_size (uc_stack f)\<rparr> else sh);
                   st = sigmask_set cur (uc_sigmask f) ((sk env)\<lparr>sighands := (sighands (sk env))(s \<mapsto> sh')\<rparr>)
               in Some (eax c, env\<lparr>sk := st, scpu := c\<rparr>)))"

definition sys_sigreturn :: "(u32 \<Rightarrow> sigframe option) \<Rightarrow> nat \<Rightarrow> sigenv \<Rightarrow> (u32 \<times> sigenv) option" where
  "sys_sigreturn mem cur env =
     (case mem (esp (scpu env) - 8) of
        None \<Rightarrow> map_option (\<lambda>st. (word_of_int EFAULT, env\<lparr>sk := st\<rparr>)) (deliver_signal cur cur SIGSEGV SIGINFO_NIL (sk env))
      | Some f \<Rightarrow>
          (case task_sighand cur (sk env) of
             None \<Rightarrow> None
           | Some _ \<Rightarrow>
               let c = restore_sigcontext (sf_sc f) (scpu env);
                   oldmask = push_bit 32 (ucast (sf_extramask f)) OR ucast (sc_oldmask (sf_sc f))
               in Some (eax c, env\<lparr>sk := sigmask_set cur oldmask (sk env), scpu := c\<rparr>)))"

subsection \<open>Handlers and masks\<close>

abbreviation zero_action :: sigaction where
  "zero_action \<equiv> \<lparr>sa_handler = 0, sa_flags = 0, sa_restorer = 0, sa_mask = 0\<rparr>"

text \<open>\<open>fresh\<close> is the memory \<^verbatim>\<open>malloc\<close> returns.\<close>

definition sighand_new :: "nat option \<Rightarrow> kstate \<Rightarrow> nat option \<times> kstate" where
  "sighand_new fresh st =
     (case fresh of
        None \<Rightarrow> (None, st)
      | Some s \<Rightarrow> (Some s, st\<lparr>sighands := (sighands st)(s \<mapsto>
          \<lparr>sh_refcount = 1, sh_action = replicate NUM_SIGS zero_action, sh_altstack = 0, sh_altstack_size = 0\<rparr>)\<rparr>))"

definition sighand_copy :: "nat option \<Rightarrow> nat \<Rightarrow> kstate \<Rightarrow> (nat option \<times> kstate) option" where
  "sighand_copy fresh old st =
     (case sighand_new fresh st of
        (None, st1) \<Rightarrow> Some (None, st1)
      | (Some s, st1) \<Rightarrow>
          (case sighands st old of
             None \<Rightarrow> None
           | Some sh \<Rightarrow> Some (Some s, st1\<lparr>sighands := (sighands st1)(s := map_option (\<lambda>n. n\<lparr>sh_action := sh_action sh\<rparr>) (sighands st1 s))\<rparr>)))"

definition sighand_release :: "nat \<Rightarrow> kstate \<Rightarrow> kstate option" where
  "sighand_release s st =
     (case sighands st s of
        None \<Rightarrow> None
      | Some sh \<Rightarrow>
          let n = w32 (sh_refcount sh + (2 ^ 32 - 1))
          in Some (st\<lparr>sighands := (sighands st)(s := (if n = 0 then None else Some (sh\<lparr>sh_refcount := n\<rparr>)))\<rparr>))"

text \<open>A signal number below 0 passes both tests and indexes in front of the array.\<close>

definition do_sigaction :: "nat \<Rightarrow> int \<Rightarrow> sigaction option \<Rightarrow> kstate \<Rightarrow> (int \<times> sigaction option \<times> kstate) option" where
  "do_sigaction cur sig action st =
     (if sig \<ge> int NUM_SIGS then Some (EINVAL, None, st)
      else if sig \<ge> 0 \<and> \<not> signal_is_blockable (nat sig) then Some (EINVAL, None, st)
      else case task_sighand cur st of
        None \<Rightarrow> None
      | Some (s, sh) \<Rightarrow>
          if sig < 0 \<or> nat sig \<ge> length (sh_action sh) then None
          else Some (0, Some (sh_action sh ! nat sig),
                 (case action of
                    None \<Rightarrow> st
                  | Some a \<Rightarrow> st\<lparr>sighands := (sighands st)(s \<mapsto> sh\<lparr>sh_action := (sh_action sh)[nat sig := a]\<rparr>)\<rparr>)))"

text \<open>An argument that points to guest memory: a null address, one that cannot be accessed, or a value.\<close>

datatype 'a user_arg = Null | Fault | Arg 'a

text \<open>The written old value is the second component of the result; \<open>old\<close> is null, a fault or writable.\<close>

definition sys_rt_sigaction ::
  "nat \<Rightarrow> nat \<Rightarrow> sigaction user_arg \<Rightarrow> unit user_arg \<Rightarrow> nat \<Rightarrow> kstate \<Rightarrow> (int \<times> sigaction option \<times> kstate) option" where
  "sys_rt_sigaction cur signum action old sigset_size st =
     (if sigset_size \<noteq> 8 then Some (EINVAL, None, st)
      else if action = Fault then Some (EFAULT, None, st)
      else case do_sigaction cur (s32 (int signum)) (case action of Arg a \<Rightarrow> Some a | _ \<Rightarrow> None) st of
        None \<Rightarrow> None
      | Some (err, o_act, st') \<Rightarrow>
          if err < 0 then Some (err, None, st')
          else (case old of
                  Null \<Rightarrow> Some (err, None, st')
                | Fault \<Rightarrow> Some (EFAULT, None, st')
                | Arg _ \<Rightarrow> Some (err, o_act, st')))"

definition sigmask_set_temp :: "nat \<Rightarrow> u64 \<Rightarrow> kstate \<Rightarrow> kstate" where
  "sigmask_set_temp cur m st =
     sigmask_set cur m (upd_task cur (\<lambda>k. k\<lparr>tk_saved_mask := tk_blocked k, tk_has_saved_mask := True\<rparr>) st)"

definition do_sigprocmask :: "nat \<Rightarrow> nat \<Rightarrow> u64 \<Rightarrow> u64 \<Rightarrow> kstate \<Rightarrow> int \<times> kstate" where
  "do_sigprocmask cur how blocked sset st =
     (if how = 0 then (0, sigmask_set cur (blocked OR sset) st)
      else if how = 1 then (0, sigmask_set cur (blocked AND NOT sset) st)
      else if how = 2 then (0, sigmask_set cur sset st)
      else (EINVAL, st))"

definition sys_rt_sigprocmask ::
  "nat \<Rightarrow> nat \<Rightarrow> u64 user_arg \<Rightarrow> unit user_arg \<Rightarrow> nat \<Rightarrow> kstate \<Rightarrow> (int \<times> u64 option \<times> kstate) option" where
  "sys_rt_sigprocmask cur how sset oldset sz st =
     (case tasks st cur of
        None \<Rightarrow> None
      | Some k \<Rightarrow>
          if sz \<noteq> 8 then Some (EINVAL, None, st)
          else if sset = Fault \<or> oldset = Fault then Some (EFAULT, None, st)
          else let out = (if oldset = Null then None else Some (tk_blocked k))
               in case sset of
                    Arg s \<Rightarrow> (case do_sigprocmask cur how (tk_blocked k) s st of (err, st') \<Rightarrow> Some (err, out, st'))
                  | _ \<Rightarrow> Some (0, out, st))"

text \<open>The third component of the result is set when the lock of the handlers is kept.\<close>

definition sys_sigaltstack ::
  "nat \<Rightarrow> u32 \<Rightarrow> stack_t user_arg \<Rightarrow> unit user_arg \<Rightarrow> kstate \<Rightarrow> (int \<times> stack_t option \<times> bool \<times> kstate) option" where
  "sys_sigaltstack cur sp ss old st =
     (case task_sighand cur st of
        None \<Rightarrow> None
      | Some (s, sh) \<Rightarrow>
          if old = Fault then Some (EFAULT, None, False, st)
          else let out = (if old = Null then None else Some (altstack_to_user sp sh))
               in if ss = Null then Some (0, out, False, st)
                  else if is_on_altstack sp sh then Some (EPERM, out, False, st)
                  else (case ss of
                          Arg a \<Rightarrow>
                            if ss_flags a AND 2 \<noteq> 0
                            then Some (0, out, False, st\<lparr>sighands := (sighands st)(s \<mapsto> sh\<lparr>sh_altstack := 0\<rparr>)\<rparr>)
                            else if ss_size a < 2048 then Some (ENOMEM, out, True, st)
                            else Some (0, out, False, st\<lparr>sighands := (sighands st)(s \<mapsto>
                                   sh\<lparr>sh_altstack := ss_stack a, sh_altstack_size := ss_size a\<rparr>)\<rparr>)
                        | _ \<Rightarrow> Some (EFAULT, out, False, st)))"

subsection \<open>Waiting\<close>

text \<open>
  \<open>host i\<close> is the result of the \<open>i\<close>-th \<^verbatim>\<open>pthread_cond_wait\<close>, 0 or a positive error code of the host,
  which \<^verbatim>\<open>wait_for\<close> passes on.
\<close>

abbreviation wait_for :: "(nat \<Rightarrow> nat) \<Rightarrow> nat \<Rightarrow> int" where
  "wait_for host i \<equiv> int (host i)"

partial_function (option) pause_loop :: "(nat \<Rightarrow> nat) \<Rightarrow> nat \<Rightarrow> int option" where
  "pause_loop host i = (if wait_for host i \<noteq> EINTR then pause_loop host (i + 1) else Some EINTR)"

abbreviation sys_pause :: "(nat \<Rightarrow> nat) \<Rightarrow> int option" where
  "sys_pause host \<equiv> pause_loop host 0"

definition sys_rt_sigsuspend :: "(nat \<Rightarrow> nat) \<Rightarrow> nat \<Rightarrow> u64 user_arg \<Rightarrow> nat \<Rightarrow> kstate \<Rightarrow> (int \<times> kstate) option" where
  "sys_rt_sigsuspend host cur m sz st =
     (if sz \<noteq> 8 then Some (EINVAL, st)
      else case m of
        Arg s \<Rightarrow> map_option (\<lambda>r. (r, sigmask_set_temp cur s st)) (pause_loop host 0)
      | _ \<Rightarrow> Some (EFAULT, st))"

text \<open>
  \<open>waits\<close> has what each \<^verbatim>\<open>wait_for\<close> returns and what other threads did to the state meanwhile; at its
  end the call still waits. The signal is taken from the queue but stays in the set of pending ones.
\<close>

fun timedwait_loop :: "(nat \<times> (kstate \<Rightarrow> kstate)) list \<Rightarrow> kstate \<Rightarrow> (int \<times> kstate) option" where
  "timedwait_loop [] st = None"
| "timedwait_loop ((r, f) # ws) st = (if r = 0 then timedwait_loop ws (f st) else Some (int r, f st))"

fun find_signal :: "u64 \<Rightarrow> siginfo list \<Rightarrow> siginfo option option" where
  "find_signal s [] = Some None"
| "find_signal s (i # is) =
     (case sig_mask (si_sig i) of
        None \<Rightarrow> None
      | Some m \<Rightarrow> if s AND m \<noteq> 0 then Some (Some i) else find_signal s is)"

definition sys_rt_sigtimedwait ::
  "(nat \<times> (kstate \<Rightarrow> kstate)) list \<Rightarrow> nat \<Rightarrow> u64 user_arg \<Rightarrow> unit user_arg \<Rightarrow> unit user_arg \<Rightarrow> nat \<Rightarrow> kstate
     \<Rightarrow> (int \<times> siginfo option \<times> kstate) option" where
  "sys_rt_sigtimedwait waits cur sset info timeout sz st =
     (if sz \<noteq> 8 then Some (EINVAL, None, st)
      else case sset of
        Arg s \<Rightarrow>
          if timeout = Fault then Some (EFAULT, None, st)
          else (case tasks st cur of
            None \<Rightarrow> None
          | Some k0 \<Rightarrow>
              if tk_waiting k0 \<noteq> 0 then None
              else case timedwait_loop waits (upd_task cur (\<lambda>k. k\<lparr>tk_waiting := s\<rparr>) st) of
                None \<Rightarrow> None
              | Some (err, st1) \<Rightarrow>
                  let st2 = upd_task cur (\<lambda>k. k\<lparr>tk_waiting := 0\<rparr>) st1
                  in if err = ETIMEDOUT then Some (EAGAIN, None, st2)
                     else (case tasks st2 cur of
                       None \<Rightarrow> None
                     | Some k \<Rightarrow>
                         case find_signal s (tk_queue k) of
                           None \<Rightarrow> None
                         | Some None \<Rightarrow> Some (EINTR, None, st2)
                         | Some (Some i) \<Rightarrow>
                             let st3 = upd_task cur (\<lambda>k. k\<lparr>tk_queue := remove1 i (tk_queue k)\<rparr>) st2
                             in (case info of
                                   Null \<Rightarrow> Some (int (si_sig i), None, st3)
                                 | Fault \<Rightarrow> Some (EFAULT, None, st3)
                                 | Arg _ \<Rightarrow> Some (int (si_sig i), Some i, st3))))
      | _ \<Rightarrow> Some (EFAULT, None, st))"

subsection \<open>Killing\<close>

definition kill_task :: "nat \<Rightarrow> nat \<Rightarrow> nat \<Rightarrow> kstate \<Rightarrow> (int \<times> kstate) option" where
  "kill_task cur t sig st =
     (case (tasks st cur, tasks st t) of
        (Some c, Some k) \<Rightarrow>
          if tk_euid c \<noteq> 0 \<and> tk_uid c \<noteq> tk_uid k \<and> tk_uid c \<noteq> tk_suid k \<and> tk_euid c \<noteq> tk_uid k \<and> tk_euid c \<noteq> tk_suid k
          then Some (EPERM, st)
          else map_option (Pair 0) (send_signal cur t sig
                 \<lparr>si_sig = 0, si_code = 0, si_data = Si_kill (tk_pid c) (tk_uid c)\<rparr> st)
      | _ \<Rightarrow> None)"

fun kill_leaders :: "nat \<Rightarrow> nat list \<Rightarrow> nat \<Rightarrow> int \<Rightarrow> kstate \<Rightarrow> (int \<times> kstate) option" where
  "kill_leaders cur [] sig err st = Some (err, st)"
| "kill_leaders cur (g # gs) sig err st =
     (case groups st g of
        None \<Rightarrow> None
      | Some k \<Rightarrow>
          (case kill_task cur (tg_leader k) sig st of
             None \<Rightarrow> None
           | Some (kill_err, st') \<Rightarrow> kill_leaders cur gs sig (if err = EPERM then kill_err else err) st'))"

text \<open>The branch without the process group gives back a lock that the caller gives back again.\<close>

definition kill_group :: "nat \<Rightarrow> int \<Rightarrow> nat \<Rightarrow> kstate \<Rightarrow> (int \<times> kstate) option" where
  "kill_group cur pgid sig st =
     (case pid_get (dword pgid) st of
        None \<Rightarrow> None
      | Some None \<Rightarrow> Some (ESRCH, st\<lparr>kevents := kevents st @ [Extra_unlock]\<rparr>)
      | Some (Some i) \<Rightarrow> kill_leaders cur (p_pgroup (pids st i)) sig EPERM st)"

fun kill_range :: "nat \<Rightarrow> nat list \<Rightarrow> nat \<Rightarrow> int \<Rightarrow> kstate \<Rightarrow> (int \<times> kstate) option" where
  "kill_range cur [] sig err st = Some (err, st)"
| "kill_range cur (i # is) sig err st =
     (case pid_get_task i st of
        None \<Rightarrow> None
      | Some None \<Rightarrow> kill_range cur is sig err st
      | Some (Some t) \<Rightarrow>
          if t = cur \<or> \<not> task_is_leader t st then kill_range cur is sig err st
          else (case kill_task cur t sig st of
                  None \<Rightarrow> None
                | Some (kill_err, st') \<Rightarrow> kill_range cur is sig (if err = EPERM then kill_err else err) st'))"

definition kill_everything :: "nat \<Rightarrow> nat \<Rightarrow> kstate \<Rightarrow> (int \<times> kstate) option" where
  "kill_everything cur sig st = kill_range cur [2..<MAX_PID] sig EPERM st"

text \<open>\<open>- pid\<close> is outside the integers for the smallest one.\<close>

definition do_kill :: "nat \<Rightarrow> int \<Rightarrow> nat \<Rightarrow> int \<Rightarrow> kstate \<Rightarrow> (int \<times> kstate) option" where
  "do_kill cur pid0 sig tgid st =
     (if sig \<ge> NUM_SIGS then Some (EINVAL, st)
      else case tasks st cur of
        None \<Rightarrow> None
      | Some c \<Rightarrow>
          (case groups st (tk_group c) of
             None \<Rightarrow> None
           | Some g \<Rightarrow>
               let pid = (if pid0 = 0 then - int (tg_pgid g) else pid0)
               in if pid = - 1 then kill_everything cur sig st
                  else if pid = - (2 ^ 31) then None
                  else if pid < 0 then kill_group cur (- pid) sig st
                  else (case pid_get_task (dword pid) st of
                          None \<Rightarrow> None
                        | Some None \<Rightarrow> Some (ESRCH, st)
                        | Some (Some t) \<Rightarrow>
                            (case tasks st t of
                               None \<Rightarrow> None
                             | Some k \<Rightarrow>
                                 if tgid \<noteq> 0 \<and> int (tk_tgid k) \<noteq> tgid then Some (ESRCH, st)
                                 else kill_task cur t sig st))))"

definition sys_tgkill :: "nat \<Rightarrow> int \<Rightarrow> int \<Rightarrow> nat \<Rightarrow> kstate \<Rightarrow> (int \<times> kstate) option" where
  "sys_tgkill cur tgid tid sig st =
     (if tid \<le> 0 \<or> tgid \<le> 0 then Some (EINVAL, st) else do_kill cur tid sig tgid st)"

section \<open>What sending keeps\<close>

text \<open>
  A signal with the number of \<^verbatim>\<open>SIGCONT\<close> or \<^verbatim>\<open>SIGKILL\<close> wakes the group; every other change of a sending
  call is a delivery. A relation between states that both keep is kept by all of these calls.
\<close>

definition wake_group :: "nat \<Rightarrow> kstate \<Rightarrow> kstate" where
  "wake_group g st = (let st2 = upd_group g (\<lambda>g. g\<lparr>tg_stopped := False\<rparr>) st in st2\<lparr>kevents := kevents st2 @ [Notify_stopped g]\<rparr>)"

lemma send_signal_cases:
  assumes "send_signal cur t s info st = Some st'" "st' \<noteq> st"
  obtains st1 g where "st1 = st \<or> deliver_signal_unlocked cur t s info st = Some st1" "st' = st1 \<or> st' = wake_group g st1"
proof -
  have s: "s \<noteq> 0"
    using assms by (cases "s = 0") (simp_all add: send_signal_def)
  obtain k where k: "tasks st t = Some k" "\<not> (tk_zombie k \<or> tk_exiting k)"
    using assms s by (cases "tasks st t") (auto simp: send_signal_def split: if_splits)
  obtain h sh where sh: "task_sighand t st = Some (h, sh)"
    using assms s k by (cases "task_sighand t st") (auto simp: send_signal_def)
  obtain a where a: "signal_action sh s = Some a"
    using assms s k sh by (cases "signal_action sh s") (auto simp: send_signal_def)
  obtain st1 where st1: "(if a = SIGNAL_IGNORE then Some st else deliver_signal_unlocked cur t s info st) = Some st1"
    using assms s k sh a by (cases "if a = SIGNAL_IGNORE then Some st else deliver_signal_unlocked cur t s info st")
      (auto simp: send_signal_def)
  have "st' = (if s = SIGCONT \<or> s = SIGKILL then wake_group (tk_group k) st1 else st1)"
    using assms s k unfolding send_signal_def sh a
    by (cases "s = SIGCONT \<or> s = SIGKILL") (auto simp: a st1 wake_group_def Let_def)
  then show thesis
    using that [of st1 "tk_group k"] st1 by (cases "a = SIGNAL_IGNORE") auto
qed

lemma do_kill_cases:
  assumes "do_kill cur pid s tgid st = Some (r, st')"
  shows "st' = st \<or> kill_everything cur s st = Some (r, st') \<or> (\<exists>p. kill_group cur p s st = Some (r, st')) \<or>
    (\<exists>t. kill_task cur t s st = Some (r, st'))"
  using assms unfolding do_kill_def Let_def by (auto split: option.splits if_splits)

locale signal_frame =
  fixes R :: "kstate \<Rightarrow> kstate \<Rightarrow> bool"
  assumes refl: "R st st"
    and trans: "R a b \<Longrightarrow> R b c \<Longrightarrow> R a c"
    and deliver: "deliver_signal_unlocked cur t s info st = Some st' \<Longrightarrow> R st st'"
    and wake: "R st (wake_group g st)"
    and events: "R st (st\<lparr>kevents := z\<rparr>)"
begin

lemma send:
  assumes "send_signal cur t s info st = Some st'"
  shows "R st st'"
proof (cases "st' = st")
  case False
  with assms obtain st1 g where st1: "st1 = st \<or> deliver_signal_unlocked cur t s info st = Some st1"
      "st' = st1 \<or> st' = wake_group g st1"
    by (rule send_signal_cases)
  have "R st st1"
    using st1(1) deliver refl by blast
  then show ?thesis
    using st1(2) trans [OF _ wake] by blast
qed (simp add: refl)

lemma send_all: "send_leaders cur gs s info st = Some st' \<Longrightarrow> R st st'"
proof (induction gs arbitrary: st)
  case (Cons g gs)
  then obtain t st1 where "send_signal cur t s info st = Some st1" "send_leaders cur gs s info st1 = Some st'"
    by (auto split: option.splits)
  then show ?case
    using Cons.IH send trans by blast
qed (simp add: refl)

lemma send_group: "send_group_signal cur p s info st = Some (r, st') \<Longrightarrow> R st st'"
  by (auto simp: send_group_signal_def refl split: option.splits intro: send_all)

lemma stop_note:
  assumes "notify_parent_stopped cur st = Some st'"
  shows "R st st'"
proof -
  obtain p s z where "send_signal cur p s SIGINFO_NIL (st\<lparr>kevents := z\<rparr>) = Some st'"
    using assms by (auto simp: notify_parent_stopped_def split: option.splits)
  then show ?thesis
    using send trans events by blast
qed

lemma kill_one: "kill_task cur t s st = Some (r, st') \<Longrightarrow> R st st'"
  by (auto simp: kill_task_def refl split: option.splits if_splits intro: send)

lemma kill_list: "kill_leaders cur gs s e st = Some (r, st') \<Longrightarrow> R st st'"
proof (induction gs arbitrary: e st)
  case (Cons g gs)
  then obtain t e' st1 where "kill_task cur t s st = Some (e', st1)"
      "kill_leaders cur gs s (if e = EPERM then e' else e) st1 = Some (r, st')"
    by (auto split: option.splits)
  then show ?case
    using Cons.IH kill_one trans by blast
qed (simp add: refl)

lemma kill_numbers: "kill_range cur ps s e st = Some (r, st') \<Longrightarrow> R st st'"
proof (induction ps arbitrary: e st)
  case (Cons p ps)
  show ?case
  proof (cases "\<exists>t. pid_get_task p st = Some (Some t) \<and> t \<noteq> cur \<and> task_is_leader t st")
    case True
    then obtain t e' st1 where "kill_task cur t s st = Some (e', st1)"
        "kill_range cur ps s (if e = EPERM then e' else e) st1 = Some (r, st')"
      using Cons.prems(1) by (auto split: option.splits)
    then show ?thesis
      using Cons.IH kill_one trans by blast
  next
    case False
    then show ?thesis
      using Cons by (auto split: option.splits if_splits)
  qed
qed (simp add: refl)

lemma kill_pgroup: "kill_group cur p s st = Some (r, st') \<Longrightarrow> R st st'"
  by (auto simp: kill_group_def events split: option.splits intro: kill_list)

lemma kill:
  assumes "do_kill cur pid s tgid st = Some (r, st')"
  shows "R st st'"
  using do_kill_cases [OF assms] kill_pgroup kill_one kill_numbers [of cur _ s EPERM st r st'] refl
  unfolding kill_everything_def by blast

end

section \<open>Pending signals and the queue\<close>

lemma sig_mask_Some: "sig_mask s = Some m \<Longrightarrow> 1 \<le> s \<and> s < NUM_SIGS \<and> m = push_bit (s - 1) 1"
  by (auto simp: sig_mask_def split: if_splits)

lemma sig_mask_has: "sig_mask s = Some m \<Longrightarrow> w AND m \<noteq> 0 \<longleftrightarrow> Bit_Operations.bit w (s - 1)"
  by (auto dest!: sig_mask_Some simp: bit_iff_and_push_bit_not_eq_0)

lemma sig_mask_bit: "sig_mask s = Some m \<Longrightarrow> Bit_Operations.bit m n \<longleftrightarrow> Suc n = s"
  by (auto dest!: sig_mask_Some simp: bit_exp_iff)

text \<open>A signal is pending exactly when it has an entry in the queue, and it has only one.\<close>

definition sigq_ok :: "task \<Rightarrow> bool" where
  "sigq_ok k \<longleftrightarrow> distinct (map si_sig (tk_queue k)) \<and>
     (\<forall>i \<in> set (tk_queue k). 1 \<le> si_sig i \<and> si_sig i < NUM_SIGS) \<and>
     (\<forall>n. Bit_Operations.bit (tk_pending k) n \<longleftrightarrow> Suc n \<in> si_sig ` set (tk_queue k))"

definition sigqs_ok :: "kstate \<Rightarrow> bool" where
  "sigqs_ok st \<longleftrightarrow> (\<forall>t k. tasks st t = Some k \<longrightarrow> sigq_ok k)"

lemma sigq_ok_push:
  assumes "sigq_ok k" "sig_mask s = Some m" "tk_pending k AND m = 0"
  shows "sigq_ok (k\<lparr>tk_pending := tk_pending k OR m, tk_queue := tk_queue k @ [info\<lparr>si_sig := s\<rparr>]\<rparr>)"
proof -
  have s: "1 \<le> s" "s < NUM_SIGS"
    using sig_mask_Some [OF assms(2)] by auto
  have "\<not> Bit_Operations.bit (tk_pending k) (s - 1)"
    using sig_mask_has [OF assms(2), of "tk_pending k"] assms(3) by simp
  then have new: "s \<notin> si_sig ` set (tk_queue k)"
    using assms(1) s by (auto simp: sigq_ok_def)
  have bits: "Bit_Operations.bit (tk_pending k OR m) n \<longleftrightarrow> Suc n \<in> si_sig ` set (tk_queue k) \<or> Suc n = s" for n
    using assms(1) sig_mask_bit [OF assms(2), of n] by (simp add: bit_or_iff sigq_ok_def)
  show ?thesis
    unfolding sigq_ok_def using assms(1) new s bits by (auto simp: sigq_ok_def)
qed

lemma sigq_ok_pop:
  assumes "sigq_ok k" "i \<in> set (tk_queue k)" "sig_mask (si_sig i) = Some m"
  shows "sigq_ok (k\<lparr>tk_queue := remove1 i (tk_queue k), tk_pending := tk_pending k AND NOT m\<rparr>)"
proof -
  have d: "distinct (map si_sig (tk_queue k))" "distinct (tk_queue k)"
    using assms(1) by (auto simp: sigq_ok_def distinct_map)
  have rest: "set (remove1 i (tk_queue k)) = set (tk_queue k) - {i}"
    using d(2) by simp
  have inj: "inj_on si_sig (set (tk_queue k))"
    using d(1) by (simp add: distinct_map)
  have sigs: "si_sig ` (set (tk_queue k) - {i}) = si_sig ` set (tk_queue k) - {si_sig i}"
    using inj assms(2) by (auto simp: inj_on_def)
  have bits: "Bit_Operations.bit (tk_pending k AND NOT m) n \<longleftrightarrow> Suc n \<in> si_sig ` set (tk_queue k) - {si_sig i}" for n
  proof (cases "n < 64")
    case True
    then show ?thesis
      using assms(1) sig_mask_bit [OF assms(3), of n]
      by (auto simp: bit_and_iff bit_not_iff sigq_ok_def)
  next
    case False
    then have "\<not> Bit_Operations.bit (tk_pending k) n"
      using bit_imp_le_length [of "tk_pending k" n] by auto
    then show ?thesis
      using assms(1) by (auto simp: bit_and_iff sigq_ok_def)
  qed
  have "distinct (map si_sig (remove1 i (tk_queue k)))"
    using d inj by (auto simp: distinct_map inj_on_def)
  then show ?thesis
    unfolding sigq_ok_def using assms(1) bits sigs rest by (auto simp: sigq_ok_def)
qed

lemma sigqs_upd:
  "sigqs_ok st \<Longrightarrow> (\<And>k. tasks st t = Some k \<Longrightarrow> sigq_ok k \<Longrightarrow> sigq_ok (f k)) \<Longrightarrow> sigqs_ok (upd_task t f st)"
  by (auto simp: sigqs_ok_def upd_task_def)

lemma sigqs_cong: "tasks st' = tasks st \<Longrightarrow> sigqs_ok st' \<longleftrightarrow> sigqs_ok st"
  by (simp add: sigqs_ok_def)

lemma deliver_signal_unlocked_ok:
  assumes "deliver_signal_unlocked cur t s info st = Some st'" "sigqs_ok st"
  shows "sigqs_ok st'"
proof -
  from assms(1) obtain k m where k: "tasks st t = Some k" "sig_mask s = Some m"
    by (auto simp: deliver_signal_unlocked_def split: option.splits)
  let ?st1 = "upd_task t (\<lambda>k. k\<lparr>tk_pending := tk_pending k OR m, tk_queue := tk_queue k @ [info\<lparr>si_sig := s\<rparr>]\<rparr>) st"
  show ?thesis
  proof (cases "tk_pending k AND m = 0")
    case True
    then have "sigqs_ok ?st1"
      using k by (intro sigqs_upd assms(2) sigq_ok_push) auto
    moreover have "tasks st' = tasks ?st1"
      using assms(1) k True by (auto simp: deliver_signal_unlocked_def Let_def split: if_splits)
    ultimately show ?thesis
      using sigqs_cong by blast
  next
    case False
    then show ?thesis
      using assms k by (simp add: deliver_signal_unlocked_def)
  qed
qed

lemma sigqs_ok_other [simp]:
  "sigqs_ok (wake_group g st) = sigqs_ok st" "sigqs_ok (st\<lparr>kevents := z\<rparr>) = sigqs_ok st"
  by (simp_all add: sigqs_ok_def wake_group_def Let_def upd_group_def)

interpretation queues: signal_frame "\<lambda>st st'. sigqs_ok st \<longrightarrow> sigqs_ok st'"
  by unfold_locales (use deliver_signal_unlocked_ok in auto)

lemma sigq_ok_fields [simp]:
  "sigq_ok (k\<lparr>tk_blocked := b\<rparr>) = sigq_ok k" "sigq_ok (k\<lparr>tk_waiting := b\<rparr>) = sigq_ok k"
  "sigq_ok (k\<lparr>tk_saved_mask := b, tk_has_saved_mask := c\<rparr>) = sigq_ok k"
  "sigq_ok (k\<lparr>tk_has_saved_mask := c\<rparr>) = sigq_ok k"
  by (simp_all add: sigq_ok_def)

lemma install_frame_tasks:
  assumes "install_frame ps wfl cur s sh k info env = Some env'"
  shows "\<exists>b. tasks (sk env') = tasks (upd_task cur (\<lambda>k. k\<lparr>tk_blocked := b\<rparr>) (sk env))" "sout env' = sout env"
  using assms by (auto simp: install_frame_def Let_def upd_task_def split: option.splits if_splits prod.splits)

lemma receive_signal_tasks:
  assumes "receive_signal ps wfl cur info env = Some env'"
  shows "tasks (sk env') = tasks (sk env) \<or> (\<exists>b. tasks (sk env') = tasks (upd_task cur (\<lambda>k. k\<lparr>tk_blocked := b\<rparr>) (sk env)))"
  using assms
  by (auto simp: receive_signal_def upd_group_def split: option.splits signal_act.splits dest!: install_frame_tasks(1))

lemma receive_signal_ok:
  assumes "receive_signal ps wfl cur info env = Some env'" "sigqs_ok (sk env)" "tasks (sk env) cur = Some k"
  shows "sigqs_ok (sk env') \<and> (\<exists>k'. tasks (sk env') cur = Some k' \<and> tk_queue k' = tk_queue k)"
  using receive_signal_tasks [OF assms(1)] assms(2,3) by (auto simp: sigqs_ok_def upd_task_def split: if_splits)

lemma receive_step_cases:
  assumes "(if t then Some (e\<lparr>sout := d\<rparr>) else case r of None \<Rightarrow> None
    | Some e2 \<Rightarrow> if sout e2 = Running then q e2 else Some e2) = Some env'"
  obtains "env' = e\<lparr>sout := d\<rparr>" | "r = Some env'" | e2 where "r = Some e2" "q e2 = Some env'"
proof (cases t)
  case True
  then show thesis
    using assms that(1) by simp
next
  case False
  then obtain e2 where "r = Some e2" "(if sout e2 = Running then q e2 else Some e2) = Some env'"
    using assms by (cases r) simp_all
  then show thesis
    using that(2,3) by (cases "sout e2 = Running") simp_all
qed

lemma receive_queue_ok:
  assumes "receive_queue ps wfl cur b is env = Some env'" "sigqs_ok (sk env)"
    "tasks (sk env) cur = Some k" "set is \<subseteq> set (tk_queue k)" "distinct is"
  shows "sigqs_ok (sk env')"
  using assms
proof (induction "is" arbitrary: env k)
  case (Cons i "is")
  obtain m where m: "sig_mask (si_sig i) = Some m"
    using Cons.prems(1,3) by (auto split: option.splits)
  show ?case
  proof (cases "b AND m = 0")
    case False
    then show ?thesis
      using Cons.IH [OF _ Cons.prems(2,3)] Cons.prems m by auto
  next
    case True
    let ?f = "\<lambda>k. k\<lparr>tk_queue := remove1 i (tk_queue k), tk_pending := tk_pending k AND NOT m\<rparr>"
    let ?e = "env\<lparr>sk := upd_task cur ?f (sk env)\<rparr>"
    have ok: "sigqs_ok (sk ?e)"
      using Cons.prems m by (auto intro!: sigqs_upd sigq_ok_pop)
    have k: "tasks (sk ?e) cur = Some (?f k)"
      using Cons.prems(3) by (simp add: upd_task_def)
    have sub: "set is \<subseteq> set (tk_queue (?f k))"
    proof
      fix x
      assume "x \<in> set is"
      then have "x \<noteq> i" "x \<in> set (tk_queue k)"
        using Cons.prems(4,5) by auto
      then show "x \<in> set (tk_queue (?f k))"
        by simp
    qed
    have run: "(if tk_traced k \<and> si_sig i \<noteq> SIGKILL then Some (?e\<lparr>sout := Delivery_stop i\<rparr>)
        else case receive_signal ps wfl cur i ?e of None \<Rightarrow> None
          | Some e2 \<Rightarrow> if sout e2 = Running then receive_queue ps wfl cur b is e2 else Some e2) = Some env'"
      using Cons.prems(1) unfolding receive_queue.simps m Cons.prems(3) Let_def by (simp add: True)
    from run show ?thesis
    proof (rule receive_step_cases)
      assume "env' = ?e\<lparr>sout := Delivery_stop i\<rparr>"
      then show ?thesis
        using ok by (simp add: sigqs_ok_def)
    next
      assume "receive_signal ps wfl cur i ?e = Some env'"
      then show ?thesis
        using receive_signal_ok [OF _ ok k] by blast
    next
      fix e2
      assume e2: "receive_signal ps wfl cur i ?e = Some e2" "receive_queue ps wfl cur b is e2 = Some env'"
      then show ?thesis
        using receive_signal_ok [OF e2(1) ok k] Cons.IH [OF e2(2)] sub Cons.prems(5) by auto
    qed
  qed
qed simp

lemma receive_signals_ok:
  assumes "receive_signals ps wfl cur env = Some env'" "sigqs_ok (sk env)"
  shows "sigqs_ok (sk env')"
proof -
  obtain k where k: "tasks (sk env) cur = Some k"
    using assms(1) by (auto simp: receive_signals_def split: option.splits)
  define b where "b = (if tk_has_saved_mask k then tk_blocked k AND tk_saved_mask k else tk_blocked k)"
  define e1 where "e1 = (if tk_has_saved_mask k
    then env\<lparr>sk := upd_task cur (\<lambda>k. k\<lparr>tk_has_saved_mask := False, tk_blocked := tk_saved_mask k\<rparr>) (sk env)\<rparr> else env)"
  obtain e2 where e2: "receive_queue ps wfl cur b (tk_queue k) e1 = Some e2"
      "env' = e2 \<or> (\<exists>st. notify_parent_stopped cur (sk e2) = Some st \<and> env' = e2\<lparr>sk := st\<rparr>)"
    using assms(1) k unfolding receive_signals_def b_def [symmetric] e1_def [symmetric]
    by (auto simp: Let_def b_def [symmetric] e1_def [symmetric] split: option.splits if_splits)
  have "sigqs_ok (sk e1)"
    using assms(2) by (auto simp: e1_def intro!: sigqs_upd)
  moreover obtain k1 where "tasks (sk e1) cur = Some k1" "tk_queue k1 = tk_queue k"
    using k by (cases "tk_has_saved_mask k") (simp_all add: e1_def upd_task_def)
  moreover have "distinct (tk_queue k)"
    using assms(2) k by (auto simp: sigqs_ok_def sigq_ok_def distinct_map)
  ultimately have "sigqs_ok (sk e2)"
    using receive_queue_ok [OF e2(1)] by auto
  then show ?thesis
    using e2(2) queues.stop_note by auto
qed

lemma sigmask_set_ok: "sigqs_ok st \<Longrightarrow> sigqs_ok (sigmask_set cur m st)"
  by (auto simp: sigmask_set_def intro!: sigqs_upd)

section \<open>The place of a frame\<close>

lemma unat_align16: "unat ((w :: u32) AND NOT 0xf) = unat w - unat w mod 16"
proof -
  have m: "(0xf :: u32) = Bit_Operations.mask 4"
    by (simp add: mask_eq_exp_minus_1)
  have "w AND NOT 0xf = push_bit 4 (drop_bit 4 w)"
    unfolding m by (rule bit_word_eqI) (auto simp: bit_simps)
  then have eq: "w AND NOT 0xf = w - take_bit 4 w"
    using bits_ident [of 4 w] by (metis add_diff_cancel)
  have t: "unat (take_bit 4 w) = unat w mod 16"
    unfolding unsigned_take_bit_eq by (simp add: take_bit_eq_mod)
  then have "take_bit 4 w \<le> w"
    by (simp add: word_le_nat_alt)
  then show ?thesis
    unfolding eq t [symmetric] by (rule unat_sub)
qed

lemma align_below:
  fixes p f :: u32
  assumes "unat f + 16 \<le> unat p" "4 \<le> unat f" "s = ((p - f + 4) AND NOT 0xf) - 4"
  shows "(unat s + 4) mod 16 = 0 \<and> unat s + unat f \<le> unat p \<and> unat p \<le> unat s + unat f + 15"
proof -
  have pf: "unat (p - f) = unat p - unat f"
    using assms(1) by (intro unat_sub) (simp add: word_le_nat_alt)
  have lt: "unat p < 2 ^ 32"
    using unsigned_less [of p] by simp
  define n where "n = unat p - unat f + 4"
  have n: "20 \<le> n" "n mod 16 < 16" "n < 2 ^ 32"
    using assms(1,2) lt by (simp_all add: n_def)
  have "unat (p - f + 4) = n"
    using n(3) unfolding n_def by (subst unat_add_lem [THEN iffD1]) (simp_all add: pf)
  then have a: "unat ((p - f + 4) AND NOT 0xf) = n - n mod 16"
    unfolding unat_align16 by simp
  then have s: "unat s = n - n mod 16 - 4"
    unfolding assms(3) using n by (subst unat_sub) (simp_all add: word_le_nat_alt)
  define q where "q = n div 16"
  have q: "n - n mod 16 = 16 * q" "1 \<le> q" "16 * q \<le> n" "n < 16 * q + 16"
    using n(1) by (simp_all add: q_def minus_mod_eq_mult_div)
  then have u: "unat s + 4 = 16 * q"
    using s by simp
  moreover have "unat p = n + unat f - 4"
    using assms(1) n(1) by (simp add: n_def)
  ultimately show ?thesis
    using q n(1) by (intro conjI) (simp, linarith+)
qed

inductive sig_step :: "sigenv \<Rightarrow> sigenv \<Rightarrow> bool" where
  run: "sig_step env (env\<lparr>scpu := c, frames := fs, sout := Running\<rparr>)"
| kill: "do_kill cur pid s tgid (sk env) = Some (r, st') \<Longrightarrow> sig_step env (env\<lparr>sk := st'\<rparr>)"
| group: "send_group_signal cur pgid s info (sk env) = Some (r, st') \<Longrightarrow> sig_step env (env\<lparr>sk := st'\<rparr>)"
| self: "try_self_signal cur s (sk env) = Some (r, st') \<Longrightarrow> sig_step env (env\<lparr>sk := st'\<rparr>)"
| action: "sys_rt_sigaction cur sn a old sz (sk env) = Some (r, out, st') \<Longrightarrow> sig_step env (env\<lparr>sk := st'\<rparr>)"
| procmask: "sys_rt_sigprocmask cur how m old sz (sk env) = Some (r, outm, st') \<Longrightarrow> sig_step env (env\<lparr>sk := st'\<rparr>)"
| receive: "receive_signals ps wfl cur env = Some env' \<Longrightarrow> sig_step env env'"
| return: "sys_sigreturn mem cur env = Some (v, env') \<Longrightarrow> sig_step env env'"
| rt_return: "sys_rt_sigreturn rmem cur env = Some (v, env') \<Longrightarrow> sig_step env env'"

lemma try_self_signal_ok: "try_self_signal cur s st = Some (r, st') \<Longrightarrow> sigqs_ok st \<Longrightarrow> sigqs_ok st'"
  by (auto simp: try_self_signal_def split: option.splits if_splits dest: deliver_signal_unlocked_ok)

lemma do_sigaction_tasks: "do_sigaction cur s a st = Some (r, out, st') \<Longrightarrow> tasks st' = tasks st"
  by (auto simp: do_sigaction_def split: option.splits if_splits)

lemma sys_rt_sigaction_tasks: "sys_rt_sigaction cur s a old sz st = Some (r, out, st') \<Longrightarrow> tasks st' = tasks st"
  by (auto simp: sys_rt_sigaction_def split: option.splits if_splits user_arg.splits dest: do_sigaction_tasks)

lemma sys_rt_sigprocmask_ok: "sys_rt_sigprocmask cur how m old sz st = Some (r, out, st') \<Longrightarrow> sigqs_ok st \<Longrightarrow> sigqs_ok st'"
  by (auto simp: sys_rt_sigprocmask_def do_sigprocmask_def Let_def
      split: option.splits if_splits user_arg.splits prod.splits intro: sigmask_set_ok)

lemma deliver_signal_ok: "deliver_signal cur t s info st = Some st' \<Longrightarrow> sigqs_ok st \<Longrightarrow> sigqs_ok st'"
  by (auto simp: deliver_signal_def split: option.splits dest: deliver_signal_unlocked_ok)

lemma sys_sigreturn_ok: "sys_sigreturn mem cur env = Some (v, env') \<Longrightarrow> sigqs_ok (sk env) \<Longrightarrow> sigqs_ok (sk env')"
  by (auto simp: sys_sigreturn_def Let_def split: option.splits intro: sigmask_set_ok deliver_signal_ok)

lemma sys_rt_sigreturn_ok: "sys_rt_sigreturn mem cur env = Some (v, env') \<Longrightarrow> sigqs_ok (sk env) \<Longrightarrow> sigqs_ok (sk env')"
  by (auto simp: sys_rt_sigreturn_def Let_def sigqs_cong [of "_\<lparr>sighands := _\<rparr>"]
      split: option.splits intro!: sigmask_set_ok intro: deliver_signal_ok)

lemma sig_step_ok: "sig_step env env' \<Longrightarrow> sigqs_ok (sk env) \<Longrightarrow> sigqs_ok (sk env')"
proof (induction rule: sig_step.induct)
  case (action cur sn a old sz env r out st')
  then show ?case
    using sigqs_cong [OF sys_rt_sigaction_tasks [OF action(1)]] by simp
qed (auto dest: queues.kill queues.send_group intro: try_self_signal_ok sys_rt_sigprocmask_ok receive_signals_ok
      sys_sigreturn_ok sys_rt_sigreturn_ok)

lemma sigq_ok_length: "sigq_ok k \<Longrightarrow> length (tk_queue k) \<le> 63"
proof -
  assume "sigq_ok k"
  then have "card (set (map si_sig (tk_queue k))) = length (tk_queue k)" "set (map si_sig (tk_queue k)) \<subseteq> {1..<NUM_SIGS}"
    by (auto simp: sigq_ok_def distinct_card simp del: set_map) (auto simp: sigq_ok_def)
  then show ?thesis
    using card_mono [of "{1..<NUM_SIGS}" "set (map si_sig (tk_queue k))"] by simp
qed

section \<open>Properties\<close>


text \<open>
  The frame of a handler stands on a stack pointer that is 4 below a multiple of 16. On the
  alternate stack, when that is used, it lies inside that stack; otherwise it ends at or below the
  interrupted stack pointer.
\<close>

theorem frame_sp_bounds:
  assumes "f = sigframe_size \<or> f = rt_sigframe_size" "1024 \<le> unat sp"
    "sh_altstack sh \<noteq> 0 \<Longrightarrow> 2048 \<le> unat (sh_altstack_size sh) \<and> unat (sh_altstack sh) + unat (sh_altstack_size sh) < 2 ^ 32"
  shows "(unat (frame_sp 0 0 sh sp f) + 4) mod 16 = 0 \<and>
    (if sh_altstack sh \<noteq> 0 \<and> \<not> is_on_altstack sp sh
     then unat (sh_altstack sh) < unat (frame_sp 0 0 sh sp f) \<and>
       unat (frame_sp 0 0 sh sp f) + unat f \<le> unat (sh_altstack sh) + unat (sh_altstack_size sh)
     else unat (frame_sp 0 0 sh sp f) + unat f \<le> unat sp)"
proof (cases "sh_altstack sh \<noteq> 0 \<and> \<not> is_on_altstack sp sh")
  case True
  let ?p = "sh_altstack sh + sh_altstack_size sh"
  have p: "unat ?p = unat (sh_altstack sh) + unat (sh_altstack_size sh)"
    using assms(3) True by (subst unat_add_lem [THEN iffD1]) simp_all
  have "frame_sp 0 0 sh sp f = ((?p - f + 4) AND NOT 0xf) - 4"
    using True by (simp add: frame_sp_def Let_def)
  from align_below [OF _ _ this] show ?thesis
    using assms(1,3) True p by auto
next
  case False
  then have "frame_sp 0 0 sh sp f = ((sp - f + 4) AND NOT 0xf) - 4"
    unfolding frame_sp_def Let_def by (simp only: if_False) simp
  from align_below [OF _ _ this] show ?thesis
    using assms(1,2) False by auto
qed

theorem frame_sp_bounds_witness:
  "2048 \<le> unat (0x2000 :: u32) \<and> (unat (frame_sp 0 0
      \<lparr>sh_refcount = 1, sh_action = [], sh_altstack = 0x5000, sh_altstack_size = 0x2000\<rparr> 0xbffff000 sigframe_size) + 732 \<le> 0x7000)"
  using frame_sp_bounds [where f = sigframe_size and sp = "0xbffff000"
      and sh = "\<lparr>sh_refcount = 1, sh_action = [], sh_altstack = 0x5000, sh_altstack_size = 0x2000\<rparr>"]
  by (simp add: is_on_altstack_def)

text \<open>
  \<^verbatim>\<open>pause\<close> never returns: it waits for \<^verbatim>\<open>wait_for\<close> to return the guest's code of an interrupted call,
  which is negative, and \<^verbatim>\<open>wait_for\<close> passes on the codes of the host, which are not.
\<close>

theorem sys_pause_never_returns: "sys_pause host = None"
proof -
  have "\<not> (\<exists>r. pause_loop host i = Some r)" for i
  proof
    assume "\<exists>r. pause_loop host i = Some r"
    then obtain r where "pause_loop host i = Some r" ..
    then show False
    proof (rule pause_loop.raw_induct [of "\<lambda>_ _ _. False", rotated])
      fix f :: "(nat \<Rightarrow> nat) \<Rightarrow> nat \<Rightarrow> int option" and host i r
      assume "\<And>host i r. f host i = Some r \<Longrightarrow> False"
        "(if wait_for host i \<noteq> EINTR then f host (i + 1) else Some EINTR) = Some r"
      then show False
        by (auto split: if_splits)
    qed
  qed
  then show ?thesis
    by (meson not_Some_eq)
qed

text \<open>The three processes of the session, with the default action for every signal.\<close>

definition demo_sighand :: sighand where
  "demo_sighand = \<lparr>sh_refcount = 3, sh_action = replicate NUM_SIGS zero_action, sh_altstack = 0, sh_altstack_size = 0\<rparr>"

definition demo_cpu :: cpu where
  "demo_cpu = \<lparr>eax = 1, ecx = 2, edx = 3, ebx = 4, esp = 0xbffff000, ebp = 6, esi = 7, edi = 8, eip = 0x8048000,
     eflags = 0, cf = True, ov = False, res = 0, op1 = 0, op2 = 0, pf_res = False, zf_res = True, sf_res = False,
     af_ops = False, segfault_addr = 0, trapno = 0\<rparr>"

definition demo_env :: sigenv where
  "demo_env = \<lparr>sk = demo_kstate\<lparr>sighands := [0 \<mapsto> demo_sighand]\<rparr>, scpu = demo_cpu, frames = [], sout = Running\<rparr>"

lemma demo_tasks: "tasks (sk demo_env) = [0 \<mapsto> demo_task 0, 1 \<mapsto> demo_task 1, 2 \<mapsto> demo_task 2]"
  by (simp add: demo_env_def demo_kstate_def)

lemma demo_sigqs: "sigqs_ok (sk demo_env)"
  by (auto simp: sigqs_ok_def demo_tasks sigq_ok_def demo_task_def zero_task_def split: if_splits)

lemma demo_kill: "\<exists>st k. do_kill 0 2 15 0 (sk demo_env) = Some (0, st) \<and> tasks st 1 = Some k \<and> map si_sig (tk_queue k) = [15]"
  by (simp add: do_kill_def pid_get_task_def pid_get_task_zombie_def pid_get_def pid_empty_def kill_task_def
      send_signal_def task_sighand_def signal_action_def signal_is_blockable_def default_action_def
      deliver_signal_unlocked_def sig_mask_def demo_env_def demo_sighand_def demo_defs upd_simps Let_def)


lemma flags_restored: "((x :: u32) AND m OR (y AND NOT m)) AND m = x AND m"
  by (rule bit_word_eqI) (auto simp: bit_simps)

lemma mask_halves: "push_bit 32 (ucast (ucast (drop_bit 32 (b :: u64)) :: u32)) OR ucast (ucast b :: u32) = b"
  by (rule bit_word_eqI) (auto simp: bit_simps)

lemma collapse_flags_regs [simp]:
  "eax (collapse_flags c) = eax c" "ebx (collapse_flags c) = ebx c" "ecx (collapse_flags c) = ecx c"
  "edx (collapse_flags c) = edx c" "esi (collapse_flags c) = esi c" "edi (collapse_flags c) = edi c"
  "ebp (collapse_flags c) = ebp c" "esp (collapse_flags c) = esp c" "eip (collapse_flags c) = eip c"
  "cf (collapse_flags c) = cf c" "ov (collapse_flags c) = ov c"
  by (simp_all add: collapse_flags_def Let_def)

text \<open>The registers a context saves.\<close>

definition same_regs :: "cpu \<Rightarrow> cpu \<Rightarrow> bool" where
  "same_regs c c' \<longleftrightarrow> eax c = eax c' \<and> ebx c = ebx c' \<and> ecx c = ecx c' \<and> edx c = edx c' \<and> esi c = esi c' \<and>
     edi c = edi c' \<and> ebp c = ebp c' \<and> esp c = esp c' \<and> eip c = eip c'"

lemma restore_sigcontext_setup:
  assumes "x = fst (setup_sigcontext c b)"
  shows "same_regs (restore_sigcontext x c') c"
    and "eflags (restore_sigcontext x c') AND USE_FLAGS = eflags (collapse_flags c) AND USE_FLAGS"
    and "cf (restore_sigcontext x c') = cf c'" "ov (restore_sigcontext x c') = ov c'"
proof -
  show "same_regs (restore_sigcontext x c') c"
    unfolding assms by (simp add: same_regs_def restore_sigcontext_def setup_sigcontext_def Let_def)
  have "eflags (restore_sigcontext x c') = (eflags (collapse_flags c) AND USE_FLAGS) OR
      (eflags (collapse_flags (c'\<lparr>eax := sc_ax x, ebx := sc_bx x, ecx := sc_cx x, edx := sc_dx x, edi := sc_di x,
                 esi := sc_si x, ebp := sc_bp x, esp := sc_sp x, eip := sc_ip x\<rparr>)) AND NOT USE_FLAGS)"
    unfolding assms by (simp add: restore_sigcontext_def setup_sigcontext_def Let_def)
  then show "eflags (restore_sigcontext x c') AND USE_FLAGS = eflags (collapse_flags c) AND USE_FLAGS"
    by (simp only: flags_restored)
  show "cf (restore_sigcontext x c') = cf c'" "ov (restore_sigcontext x c') = ov c'"
    by (simp_all add: restore_sigcontext_def Let_def)
qed

lemma install_frame_plain:
  assumes "install_frame ps wfl cur s sh k info env = Some env1" "sa_flags (sh_action sh ! si_sig info) AND 4 = 0"
  shows "\<exists>f. frames env1 = (esp (scpu env1), Sigframe f) # frames env \<and>
    sf_sc f = fst (setup_sigcontext (scpu env) (tk_blocked k)) \<and> sf_extramask f = ucast (drop_bit 32 (tk_blocked k))"
  using assms
  by (auto simp: install_frame_def setup_sigframe_def Let_def split: option.splits if_splits prod.splits)

lemma install_frame_state:
  assumes "install_frame ps wfl cur s sh k info env = Some env1" "tasks (sk env) cur = Some k"
  shows "\<exists>b. tasks (sk env1) cur = Some (k\<lparr>tk_blocked := b OR sa_mask (sh_action sh ! si_sig info)\<rparr>)"
    and "groups (sk env1) = groups (sk env)" and "\<exists>sh1. sighands (sk env1) s = Some sh1" and "sout env1 = sout env"
proof -
  obtain m where m: "sig_mask (si_sig info) = Some m"
    using assms(1) by (auto simp: install_frame_def split: option.splits)
  show "\<exists>b. tasks (sk env1) cur = Some (k\<lparr>tk_blocked := b OR sa_mask (sh_action sh ! si_sig info)\<rparr>)"
    using assms m
    by (intro exI [of _ "if sa_flags (sh_action sh ! si_sig info) AND 0x40000000 = 0 then tk_blocked k OR m else tk_blocked k"])
      (auto simp: install_frame_def Let_def upd_task_def split: if_splits prod.splits)
  show "groups (sk env1) = groups (sk env)" "\<exists>sh1. sighands (sk env1) s = Some sh1" "sout env1 = sout env"
    using assms m by (auto simp: install_frame_def Let_def upd_task_def split: if_splits prod.splits)
qed


text \<open>
  A handler can run with \<^verbatim>\<open>SIGKILL\<close> blocked. When the mask of the action has that signal and the
  handler is entered, a later \<^verbatim>\<open>SIGKILL\<close> for the task goes into its queue and \<^verbatim>\<open>receive_signals\<close> leaves it
  there: nothing happens to the task.
\<close>

theorem sigkill_blocked_in_handler:
  assumes "task_sighand cur (sk env) = Some (s, sh)" "tasks (sk env) cur = Some k" "groups (sk env) (tk_group k) = Some g"
    "signal_action sh (si_sig info) = Some SIGNAL_CALL_HANDLER" "Bit_Operations.bit (sa_mask (sh_action sh ! si_sig info)) 8"
    "receive_signal ps wfl cur info env = Some env1" "sout env = Running" "tk_queue k = []" "tk_pending k = 0"
    "\<not> tk_has_saved_mask k" "\<not> tk_zombie k" "\<not> tk_exiting k"
  shows "\<exists>st k'. send_signal other cur SIGKILL info2 (sk env1) = Some st \<and> tasks st cur = Some k' \<and>
    tk_queue k' = [info2\<lparr>si_sig := SIGKILL\<rparr>] \<and>
    receive_signals ps wfl cur (env1\<lparr>sk := st\<rparr>) = Some (env1\<lparr>sk := st\<rparr>)"
proof -
  have inst: "install_frame ps wfl cur s sh k info env = Some env1"
    using assms(1,2,4,6) by (simp add: receive_signal_def)
  obtain b sh1 where env1: "Bit_Operations.bit b 8" "tasks (sk env1) cur = Some (k\<lparr>tk_blocked := b\<rparr>)"
      "groups (sk env1) = groups (sk env)" "sighands (sk env1) s = Some sh1" "sout env1 = Running"
    using install_frame_state [OF inst assms(2)] assms(5,7) that by (metis bit_or_iff)
  have hand: "tk_sighand k = Some s"
    using assms(1,2) by (auto simp: task_sighand_def split: option.splits)
  define k' where "k' = k\<lparr>tk_blocked := b, tk_pending := 256, tk_queue := [info2\<lparr>si_sig := SIGKILL\<rparr>]\<rparr>"
  have "\<exists>st. send_signal other cur SIGKILL info2 (sk env1) = Some st \<and> tasks st cur = Some k' \<and>
      groups st (tk_group k) = Some (g\<lparr>tg_stopped := False\<rparr>) \<and> sighands st s = Some sh1"
    using env1 assms(3,8-12) hand
    by (simp add: send_signal_def task_sighand_def signal_action_def signal_is_blockable_def default_action_def
        deliver_signal_unlocked_def sig_mask_def upd_simps Let_def k'_def)
  then obtain st where st: "send_signal other cur SIGKILL info2 (sk env1) = Some st" "tasks st cur = Some k'"
      "groups st (tk_group k) = Some (g\<lparr>tg_stopped := False\<rparr>)" "sighands st s = Some sh1"
    by (elim exE conjE)
  have blocked: "b AND 256 \<noteq> 0"
    using env1(1) sig_mask_has [of SIGKILL 256 b] by (simp add: sig_mask_def)
  have "receive_queue ps wfl cur b (tk_queue k') (env1\<lparr>sk := st\<rparr>) = Some (env1\<lparr>sk := st\<rparr>)"
    using st(2) blocked by (simp add: k'_def sig_mask_def)
  moreover have "tk_blocked k' = b" "\<not> tk_has_saved_mask k'" "tk_sighand k' = Some s" "tk_group k' = tk_group k"
    using assms(10) hand by (simp_all add: k'_def)
  ultimately have "receive_signals ps wfl cur (env1\<lparr>sk := st\<rparr>) = Some (env1\<lparr>sk := st\<rparr>)"
    using st env1(5) by (simp add: receive_signals_def task_sighand_def Let_def)
  then show ?thesis
    using st(1,2) by (intro exI [of _ st] exI [of _ k']) (simp add: k'_def)
qed

text \<open>The second process has a handler for signal 10, whose mask has \<^verbatim>\<open>SIGKILL\<close>.\<close>

definition handler_sighand :: sighand where
  "handler_sighand = demo_sighand\<lparr>sh_action := (replicate NUM_SIGS zero_action)
     [10 := \<lparr>sa_handler = 0x8050000, sa_flags = 0, sa_restorer = 0, sa_mask = 256\<rparr>]\<rparr>"

definition handler_env :: sigenv where
  "handler_env = demo_env\<lparr>sk := demo_kstate\<lparr>sighands := [0 \<mapsto> handler_sighand]\<rparr>\<rparr>"

abbreviation no_params :: sigparams where
  "no_params \<equiv> \<lparr>sp_tramp = 0xf7ff0400, sp_rt_tramp = 0xf7ff0410, sp_xsave = 0, sp_fxsave = 0\<rparr>"

abbreviation usr1 :: siginfo where "usr1 \<equiv> SIGINFO_NIL\<lparr>si_sig := 10\<rparr>"

lemma handler_env_facts:
  "task_sighand 1 (sk handler_env) = Some (0, handler_sighand)" "tasks (sk handler_env) 1 = Some (demo_task 1)"
  "groups (sk handler_env) (tk_group (demo_task 1)) = Some (demo_group 1 1)"
  "signal_action handler_sighand 10 = Some SIGNAL_CALL_HANDLER" "sout handler_env = Running"
  "sh_action handler_sighand ! 10 = \<lparr>sa_handler = 0x8050000, sa_flags = 0, sa_restorer = 0, sa_mask = 256\<rparr>"
  by (simp_all add: handler_env_def task_sighand_def demo_kstate_def demo_task_def signal_action_def
      handler_sighand_def demo_sighand_def signal_is_blockable_def demo_env_def)

lemma install_frame_defined:
  assumes "sig_mask (si_sig info) = Some m" "sa_flags (sh_action sh ! si_sig info) AND 4 = 0"
  shows "\<exists>env1. install_frame ps {} cur s sh k info env = Some env1"
  using assms by (simp add: install_frame_def Let_def split: prod.splits)

lemma handler_env_receive:
  "\<exists>env1 sp f k1. receive_signal no_params {} 1 usr1 handler_env = Some env1 \<and> frames env1 = [(sp, Sigframe f)] \<and>
     task_sighand 1 (sk env1) \<noteq> None \<and> tasks (sk env1) 1 = Some k1"
proof -
  have run: "receive_signal no_params {} 1 usr1 handler_env =
      install_frame no_params {} 1 0 handler_sighand (demo_task 1) usr1 handler_env"
    unfolding receive_signal_def handler_env_facts by (simp add: handler_env_facts(4))
  have flags: "sa_flags (sh_action handler_sighand ! si_sig usr1) AND 4 = 0"
    by (simp add: handler_env_facts(6))
  have mask: "sig_mask (si_sig usr1) = Some (push_bit 9 1)"
    by (simp add: sig_mask_def)
  obtain env1 where e: "install_frame no_params {} 1 0 handler_sighand (demo_task 1) usr1 handler_env = Some env1"
    using install_frame_defined [OF mask flags] by blast
  note st = install_frame_state [OF e handler_env_facts(2)]
  obtain f where f: "frames env1 = (esp (scpu env1), Sigframe f) # frames handler_env"
    using install_frame_plain [OF e flags] by blast
  obtain k1 where k1: "tasks (sk env1) 1 = Some k1" "tk_sighand k1 = Some 0"
    using st(1) by (auto simp: demo_task_def)
  have "task_sighand 1 (sk env1) \<noteq> None"
    using k1 st(3) by (auto simp: task_sighand_def)
  moreover have "frames handler_env = []"
    by (simp add: handler_env_def demo_env_def)
  ultimately show ?thesis
    using run e f k1(1) by (intro exI [of _ env1] exI [of _ "esp (scpu env1)"] exI [of _ f] exI [of _ k1]) simp
qed


theorem sigkill_blocked_in_handler_witness:
  "\<exists>env1 st k'. receive_signal no_params {} 1 usr1 handler_env = Some env1 \<and>
    send_signal 0 1 SIGKILL SIGINFO_NIL (sk env1) = Some st \<and> tasks st 1 = Some k' \<and> length (tk_queue k') = 1 \<and>
    receive_signals no_params {} 1 (env1\<lparr>sk := st\<rparr>) = Some (env1\<lparr>sk := st\<rparr>)"
proof -
  obtain env1 where e: "receive_signal no_params {} 1 usr1 handler_env = Some env1"
    using handler_env_receive by (elim exE conjE) (rule that)
  have "Bit_Operations.bit (256 :: u64) 8"
    using bit_exp_iff [of 8 8, where ?'a = u64] by simp
  then show ?thesis
    using sigkill_blocked_in_handler [of 1 handler_env 0 handler_sighand "demo_task 1" "demo_group 1 1" usr1 no_params "{}" env1 0 SIGINFO_NIL]
      e handler_env_facts by (force simp: demo_task_def zero_task_def)
qed

lemma find_signal_in: "find_signal m q = Some (Some i) \<Longrightarrow> i \<in> set q"
  by (induction q) (auto split: option.splits if_splits)

text \<open>
  A signal that \<^verbatim>\<open>sigtimedwait\<close> returns is lost from then on: it leaves the queue but stays pending,
  and a pending signal is not queued again.
\<close>

theorem sigtimedwait_loses_signal:
  assumes "sys_rt_sigtimedwait [(1, f)] cur (Arg m) Null Null 8 st = Some (int s, None, st')" "s \<noteq> 0" "sigqs_ok (f (upd_task cur (\<lambda>k. k\<lparr>tk_waiting := m\<rparr>) st))"
  shows "\<exists>k. tasks st' cur = Some k \<and> s \<notin> si_sig ` set (tk_queue k) \<and> Bit_Operations.bit (tk_pending k) (s - 1) \<and>
    deliver_signal_unlocked other cur s info st' = Some st'"
proof -
  let ?st1 = "f (upd_task cur (\<lambda>k. k\<lparr>tk_waiting := m\<rparr>) st)"
  let ?st2 = "upd_task cur (\<lambda>k. k\<lparr>tk_waiting := 0\<rparr>) ?st1"
  obtain k where k: "tasks ?st2 cur = Some k"
    using assms(1,2) by (auto simp: sys_rt_sigtimedwait_def Let_def split: option.splits if_splits)
  have "find_signal m (tk_queue k) \<noteq> None" "find_signal m (tk_queue k) \<noteq> Some None"
    using assms(1,2) k by (auto simp: sys_rt_sigtimedwait_def Let_def split: option.splits if_splits)
  then obtain i where i: "find_signal m (tk_queue k) = Some (Some i)"
    by (cases "find_signal m (tk_queue k)") auto
  have st': "s = si_sig i" "st' = upd_task cur (\<lambda>k. k\<lparr>tk_queue := remove1 i (tk_queue k)\<rparr>) ?st2"
    using assms(1) k i by (auto simp: sys_rt_sigtimedwait_def Let_def split: option.splits if_splits)
  have ok: "sigq_ok k"
    using k assms(3) by (auto simp: sigqs_ok_def upd_task_def)
  have mem: "i \<in> set (tk_queue k)"
    by (rule find_signal_in [OF i])
  have sig: "1 \<le> s" "s < NUM_SIGS" "Bit_Operations.bit (tk_pending k) (s - 1)"
    using ok mem st'(1) by (auto simp: sigq_ok_def)
  have "distinct (map si_sig (tk_queue k))"
    using ok by (simp add: sigq_ok_def)
  then have gone: "s \<notin> si_sig ` set (remove1 i (tk_queue k))"
    using mem st'(1) by (auto simp: distinct_map inj_on_def)
  have k': "tasks st' cur = Some (k\<lparr>tk_queue := remove1 i (tk_queue k)\<rparr>)"
    unfolding st'(2) by (rule upd_task_Some [OF k])
  obtain w where w: "sig_mask s = Some w"
    using sig(1,2) by (simp add: sig_mask_def)
  have "deliver_signal_unlocked other cur s info st' = Some st'"
    using k' w sig_mask_has [OF w, of "tk_pending k"] sig(3) by (simp add: deliver_signal_unlocked_def)
  then show ?thesis
    using k' gone sig(3) by simp
qed

theorem sigtimedwait_loses_signal_witness:
  "\<exists>st st' k. sys_rt_sigtimedwait [(1, \<lambda>s. s)] 1 (Arg 512) Null Null 8 st = Some (10, None, st') \<and>
    tasks st' 1 = Some k \<and> tk_queue k = [] \<and> deliver_signal_unlocked 0 1 10 SIGINFO_NIL st' = Some st'"
proof -
  define st where "st = demo_kstate\<lparr>tasks := [1 \<mapsto> (demo_task 1)\<lparr>tk_blocked := 512, tk_pending := 512, tk_queue := [usr1]\<rparr>]\<rparr>"
  have "\<exists>st' k. sys_rt_sigtimedwait [(1, \<lambda>s. s)] 1 (Arg 512) Null Null 8 st = Some (10, None, st') \<and>
      tasks st' 1 = Some k \<and> tk_queue k = []"
    by (simp add: st_def sys_rt_sigtimedwait_def upd_task_def sig_mask_def demo_task_def zero_task_def Let_def)
  then obtain st' k where run: "sys_rt_sigtimedwait [(1, \<lambda>s. s)] 1 (Arg 512) Null Null 8 st = Some (10, None, st')"
      "tasks st' 1 = Some k" "tk_queue k = []"
    by (elim exE conjE)
  have "Bit_Operations.bit (512 :: u64) n \<longleftrightarrow> n = 9" for n
    using bit_exp_iff [of 9 n, where ?'a = u64] by auto
  then have "sigqs_ok (upd_task 1 (\<lambda>k. k\<lparr>tk_waiting := 512\<rparr>) st)"
    by (auto simp: st_def sigqs_ok_def sigq_ok_def upd_task_def split: if_splits)
  then show ?thesis
    using sigtimedwait_loses_signal [of "\<lambda>s. s" 1 512 st 10 st' 0 SIGINFO_NIL] run by auto
qed

end
