(* ===== verification/Lifecycle.thy ===== *)
theory Lifecycle
  imports Signal
begin

text \<open>
  The life of a process on the state of \<open>Task\<close>: \<^verbatim>\<open>clone\<close> of \<^verbatim>\<open>kernel/fork.c\<close>, exit and wait of
  \<^verbatim>\<open>kernel/exit.c\<close>. The copies and releases of address space, files and working directory that
  \<^verbatim>\<open>clone\<close> and exit make are calls into other parts; their results are arguments. Resource usage and
  the hand-over of \<^verbatim>\<open>vfork\<close> are left out. \<^const>\<open>None\<close> as a result is a null pointer, a use of a freed
  object, a failed assertion or a call that does not return.
\<close>

section \<open>Definitions\<close>

subsection \<open>Clone\<close>

abbreviation (input) CLONE_FS :: u32 where "CLONE_FS \<equiv> 0x200"
abbreviation (input) CLONE_FILES :: u32 where "CLONE_FILES \<equiv> 0x400"
abbreviation (input) CLONE_VM :: u32 where "CLONE_VM \<equiv> 0x100"
abbreviation (input) CLONE_SIGHAND :: u32 where "CLONE_SIGHAND \<equiv> 0x800"
abbreviation (input) CLONE_THREAD :: u32 where "CLONE_THREAD \<equiv> 0x10000"
abbreviation (input) CLONE_SETTLS :: u32 where "CLONE_SETTLS \<equiv> 0x80000"
abbreviation (input) CLONE_PARENT_SETTID :: u32 where "CLONE_PARENT_SETTID \<equiv> 0x100000"
abbreviation (input) CLONE_CHILD_CLEARTID :: u32 where "CLONE_CHILD_CLEARTID \<equiv> 0x200000"
abbreviation (input) CLONE_CHILD_SETTID :: u32 where "CLONE_CHILD_SETTID \<equiv> 0x1000000"

text \<open>\<^verbatim>\<open>IMPLEMENTED_FLAGS\<close> together with \<^verbatim>\<open>CSIGNAL_\<close>.\<close>

abbreviation (input) CLONE_KNOWN :: u32 where "CLONE_KNOWN \<equiv> 0x17d4fff"

text \<open>
  The results \<^verbatim>\<open>clone\<close> gets: memory for task, handlers and group, the error of copying the files and
  whether copying the working directory fails, the result of \<^verbatim>\<open>task_set_thread_area\<close>, and whether the
  two copies of the number to guest memory fail.
\<close>

record clone_env =
  ce_task :: "nat option"
  ce_sighand :: "nat option"
  ce_group :: "nat option"
  ce_files :: int
  ce_fs_fails :: bool
  ce_tls :: int
  ce_child_fails :: bool
  ce_parent_fails :: bool

definition clone_group :: "nat option \<Rightarrow> bool \<Rightarrow> nat \<Rightarrow> kstate \<Rightarrow> kstate option" where
  "clone_group fresh thread t st =
     (case tasks st t of
        None \<Rightarrow> None
      | Some k \<Rightarrow>
          if thread then Some (upd_group (tk_group k) (\<lambda>g. g\<lparr>tg_threads := t # tg_threads g\<rparr>) st)
          else (case (fresh, tgroup_copy fresh (tk_group k) st) of
                  (Some g, Some st1) \<Rightarrow>
                    Some (upd_task t (\<lambda>k. k\<lparr>tk_group := g, tk_tgid := tk_pid k\<rparr>)
                      (upd_group g (\<lambda>g. g\<lparr>tg_leader := t, tg_threads := t # tg_threads g\<rparr>) st1))
                | _ \<Rightarrow> None))"

definition copy_task :: "clone_env \<Rightarrow> u32 \<Rightarrow> nat \<Rightarrow> nat \<Rightarrow> kstate \<Rightarrow> (int \<times> kstate) option" where
  "copy_task ce flags ctid t st =
     (case tasks st t of
        None \<Rightarrow> None
      | Some k \<Rightarrow>
          if \<not> has_flag flags CLONE_FILES \<and> ce_files ce < 0 then Some (ce_files ce, st)
          else if \<not> has_flag flags CLONE_FS \<and> ce_fs_fails ce then Some (ENOMEM, st)
          else
            (case tk_sighand k of
               None \<Rightarrow> None
             | Some s \<Rightarrow>
                 (case (if has_flag flags CLONE_SIGHAND
                        then map_option (\<lambda>h. (Some s, st\<lparr>sighands := (sighands st)(s \<mapsto> h\<lparr>sh_refcount := w32 (sh_refcount h + 1)\<rparr>)\<rparr>)) (sighands st s)
                        else sighand_copy (ce_sighand ce) s st) of
                    None \<Rightarrow> None
                  | Some (None, st1) \<Rightarrow> Some (ENOMEM, upd_task t (\<lambda>k. k\<lparr>tk_sighand := None\<rparr>) st1)
                  | Some (Some s', st1) \<Rightarrow>
                      (case clone_group (ce_group ce) (has_flag flags CLONE_THREAD) t
                              (upd_task t (\<lambda>k. k\<lparr>tk_sighand := Some s'\<rparr>) st1) of
                         None \<Rightarrow> None
                       | Some st2 \<Rightarrow>
                           if has_flag flags CLONE_SETTLS \<and> ce_tls ce < 0
                           then map_option (Pair (ce_tls ce)) (sighand_release s' st2)
                           else if has_flag flags CLONE_CHILD_SETTID \<and> ce_child_fails ce \<or>
                                   has_flag flags CLONE_PARENT_SETTID \<and> ce_parent_fails ce
                           then map_option (Pair EFAULT) (sighand_release s' st2)
                           else Some (0, upd_task t (\<lambda>k. k\<lparr>tk_clear_tid := (if has_flag flags CLONE_CHILD_CLEARTID then ctid else tk_clear_tid k),
                                                           tk_exit_signal := unat (flags AND 0xff)\<rparr>) st2)))))"

definition sys_clone :: "clone_env \<Rightarrow> nat \<Rightarrow> u32 \<Rightarrow> nat \<Rightarrow> kstate \<Rightarrow> (int \<times> kstate) option" where
  "sys_clone ce cur flags ctid st =
     (if flags AND NOT CLONE_KNOWN \<noteq> 0 then Some (EINVAL, st)
      else if has_flag flags CLONE_SIGHAND \<and> \<not> has_flag flags CLONE_VM then Some (EINVAL, st)
      else if has_flag flags CLONE_THREAD \<and> \<not> has_flag flags CLONE_SIGHAND then Some (EINVAL, st)
      else case task_create (ce_task ce) (Some cur) st of
        None \<Rightarrow> None
      | Some (None, st1) \<Rightarrow> Some (ENOMEM, st1)
      | Some (Some t, st1) \<Rightarrow>
          (case copy_task ce flags ctid t st1 of
             None \<Rightarrow> None
           | Some (err, st2) \<Rightarrow>
               if err < 0 then map_option (Pair err) (task_destroy t st2)
               else (case (tasks st2 t, tasks st2 cur) of
                       (Some k, Some c) \<Rightarrow>
                         map_option (Pair (int (tk_pid k)))
                           (if tk_traced c then send_signal cur cur 5 SIGINFO_NIL st2 else Some st2)
                     | _ \<Rightarrow> None)))"

text \<open>A process outside of the ones that run, with handlers of its own; \<open>fs\<close> is the memory of these.\<close>

definition construct_task :: "nat option \<Rightarrow> nat option \<Rightarrow> nat option \<Rightarrow> nat option \<Rightarrow> kstate \<Rightarrow> kstate option" where
  "construct_task ft fg fs parent st =
     (case (ft, construct_session ft fg parent st) of
        (Some t, Some (_, st1)) \<Rightarrow>
          (case sighand_new fs st1 of (s, st2) \<Rightarrow> Some (upd_task t (\<lambda>k. k\<lparr>tk_sighand := s\<rparr>) st2))
      | _ \<Rightarrow> None)"

subsection \<open>Exit\<close>

definition exit_tgroup :: "nat \<Rightarrow> nat \<Rightarrow> kstate \<Rightarrow> (bool \<times> kstate) option" where
  "exit_tgroup t g st =
     (case groups st g of
        None \<Rightarrow> None
      | Some k \<Rightarrow>
          Some (remove1 t (tg_threads k) = [], upd_group g (\<lambda>k. k\<lparr>tg_threads := remove1 t (tg_threads k)\<rparr>) st))"

fun first_not_exiting :: "nat list \<Rightarrow> kstate \<Rightarrow> nat option option" where
  "first_not_exiting [] st = Some None"
| "first_not_exiting (t # ts) st =
     (case tasks st t of
        None \<Rightarrow> None
      | Some k \<Rightarrow> if tk_exiting k then first_not_exiting ts st else Some (Some t))"

definition find_new_parent :: "nat \<Rightarrow> kstate \<Rightarrow> nat option option" where
  "find_new_parent g st =
     (case groups st g of
        None \<Rightarrow> None
      | Some k \<Rightarrow>
          (case first_not_exiting (tg_threads k) st of
             Some None \<Rightarrow> pid_get_task 1 st
           | r \<Rightarrow> r))"

definition reparent :: "nat \<Rightarrow> nat \<Rightarrow> nat \<Rightarrow> kstate \<Rightarrow> kstate" where
  "reparent old new c st =
     upd_task new (\<lambda>k. k\<lparr>tk_children := c # tk_children k\<rparr>)
       (upd_task old (\<lambda>k. k\<lparr>tk_children := remove1 c (tk_children k)\<rparr>)
         (upd_task c (\<lambda>k. k\<lparr>tk_parent := Some new\<rparr>) st))"

text \<open>
  From the point where the status is stored on. The first component of the result is set when the
  first process exits and \<^verbatim>\<open>halt_system\<close> is called.
\<close>

definition do_exit :: "nat \<Rightarrow> nat \<Rightarrow> kstate \<Rightarrow> (bool \<times> kstate) option" where
  "do_exit cur status st =
     (case tasks st cur of
        None \<Rightarrow> None
      | Some k \<Rightarrow>
          (case tk_sighand k of
             None \<Rightarrow> None
           | Some s \<Rightarrow>
               (case (sighand_release s st, groups st (tk_group k)) of
                  (Some st0, Some g) \<Rightarrow>
                    let st1 = upd_task cur (\<lambda>k. k\<lparr>tk_exit_code := status, tk_exiting := True, tk_sighand := None, tk_queue := []\<rparr>) st0
                    in (case find_new_parent (tk_group k) st1 of
                          None \<Rightarrow> None
                        | Some np \<Rightarrow>
                            if np = None \<and> tk_children k \<noteq> [] then None
                            else
                              let st2 = (case np of None \<Rightarrow> st1 | Some p \<Rightarrow> fold (reparent cur p) (tk_children k) st1)
                              in (case exit_tgroup cur (tk_group k) st2 of
                                    None \<Rightarrow> None
                                  | Some (dead, st3) \<Rightarrow>
                                      (case tasks st3 (tg_leader g) of
                                         None \<Rightarrow> None
                                       | Some l \<Rightarrow>
                                           (case (if \<not> dead then Some (False, st3)
                                                  else case tk_parent l of
                                                    None \<Rightarrow> Some (True, st3)
                                                  | Some p \<Rightarrow>
                                                      (case tasks st3 p of
                                                         None \<Rightarrow> None
                                                       | Some pk \<Rightarrow>
                                                           let st4 = upd_task (tg_leader g) (\<lambda>l. l\<lparr>tk_zombie := True\<rparr>)
                                                                 (st3\<lparr>kevents := kevents st3 @ [Notify_child (tk_group pk)]\<rparr>)
                                                           in if tk_exit_signal l = 0 then Some (False, st4)
                                                              else map_option (Pair False) (send_signal cur p (tk_exit_signal l)
                                                                \<lparr>si_sig = 0, si_code = 128, si_data = Si_child (tk_pid k) (tk_uid k) status\<rparr> st4))) of
                                              None \<Rightarrow> None
                                            | Some (halt, st5) \<Rightarrow>
                                                if cur \<noteq> tg_leader g then map_option (Pair halt) (task_destroy cur st5)
                                                else Some (halt, st5)))))
                | _ \<Rightarrow> None)))"

subsection \<open>Wait\<close>

abbreviation (input) WNOHANG :: u32 where "WNOHANG \<equiv> 1"
abbreviation (input) WUNTRACED :: u32 where "WUNTRACED \<equiv> 2"
abbreviation (input) WEXITED :: u32 where "WEXITED \<equiv> 4"
abbreviation (input) WNOWAIT :: u32 where "WNOWAIT \<equiv> 0x1000000"

text \<open>The fields of \<^verbatim>\<open>struct siginfo_\<close> that a wait fills in.\<close>

record winfo =
  wi_sig :: nat
  wi_pid :: nat
  wi_status :: nat

definition reap_if_zombie :: "nat \<Rightarrow> u32 \<Rightarrow> winfo \<Rightarrow> kstate \<Rightarrow> (winfo option \<times> kstate) option" where
  "reap_if_zombie t opts info st =
     (case tasks st t of
        None \<Rightarrow> None
      | Some k \<Rightarrow>
          if \<not> tk_zombie k then Some (None, st)
          else (case groups st (tk_group k) of
             None \<Rightarrow> None
           | Some g \<Rightarrow>
               let out = Some (info\<lparr>wi_status := (if tg_doing_group_exit g then tg_group_exit_code g else tk_exit_code k)\<rparr>)
               in if has_flag opts WNOWAIT then Some (out, st)
                  else (case task_leave_session t st of
                     None \<Rightarrow> None
                   | Some st1 \<Rightarrow>
                       if tg_in_pgroup g = None then None
                       else let st2 = leave_pgroup (tk_group k) st1
                            in map_option (Pair out) (task_destroy t (st2\<lparr>groups := (groups st2)(tk_group k := None)\<rparr>)))))"

definition notify_if_stopped :: "nat \<Rightarrow> winfo \<Rightarrow> kstate \<Rightarrow> (winfo option \<times> kstate) option" where
  "notify_if_stopped t info st =
     (case tasks st t of
        None \<Rightarrow> None
      | Some k \<Rightarrow>
          (case groups st (tk_group k) of
             None \<Rightarrow> None
           | Some g \<Rightarrow>
               if \<not> tg_stopped g \<or> tg_group_exit_code g = 0 then Some (None, st)
               else Some (Some (info\<lparr>wi_status := tg_group_exit_code g\<rparr>),
                      upd_group (tk_group k) (\<lambda>g. g\<lparr>tg_group_exit_code := 0\<rparr>) st)))"

definition reap_if_needed :: "nat \<Rightarrow> u32 \<Rightarrow> winfo \<Rightarrow> kstate \<Rightarrow> (winfo option \<times> kstate) option" where
  "reap_if_needed t opts info st =
     (if \<not> task_is_leader t st then None
      else case (if has_flag opts WUNTRACED then notify_if_stopped t info st else Some (None, st)) of
        None \<Rightarrow> None
      | Some (Some i, st1) \<Rightarrow> Some (Some (i\<lparr>wi_sig := 17\<rparr>), st1)
      | Some (None, st1) \<Rightarrow>
          (case (if has_flag opts WEXITED then reap_if_zombie t opts info st1 else Some (None, st1)) of
             None \<Rightarrow> None
           | Some (Some i, st2) \<Rightarrow> Some (Some (i\<lparr>wi_sig := 17\<rparr>), st2)
           | Some (None, st2) \<Rightarrow>
               (case tasks st2 t of
                  None \<Rightarrow> None
                | Some k \<Rightarrow>
                    if tk_ptrace_stopped k \<and> tk_ptrace_signal k \<noteq> 0
                    then Some (Some (info\<lparr>wi_status := push_bit 8 (tk_ptrace_signal k) OR 0x7f\<rparr>),
                           upd_task t (\<lambda>k. k\<lparr>tk_ptrace_signal := 0\<rparr>) st2)
                    else Some (None, st2))))"

text \<open>
  The pass over the children; \<open>pg\<close> is the process group asked for. The first component of the result
  is the flag \<^verbatim>\<open>no_children\<close>.
\<close>

fun wait_scan :: "nat option \<Rightarrow> u32 \<Rightarrow> nat list \<Rightarrow> bool \<Rightarrow> winfo \<Rightarrow> kstate \<Rightarrow> (bool \<times> winfo option \<times> kstate) option" where
  "wait_scan pg opts [] none info st = Some (none, None, st)"
| "wait_scan pg opts (t # ts) none info st =
     (case tasks st t of
        None \<Rightarrow> None
      | Some k \<Rightarrow>
          (case groups st (tk_group k) of
             None \<Rightarrow> None
           | Some g \<Rightarrow>
               if \<not> task_is_leader t st \<or> pg \<notin> {None, Some (tg_pgid g)} then wait_scan pg opts ts none info st
               else (case reap_if_needed t opts (info\<lparr>wi_pid := tk_pid k\<rparr>) st of
                       None \<Rightarrow> None
                     | Some (Some i, st') \<Rightarrow> Some (False, Some i, st')
                     | Some (None, st') \<Rightarrow> wait_scan pg opts ts False (info\<lparr>wi_pid := tk_pid k\<rparr>) st')))"

text \<open>
  One pass over the children or the one named child. Every thread of the group is visited, but the
  list followed is always that of the calling one. \<open>Inl\<close> is an error.
\<close>

definition wait_pass :: "nat \<Rightarrow> nat \<Rightarrow> int \<Rightarrow> u32 \<Rightarrow> winfo \<Rightarrow> kstate \<Rightarrow> (int + winfo option \<times> kstate) option" where
  "wait_pass cur idtype i opts info st =
     (case tasks st cur of
        None \<Rightarrow> None
      | Some c \<Rightarrow>
          if idtype \<noteq> 1 then
            (case groups st (tk_group c) of
               None \<Rightarrow> None
             | Some g \<Rightarrow>
                 (case wait_scan (if idtype = 2 then Some (dword i) else None) opts
                         (concat (map (\<lambda>_. tk_children c) (tg_threads g))) True info st of
                    None \<Rightarrow> None
                  | Some (none, Some found, st') \<Rightarrow> Some (Inr (Some found, st'))
                  | Some (none, None, st') \<Rightarrow> if none then Some (Inl ECHILD) else Some (Inr (None, st'))))
          else
            (case pid_get_task_zombie (dword i) st of
               None \<Rightarrow> None
             | Some None \<Rightarrow> Some (Inl ECHILD)
             | Some (Some t) \<Rightarrow>
                 (case tasks st t of
                    None \<Rightarrow> None
                  | Some k \<Rightarrow>
                      (case tk_parent k of
                         None \<Rightarrow> Some (Inl ECHILD)
                       | Some p \<Rightarrow>
                           (case (tasks st p, groups st (tk_group k)) of
                              (Some pk, Some g) \<Rightarrow>
                                if tk_group pk \<noteq> tk_group c then Some (Inl ECHILD)
                                else map_option Inr (reap_if_needed (tg_leader g) opts (info\<lparr>wi_pid := dword i\<rparr>) st)
                            | _ \<Rightarrow> None)))))"

text \<open>
  \<open>waits\<close> has what each \<^verbatim>\<open>wait_for\<close> returns and what other threads did meanwhile; at its end the call
  still waits.
\<close>

fun wait_loop :: "(int \<times> (kstate \<Rightarrow> kstate)) list \<Rightarrow> bool \<Rightarrow> nat \<Rightarrow> nat \<Rightarrow> int \<Rightarrow> u32 \<Rightarrow> winfo \<Rightarrow> kstate
    \<Rightarrow> (int \<times> winfo \<times> kstate) option" where
  "wait_loop waits got cur idtype i opts info st =
     (case wait_pass cur idtype i opts info st of
        None \<Rightarrow> None
      | Some (Inl err) \<Rightarrow> Some (err, info, st)
      | Some (Inr (Some found, st')) \<Rightarrow> Some (0, found, st')
      | Some (Inr (None, st')) \<Rightarrow>
          if has_flag opts WNOHANG then Some (0, info\<lparr>wi_pid := 0, wi_sig := 17\<rparr>, st')
          else if got then Some (EINTR, info\<lparr>wi_pid := 0\<rparr>, st')
          else (case waits of
                  [] \<Rightarrow> None
                | (r, f) # ws \<Rightarrow> wait_loop ws (r \<noteq> 0) cur idtype i opts (info\<lparr>wi_pid := 0\<rparr>) (f st')))"

definition do_wait :: "(int \<times> (kstate \<Rightarrow> kstate)) list \<Rightarrow> nat \<Rightarrow> nat \<Rightarrow> int \<Rightarrow> u32 \<Rightarrow> winfo \<Rightarrow> kstate
    \<Rightarrow> (int \<times> winfo \<times> kstate) option" where
  "do_wait waits cur idtype i opts info st =
     (if idtype > 2 then Some (EINVAL, info, st)
      else if opts AND NOT 0x4100000f \<noteq> 0 then Some (EINVAL, info, st)
      else wait_loop waits False cur idtype i opts info st)"

text \<open>The status written and, as the last argument, whether writing it fails. \<open>- i\<close> overflows for the smallest integer.\<close>

definition sys_wait4 :: "(int \<times> (kstate \<Rightarrow> kstate)) list \<Rightarrow> nat \<Rightarrow> int \<Rightarrow> u32 \<Rightarrow> unit user_arg \<Rightarrow> unit user_arg \<Rightarrow> kstate
    \<Rightarrow> (int \<times> nat \<times> kstate) option" where
  "sys_wait4 waits cur i opts status rusage st =
     (if has_flag opts WNOWAIT then Some (EINVAL, 0, st)
      else case tasks st cur of
        None \<Rightarrow> None
      | Some c \<Rightarrow>
          (case groups st (tk_group c) of
             None \<Rightarrow> None
           | Some g \<Rightarrow>
               if i = - (2 ^ 31) then None
               else
                 let idtype = (if i > 0 then 1 else if i = - 1 then 0 else 2);
                     who = (if i > 0 \<or> i = - 1 then i else if i = 0 then int (tg_pgid g) else - i)
                 in (case do_wait waits cur idtype who (opts OR WEXITED) \<lparr>wi_sig = 0, wi_pid = 0xbaba, wi_status = 0\<rparr> st of
                       None \<Rightarrow> None
                     | Some (r, info, st') \<Rightarrow>
                         if r < 0 \<or> wi_pid info = 0 then Some (r, 0, st')
                         else if status = Fault \<or> rusage = Fault then Some (EFAULT, 0, st')
                         else Some (int (wi_pid info), wi_status info, st'))))"

declare wait_loop.simps [simp del]

section \<open>The lists of groups\<close>

text \<open>Two states with the same groups, numbers and lists.\<close>

definition links_view :: "tgroup \<Rightarrow> nat option \<times> nat option \<times> nat \<times> nat" where
  "links_view k = (tg_in_pgroup k, tg_in_session k, tg_pgid k, tg_sid k)"

definition same_links :: "kstate \<Rightarrow> kstate \<Rightarrow> bool" where
  "same_links st st' \<longleftrightarrow> (\<forall>g. map_option links_view (groups st' g) = map_option links_view (groups st g)) \<and>
     (\<forall>i. p_pgroup (pids st' i) = p_pgroup (pids st i) \<and> p_session (pids st' i) = p_session (pids st i))"

definition groups_ok :: "kstate \<Rightarrow> bool" where
  "groups_ok st \<longleftrightarrow> links_ok st \<and> ids_ok st"

lemma same_links_refl [simp]: "same_links st st"
  by (simp add: same_links_def)

lemma same_links_trans: "same_links a b \<Longrightarrow> same_links b c \<Longrightarrow> same_links a c"
  by (simp add: same_links_def)

lemma same_links_ok:
  assumes "same_links st st'" "groups_ok st"
  shows "groups_ok st'"
proof -
  have v: "map_option links_view (groups st' g) = map_option links_view (groups st g)" for g
    using assms(1) by (simp add: same_links_def)
  have "pgroup_of st' g = pgroup_of st g \<and> session_of st' g = session_of st g" for g
    using v [of g] by (cases "groups st g"; cases "groups st' g") (auto simp: links_view_def)
  then have "pgroup_of st' = pgroup_of st" "session_of st' = session_of st"
    by (simp_all add: fun_eq_iff)
  then have "links_ok st'"
    using assms by (simp add: groups_ok_def links_ok_def same_links_def)
  moreover have "tg_in_pgroup k' = Some (tg_pgid k') \<and> tg_in_session k' = Some (tg_sid k')" if "groups st' g = Some k'" for g k'
    using v [of g] that assms(2) by (cases "groups st g") (auto simp: groups_ok_def ids_ok_def links_view_def)
  ultimately show ?thesis
    by (simp add: groups_ok_def ids_ok_def)
qed

lemma same_links_upd [simp]:
  "same_links st (upd_task t f st') = same_links st st'"
  "same_links st (st'\<lparr>tasks := x\<rparr>) = same_links st st'"
  "same_links st (st'\<lparr>sighands := y\<rparr>) = same_links st st'"
  "same_links st (st'\<lparr>kevents := z\<rparr>) = same_links st st'"
  "same_links st (st'\<lparr>pids_locked := b\<rparr>) = same_links st st'"
  "same_links (upd_task t f st) st' = same_links st st'"
  "same_links (st\<lparr>kevents := z\<rparr>) st' = same_links st st'"
  by (simp_all add: same_links_def upd_task_def)

lemma same_links_upd_group:
  assumes "same_links st st'" "\<And>k. links_view (f k) = links_view k"
  shows "same_links st (upd_group g f st')"
proof -
  have "map_option links_view (groups (upd_group g f st') x) = map_option links_view (groups st' x)" for x
    using assms(2) by (cases "groups st' g") (auto simp: upd_group_def)
  then show ?thesis
    using assms(1) by (simp add: same_links_def) (simp add: upd_group_def)
qed

lemma deliver_links: "deliver_signal_unlocked cur t s info st = Some st' \<Longrightarrow> same_links st st'"
  by (auto simp: deliver_signal_unlocked_def Let_def split: option.splits if_splits)

lemma wake_group_links: "same_links st (wake_group g st)"
  unfolding wake_group_def Let_def same_links_upd by (rule same_links_upd_group) (auto simp: links_view_def)

interpretation links: signal_frame same_links
  by unfold_locales (auto intro: same_links_trans wake_group_links deliver_links)

lemma task_destroy_links: "task_destroy t st = Some st' \<Longrightarrow> same_links st st'"
  by (auto simp: task_destroy_def Let_def same_links_def upd_task_def upd_pid_def split: option.splits)

lemma sighand_release_links: "sighand_release s st = Some st' \<Longrightarrow> same_links st st'"
  by (auto simp: sighand_release_def Let_def split: option.splits)

lemma sighand_copy_links: "sighand_copy fresh s st = Some (r, st') \<Longrightarrow> same_links st st'"
  by (cases fresh) (auto simp: sighand_copy_def sighand_new_def split: option.splits)

lemma task_create_links:
  assumes "task_create ft parent st = Some (r, st')"
  shows "same_links st st'"
  using task_create_frame [OF assms] by (simp add: same_links_def)

text \<open>The new group of a clone is in the lists of the old one.\<close>

lemma clone_group_ok:
  assumes "clone_group fresh thread t st = Some st'" "groups_ok st" "\<And>new. fresh = Some new \<Longrightarrow> groups st new = None"
  shows "groups_ok st'"
proof -
  obtain k where k: "tasks st t = Some k"
    using assms(1) by (auto simp: clone_group_def split: option.splits)
  show ?thesis
  proof (cases thread)
    case True
    then have "st' = upd_group (tk_group k) (\<lambda>g. g\<lparr>tg_threads := t # tg_threads g\<rparr>) st"
      using assms(1) k by (simp add: clone_group_def)
    then have "same_links st st'"
      using same_links_upd_group [OF same_links_refl, of "\<lambda>g. g\<lparr>tg_threads := t # tg_threads g\<rparr>"] by (simp add: links_view_def)
    then show ?thesis
      using assms(2) same_links_ok by blast
  next
    case False
    then obtain g st1 where g: "fresh = Some g" "tgroup_copy fresh (tk_group k) st = Some st1"
        "st' = upd_task t (\<lambda>k. k\<lparr>tk_group := g, tk_tgid := tk_pid k\<rparr>)
           (upd_group g (\<lambda>g. g\<lparr>tg_leader := t, tg_threads := t # tg_threads g\<rparr>) st1)"
      using assms(1) k by (auto simp: clone_group_def split: option.splits)
    have "groups_ok st1"
      using tgroup_copy_links [OF g(2) _ assms(3)] tgroup_copy_ids [OF g(2)] assms(2) by (simp add: groups_ok_def)
    moreover have "same_links st1 st'"
      using same_links_upd_group [OF same_links_refl, of "\<lambda>g. g\<lparr>tg_leader := t, tg_threads := t # tg_threads g\<rparr>"]
      by (simp add: g(3) links_view_def)
    ultimately show ?thesis
      using same_links_ok by blast
  qed
qed

lemma copy_task_ok:
  assumes "copy_task ce flags ctid t st = Some (r, st')" "groups_ok st" "\<And>new. ce_group ce = Some new \<Longrightarrow> groups st new = None"
  shows "groups_ok st'"
proof -
  obtain k where k: "tasks st t = Some k"
    using assms(1) by (auto simp: copy_task_def split: option.splits)
  define copy where "copy s = (if has_flag flags CLONE_SIGHAND
      then map_option (\<lambda>h. (Some s, st\<lparr>sighands := (sighands st)(s \<mapsto> h\<lparr>sh_refcount := w32 (sh_refcount h + 1)\<rparr>)\<rparr>)) (sighands st s)
      else sighand_copy (ce_sighand ce) s st)" for s
  have copy: "same_links st st1 \<and> groups st1 = groups st" if "copy s = Some (x, st1)" for s x st1
    using that sighand_copy_links [of "ce_sighand ce" s st x st1]
    by (cases "ce_sighand ce") (auto simp: copy_def sighand_copy_def sighand_new_def split: if_splits option.splits)
  consider "same_links st st'"
    | s s' st1 st2 where "copy s = Some (Some s', st1)"
        "clone_group (ce_group ce) (has_flag flags CLONE_THREAD) t (upd_task t (\<lambda>k. k\<lparr>tk_sighand := Some s'\<rparr>) st1) = Some st2"
        "same_links st2 st'"
    using assms(1) k unfolding copy_task_def copy_def [symmetric]
    by (fastforce split: option.splits if_splits dest: copy sighand_release_links)
  then show ?thesis
  proof cases
    case 1
    then show ?thesis
      using assms(2) same_links_ok by blast
  next
    case 2
    have "groups_ok (upd_task t (\<lambda>k. k\<lparr>tk_sighand := Some s'\<rparr>) st1)"
      using copy [OF 2(1)] assms(2) same_links_ok [of st] by simp
    then have "groups_ok st2"
      by (rule clone_group_ok [OF 2(2)]) (use assms(3) copy [OF 2(1)] in \<open>simp add: upd_task_def\<close>)
    then show ?thesis
      using 2(3) same_links_ok by blast
  qed
qed

lemma sys_clone_ok:
  assumes "sys_clone ce cur flags ctid st = Some (r, st')" "groups_ok st" "\<And>new. ce_group ce = Some new \<Longrightarrow> groups st new = None"
  shows "groups_ok st'"
proof -
  consider "same_links st st'"
    | t st1 e st2 where "task_create (ce_task ce) (Some cur) st = Some (Some t, st1)"
        "copy_task ce flags ctid t st1 = Some (e, st2)" "same_links st2 st'"
    using assms(1) unfolding sys_clone_def
    by (fastforce split: option.splits if_splits dest: task_create_links task_destroy_links links.send)
  then show ?thesis
  proof cases
    case 1
    then show ?thesis
      using assms(2) same_links_ok by blast
  next
    case 2
    have "groups_ok st1"
      using task_create_links [OF 2(1)] assms(2) same_links_ok by blast
    then have "groups_ok st2"
      by (rule copy_task_ok [OF 2(2)]) (simp add: task_create_frame [OF 2(1)] assms(3))
    then show ?thesis
      using 2(3) same_links_ok by blast
  qed
qed

text \<open>A group that is torn down has left both lists.\<close>

lemma free_group_ok:
  assumes "links_ok st" "\<And>k. groups st g = Some k \<Longrightarrow> tg_in_pgroup k = None \<and> tg_in_session k = None"
  shows "links_ok (st\<lparr>groups := (groups st)(g := None)\<rparr>)"
proof -
  have "pgroup_of (st\<lparr>groups := (groups st)(g := None)\<rparr>) = pgroup_of st"
    "session_of (st\<lparr>groups := (groups st)(g := None)\<rparr>) = session_of st"
    using assms(2) by (cases "groups st g"; auto simp: fun_eq_iff)+
  then show ?thesis
    using assms(1) unfolding links_ok_def by simp
qed

lemma reap_if_zombie_ok:
  assumes "reap_if_zombie t opts info st = Some (r, st')" "groups_ok st"
  shows "groups_ok st'"
proof (cases "st' = st")
  case False
  obtain k where k: "tasks st t = Some k" "tk_zombie k"
    using assms(1) False by (cases "tasks st t") (auto simp: reap_if_zombie_def split: if_splits)
  obtain g where g: "groups st (tk_group k) = Some g"
    using assms(1) k by (cases "groups st (tk_group k)") (auto simp: reap_if_zombie_def)
  obtain st1 where st1: "task_leave_session t st = Some st1" "\<not> has_flag opts WNOWAIT"
    using assms(1) False k g by (cases "task_leave_session t st") (auto simp: reap_if_zombie_def Let_def split: if_splits)
  define st2 where "st2 = leave_pgroup (tk_group k) st1"
  have run: "task_destroy t (st2\<lparr>groups := (groups st2)(tk_group k := None)\<rparr>) = Some st'"
    using assms(1) k g st1 by (auto simp: reap_if_zombie_def Let_def st2_def split: if_splits)
  note left = task_leave_session_links [OF st1(1) k(1) g]
  have "links_ok (st2\<lparr>groups := (groups st2)(tk_group k := None)\<rparr>)"
    using assms(2) left by (intro free_group_ok) (auto simp: st2_def groups_ok_def groups_simps intro: leave_pgroup_links)
  moreover have "groups (st2\<lparr>groups := (groups st2)(tk_group k := None)\<rparr>) = (groups st)(tk_group k := None)"
    by (simp add: st2_def groups_simps left(1))
  then have "ids_ok (st2\<lparr>groups := (groups st2)(tk_group k := None)\<rparr>)"
    using assms(2) ids_ok_update [of st _ "tk_group k" None] by (simp add: groups_ok_def)
  ultimately show ?thesis
    using task_destroy_links [OF run] same_links_ok by (simp add: groups_ok_def)
qed (use assms in simp)

lemma notify_if_stopped_links:
  assumes "notify_if_stopped t info st = Some (r, st')"
  shows "same_links st st'"
proof -
  have "same_links st (upd_group g (\<lambda>g. g\<lparr>tg_group_exit_code := 0\<rparr>) st)" for g
    by (rule same_links_upd_group) (auto simp: links_view_def)
  then show ?thesis
    using assms by (auto simp: notify_if_stopped_def split: option.splits if_splits)
qed

lemma reap_if_needed_ok:
  assumes "reap_if_needed t opts info st = Some (r, st')" "groups_ok st"
  shows "groups_ok st'"
proof -
  obtain x st1 where a: "(if has_flag opts WUNTRACED then notify_if_stopped t info st else Some (None, st)) = Some (x, st1)"
    using assms(1) by (auto simp: reap_if_needed_def split: if_splits option.splits)
  have ok1: "groups_ok st1"
    using a assms(2) notify_if_stopped_links [of t info st x st1] same_links_ok [of st st1] by (auto split: if_splits)
  have lead: "task_is_leader t st"
    using assms(1) by (auto simp: reap_if_needed_def split: if_splits)
  show ?thesis
  proof (cases x)
    case (Some i)
    then show ?thesis
      using assms(1) a ok1 lead by (auto simp: reap_if_needed_def)
  next
    case None
    obtain y st2 where b: "(if has_flag opts WEXITED then reap_if_zombie t opts info st1 else Some (None, st1)) = Some (y, st2)"
      using assms(1) a None lead by (auto simp: reap_if_needed_def split: option.splits)
    have "groups_ok st2"
      using b ok1 reap_if_zombie_ok by (auto split: if_splits)
    moreover have "same_links st2 st'"
      using assms(1) a b None lead by (auto simp: reap_if_needed_def split: option.splits if_splits)
    ultimately show ?thesis
      using same_links_ok by blast
  qed
qed

lemma wait_scan_ok:
  assumes "wait_scan pg opts ts none info st = Some (n, r, st')" "groups_ok st"
  shows "groups_ok st'"
  using assms
proof (induction ts arbitrary: none info st)
  case (Cons t ts)
  obtain k where k: "tasks st t = Some k"
    using Cons.prems(1) by (cases "tasks st t") auto
  obtain g where g: "groups st (tk_group k) = Some g"
    using Cons.prems(1) k by (cases "groups st (tk_group k)") auto
  define skip where "skip \<longleftrightarrow> \<not> task_is_leader t st \<or> pg \<notin> {None, Some (tg_pgid g)}"
  note run = Cons.prems(1) [unfolded wait_scan.simps k g option.case, folded skip_def]
  show ?case
  proof (cases skip)
    case True
    then show ?thesis
      using run Cons.prems(2) Cons.IH by simp
  next
    case False
    obtain x st1 where x: "reap_if_needed t opts (info\<lparr>wi_pid := tk_pid k\<rparr>) st = Some (x, st1)"
      using run False by (cases "reap_if_needed t opts (info\<lparr>wi_pid := tk_pid k\<rparr>) st") auto
    have "groups_ok st1"
      by (rule reap_if_needed_ok [OF x Cons.prems(2)])
    then show ?thesis
      using run Cons.IH False x by (cases x) auto
  qed
qed simp

lemma wait_pass_ok:
  assumes "wait_pass cur idtype i opts info st = Some (Inr (r, st'))" "groups_ok st"
  shows "groups_ok st'"
proof -
  obtain c where c: "tasks st cur = Some c"
    using assms(1) by (cases "tasks st cur") (simp_all add: wait_pass_def)
  consider ts n where "wait_scan (if idtype = 2 then Some (dword i) else None) opts ts True info st = Some (n, r, st')"
    | t where "reap_if_needed t opts (info\<lparr>wi_pid := dword i\<rparr>) st = Some (r, st')"
    using assms(1) unfolding wait_pass_def c option.case
    by (auto split: if_split_asm option.split_asm prod.split_asm sum.split_asm)
  then show ?thesis
    using assms(2) wait_scan_ok reap_if_needed_ok by cases blast+
qed

lemma wait_loop_ok:
  assumes "wait_loop [] got cur idtype i opts info st = Some (r, info', st')" "groups_ok st"
  shows "groups_ok st'"
proof -
  have "st' = st \<or> (\<exists>x. wait_pass cur idtype i opts info st = Some (Inr (x, st')))"
    using assms(1) unfolding wait_loop.simps [of "[]"]
    by (auto split: if_split_asm option.split_asm prod.split_asm sum.split_asm)
  then show ?thesis
    using assms(2) wait_pass_ok by blast
qed

lemma sys_wait4_ok:
  assumes "sys_wait4 [] cur i opts status rusage st = Some (r, s, st')" "groups_ok st"
  shows "groups_ok st'"
proof -
  have "st' = st \<or> (\<exists>idtype who o' info r' info'. wait_loop [] False cur idtype who o' info st = Some (r', info', st'))"
    using assms(1) unfolding sys_wait4_def do_wait_def Let_def
    by (auto split: if_split_asm option.split_asm prod.split_asm)
  then show ?thesis
    using assms(2) wait_loop_ok by blast
qed

lemma reparent_links: "same_links st (reparent a b c st)"
  by (simp add: reparent_def)

lemma fold_reparent_links: "same_links st (fold (reparent a b) cs st)"
proof (induction cs arbitrary: st)
  case (Cons c cs)
  then show ?case
    using same_links_trans [OF reparent_links Cons.IH] by simp
qed simp

lemma exit_tgroup_links:
  assumes "exit_tgroup t g st = Some (d, st')"
  shows "same_links st st'"
proof -
  have "same_links st (upd_group g (\<lambda>k. k\<lparr>tg_threads := remove1 t (tg_threads k)\<rparr>) st)"
    by (rule same_links_upd_group) (auto simp: links_view_def)
  then show ?thesis
    using assms by (auto simp: exit_tgroup_def split: option.splits)
qed

lemma do_exit_links:
  assumes "do_exit cur status st = Some (h, st')"
  shows "same_links st st'"
proof -
  obtain k where k: "tasks st cur = Some k"
    using assms by (cases "tasks st cur") (simp_all add: do_exit_def)
  obtain s where s: "tk_sighand k = Some s"
    using assms k by (cases "tk_sighand k") (simp_all add: do_exit_def)
  obtain st0 where st0: "sighand_release s st = Some st0"
    using assms k s by (cases "sighand_release s st") (simp_all add: do_exit_def)
  obtain g where g: "groups st (tk_group k) = Some g"
    using assms k s st0 by (cases "groups st (tk_group k)") (simp_all add: do_exit_def)
  define st1 where "st1 = upd_task cur (\<lambda>k. k\<lparr>tk_exit_code := status, tk_exiting := True, tk_sighand := None, tk_queue := []\<rparr>) st0"
  note run1 = assms [unfolded do_exit_def k option.case s st0 g prod.case, folded st1_def, unfolded Let_def, folded st1_def]
  obtain np where np: "find_new_parent (tk_group k) st1 = Some np"
    using run1 by (cases "find_new_parent (tk_group k) st1") simp_all
  define st2 where "st2 = (case np of None \<Rightarrow> st1 | Some p \<Rightarrow> fold (reparent cur p) (tk_children k) st1)"
  have l1: "same_links st st1"
    using sighand_release_links [OF st0] by (simp add: st1_def)
  have l2: "same_links st st2"
    using l1 same_links_trans [OF l1 fold_reparent_links] by (cases np) (simp_all add: st2_def)
  obtain d st3 where st3: "exit_tgroup cur (tk_group k) st2 = Some (d, st3)"
    using run1 unfolding np option.case st2_def [symmetric]
    by (cases "exit_tgroup cur (tk_group k) st2") (auto split: if_splits)
  have l3: "same_links st st3"
    using l2 exit_tgroup_links [OF st3] by (rule same_links_trans)
  note run2 = run1 [unfolded np option.case, folded st2_def, unfolded st3 option.case prod.case]
  have "same_links st3 st'"
    using run2
    by (auto split: if_split_asm option.split_asm dest!: links.send task_destroy_links intro: same_links_trans)
  then show ?thesis
    by (rule same_links_trans [OF l3])
qed

text \<open>
  The calls that change processes and groups, each as one step; a wait that sleeps is another pass
  after the steps of other threads. The leader of a group may start a session, and a group may move
  to the process group of its own number.
\<close>

inductive k_step :: "kstate \<Rightarrow> kstate \<Rightarrow> bool" where
  construct: "construct_task ft (Some g) fs parent st = Some st' \<Longrightarrow> groups st g = None \<Longrightarrow> k_step st st'"
| clone: "sys_clone ce cur flags ctid st = Some (r, st') \<Longrightarrow> ce_group ce = Some g \<Longrightarrow> groups st g = None \<Longrightarrow> k_step st st'"
| setsid: "task_setsid t st = Some (r, st') \<Longrightarrow> task_is_leader t st \<Longrightarrow> k_step st st'"
| setpgid: "sys_setpgid cur i pgid st = Some (r, st') \<Longrightarrow> pgid = 0 \<or> pgid = i \<Longrightarrow> k_step st st'"
| exit: "do_exit cur status st = Some (h, st') \<Longrightarrow> k_step st st'"
| wait: "sys_wait4 [] cur i opts sa ra st = Some (r, s, st') \<Longrightarrow> k_step st st'"
| kill: "do_kill cur i s tgid st = Some (r, st') \<Longrightarrow> k_step st st'"

lemma k_step_ok: "k_step st st' \<Longrightarrow> groups_ok st \<Longrightarrow> groups_ok st'"
proof (induction rule: k_step.induct)
  case (construct ft g fs parent st st')
  then obtain r st1 where st1: "construct_session ft (Some g) parent st = Some (r, st1)" "same_links st1 st'"
    by (cases fs) (auto simp: construct_task_def sighand_new_def split: option.splits)
  then have "groups_ok st1"
    using construct_session_groups [OF st1(1)] construct by (simp add: groups_ok_def)
  then show ?case
    using st1(2) same_links_ok by blast
next
  case (clone ce cur flags ctid st r st' g)
  then show ?case
    using sys_clone_ok [of ce cur flags ctid st r st'] by simp
next
  case (setsid t st r st')
  then show ?case
    using task_setsid_links task_setsid_ids by (simp add: groups_ok_def)
next
  case (setpgid cur i pgid st r st')
  then show ?case
    using sys_setpgid_links [of cur i pgid st r st'] sys_setpgid_own_ids [of cur i pgid st r st'] by (simp add: groups_ok_def)
next
  case (exit cur status st h st')
  then show ?case
    using do_exit_links same_links_ok by blast
next
  case (wait cur i opts sa ra st r s st')
  then show ?case
    using sys_wait4_ok by blast
next
  case (kill cur i s tgid st r st')
  then show ?case
    using links.kill same_links_ok by blast
qed

lemma empty_groups_ok: "groups_ok empty_kstate"
  by (simp add: groups_ok_def links_ok_def ids_ok_def ring_def empty_kstate_def)

section \<open>A clone that fails\<close>

text \<open>What sending a signal keeps: which tasks exist and who leads a group.\<close>

definition same_leaders :: "kstate \<Rightarrow> kstate \<Rightarrow> bool" where
  "same_leaders st st' \<longleftrightarrow> (\<forall>t. tasks st' t = None \<longleftrightarrow> tasks st t = None) \<and>
     (\<forall>g. map_option tg_leader (groups st' g) = map_option tg_leader (groups st g))"

lemma deliver_leaders: "deliver_signal_unlocked cur t s info st = Some st' \<Longrightarrow> same_leaders st st'"
  by (auto simp: deliver_signal_unlocked_def Let_def same_leaders_def upd_task_def split: option.splits if_splits)

lemma wake_group_leaders: "same_leaders st (wake_group g st)"
  by (auto simp: wake_group_def Let_def same_leaders_def upd_group_def option.map_comp comp_def)

lemma same_leaders_trans: "same_leaders a b \<Longrightarrow> same_leaders b c \<Longrightarrow> same_leaders a c"
  by (simp add: same_leaders_def)

lemma same_leaders_same [simp]: "same_leaders st st" "same_leaders st (st\<lparr>kevents := z\<rparr>)"
  by (simp_all add: same_leaders_def)

interpretation leaders: signal_frame same_leaders
  by unfold_locales (auto intro: same_leaders_trans deliver_leaders wake_group_leaders)

lemma kill_leaders_freed:
  assumes "g \<in> set gs" "groups st g = Some k" "tasks st (tg_leader k) = None"
  shows "kill_leaders cur gs s e st = None"
  using assms
proof (induction gs arbitrary: e st k)
  case (Cons x xs)
  show ?case
  proof (cases "x = g")
    case True
    then show ?thesis
      using Cons.prems by (simp add: kill_task_def split: option.splits)
  next
    case False
    then have g: "g \<in> set xs"
      using Cons.prems(1) by simp
    have "kill_leaders cur xs s e' st' = None" if "kill_task cur (tg_leader y) s st = Some (r, st')" for y e' r st'
    proof -
      have same: "same_leaders st st'"
        by (rule leaders.kill_one [OF that])
      then obtain k' where "groups st' g = Some k'" "tg_leader k' = tg_leader k"
        using Cons.prems(2) by (auto simp: same_leaders_def dest!: spec [of _ g])
      then show ?thesis
        using Cons.IH [OF g, of st' k'] same Cons.prems(3) by (simp add: same_leaders_def)
    qed
    then show ?thesis
      by (auto split: option.split)
  qed
qed simp

text \<open>
  The state of a clone right before its last copies to guest memory fail: the child exists and its
  group is in the lists of the old one.
\<close>

lemma clone_fails_at_end:
  assumes "tasks st t = Some k" "tk_sighand k = Some s" "sighands st s = Some sh" "groups st (tk_group k) = Some old"
    "tg_in_pgroup old = Some p" "tg_in_session old = Some q" "ce_sighand ce = Some s'" "ce_group ce = Some g" "groups st g = None"
    "0 \<le> ce_files ce" "\<not> ce_fs_fails ce" "ce_child_fails ce" "has_flag flags CLONE_CHILD_SETTID"
    "\<not> has_flag flags CLONE_SIGHAND" "\<not> has_flag flags CLONE_THREAD" "\<not> has_flag flags CLONE_SETTLS"
  shows "\<exists>st2 gk k2. copy_task ce flags ctid t st = Some (EFAULT, st2) \<and> groups st2 g = Some gk \<and> tg_leader gk = t \<and>
    tg_in_pgroup gk = Some p \<and> tg_pgid gk = tg_pgid old \<and> tasks st2 t = Some k2 \<and> tk_pid k2 = tk_pid k \<and>
    p_task (pids st2 i) = p_task (pids st i)"
proof -
  obtain st1 where st1: "sighand_copy (ce_sighand ce) s st = Some (Some s', st1)" "tasks st1 = tasks st"
      "groups st1 = groups st" "pids st1 = pids st" "\<exists>n. sighands st1 s' = Some n"
    using assms(3,7) by (auto simp: sighand_copy_def sighand_new_def)
  define st1' where "st1' = upd_task t (\<lambda>k. k\<lparr>tk_sighand := Some s'\<rparr>) st1"
  have run: "\<exists>x. tgroup_copy (ce_group ce) (tk_group k) st1' = Some x \<and> tasks x = tasks st1' \<and> sighands x = sighands st1'"
    using assms(4-6,8) st1(3) by (cases "tg_tty old") (simp_all add: st1'_def tgroup_copy_def upd_simps Let_def)
  then obtain x where x: "tgroup_copy (ce_group ce) (tk_group k) st1' = Some x" "tasks x = tasks st1'" "sighands x = sighands st1'"
    by blast
  have grp: "groups x = (groups st)(g \<mapsto> old\<lparr>tg_threads := [], tg_doing_group_exit := False\<rparr>)"
    "p_task (pids x i) = p_task (pids st i)"
    using x(1) assms(4,8) st1(3,4)
    by (auto elim!: tgroup_copy_cases simp: st1'_def upd_simps)
  have k1: "tasks st1' t = Some (k\<lparr>tk_sighand := Some s'\<rparr>)"
    using assms(1) st1(2) by (simp add: st1'_def upd_task_def)
  define y where "y = upd_task t (\<lambda>k. k\<lparr>tk_group := g, tk_tgid := tk_pid k\<rparr>)
      (upd_group g (\<lambda>g. g\<lparr>tg_leader := t, tg_threads := t # tg_threads g\<rparr>) x)"
  have y: "clone_group (ce_group ce) False t st1' = Some y"
    using k1 x(1) assms(8) by (simp add: clone_group_def y_def)
  obtain z where z: "sighand_release s' y = Some z" "tasks z = tasks y" "groups z = groups y" "pids z = pids y"
    using st1(5) x(3) by (auto simp: sighand_release_def y_def st1'_def upd_simps Let_def)
  have "copy_task ce flags ctid t st = Some (EFAULT, z)"
    using assms(1,2,10-16) st1(1) y z(1) by (simp add: copy_task_def st1'_def)
  then show ?thesis
    using z(2-4) grp k1 x(2) assms(5) by (auto simp: y_def upd_simps)
qed

section \<open>Signals to process groups\<close>

text \<open>A task after signals were sent to it: only the two fields of pending signals differ, and none is lost.\<close>

definition more_pending :: "task \<Rightarrow> task \<Rightarrow> bool" where
  "more_pending k k' \<longleftrightarrow> k'\<lparr>tk_pending := 0, tk_queue := []\<rparr> = k\<lparr>tk_pending := 0, tk_queue := []\<rparr> \<and>
     (\<forall>n. Bit_Operations.bit (tk_pending k) n \<longrightarrow> Bit_Operations.bit (tk_pending k') n)"

definition sent :: "kstate \<Rightarrow> kstate \<Rightarrow> bool" where
  "sent st st' \<longleftrightarrow> same_leaders st st' \<and> sighands st' = sighands st \<and>
     (\<forall>t k. tasks st t = Some k \<longrightarrow> (\<exists>k'. tasks st' t = Some k' \<and> more_pending k k'))"

lemma more_pending_refl [simp]: "more_pending k k"
  by (simp add: more_pending_def)

lemma more_pending_trans: "more_pending a b \<Longrightarrow> more_pending b c \<Longrightarrow> more_pending a c"
  by (simp add: more_pending_def)

lemma sent_trans: "sent a b \<Longrightarrow> sent b c \<Longrightarrow> sent a c"
  unfolding sent_def
  by (elim conjE, intro conjI) (auto intro: same_leaders_trans, metis more_pending_trans)

lemma sent_same [simp]: "sent st st" "sent st (st\<lparr>kevents := z\<rparr>)"
  by (simp_all add: sent_def)

lemma deliver_sent:
  assumes "deliver_signal_unlocked cur t s info st = Some st'"
  shows "sent st st'" and "\<And>u. u \<noteq> t \<Longrightarrow> tasks st' u = tasks st u"
    and "\<exists>k. tasks st' t = Some k \<and> Bit_Operations.bit (tk_pending k) (s - 1)"
proof -
  obtain k m where k: "tasks st t = Some k" "sig_mask s = Some m"
    using assms by (auto simp: deliver_signal_unlocked_def split: option.splits)
  let ?f = "\<lambda>k. k\<lparr>tk_pending := tk_pending k OR m, tk_queue := tk_queue k @ [info\<lparr>si_sig := s\<rparr>]\<rparr>"
  have st': "tk_pending k AND m \<noteq> 0 \<and> st' = st \<or> tasks st' = (tasks st)(t \<mapsto> ?f k) \<and> sighands st' = sighands st"
    using assms k by (auto simp: deliver_signal_unlocked_def Let_def upd_task_def split: if_splits)
  have "more_pending k (?f k)"
    by (simp add: more_pending_def bit_or_iff)
  then show "sent st st'"
    using st' deliver_leaders [OF assms] k(1) by (auto simp: sent_def)
  show "\<And>u. u \<noteq> t \<Longrightarrow> tasks st' u = tasks st u"
    using st' by auto
  have "Bit_Operations.bit (tk_pending k OR m) (s - 1)"
    using sig_mask_bit [OF k(2), of "s - 1"] sig_mask_Some [OF k(2)] by (simp add: bit_or_iff)
  then show "\<exists>k. tasks st' t = Some k \<and> Bit_Operations.bit (tk_pending k) (s - 1)"
    using st' k(1) sig_mask_has [OF k(2), of "tk_pending k"] by auto
qed

lemma wake_group_sent: "sent st (wake_group g st)" "tasks (wake_group g st) = tasks st"
  using wake_group_leaders [of st g] by (auto simp: sent_def wake_group_def Let_def upd_group_def)

interpretation sending: signal_frame sent
  by unfold_locales (auto intro: sent_trans deliver_sent(1) wake_group_sent(1))

lemma send_signal_others:
  assumes "send_signal cur t s info st = Some st'" "u \<noteq> t"
  shows "tasks st' u = tasks st u"
proof (cases "st' = st")
  case False
  with assms(1) obtain st1 g where "st1 = st \<or> deliver_signal_unlocked cur t s info st = Some st1"
      "st' = st1 \<or> st' = wake_group g st1"
    by (rule send_signal_cases)
  then show ?thesis
    using deliver_sent(2) [OF _ assms(2)] wake_group_sent(2) by auto
qed simp

text \<open>A task that takes the signal: alive, with an action other than to ignore it.\<close>

definition takes :: "nat \<Rightarrow> nat \<Rightarrow> kstate \<Rightarrow> bool" where
  "takes t s st \<longleftrightarrow> (\<exists>k h sh a. tasks st t = Some k \<and> \<not> tk_zombie k \<and> \<not> tk_exiting k \<and> task_sighand t st = Some (h, sh) \<and>
     signal_action sh s = Some a \<and> a \<noteq> SIGNAL_IGNORE)"

definition has_pending :: "nat \<Rightarrow> nat \<Rightarrow> kstate \<Rightarrow> bool" where
  "has_pending t s st \<longleftrightarrow> (\<exists>k. tasks st t = Some k \<and> Bit_Operations.bit (tk_pending k) (s - 1))"

lemma more_pending_fields:
  assumes "more_pending k k'"
  shows "tk_zombie k' = tk_zombie k" "tk_exiting k' = tk_exiting k" "tk_sighand k' = tk_sighand k"
    "tk_euid k' = tk_euid k"
proof -
  have eq: "k'\<lparr>tk_pending := 0, tk_queue := []\<rparr> = k\<lparr>tk_pending := 0, tk_queue := []\<rparr>"
    using assms by (simp add: more_pending_def)
  show "tk_zombie k' = tk_zombie k" "tk_exiting k' = tk_exiting k" "tk_sighand k' = tk_sighand k" "tk_euid k' = tk_euid k"
    using arg_cong [OF eq, of tk_zombie] arg_cong [OF eq, of tk_exiting] arg_cong [OF eq, of tk_sighand]
      arg_cong [OF eq, of tk_euid] by simp_all
qed

lemma sent_takes:
  assumes "sent st st'" "takes t s st"
  shows "takes t s st'"
proof -
  obtain k h sh a where k: "tasks st t = Some k" "\<not> tk_zombie k" "\<not> tk_exiting k" "task_sighand t st = Some (h, sh)"
      "signal_action sh s = Some a" "a \<noteq> SIGNAL_IGNORE"
    using assms(2) by (auto simp: takes_def)
  obtain k' where k': "tasks st' t = Some k'" "more_pending k k'"
    using assms(1) k(1) by (auto simp: sent_def)
  have "task_sighand t st' = task_sighand t st"
    using assms(1) k(1) k' more_pending_fields(3) [OF k'(2)]
    by (cases "tk_sighand k") (simp_all add: task_sighand_def sent_def)
  then show ?thesis
    using k k' more_pending_fields [OF k'(2)] by (auto simp: takes_def)
qed

lemma sent_pending: "sent st st' \<Longrightarrow> has_pending t s st \<Longrightarrow> has_pending t s st'"
  by (fastforce simp: has_pending_def sent_def more_pending_def)

lemma send_signal_pending:
  assumes "send_signal cur t s info st = Some st'" "takes t s st" "s \<noteq> 0"
  shows "has_pending t s st'"
proof -
  obtain k h sh a where k: "tasks st t = Some k" "\<not> (tk_zombie k \<or> tk_exiting k)" "task_sighand t st = Some (h, sh)"
      "signal_action sh s = Some a" "a \<noteq> SIGNAL_IGNORE"
    using assms(2) by (auto simp: takes_def)
  obtain st1 where st1: "deliver_signal_unlocked cur t s info st = Some st1"
    using assms(1,3) k by (cases "deliver_signal_unlocked cur t s info st") (auto simp: send_signal_def)
  have "tasks st' = tasks st1"
    using assms(1,3) k st1 by (auto simp: send_signal_def Let_def upd_group_def split: if_splits)
  then show ?thesis
    using deliver_sent(3) [OF st1] by (simp add: has_pending_def)
qed

lemma kill_task_others: "kill_task cur t s st = Some (r, st') \<Longrightarrow> u \<noteq> t \<Longrightarrow> tasks st' u = tasks st u"
  by (auto simp: kill_task_def split: option.splits if_splits intro: send_signal_others)

lemma kill_leaders_others:
  assumes "kill_leaders cur gs s e st = Some (r, st')" "\<And>g k. g \<in> set gs \<Longrightarrow> groups st g = Some k \<Longrightarrow> tg_leader k \<noteq> u"
  shows "tasks st' u = tasks st u"
  using assms
proof (induction gs arbitrary: e st)
  case (Cons g gs)
  obtain k where k: "groups st g = Some k"
    using Cons.prems(1) by (cases "groups st g") auto
  obtain e1 st1 where st1: "kill_task cur (tg_leader k) s st = Some (e1, st1)"
      "kill_leaders cur gs s (if e = EPERM then e1 else e) st1 = Some (r, st')"
    using Cons.prems(1) k by (cases "kill_task cur (tg_leader k) s st") auto
  have "tg_leader k' \<noteq> u" if "g' \<in> set gs" "groups st1 g' = Some k'" for g' k'
  proof -
    have "map_option tg_leader (groups st g') = Some (tg_leader k')"
      using leaders.kill_one [OF st1(1)] that(2) by (metis option.map(2) same_leaders_def)
    then show ?thesis
      using Cons.prems(2) that(1) by auto
  qed
  then have "tasks st' u = tasks st1 u"
    by (rule Cons.IH [OF st1(2)])
  then show ?case
    using kill_task_others [OF st1(1), of u] Cons.prems(2) [of g k] k by simp
qed simp

lemma kill_leaders_pending:
  assumes "kill_leaders cur gs s e st = Some (r, st')" "g \<in> set gs" "groups st g = Some k" "takes (tg_leader k) s st"
    "s \<noteq> 0" "tasks st cur = Some c" "tk_euid c = 0"
  shows "has_pending (tg_leader k) s st'"
  using assms
proof (induction gs arbitrary: e st k c)
  case (Cons x xs)
  obtain y where y: "groups st x = Some y"
    using Cons.prems(1) by (cases "groups st x") auto
  obtain e1 st1 where st1: "kill_task cur (tg_leader y) s st = Some (e1, st1)"
      "kill_leaders cur xs s (if e = EPERM then e1 else e) st1 = Some (r, st')"
    using Cons.prems(1) y by (cases "kill_task cur (tg_leader y) s st") auto
  note ks = sending.kill_one [OF st1(1)]
  show ?case
  proof (cases "x = g")
    case True
    then have "has_pending (tg_leader k) s st1"
      using st1(1) Cons.prems(3-7) y send_signal_pending
      by (auto simp: kill_task_def split: option.splits)
    then show ?thesis
      using sent_pending sending.kill_list [OF st1(2)] by blast
  next
    case False
    have "map_option tg_leader (groups st1 g) = Some (tg_leader k)"
      using ks Cons.prems(3) by (simp add: sent_def same_leaders_def)
    then obtain k' where k': "groups st1 g = Some k'" "tg_leader k' = tg_leader k"
      by auto
    obtain c' where c': "tasks st1 cur = Some c'" "more_pending c c'"
      using ks Cons.prems(6) by (auto simp: sent_def)
    show ?thesis
      using Cons.IH [OF st1(2) _ k'(1) _ Cons.prems(5) c'(1)] False Cons.prems(2,4,7) k'(2) sent_takes [OF ks]
        more_pending_fields(4) [OF c'(2)] by simp
  qed
qed simp

lemma k_reach_ok: "k_step\<^sup>*\<^sup>* empty_kstate st \<Longrightarrow> groups_ok st"
  by (induction rule: rtranclp_induct) (auto intro: empty_groups_ok k_step_ok)

lemma groups_ok_sets:
  assumes "groups_ok st"
  shows "distinct (p_pgroup (pids st i))" "set (p_pgroup (pids st i)) = {g. \<exists>k. groups st g = Some k \<and> tg_pgid k = i}"
    "distinct (p_session (pids st i))" "set (p_session (pids st i)) = {g. \<exists>k. groups st g = Some k \<and> tg_sid k = i}"
  using assms unfolding groups_ok_def links_ok_def ids_ok_def ring_def by (auto simp: bind_eq_Some_conv)

text \<open>The first process and one constructed as its child, each in a session of its own.\<close>

definition boot_group :: "nat \<Rightarrow> tgroup" where
  "boot_group t = \<lparr>tg_threads = [t], tg_leader = t, tg_sid = t + 1, tg_pgid = t + 1, tg_in_session = Some (t + 1),
     tg_in_pgroup = Some (t + 1), tg_stopped = False, tg_tty = None, tg_doing_group_exit = False, tg_group_exit_code = 0\<rparr>"

definition boot_sighand :: sighand where
  "boot_sighand = \<lparr>sh_refcount = 1, sh_action = replicate NUM_SIGS zero_action, sh_altstack = 0, sh_altstack_size = 0\<rparr>"

definition boot1 :: kstate where
  "boot1 = empty_kstate\<lparr>pids := (pids empty_kstate)(1 := \<lparr>p_task = Some 0, p_session = [0], p_pgroup = [0]\<rparr>), cur_pid := 1,
     tasks := [0 \<mapsto> zero_task\<lparr>tk_pid := 1, tk_tgid := 1, tk_group := 0, tk_sighand := Some 0\<rparr>],
     groups := [0 \<mapsto> boot_group 0], sighands := [0 \<mapsto> boot_sighand]\<rparr>"

definition boot2 :: kstate where
  "boot2 = boot1\<lparr>pids := (pids boot1)(2 := \<lparr>p_task = Some 1, p_session = [1], p_pgroup = [1]\<rparr>), cur_pid := 2,
     tasks := [0 \<mapsto> zero_task\<lparr>tk_pid := 1, tk_tgid := 1, tk_group := 0, tk_sighand := Some 0, tk_children := [1]\<rparr>,
       1 \<mapsto> zero_task\<lparr>tk_pid := 2, tk_tgid := 2, tk_group := 1, tk_sighand := Some 1, tk_parent := Some 0\<rparr>],
     groups := [0 \<mapsto> boot_group 0, 1 \<mapsto> boot_group 1], sighands := [0 \<mapsto> boot_sighand, 1 \<mapsto> boot_sighand]\<rparr>"

lemmas construct_defs = construct_task_def construct_session_def task_create_def next_pid.simps succ_pid_def empty_kstate_def
  pid_empty_def Let_def upd_simps task_setsid_def task_leave_session_def leave_session_def join_session_def
  leave_pgroup_def join_pgroup_def pid_get_def zero_task_def sighand_new_def boot_group_def boot_sighand_def

lemma boot1_runs: "construct_task (Some 0) (Some 0) (Some 0) None empty_kstate = Some boot1"
  by (simp add: construct_defs boot1_def fun_eq_iff)

lemma boot2_runs: "construct_task (Some 1) (Some 1) (Some 1) (Some 0) boot1 = Some boot2"
  by (simp add: construct_defs boot1_def boot2_def fun_eq_iff)

lemma boot2_reach: "k_step\<^sup>*\<^sup>* empty_kstate boot2"
proof -
  have "k_step empty_kstate boot1"
    by (rule k_step.construct [OF boot1_runs]) (simp add: empty_kstate_def)
  moreover have "k_step boot1 boot2"
    by (rule k_step.construct [OF boot2_runs]) (simp add: boot1_def)
  ultimately show ?thesis
    by (meson rtranclp.rtrancl_refl rtranclp.rtrancl_into_rtrancl)
qed

lemma boot2_sets: "{g. \<exists>k. groups boot2 g = Some k \<and> tg_pgid k = 2} = {1}"
  by (auto simp: boot2_def boot_group_def split: if_splits)

section \<open>Properties\<close>



text \<open>
  C32. A clone that cannot write the child's number to guest memory frees the child but leaves the
  child's group in the list of its process group, with the freed task as its leader. A signal to
  that process group then uses the freed task.
\<close>

theorem failed_clone_leaves_group:
  assumes "groups_ok st" "tasks st cur = Some c" "tk_sighand c = Some s" "sighands st s = Some sh"
    "groups st (tk_group c) = Some old" "2 \<le> tg_pgid old" "tg_pgid old \<le> MAX_PID"
    "ce_task ce = Some t" "tasks st t = None" "ce_sighand ce = Some s'" "ce_group ce = Some g" "groups st g = None"
    "0 \<le> ce_files ce" "\<not> ce_fs_fails ce" "ce_child_fails ce" "flags AND NOT CLONE_KNOWN = 0"
    "has_flag flags CLONE_CHILD_SETTID" "\<not> has_flag flags CLONE_SIGHAND" "\<not> has_flag flags CLONE_THREAD"
    "\<not> has_flag flags CLONE_SETTLS" "next_pid (pids st) (cur_pid st) = Some n" "sig < NUM_SIGS"
  shows "\<exists>st' k. sys_clone ce cur flags ctid st = Some (EFAULT, st') \<and> tasks st' t = None \<and> groups st' g = Some k \<and>
    tg_leader k = t \<and> g \<in> set (p_pgroup (pids st' (tg_pgid old))) \<and> do_kill cur (- int (tg_pgid old)) sig 0 st' = None"
proof -
  have ne: "cur \<noteq> t"
    using assms(2,9) by auto
  obtain st1 k1 where st1: "task_create (ce_task ce) (Some cur) st = Some (Some t, st1)" "tasks st1 t = Some k1"
      "tk_group k1 = tk_group c" "tk_sighand k1 = Some s" "tk_pid k1 = n" "p_task (pids st1 n) = Some t" "tk_parent k1 = Some cur"
    using assms(2,3,8,21) ne by (simp add: task_create_def Let_def upd_simps)
  note fr = task_create_frame [OF st1(1)]
  have ids: "tg_in_pgroup old = Some (tg_pgid old)" "tg_in_session old = Some (tg_sid old)"
    using assms(1,5) by (simp_all add: groups_ok_def ids_ok_def)
  obtain st2 gk k2 where st2: "copy_task ce flags ctid t st1 = Some (EFAULT, st2)" "groups st2 g = Some gk" "tg_leader gk = t"
      "tg_pgid gk = tg_pgid old" "tasks st2 t = Some k2" "tk_pid k2 = n" "p_task (pids st2 n) = Some t"
    using clone_fails_at_end [of st1 t k1 s sh old "tg_pgid old" "tg_sid old" ce s' g flags ctid n] st1 fr ids assms by auto
  have pid: "pid_get n st = Some (Some n)" if "p_task (pids st n) = Some t" for st
    using that next_pid_free [OF assms(21)] by (simp add: pid_get_def pid_empty_def)
  obtain st' where st': "task_destroy t st2 = Some st'" "tasks st' t = None" "groups st' = groups st2"
    using st2(5-7) pid [of "case tk_parent k2 of None \<Rightarrow> st2 | Some p \<Rightarrow> upd_task p (\<lambda>q. q\<lparr>tk_children := remove1 t (tk_children q)\<rparr>) st2"]
    by (cases "tk_parent k2") (auto simp: task_destroy_def Let_def upd_simps)
  have run: "sys_clone ce cur flags ctid st = Some (EFAULT, st')"
    using assms(16,18,19) st1(1) st2(1) st'(1) by (simp add: sys_clone_def)
  have "groups_ok st'"
    by (rule sys_clone_ok [OF run assms(1)]) (simp add: assms(11,12))
  then have mem: "g \<in> set (p_pgroup (pids st' (tg_pgid old)))"
    using st'(3) st2(2,4) by (auto simp: groups_ok_def links_ok_def ring_def ids_ok_def)
  then have get: "pid_get (tg_pgid old) st' = Some (Some (tg_pgid old))"
    using assms(7) by (auto simp: pid_get_def pid_empty_def)
  have "kill_group cur (int (tg_pgid old)) sig st' = None"
    using get assms(7) kill_leaders_freed [OF mem, of st' gk] st'(2,3) st2(2,3) by (simp add: kill_group_def)
  then have "do_kill cur (- int (tg_pgid old)) sig 0 st' = None"
    using assms(6,7,22) by (auto simp: do_kill_def Let_def split: option.splits)
  then show ?thesis
    using run st'(2,3) st2(2,3) mem by auto
qed

text \<open>The third process of the session forks with an address for the child's number that cannot be written.\<close>

definition demo_clone :: clone_env where
  "demo_clone = \<lparr>ce_task = Some 7, ce_sighand = Some 7, ce_group = Some 7, ce_files = 0, ce_fs_fails = False,
     ce_tls = 0, ce_child_fails = True, ce_parent_fails = False\<rparr>"

theorem failed_clone_leaves_group_witness:
  "\<exists>st' k. sys_clone demo_clone 2 0x1000011 0 (sk demo_env) = Some (EFAULT, st') \<and> tasks st' 7 = None \<and>
    groups st' 7 = Some k \<and> tg_leader k = 7 \<and> do_kill 2 (- 3) 15 0 st' = None"
proof -
  have ok: "groups_ok (sk demo_env)"
    using demo_links links_cong [of "sk demo_env" demo_kstate]
    by (auto simp: groups_ok_def demo_env_def ids_ok_def demo_kstate_def demo_group_def split: if_splits)
  have n: "next_pid (pids (sk demo_env)) (cur_pid (sk demo_env)) = Some 4"
    by (simp add: demo_env_def demo_kstate_def empty_kstate_def next_pid.simps succ_pid_def pid_empty_def)
  show ?thesis
    using failed_clone_leaves_group [OF ok, of 2 "demo_task 2" 0 demo_sighand "demo_group 2 3" demo_clone 7 7 7 "0x1000011" 4 15 0] n
    by (simp add: demo_env_def demo_kstate_def demo_task_def demo_group_def demo_clone_def has_flag_def) blast
qed

end
