(* ===== verification/Tty.thy ===== *)
theory Tty
  imports Signal
begin

text \<open>
  Terminals: the line discipline and the job control of \<^verbatim>\<open>fs/tty.c\<close> and the pseudo-terminals of
  \<^verbatim>\<open>fs/pty.c\<close>. Terminals are objects of a store; the session of a terminal is the field of the
  state of \<^verbatim>\<open>Task\<close>. What a driver is asked to print, and the wake-ups, are events. A call that
  waits takes the list of what each wait returns, a number of the host that is never negative, and of
  what other threads did meanwhile; its end means that the call still waits. A wake-up of pollers
  releases the lock of the terminal: what others do then is the list \<open>io_wakes\<close>. A character is
  signed when it is compared with a control character. \<^const>\<open>None\<close> is a failed assertion, a bad pointer
  or a call that does not return.
\<close>

section \<open>Definitions\<close>

abbreviation (input) EIO :: int where "EIO \<equiv> - 5"
abbreviation (input) ENOTTY :: int where "ENOTTY \<equiv> - 25"
abbreviation (input) ENOSPC :: int where "ENOSPC \<equiv> - 28"

abbreviation (input) VINTR :: nat where "VINTR \<equiv> 0"
abbreviation (input) VQUIT :: nat where "VQUIT \<equiv> 1"
abbreviation (input) VERASE :: nat where "VERASE \<equiv> 2"
abbreviation (input) VKILL :: nat where "VKILL \<equiv> 3"
abbreviation (input) VEOF :: nat where "VEOF \<equiv> 4"
abbreviation (input) VTIME :: nat where "VTIME \<equiv> 5"
abbreviation (input) VMIN :: nat where "VMIN \<equiv> 6"
abbreviation (input) VSTART :: nat where "VSTART \<equiv> 8"
abbreviation (input) VSTOP :: nat where "VSTOP \<equiv> 9"
abbreviation (input) VSUSP :: nat where "VSUSP \<equiv> 10"
abbreviation (input) VEOL :: nat where "VEOL \<equiv> 11"

abbreviation (input) ISIG :: u32 where "ISIG \<equiv> 1"
abbreviation (input) ICANON :: u32 where "ICANON \<equiv> 2"
abbreviation (input) ECHO :: u32 where "ECHO \<equiv> 8"
abbreviation (input) ECHOE :: u32 where "ECHOE \<equiv> 16"
abbreviation (input) ECHOK :: u32 where "ECHOK \<equiv> 32"
abbreviation (input) ECHOKE :: u32 where "ECHOKE \<equiv> 64"
abbreviation (input) NOFLSH :: u32 where "NOFLSH \<equiv> 128"
abbreviation (input) ECHOCTL :: u32 where "ECHOCTL \<equiv> 512"
abbreviation (input) IEXTEN :: u32 where "IEXTEN \<equiv> 32768"
abbreviation (input) INLCR :: u32 where "INLCR \<equiv> 64"
abbreviation (input) IGNCR :: u32 where "IGNCR \<equiv> 128"
abbreviation (input) ICRNL :: u32 where "ICRNL \<equiv> 256"
abbreviation (input) IXON :: u32 where "IXON \<equiv> 1024"
abbreviation (input) OPOST :: u32 where "OPOST \<equiv> 1"
abbreviation (input) ONLCR :: u32 where "ONLCR \<equiv> 4"
abbreviation (input) OCRNL :: u32 where "OCRNL \<equiv> 8"
abbreviation (input) ONLRET :: u32 where "ONLRET \<equiv> 32"

abbreviation (input) SIGINT :: nat where "SIGINT \<equiv> 2"
abbreviation (input) SIGQUIT :: nat where "SIGQUIT \<equiv> 3"
abbreviation (input) SIGTSTP :: nat where "SIGTSTP \<equiv> 20"
abbreviation (input) SIGWINCH :: nat where "SIGWINCH \<equiv> 28"

abbreviation (input) TTY_BUF_SIZE :: nat where "TTY_BUF_SIZE \<equiv> 4096"

record winsize =
  ws_row :: u16
  ws_col :: u16
  ws_xpixel :: u16
  ws_ypixel :: u16

record termios =
  t_iflags :: u32
  t_oflags :: u32
  t_cflags :: u32
  t_lflags :: u32
  t_line :: byte
  t_cc :: "nat \<Rightarrow> byte"

datatype tty_driver = Pty_master | Pty_slave | Device

record tty =
  y_refcount :: nat
  y_driver :: tty_driver
  y_hung_up :: bool
  y_ever_opened :: bool
  y_buf :: "nat \<Rightarrow> byte"
  y_flag :: "nat \<Rightarrow> bool"
  y_bufsize :: nat
  y_packet_flags :: byte
  y_winsize :: winsize
  y_termios :: termios
  y_type :: nat
  y_num :: nat
  y_fg_group :: nat
  y_fds :: "nat list"
  y_other :: "nat option"
  y_perms :: nat
  y_uid :: nat
  y_gid :: nat
  y_locked :: bool
  y_packet_mode :: bool

datatype tty_event = Echo "byte list" | Notify_produced | Notify_consumed | Poll_wakeup nat

text \<open>A slot of the array of terminals of a driver: empty, reserved with the pointer 1, or a terminal.\<close>

datatype tty_slot = Free | Reserved | Used nat

record tstate =
  ttys :: "nat \<Rightarrow> tty option"
  fd_tty :: "nat \<Rightarrow> nat option"
  slots :: "tty_driver \<Rightarrow> nat \<Rightarrow> tty_slot"
  new_tty :: nat
  ks :: kstate
  tevents :: "(nat \<times> tty_event) list"

text \<open>
  \<open>raw\<close> is the memory \<^verbatim>\<open>malloc\<close> returned: the buffer, the line number and the part of the
  pseudo-terminal are not initialized here.
\<close>

definition tty_alloc :: "tty \<Rightarrow> tty_driver \<Rightarrow> nat \<Rightarrow> nat \<Rightarrow> tty" where
  "tty_alloc raw driver type num =
     raw\<lparr>y_refcount := 0, y_driver := driver, y_type := type, y_num := num, y_hung_up := False, y_ever_opened := False,
         y_fg_group := 0, y_fds := [],
         y_termios := (y_termios raw)\<lparr>
           t_iflags := ICRNL OR IXON, t_oflags := OPOST OR ONLCR, t_cflags := 0,
           t_lflags := ISIG OR ICANON OR ECHO OR ECHOE OR ECHOK OR ECHOCTL OR ECHOKE OR IEXTEN,
           t_cc := (\<lambda>i. if i < 19 then [3, 0x1c, 0x7f, 0x15, 4, 0, 1, 0, 0x11, 0x13, 0x1a, 0, 0x12, 0xf, 0x17, 0x16, 0, 0, 0] ! i
                         else 0)\<rparr>,
         y_winsize := \<lparr>ws_row = 0, ws_col = 0, ws_xpixel = 0, ws_ypixel = 0\<rparr>,
         y_flag := (\<lambda>i. False), y_bufsize := 0, y_packet_flags := 0\<rparr>"

subsection \<open>Input\<close>

record tio =
  io_tty :: tty
  io_events :: "tty_event list"
  io_queue :: u64
  io_waits :: "(nat \<times> (tty \<Rightarrow> tty)) list"
  io_wakes :: "(tty \<Rightarrow> tty) list"

definition tty_input_wakeup :: "tio \<Rightarrow> tio" where
  "tty_input_wakeup io =
     io\<lparr>io_events := io_events io @ [Notify_produced, Poll_wakeup 1],
        io_tty := (case io_wakes io of [] \<Rightarrow> io_tty io | f # fs \<Rightarrow> f (io_tty io)),
        io_wakes := tl (io_wakes io)\<rparr>"

text \<open>
  Waiting for room in the buffer. In \<^verbatim>\<open>tty_push_char\<close> a wait that does not return 0 ends the loop
  (\<open>intr\<close>); the loop in the raw mode tests for a negative number.
\<close>

fun await_room ::
  "bool \<Rightarrow> bool \<Rightarrow> (nat \<times> (tty \<Rightarrow> tty)) list \<Rightarrow> tty \<Rightarrow> (int \<times> tty \<times> (nat \<times> (tty \<Rightarrow> tty)) list) option" where
  "await_room intr blocking ws t =
     (if y_bufsize t < TTY_BUF_SIZE then Some (0, t, ws)
      else if \<not> blocking then Some (EAGAIN, t, ws)
      else case ws of
             [] \<Rightarrow> None
           | (r, others) # ws' \<Rightarrow>
               if intr \<and> r \<noteq> 0 then Some (EINTR, others t, ws')
               else await_room intr blocking ws' (others t))"

declare await_room.simps [simp del]

definition tty_push_char :: "byte \<Rightarrow> bool \<Rightarrow> bool \<Rightarrow> tio \<Rightarrow> (int \<times> tio) option" where
  "tty_push_char ch flag blocking io =
     (case await_room True blocking (io_waits io) (io_tty io) of
        None \<Rightarrow> None
      | Some (err, t, ws) \<Rightarrow>
          if err < 0 then Some (err, io\<lparr>io_tty := t, io_waits := ws\<rparr>)
          else Some (0, io\<lparr>io_tty := t\<lparr>y_buf := (y_buf t)(y_bufsize t := ch),
                                       y_flag := (y_flag t)(y_bufsize t := flag),
                                       y_bufsize := y_bufsize t + 1\<rparr>,
                           io_waits := ws\<rparr>))"

definition tty_echo :: "byte list \<Rightarrow> tio \<Rightarrow> tio" where
  "tty_echo data io = io\<lparr>io_events := io_events io @ [Echo data]\<rparr>"

text \<open>\<^verbatim>\<open>ch == cc[i]\<close> with a signed character and an unsigned entry.\<close>

definition is_cc :: "tty \<Rightarrow> nat \<Rightarrow> byte \<Rightarrow> bool" where
  "is_cc t i ch \<longleftrightarrow> sint ch = uint (t_cc (y_termios t) i)"

definition tty_send_input_signal :: "byte \<Rightarrow> tio \<Rightarrow> bool \<times> tio" where
  "tty_send_input_signal ch io =
     (let t = io_tty io
      in if \<not> has_flag (t_lflags (y_termios t)) ISIG then (False, io)
         else if ch = 0 then (False, io)
         else case (if is_cc t VINTR ch then Some SIGINT else if is_cc t VQUIT ch then Some SIGQUIT
                    else if is_cc t VSUSP ch then Some SIGTSTP else None) of
                None \<Rightarrow> (False, io)
              | Some sig \<Rightarrow>
                  (True,
                   if y_fg_group t \<noteq> 0 then
                     io\<lparr>io_tty := (if has_flag (t_lflags (y_termios t)) NOFLSH then t else t\<lparr>y_bufsize := 0\<rparr>),
                        io_queue := io_queue io OR push_bit (sig - 1) 1\<rparr>
                   else io))"

definition should_echoctl :: "u32 \<Rightarrow> tty \<Rightarrow> byte \<Rightarrow> bool" where
  "should_echoctl lflags t ch \<longleftrightarrow>
     has_flag lflags ECHOCTL \<and> (0 \<le> sint ch \<and> sint ch < 32 \<or> ch = 0x7f) \<and>
     \<not> (ch = 9 \<or> ch = 10 \<or> is_cc t VSTART ch \<or> is_cc t VSTOP ch)"

text \<open>Deleting characters from the end; the count is at most the size of the buffer.\<close>

primrec erase_loop :: "nat \<Rightarrow> bool \<Rightarrow> u32 \<Rightarrow> tio \<Rightarrow> tio" where
  "erase_loop 0 echo lflags io = io"
| "erase_loop (Suc n) echo lflags io =
     (let t = io_tty io
      in if y_flag t (y_bufsize t - 1) then io
         else let t' = t\<lparr>y_bufsize := y_bufsize t - 1\<rparr>;
                  io1 = io\<lparr>io_tty := t'\<rparr>;
                  io2 = (if echo then tty_echo [8, 32, 8] io1 else io1);
                  io3 = (if echo \<and> should_echoctl lflags t' (y_buf t' (y_bufsize t'))
                         then tty_echo [8, 32, 8] io2 else io2)
              in erase_loop n echo lflags io3)"

definition canon_erase :: "byte \<Rightarrow> u32 \<Rightarrow> tio \<Rightarrow> tio" where
  "canon_erase ch lflags io =
     (let t = io_tty io;
          one = (is_cc t VERASE ch \<and> y_bufsize t > 0);
          count = (if one then 1 else y_bufsize t);
          echo = (has_flag lflags (if one then ECHOE else ECHOK) \<and> has_flag lflags ECHO)
      in erase_loop count echo lflags io)"

definition echo_char :: "bool \<Rightarrow> u32 \<Rightarrow> byte \<Rightarrow> tio \<Rightarrow> tio" where
  "echo_char echo lflags ch io =
     (if \<not> echo then io
      else if should_echoctl lflags (io_tty io) ch then tty_echo [ch XOR 0x40] (tty_echo [0x5e] io)
      else tty_echo [ch] io)"

text \<open>One character in canonical mode; a negative result ends the loop.\<close>

definition canon_char :: "bool \<Rightarrow> u32 \<Rightarrow> u32 \<Rightarrow> byte \<Rightarrow> tio \<Rightarrow> (int \<times> tio) option" where
  "canon_char blocking lflags iflags input io =
     (let echo = has_flag lflags ECHO;
          ch = (if has_flag iflags INLCR \<and> input = 10 then 13
                else if has_flag iflags ICRNL \<and> input = 13 then 10 else input);
          t = io_tty io;
          no_special = (\<lambda>io. case tty_push_char ch False blocking io of
                               None \<Rightarrow> None
                             | Some (err, io1) \<Rightarrow>
                                 if err < 0 then Some (err, io1) else Some (0, echo_char echo lflags ch io1));
          canon_wake = (\<lambda>ch io. case tty_push_char ch True blocking io of
                                  None \<Rightarrow> None
                                | Some (err, io1) \<Rightarrow>
                                    if err < 0 then Some (err, io1) else Some (0, tty_input_wakeup io1))
      in if has_flag iflags IGNCR \<and> ch = 13 then Some (0, io)
         else if ch = 0 then no_special io
         else if is_cc t VERASE ch \<or> is_cc t VKILL ch then Some (0, canon_erase ch lflags io)
         else if is_cc t VEOF ch then canon_wake 0 io
         else if ch = 10 \<or> is_cc t VEOL ch then canon_wake ch (if echo then tty_echo [13, 10] io else io)
         else let (sent, io1) = tty_send_input_signal ch io
              in if sent then Some (0, echo_char echo lflags ch io1) else no_special io1)"

fun canon_loop :: "bool \<Rightarrow> u32 \<Rightarrow> u32 \<Rightarrow> byte list \<Rightarrow> nat \<Rightarrow> tio \<Rightarrow> (int \<times> nat \<times> tio) option" where
  "canon_loop blocking lflags iflags [] n io = Some (0, n, io)"
| "canon_loop blocking lflags iflags (ch # input) n io =
     (case canon_char blocking lflags iflags ch io of
        None \<Rightarrow> None
      | Some (err, io1) \<Rightarrow>
          if err < 0 then Some (err, n, io1) else canon_loop blocking lflags iflags input (n + 1) io1)"

text \<open>In the other mode the flag of a character is not written.\<close>

fun raw_loop :: "bool \<Rightarrow> byte list \<Rightarrow> nat \<Rightarrow> tio \<Rightarrow> (int \<times> nat \<times> tio) option" where
  "raw_loop blocking [] n io = Some (0, n, io)"
| "raw_loop blocking (ch # input) n io =
     (let (sent, io1) = tty_send_input_signal ch io
      in if sent then raw_loop blocking input (n + 1) io1
         else case await_room False blocking (io_waits io1) (io_tty io1) of
                None \<Rightarrow> None
              | Some (err, t, ws) \<Rightarrow>
                  if err < 0 then Some (err, n, io1\<lparr>io_tty := t, io_waits := ws\<rparr>)
                  else raw_loop blocking input (n + 1)
                         (io1\<lparr>io_tty := t\<lparr>y_buf := (y_buf t)(y_bufsize t := ch), y_bufsize := y_bufsize t + 1\<rparr>,
                              io_waits := ws\<rparr>))"

text \<open>The queued signals go to the foreground process group after the terminal is unlocked.\<close>

fun send_queue :: "nat \<Rightarrow> nat \<Rightarrow> u64 \<Rightarrow> nat list \<Rightarrow> kstate \<Rightarrow> kstate option" where
  "send_queue cur fg_group queue [] k = Some k"
| "send_queue cur fg_group queue (sig # sigs) k =
     (if queue AND push_bit (sig - 1) 1 = 0 then send_queue cur fg_group queue sigs k
      else case send_group_signal cur fg_group sig SIGINFO_NIL k of
             None \<Rightarrow> None
           | Some (err, k1) \<Rightarrow> send_queue cur fg_group queue sigs k1)"

definition tty_input ::
  "nat \<Rightarrow> nat \<Rightarrow> byte list \<Rightarrow> bool \<Rightarrow> (nat \<times> (tty \<Rightarrow> tty)) list \<Rightarrow> (tty \<Rightarrow> tty) list \<Rightarrow>
   tstate \<Rightarrow> (int \<times> tstate) option" where
  "tty_input cur a input blocking waits wakes st =
     (case ttys st a of
        None \<Rightarrow> None
      | Some t \<Rightarrow>
          let lflags = t_lflags (y_termios t);
              iflags = t_iflags (y_termios t);
              io = \<lparr>io_tty = t, io_events = [], io_queue = 0, io_waits = waits, io_wakes = wakes\<rparr>
          in (case (if has_flag lflags ICANON then canon_loop blocking lflags iflags input 0 io
                    else map_option (\<lambda>(err, n, io1).
                           (err, n, if y_bufsize (io_tty io1) > 0 then tty_input_wakeup io1 else io1))
                           (raw_loop blocking input 0 io)) of
                None \<Rightarrow> None
              | Some (err, done, io1) \<Rightarrow>
                  if y_bufsize (io_tty io1) > TTY_BUF_SIZE then None
                  else
                    let fg_group = y_fg_group (io_tty io1)
                    in map_option (\<lambda>k.
                         (if done > 0 then int done else err,
                          st\<lparr>ttys := (ttys st)(a \<mapsto> io_tty io1), ks := k,
                             tevents := tevents st @ map (Pair a) (io_events io1)\<rparr>))
                       (if fg_group \<noteq> 0 then send_queue cur fg_group (io_queue io1) [1..<NUM_SIGS] (ks st)
                        else Some (ks st))))"

subsection \<open>Reading and writing\<close>

definition tty_read_into_buf :: "nat \<Rightarrow> tty \<Rightarrow> (byte list \<times> tty) option" where
  "tty_read_into_buf n t =
     (if n > y_bufsize t then None
      else let m = y_bufsize t - n
           in Some (map (y_buf t) [0..<n],
                    t\<lparr>y_bufsize := m, y_buf := (\<lambda>i. if i < m then y_buf t (i + n) else y_buf t i),
                      y_flag := (\<lambda>i. if i < m then y_flag t (i + n) else y_flag t i)\<rparr>))"

definition tty_canon_size :: "tty \<Rightarrow> nat option" where
  "tty_canon_size t = map_option Suc (find (y_flag t) [0..<y_bufsize t])"

definition pty_is_half_closed_master :: "nat \<Rightarrow> tstate \<Rightarrow> bool option" where
  "pty_is_half_closed_master a st =
     (case ttys st a of
        None \<Rightarrow> None
      | Some t \<Rightarrow>
          if y_driver t \<noteq> Pty_master then Some False
          else case y_other t of
                 None \<Rightarrow> None
               | Some b \<Rightarrow>
                   map_option (\<lambda>s. y_ever_opened s \<and> (y_refcount s = 1 \<or> y_hung_up s)) (ttys st b))"

definition cur_group :: "nat \<Rightarrow> kstate \<Rightarrow> (task \<times> tgroup) option" where
  "cur_group cur k =
     (case tasks k cur of None \<Rightarrow> None | Some p \<Rightarrow> map_option (Pair p) (groups k (tk_group p)))"

definition tty_is_current :: "nat \<Rightarrow> nat \<Rightarrow> tstate \<Rightarrow> bool option" where
  "tty_is_current cur a st = map_option (\<lambda>(p, g). tg_tty g = Some a) (cur_group cur (ks st))"

definition tty_signal_if_background :: "nat \<Rightarrow> nat \<Rightarrow> nat \<Rightarrow> nat \<Rightarrow> tstate \<Rightarrow> (int \<times> tstate) option" where
  "tty_signal_if_background cur a current_pgid sig st =
     (case (tty_is_current cur a st, ttys st a) of
        (Some current, Some t) \<Rightarrow>
          if \<not> current then Some (0, st)
          else if y_fg_group t = 0 \<or> current_pgid = y_fg_group t then Some (0, st)
          else map_option (\<lambda>(sent, k). (if sent then EINTR else EIO, st\<lparr>ks := k\<rparr>)) (try_self_signal cur sig (ks st))
      | _ \<Rightarrow> None)"

text \<open>
  The two loops that wait for input, for a complete line and for a number of characters. The number a
  wait returns is that of the host, which is not negative.
\<close>

fun canon_wait ::
  "bool \<Rightarrow> nat \<Rightarrow> (nat \<times> (tstate \<Rightarrow> tstate)) list \<Rightarrow> tstate \<Rightarrow> ((int + nat) \<times> tstate) option" where
  "canon_wait nonblock a ws st =
     (case ttys st a of
        None \<Rightarrow> None
      | Some t \<Rightarrow>
         (case tty_canon_size t of
            Some n \<Rightarrow> Some (Inr n, st)
          | None \<Rightarrow>
             (case pty_is_half_closed_master a st of
                None \<Rightarrow> None
              | Some closed \<Rightarrow>
                  if closed then Some (Inl EIO, st)
                  else if nonblock then Some (Inl EAGAIN, st)
                  else (case ws of
                          [] \<Rightarrow> None
                        | (r, others) # ws' \<Rightarrow>
                            if int r < 0 then Some (Inl (int r), others st)
                            else canon_wait nonblock a ws' (others st)))))"

fun raw_wait ::
  "bool \<Rightarrow> nat \<Rightarrow> nat \<Rightarrow> (nat \<times> (tstate \<Rightarrow> tstate)) list \<Rightarrow> tstate \<Rightarrow> (int \<times> tstate) option" where
  "raw_wait nonblock a vmin ws st =
     (case ttys st a of
        None \<Rightarrow> None
      | Some t \<Rightarrow>
          if y_bufsize t \<ge> vmin then Some (0, st)
          else
            (case pty_is_half_closed_master a st of
               None \<Rightarrow> None
             | Some closed \<Rightarrow>
                 if closed then Some (EIO, st)
                 else if nonblock then Some (EAGAIN, st)
                 else (case ws of
                         [] \<Rightarrow> None
                       | (r, others) # ws' \<Rightarrow>
                           if int r = ETIMEDOUT then Some (0, others st)
                           else if int r = EINTR then Some (EINTR, others st)
                           else raw_wait nonblock a vmin ws' (others st))))"

declare canon_wait.simps [simp del] raw_wait.simps [simp del]

text \<open>\<^verbatim>\<open>tty->hung_up || pty_is_half_closed_master(tty)\<close>\<close>

definition tty_dead :: "nat \<Rightarrow> tstate \<Rightarrow> bool option" where
  "tty_dead a st =
     (case ttys st a of
        None \<Rightarrow> None
      | Some t \<Rightarrow> if y_hung_up t then Some True else pty_is_half_closed_master a st)"

text \<open>The wait of \<^verbatim>\<open>tty_read\<close>, with the number of characters to take in the end.\<close>

definition read_wait ::
  "bool \<Rightarrow> nat \<Rightarrow> tty \<Rightarrow> nat \<Rightarrow> (nat \<times> (tstate \<Rightarrow> tstate)) list \<Rightarrow> tstate \<Rightarrow> ((int + nat) \<times> tstate) option" where
  "read_wait nonblock a t bufsize ws st =
     (if has_flag (t_lflags (y_termios t)) ICANON then
        (case canon_wait nonblock a ws st of
           None \<Rightarrow> None
         | Some (Inl err, st1) \<Rightarrow> Some (Inl err, st1)
         | Some (Inr n, st1) \<Rightarrow>
             map_option (\<lambda>t1. (Inr (min bufsize (if y_buf t1 (n - 1) = 0 then n - 1 else n)), st1)) (ttys st1 a))
      else
        map_option (\<lambda>(err, st1). (if err < 0 then Inl err else Inr bufsize, st1))
          (raw_wait nonblock a (unat (t_cc (y_termios t) VMIN)) ws st))"

definition take_input :: "nat \<Rightarrow> nat \<Rightarrow> tstate \<Rightarrow> (byte list \<times> tstate) option" where
  "take_input a bufsize st =
     (case ttys st a of
        None \<Rightarrow> None
      | Some t \<Rightarrow>
         (case tty_read_into_buf (min bufsize (y_bufsize t)) t of
            None \<Rightarrow> None
          | Some (out, t1) \<Rightarrow>
             (case (if y_bufsize t1 > 0 \<and> y_buf t1 0 = 0 \<and> y_flag t1 0
                    then map_option (\<lambda>(_, t2). (t2, [(a, Notify_consumed), (a, Notify_consumed)])) (tty_read_into_buf 1 t1)
                    else Some (t1, [(a, Notify_consumed)])) of
                None \<Rightarrow> None
              | Some (t2, ev) \<Rightarrow> Some (out, st\<lparr>ttys := (ttys st)(a \<mapsto> t2), tevents := tevents st @ ev\<rparr>))))"

text \<open>The result is the number returned, the bytes stored in the buffer of the caller, and the state.\<close>

definition tty_read ::
  "nat \<Rightarrow> bool \<Rightarrow> nat \<Rightarrow> nat \<Rightarrow> (nat \<times> (tstate \<Rightarrow> tstate)) list \<Rightarrow> tstate \<Rightarrow> (int \<times> byte list \<times> tstate) option" where
  "tty_read cur nonblock a bufsize ws st =
     (if bufsize = 0 then Some (0, [], st)
      else case (ttys st a, tty_dead a st) of
        (Some t, Some dead) \<Rightarrow>
          if dead then Some (0, [], st)
          else (case cur_group cur (ks st) of
                  None \<Rightarrow> None
                | Some (p, g) \<Rightarrow>
                   (case tty_signal_if_background cur a (tg_pgid g) SIGTTIN st of
                      None \<Rightarrow> None
                    | Some (err, st1) \<Rightarrow>
                        if err < 0 then Some (err, [], st1)
                        else
                          let packet = (y_driver t = Pty_master \<and> y_packet_mode t);
                              pre = (if packet then [y_packet_flags t] else []);
                              size1 = bufsize - length pre
                          in if packet \<and> (y_packet_flags t \<noteq> 0 \<or> size1 = 0) then Some (1, pre, st1)
                             else (case read_wait nonblock a t size1 ws st1 of
                                     None \<Rightarrow> None
                                   | Some (Inl err, st2) \<Rightarrow> Some (err, pre, st2)
                                   | Some (Inr n, st2) \<Rightarrow>
                                       map_option (\<lambda>(out, st3). (int (length pre + length out), pre @ out, st3))
                                         (take_input a n st2))))
      | _ \<Rightarrow> None)"

text \<open>Output processing, and the write to the driver; \<open>memory\<close> tells if the allocation succeeds.\<close>

fun tty_output :: "u32 \<Rightarrow> byte list \<Rightarrow> byte list" where
  "tty_output oflags [] = []"
| "tty_output oflags (ch # buf) =
     (if ch = 13 \<and> has_flag oflags ONLRET then tty_output oflags buf
      else if ch = 13 \<and> has_flag oflags OCRNL then 10 # tty_output oflags buf
      else if ch = 10 \<and> has_flag oflags ONLCR then 13 # ch # tty_output oflags buf
      else ch # tty_output oflags buf)"

definition tty_write ::
  "(nat \<Rightarrow> byte list \<Rightarrow> bool \<Rightarrow> tstate \<Rightarrow> (int \<times> tstate) option) \<Rightarrow> bool \<Rightarrow> bool \<Rightarrow> nat \<Rightarrow> byte list \<Rightarrow>
   tstate \<Rightarrow> (int \<times> tstate) option" where
  "tty_write driver_write memory nonblock a buf st =
     (case (ttys st a, tty_dead a st) of
        (Some t, Some dead) \<Rightarrow>
          if dead then Some (EIO, st)
          else let oflags = t_oflags (y_termios t);
                   out = (if has_flag oflags OPOST then tty_output oflags buf else buf)
               in if has_flag oflags OPOST \<and> \<not> memory \<and> out \<noteq> [] then None
                  else map_option (\<lambda>(err, st1). (if err < 0 then err else int (length buf), st1))
                         (driver_write a out (\<not> nonblock) st)
      | _ \<Rightarrow> None)"

abbreviation (input) POLL_READ :: nat where "POLL_READ \<equiv> 1"
abbreviation (input) POLL_PRI :: nat where "POLL_PRI \<equiv> 2"
abbreviation (input) POLL_WRITE :: nat where "POLL_WRITE \<equiv> 4"
abbreviation (input) POLL_ERR :: nat where "POLL_ERR \<equiv> 8"
abbreviation (input) POLL_HUP :: nat where "POLL_HUP \<equiv> 16"

definition tty_poll :: "nat \<Rightarrow> tstate \<Rightarrow> nat option" where
  "tty_poll a st =
     (case (ttys st a, tty_dead a st) of
        (Some t, Some dead) \<Rightarrow>
          let types = (if y_hung_up t then POLL_WRITE OR POLL_READ OR POLL_ERR OR POLL_HUP
                       else if dead then POLL_WRITE OR POLL_READ OR POLL_HUP
                       else if (if has_flag (t_lflags (y_termios t)) ICANON then tty_canon_size t \<noteq> None
                                else y_bufsize t > 0)
                       then POLL_WRITE OR POLL_READ else POLL_WRITE)
          in Some (if y_driver t = Pty_master \<and> y_packet_flags t \<noteq> 0 then types OR POLL_PRI else types)
      | _ \<Rightarrow> None)"

section \<open>The edited lines\<close>

text \<open>
  The specification of the canonical mode. The buffer holds complete lines, the last character of
  each marked by its flag, and an unfinished line. Every typed character edits the unfinished line,
  completes it or throws everything away, and echoes something.
\<close>

definition content :: "tty \<Rightarrow> (byte \<times> bool) list" where
  "content t = map (\<lambda>i. (y_buf t i, y_flag t i)) [0..<y_bufsize t]"

definition plain :: "byte list \<Rightarrow> (byte \<times> bool) list" where
  "plain p = map (\<lambda>c. (c, False)) p"

definition mark :: "byte list \<Rightarrow> (byte \<times> bool) list" where
  "mark l = plain (butlast l) @ [(last l, True)]"

definition holds :: "tty \<Rightarrow> byte list list \<Rightarrow> byte list \<Rightarrow> bool" where
  "holds t ls p \<longleftrightarrow> [] \<notin> set ls \<and> content t = concat (map mark ls) @ plain p"

definition input_signal :: "tty \<Rightarrow> byte \<Rightarrow> nat option" where
  "input_signal t ch =
     (if \<not> has_flag (t_lflags (y_termios t)) ISIG \<or> ch = 0 then None
      else if is_cc t VINTR ch then Some SIGINT else if is_cc t VQUIT ch then Some SIGQUIT
      else if is_cc t VSUSP ch then Some SIGTSTP else None)"

abbreviation lflag :: "tty \<Rightarrow> u32 \<Rightarrow> bool" where
  "lflag t m \<equiv> has_flag (t_lflags (y_termios t)) m"

abbreviation iflag :: "tty \<Rightarrow> u32 \<Rightarrow> bool" where
  "iflag t m \<equiv> has_flag (t_iflags (y_termios t)) m"

definition char_echo :: "tty \<Rightarrow> byte \<Rightarrow> byte list list" where
  "char_echo t ch =
     (if \<not> lflag t ECHO then []
      else if should_echoctl (t_lflags (y_termios t)) t ch then [[0x5e], [ch XOR 0x40]] else [[ch]])"

definition erase_echo :: "tty \<Rightarrow> byte list \<Rightarrow> byte list list" where
  "erase_echo t cs =
     concat (map (\<lambda>c. [8, 32, 8] # (if should_echoctl (t_lflags (y_termios t)) t c then [[8, 32, 8]] else [])) (rev cs))"

definition translated :: "tty \<Rightarrow> byte \<Rightarrow> byte" where
  "translated t ch =
     (if iflag t INLCR \<and> ch = 10 then 13 else if iflag t ICRNL \<and> ch = 13 then 10 else ch)"

fun edit_char :: "tty \<Rightarrow> byte \<Rightarrow> byte list list \<times> byte list \<Rightarrow> (byte list list \<times> byte list) \<times> byte list list" where
  "edit_char t input (ls, p) =
     (let ch = translated t input
      in if iflag t IGNCR \<and> ch = 13 then ((ls, p), [])
         else if ch = 0 then ((ls, p @ [ch]), char_echo t ch)
         else if is_cc t VERASE ch
         then ((ls, butlast p), if lflag t ECHOE \<and> lflag t ECHO then erase_echo t (drop (length p - 1) p) else [])
         else if is_cc t VKILL ch then ((ls, []), if lflag t ECHOK \<and> lflag t ECHO then erase_echo t p else [])
         else if is_cc t VEOF ch then ((ls @ [p @ [0]], []), [])
         else if ch = 10 \<or> is_cc t VEOL ch then ((ls @ [p @ [ch]], []), if lflag t ECHO then [[13, 10]] else [])
         else case input_signal t ch of
                Some sig \<Rightarrow> (if y_fg_group t \<noteq> 0 \<and> \<not> lflag t NOFLSH then ([], []) else (ls, p), char_echo t ch)
              | None \<Rightarrow> ((ls, p @ [ch]), char_echo t ch))"

text \<open>The signal a typed character stands for, when it is none of the editing characters.\<close>

definition typed_signal :: "tty \<Rightarrow> byte \<Rightarrow> nat option" where
  "typed_signal t input =
     (let ch = translated t input
      in if iflag t IGNCR \<and> ch = 13 \<or> is_cc t VERASE ch \<or> is_cc t VKILL ch \<or> is_cc t VEOF ch \<or> ch = 10 \<or> is_cc t VEOL ch
         then None else input_signal t ch)"

definition queued :: "tty \<Rightarrow> byte \<Rightarrow> u64" where
  "queued t input =
     (case typed_signal t input of Some sig \<Rightarrow> if y_fg_group t \<noteq> 0 then push_bit (sig - 1) 1 else 0 | None \<Rightarrow> 0)"

fun edit :: "tty \<Rightarrow> byte list \<Rightarrow> byte list list \<times> byte list \<Rightarrow> (byte list list \<times> byte list) \<times> byte list list" where
  "edit t [] s = (s, [])"
| "edit t (c # cs) s = (let (s1, e1) = edit_char t c s; (s2, e2) = edit t cs s1 in (s2, e1 @ e2))"

fun queued_all :: "tty \<Rightarrow> byte list \<Rightarrow> u64" where
  "queued_all t [] = 0"
| "queued_all t (c # cs) = queued t c OR queued_all t cs"

fun echoes :: "tty_event list \<Rightarrow> byte list list" where
  "echoes [] = []"
| "echoes (Echo d # evs) = d # echoes evs"
| "echoes (_ # evs) = echoes evs"

lemma echoes_append [simp]: "echoes (a @ b) = echoes a @ echoes b"
  by (induction a rule: echoes.induct) auto

subsection \<open>The buffer\<close>

text \<open>Two terminals that differ in their buffers only.\<close>

definition same_cfg :: "tty \<Rightarrow> tty \<Rightarrow> bool" where
  "same_cfg t t' \<longleftrightarrow> t' = t\<lparr>y_buf := y_buf t', y_flag := y_flag t', y_bufsize := y_bufsize t'\<rparr>"

lemma same_cfg_refl [simp]: "same_cfg t t"
  by (simp add: same_cfg_def)

lemma same_cfg_trans: "same_cfg t t' \<Longrightarrow> same_cfg t' t'' \<Longrightarrow> same_cfg t t''"
  unfolding same_cfg_def by (cases t; cases t'; cases t''; simp)

lemma same_cfg_upd:
  "same_cfg t t' \<Longrightarrow> same_cfg t (t'\<lparr>y_bufsize := n\<rparr>)"
  "same_cfg t t' \<Longrightarrow> same_cfg t (t'\<lparr>y_buf := b, y_flag := f, y_bufsize := n\<rparr>)"
  "same_cfg t t' \<Longrightarrow> same_cfg t (t'\<lparr>y_bufsize := n, y_buf := b, y_flag := f\<rparr>)"
  unfolding same_cfg_def by (cases t; cases t'; simp)+

lemma same_cfgD:
  assumes "same_cfg t t'"
  shows "y_termios t' = y_termios t" "y_fg_group t' = y_fg_group t" "is_cc t' = is_cc t"
    "should_echoctl m t' = should_echoctl m t" "y_driver t' = y_driver t" "y_other t' = y_other t"
    "y_hung_up t' = y_hung_up t" "y_packet_mode t' = y_packet_mode t" "y_packet_flags t' = y_packet_flags t"
    "y_refcount t' = y_refcount t" "y_ever_opened t' = y_ever_opened t"
proof -
  have e: "t' = t\<lparr>y_buf := y_buf t', y_flag := y_flag t', y_bufsize := y_bufsize t'\<rparr>"
    using assms by (simp add: same_cfg_def)
  show "y_termios t' = y_termios t" by (subst e) simp
  then show c: "is_cc t' = is_cc t" by (intro ext) (simp add: is_cc_def)
  show "should_echoctl m t' = should_echoctl m t" by (intro ext) (simp add: should_echoctl_def c)
qed (subst assms [unfolded same_cfg_def], simp)+

lemma content_length [simp]: "length (content t) = y_bufsize t"
  by (simp add: content_def)

lemma plain_simps [simp]: "plain [] = []" "plain (c # p) = (c, False) # plain p" "plain (p @ q) = plain p @ plain q"
  "length (plain p) = length p" "plain p = [] \<longleftrightarrow> p = []"
  by (simp_all add: plain_def)

lemma plain_butlast: "butlast (plain p) = plain (butlast p)"
  by (simp add: plain_def map_butlast)

lemma mark_snoc [simp]: "mark (p @ [c]) = plain p @ [(c, True)]"
  by (simp add: mark_def)

lemma content_push:
  "content (t\<lparr>y_buf := (y_buf t)(y_bufsize t := ch), y_flag := (y_flag t)(y_bufsize t := f), y_bufsize := y_bufsize t + 1\<rparr>)
     = content t @ [(ch, f)]"
  by (simp add: content_def)

lemma content_pop: "content (t\<lparr>y_bufsize := y_bufsize t - 1\<rparr>) = butlast (content t)"
  by (cases "y_bufsize t") (simp_all add: content_def)

lemma content_last: "0 < y_bufsize t \<Longrightarrow> last (content t) = (y_buf t (y_bufsize t - 1), y_flag t (y_bufsize t - 1))"
  by (cases "y_bufsize t") (simp_all add: content_def)

lemma holds_empty [simp]: "holds (t\<lparr>y_bufsize := 0\<rparr>) [] []"
  by (simp add: holds_def content_def)

lemma holds_length: "holds t ls p \<Longrightarrow> y_bufsize t = length (concat (map mark ls)) + length p"
  by (metis content_length holds_def length_append plain_simps(4))

lemma holds_flag:
  assumes "holds t ls p" and "0 < y_bufsize t"
  shows "y_flag t (y_bufsize t - 1) \<longleftrightarrow> p = []"
proof -
  have c: "content t = concat (map mark ls) @ plain p" using assms(1) by (simp add: holds_def)
  have "content t \<noteq> []" using assms(2) by (metis content_length length_greater_0_conv)
  have "snd (last (content t)) \<longleftrightarrow> p = []"
  proof (cases p rule: rev_cases)
    case Nil
    then have "ls \<noteq> []" using c \<open>content t \<noteq> []\<close> by auto
    then show ?thesis using c Nil by (cases ls rule: rev_cases) (simp_all add: mark_def)
  next
    case (snoc q x)
    then show ?thesis using c by simp
  qed
  then show ?thesis using content_last [OF assms(2)] by simp
qed

lemma holds_pop:
  assumes "holds t ls p" and "p \<noteq> []"
  shows "holds (t\<lparr>y_bufsize := y_bufsize t - 1\<rparr>) ls (butlast p)" "y_buf t (y_bufsize t - 1) = last p"
proof -
  have c: "content t = concat (map mark ls) @ plain p" using assms(1) by (simp add: holds_def)
  have n: "0 < y_bufsize t" using holds_length [OF assms(1)] assms(2) by simp
  show "holds (t\<lparr>y_bufsize := y_bufsize t - 1\<rparr>) ls (butlast p)"
    using assms unfolding holds_def content_pop by (simp add: butlast_append plain_butlast)
  have "last (content t) = (last p, False)" using c assms(2) by (simp add: plain_def last_map)
  then show "y_buf t (y_bufsize t - 1) = last p" using content_last [OF n] by simp
qed

lemma holds_push:
  assumes "holds t ls p"
  shows "holds (t\<lparr>y_buf := (y_buf t)(y_bufsize t := ch), y_flag := (y_flag t)(y_bufsize t := False), y_bufsize := y_bufsize t + 1\<rparr>)
           ls (p @ [ch])" (is ?plain)
    and "holds (t\<lparr>y_buf := (y_buf t)(y_bufsize t := ch), y_flag := (y_flag t)(y_bufsize t := True), y_bufsize := y_bufsize t + 1\<rparr>)
           (ls @ [p @ [ch]]) []" (is ?marked)
  using assms unfolding holds_def content_push by simp_all

subsection \<open>One character\<close>

text \<open>The state of the loop: the terminal \<open>t\<close> with other contents, and nobody to interfere.\<close>

definition line_io :: "tty \<Rightarrow> tio \<Rightarrow> byte list list \<times> byte list \<Rightarrow> bool" where
  "line_io t io s \<longleftrightarrow> same_cfg t (io_tty io) \<and> holds (io_tty io) (fst s) (snd s) \<and> io_wakes io = []"

text \<open>Two states of the loop that differ in the terminal and in echo and queue only.\<close>

definition io_adds :: "tio \<Rightarrow> tio \<Rightarrow> byte list list \<Rightarrow> u64 \<Rightarrow> bool" where
  "io_adds io io' es q \<longleftrightarrow>
     (\<exists>ev. io_events io' = io_events io @ ev \<and> echoes ev = es) \<and> io_queue io' = io_queue io OR q"

lemma io_adds_refl: "io_adds io io [] 0"
  by (simp add: io_adds_def)

lemma io_adds_trans: "io_adds a b es q \<Longrightarrow> io_adds b c es' q' \<Longrightarrow> io_adds a c (es @ es') (q OR q')"
  by (fastforce simp: io_adds_def or.assoc)

lemma echo_fields [simp]: "io_tty (tty_echo d io) = io_tty io" "io_wakes (tty_echo d io) = io_wakes io"
  by (simp_all add: tty_echo_def)

lemma io_adds_echo: "io_adds io io' es q \<Longrightarrow> io_adds io (tty_echo d io') (es @ [d]) q"
  by (fastforce simp: io_adds_def tty_echo_def)

lemma erase_loop_holds:
  assumes "line_io t io (ls, p)" and "k \<le> y_bufsize (io_tty io)"
  shows "line_io t (erase_loop k echo (t_lflags (y_termios t)) io) (ls, take (length p - k) p) \<and>
    io_adds io (erase_loop k echo (t_lflags (y_termios t)) io) (if echo then erase_echo t (drop (length p - k) p) else []) 0"
  using assms
proof (induction k arbitrary: io p)
  case 0
  then show ?case by (simp add: io_adds_refl erase_echo_def)
next
  case (Suc k)
  let ?t = "io_tty io" and ?m = "t_lflags (y_termios t)"
  have io: "same_cfg t ?t" "holds ?t ls p" "io_wakes io = []" using Suc.prems(1) by (simp_all add: line_io_def)
  note cfg = same_cfgD [OF io(1)]
  show ?case
  proof (cases "p = []")
    case True
    then have "y_flag ?t (y_bufsize ?t - 1)" using holds_flag [OF io(2)] Suc.prems(2) by simp
    then show ?thesis using Suc.prems(1) True by (simp add: io_adds_refl erase_echo_def)
  next
    case False
    then have nf: "\<not> y_flag ?t (y_bufsize ?t - 1)" using holds_flag [OF io(2)] Suc.prems(2) by simp
    let ?t' = "?t\<lparr>y_bufsize := y_bufsize ?t - 1\<rparr>"
    let ?es = "if echo then [8, 32, 8] # (if should_echoctl ?m t (last p) then [[8, 32, 8]] else []) else []"
    have sc: "should_echoctl ?m ?t' = should_echoctl ?m t" using same_cfgD(4) [OF same_cfg_upd(1) [OF io(1)]] by simp
    define io2 where "io2 = (if echo then tty_echo [8, 32, 8] (io\<lparr>io_tty := ?t'\<rparr>) else io\<lparr>io_tty := ?t'\<rparr>)"
    define io1 where "io1 = (if echo \<and> should_echoctl ?m ?t' (y_buf ?t' (y_bufsize ?t')) then tty_echo [8, 32, 8] io2 else io2)"
    have step: "erase_loop (Suc k) echo ?m io = erase_loop k echo ?m io1"
      using nf by (simp add: io1_def io2_def Let_def)
    have t1: "io_tty io1 = ?t'" "io_wakes io1 = []" using io(3) by (simp_all add: io1_def io2_def)
    have adds: "io_adds io io1 ?es 0"
      using holds_pop(2) [OF io(2) False] by (simp add: io1_def io2_def io_adds_def tty_echo_def sc [simplified])
    have l1: "line_io t io1 (ls, butlast p)"
      using same_cfg_upd(1) [OF io(1)] holds_pop(1) [OF io(2) False] t1 by (simp add: line_io_def)
    have "k \<le> y_bufsize (io_tty io1)" using Suc.prems(2) by (simp add: t1)
    note IH = Suc.IH [OF l1 this]
    have len: "length (butlast p) - k = length p - Suc k" by simp
    have tk: "take (length p - Suc k) (butlast p) = take (length p - Suc k) p"
      by (simp add: butlast_conv_take)
    have dr: "drop (length p - Suc k) p = drop (length p - Suc k) (butlast p) @ [last p]"
      using False by (cases p rule: rev_cases) (simp_all add: drop_append)
    have "erase_echo t (drop (length p - Suc k) p) =
        ([8, 32, 8] # (if should_echoctl ?m t (last p) then [[8, 32, 8]] else [])) @ erase_echo t (drop (length p - Suc k) (butlast p))"
      unfolding dr by (simp add: erase_echo_def)
    then show ?thesis
      unfolding step using conjunct1 [OF IH] io_adds_trans [OF adds conjunct2 [OF IH]]
      unfolding len tk by (cases echo) simp_all
  qed
qed

lemma push_char:
  assumes "y_bufsize (io_tty io) < TTY_BUF_SIZE"
  shows "tty_push_char ch flag blocking io =
    Some (0, io\<lparr>io_tty := (io_tty io)\<lparr>y_buf := (y_buf (io_tty io))(y_bufsize (io_tty io) := ch),
                                       y_flag := (y_flag (io_tty io))(y_bufsize (io_tty io) := flag),
                                       y_bufsize := y_bufsize (io_tty io) + 1\<rparr>\<rparr>)"
  using assms by (cases io) (simp add: tty_push_char_def await_room.simps)

lemma line_io_push:
  assumes "line_io t io (ls, p)"
  shows "line_io t (io\<lparr>io_tty := (io_tty io)\<lparr>y_buf := (y_buf (io_tty io))(y_bufsize (io_tty io) := ch),
      y_flag := (y_flag (io_tty io))(y_bufsize (io_tty io) := False), y_bufsize := y_bufsize (io_tty io) + 1\<rparr>\<rparr>) (ls, p @ [ch])"
    "line_io t (io\<lparr>io_tty := (io_tty io)\<lparr>y_buf := (y_buf (io_tty io))(y_bufsize (io_tty io) := ch),
      y_flag := (y_flag (io_tty io))(y_bufsize (io_tty io) := True), y_bufsize := y_bufsize (io_tty io) + 1\<rparr>\<rparr>) (ls @ [p @ [ch]], [])"
  using assms holds_push [of "io_tty io" ls p ch] by (simp_all add: line_io_def same_cfg_upd)

lemma echo_char_adds:
  assumes "same_cfg t (io_tty io')" and "io_adds io io' es q"
  shows "io_adds io (echo_char (lflag t ECHO) (t_lflags (y_termios t)) ch io') (es @ char_echo t ch) q"
    "io_tty (echo_char b m ch io') = io_tty io'" "io_wakes (echo_char b m ch io') = io_wakes io'"
  using io_adds_echo [OF io_adds_echo [OF assms(2), of "[0x5e]"], of "[ch XOR 0x40]"] io_adds_echo [OF assms(2), of "[ch]"] assms(2)
  by (simp_all add: echo_char_def char_echo_def same_cfgD(4) [OF assms(1)])

lemma wakeup_alone:
  assumes "line_io t io s"
  shows "line_io t (tty_input_wakeup io) s" "io_tty (tty_input_wakeup io) = io_tty io"
    "io_adds io0 io es q \<Longrightarrow> io_adds io0 (tty_input_wakeup io) es q"
  using assms by (auto simp: line_io_def tty_input_wakeup_def io_adds_def)

lemma signal_cases:
  assumes "same_cfg t (io_tty io)"
  shows "tty_send_input_signal ch io =
    (case input_signal t ch of
       None \<Rightarrow> (False, io)
     | Some sig \<Rightarrow>
         (True, if y_fg_group t \<noteq> 0 then
                  io\<lparr>io_tty := (if lflag t NOFLSH then io_tty io else (io_tty io)\<lparr>y_bufsize := 0\<rparr>),
                     io_queue := io_queue io OR push_bit (sig - 1) 1\<rparr>
                else io))"
  using same_cfgD [OF assms] by (simp add: tty_send_input_signal_def input_signal_def Let_def)

text \<open>A pushed character: the state after it, with what was echoed before and after.\<close>

lemma no_special_edit:
  assumes l: "line_io t io (ls, p)" and room: "y_bufsize (io_tty io) < TTY_BUF_SIZE"
  shows "\<exists>io'. (case tty_push_char ch False blocking io of
                  None \<Rightarrow> None
                | Some (err, io1) \<Rightarrow> if err < 0 then Some (err, io1)
                    else Some (0 :: int, echo_char (lflag t ECHO) (t_lflags (y_termios t)) ch io1)) = Some (0, io') \<and>
    line_io t io' (ls, p @ [ch]) \<and> io_adds io io' (char_echo t ch) 0 \<and> y_bufsize (io_tty io') \<le> y_bufsize (io_tty io) + 1"
proof -
  let ?t = "io_tty io"
  let ?io = "io\<lparr>io_tty := ?t\<lparr>y_buf := (y_buf ?t)(y_bufsize ?t := ch), y_flag := (y_flag ?t)(y_bufsize ?t := False),
    y_bufsize := y_bufsize ?t + 1\<rparr>\<rparr>"
  have l1: "line_io t ?io (ls, p @ [ch])" by (rule line_io_push(1) [OF l])
  then have cfg: "same_cfg t (io_tty ?io)" by (simp add: line_io_def)
  have "io_adds io ?io [] 0" by (simp add: io_adds_def)
  note e = echo_char_adds [OF cfg this]
  show ?thesis
    using l1 e(1) [of ch] e(2,3) by (simp add: push_char [OF room] line_io_def)
qed

lemma canon_wake_edit:
  assumes l: "line_io t io (ls, p)" and room: "y_bufsize (io_tty io) < TTY_BUF_SIZE"
  shows "\<exists>io'. (case tty_push_char ch True blocking io of
                  None \<Rightarrow> None
                | Some (err, io1) \<Rightarrow> if err < 0 then Some (err, io1) else Some (0 :: int, tty_input_wakeup io1)) = Some (0, io') \<and>
    line_io t io' (ls @ [p @ [ch]], []) \<and> io_adds io io' [] 0 \<and> y_bufsize (io_tty io') \<le> y_bufsize (io_tty io) + 1"
proof -
  let ?t = "io_tty io"
  let ?io = "io\<lparr>io_tty := ?t\<lparr>y_buf := (y_buf ?t)(y_bufsize ?t := ch), y_flag := (y_flag ?t)(y_bufsize ?t := True),
    y_bufsize := y_bufsize ?t + 1\<rparr>\<rparr>"
  have l1: "line_io t ?io (ls @ [p @ [ch]], [])" by (rule line_io_push(2) [OF l])
  have "io_adds io ?io [] 0" by (simp add: io_adds_def)
  then show ?thesis
    using wakeup_alone [OF l1] by (simp add: push_char [OF room])
qed

lemma canon_erase_edit:
  assumes l: "line_io t io (ls, p)" and c: "is_cc t VERASE ch \<or> is_cc t VKILL ch"
  shows "line_io t (canon_erase ch (t_lflags (y_termios t)) io) (ls, if is_cc t VERASE ch then butlast p else [])"
    "io_adds io (canon_erase ch (t_lflags (y_termios t)) io)
       (if is_cc t VERASE ch
        then if lflag t ECHOE \<and> lflag t ECHO then erase_echo t (drop (length p - 1) p) else []
        else if lflag t ECHOK \<and> lflag t ECHO then erase_echo t p else []) 0"
proof -
  let ?n = "y_bufsize (io_tty io)" and ?m = "t_lflags (y_termios t)"
  have io: "same_cfg t (io_tty io)" "holds (io_tty io) ls p" using l by (simp_all add: line_io_def)
  have n: "length p \<le> ?n" using holds_length [OF io(2)] by simp
  note ecc = same_cfgD(3) [OF io(1)]
  let ?one = "is_cc t VERASE ch \<and> ?n > 0"
  let ?k = "if ?one then 1 else ?n"
  let ?e = "lflag t (if ?one then ECHOE else ECHOK) \<and> lflag t ECHO"
  have def: "canon_erase ch ?m io = erase_loop ?k ?e ?m io"
    by (simp add: canon_erase_def Let_def ecc)
  have "?k \<le> ?n" by auto
  note run = erase_loop_holds [OF l this, of ?e]
  have "take (length p - ?k) p = (if is_cc t VERASE ch then butlast p else [])"
    using n by (auto simp: butlast_conv_take)
  then show "line_io t (canon_erase ch ?m io) (ls, if is_cc t VERASE ch then butlast p else [])"
    using run def by simp
  have "(if ?e then erase_echo t (drop (length p - ?k) p) else []) =
      (if is_cc t VERASE ch
       then if lflag t ECHOE \<and> lflag t ECHO then erase_echo t (drop (length p - 1) p) else []
       else if lflag t ECHOK \<and> lflag t ECHO then erase_echo t p else [])"
    using n by (auto simp: erase_echo_def)
  then show "io_adds io (canon_erase ch ?m io)
       (if is_cc t VERASE ch
        then if lflag t ECHOE \<and> lflag t ECHO then erase_echo t (drop (length p - 1) p) else []
        else if lflag t ECHOK \<and> lflag t ECHO then erase_echo t p else []) 0"
    using run def by simp
qed

lemma canon_char_edit:
  assumes l: "line_io t io s" and room: "y_bufsize (io_tty io) < TTY_BUF_SIZE"
  shows "\<exists>io'. canon_char blocking (t_lflags (y_termios t)) (t_iflags (y_termios t)) c io = Some (0, io') \<and>
    line_io t io' (fst (edit_char t c s)) \<and> io_adds io io' (snd (edit_char t c s)) (queued t c) \<and>
    y_bufsize (io_tty io') \<le> y_bufsize (io_tty io) + 1"
    (is "\<exists>io'. ?run = Some (0, io') \<and> ?post io'")
proof -
  obtain ls p where s: "s = (ls, p)" by (cases s)
  let ?m = "t_lflags (y_termios t)" and ?ch = "translated t c"
  note l = l [unfolded s]
  have io: "same_cfg t (io_tty io)" "holds (io_tty io) ls p" "io_wakes io = []" using l by (simp_all add: line_io_def)
  note ecc = same_cfgD(3) [OF io(1)]
  note push = no_special_edit [OF l room, of ?ch blocking]
  define ign where "ign \<longleftrightarrow> iflag t IGNCR \<and> ?ch = 13"
  note defs = canon_char_def Let_def translated_def [symmetric] ecc s edit_char.simps ign_def [symmetric]
  note qdefs = queued_def typed_signal_def input_signal_def Let_def ign_def [symmetric]
  consider (ign) ign
    | (nul) "\<not> ign" "?ch = 0"
    | (erase) "\<not> ign" "?ch \<noteq> 0" "is_cc t VERASE ?ch \<or> is_cc t VKILL ?ch"
    | (eof) "\<not> ign" "?ch \<noteq> 0" "\<not> (is_cc t VERASE ?ch \<or> is_cc t VKILL ?ch)" "is_cc t VEOF ?ch"
    | (eol) "\<not> ign" "?ch \<noteq> 0" "\<not> (is_cc t VERASE ?ch \<or> is_cc t VKILL ?ch)" "\<not> is_cc t VEOF ?ch"
        "?ch = 10 \<or> is_cc t VEOL ?ch"
    | (other) "\<not> ign" "?ch \<noteq> 0" "\<not> (is_cc t VERASE ?ch \<or> is_cc t VKILL ?ch)" "\<not> is_cc t VEOF ?ch"
        "\<not> (?ch = 10 \<or> is_cc t VEOL ?ch)"
    by blast
  then show ?thesis
  proof cases
    case ign
    then have "queued t c = 0" unfolding qdefs by simp
    then show ?thesis unfolding defs using ign l by (simp add: io_adds_refl)
  next
    case nul
    then have "queued t c = 0" unfolding qdefs by simp
    then show ?thesis unfolding defs nul(2) using nul(1) push [unfolded nul(2)] by simp
  next
    case erase
    note e = canon_erase_edit [OF l erase(3)]
    have "y_bufsize (io_tty (canon_erase ?ch ?m io)) \<le> y_bufsize (io_tty io)"
      using holds_length [OF io(2)] e(1) holds_length [of "io_tty (canon_erase ?ch ?m io)" ls]
      by (auto simp: line_io_def split: if_splits)
    moreover have "queued t c = 0" using erase unfolding qdefs by auto
    moreover have "?run = Some (0, canon_erase ?ch ?m io)" unfolding defs using erase by simp
    moreover have "fst (edit_char t c s) = (ls, if is_cc t VERASE ?ch then butlast p else [])"
      "snd (edit_char t c s) =
         (if is_cc t VERASE ?ch
          then if lflag t ECHOE \<and> lflag t ECHO then erase_echo t (drop (length p - 1) p) else []
          else if lflag t ECHOK \<and> lflag t ECHO then erase_echo t p else [])"
      unfolding defs using erase by (cases "is_cc t VERASE ?ch"; simp)+
    ultimately show ?thesis using e by simp
  next
    case eof
    then have "queued t c = 0" unfolding qdefs by auto
    then show ?thesis unfolding defs using eof canon_wake_edit [OF l room, of 0 blocking] by simp
  next
    case eol
    then have q: "queued t c = 0" unfolding qdefs by auto
    let ?io = "if lflag t ECHO then tty_echo [13, 10] io else io"
    have l1: "line_io t ?io (ls, p)" and n1: "io_tty ?io = io_tty io" using l by (simp_all add: line_io_def)
    have a1: "io_adds io ?io (if lflag t ECHO then [[13, 10]] else []) 0"
      by (simp add: io_adds_def tty_echo_def)
    from canon_wake_edit [OF l1, of ?ch blocking] room n1 obtain io' where
      io': "(case tty_push_char ?ch True blocking ?io of None \<Rightarrow> None
             | Some (err, io1) \<Rightarrow> if err < 0 then Some (err, io1) else Some (0 :: int, tty_input_wakeup io1)) = Some (0, io')"
      "line_io t io' (ls @ [p @ [?ch]], [])" "io_adds ?io io' [] 0" "y_bufsize (io_tty io') \<le> y_bufsize (io_tty io) + 1"
      by auto
    have "?run = Some (0, io')" unfolding defs using eol io'(1) by simp
    moreover have "?post io'" unfolding defs using io'(2,4) io_adds_trans [OF a1 io'(3)] eol q by simp
    ultimately show ?thesis by blast
  next
    case other
    note sig = signal_cases [OF io(1), of ?ch]
    have q: "queued t c = (case input_signal t ?ch of Some sig \<Rightarrow> if y_fg_group t \<noteq> 0 then push_bit (sig - 1) 1 else 0 | None \<Rightarrow> 0)"
      using other unfolding queued_def typed_signal_def Let_def ign_def [symmetric] by simp
    show ?thesis
    proof (cases "input_signal t ?ch")
      case None
      then show ?thesis unfolding defs using other push sig q by simp
    next
      case (Some g)
      define io1 where "io1 = snd (tty_send_input_signal ?ch io)"
      let ?s1 = "if y_fg_group t \<noteq> 0 \<and> \<not> lflag t NOFLSH then ([], []) else (ls, p)"
      have l1: "line_io t io1 ?s1"
        using l sig Some by (simp add: io1_def line_io_def same_cfg_upd)
      have a1: "io_adds io io1 [] (queued t c)" using sig Some q by (simp add: io1_def io_adds_def)
      have n1: "y_bufsize (io_tty io1) \<le> y_bufsize (io_tty io)" using sig Some by (simp add: io1_def)
      have cfg1: "same_cfg t (io_tty io1)" using l1 by (simp add: line_io_def)
      have run: "?run = Some (0, echo_char (lflag t ECHO) ?m ?ch io1)"
        unfolding defs using other sig Some by (simp add: io1_def)
      have "line_io t (echo_char (lflag t ECHO) ?m ?ch io1) ?s1"
        using l1 echo_char_adds(2,3) [OF cfg1 a1] by (simp add: line_io_def)
      then have "?post (echo_char (lflag t ECHO) ?m ?ch io1)"
        unfolding defs using echo_char_adds(1) [OF cfg1 a1, of ?ch] echo_char_adds(2) [OF cfg1 a1] n1 other Some by simp
      then show ?thesis using run by blast
    qed
  qed
qed

lemma canon_loop_edit:
  assumes "line_io t io s" and "y_bufsize (io_tty io) + length input \<le> TTY_BUF_SIZE"
  shows "\<exists>io'. canon_loop blocking (t_lflags (y_termios t)) (t_iflags (y_termios t)) input n io = Some (0, n + length input, io') \<and>
    line_io t io' (fst (edit t input s)) \<and> io_adds io io' (snd (edit t input s)) (queued_all t input) \<and>
    y_bufsize (io_tty io') \<le> TTY_BUF_SIZE"
  using assms
proof (induction input arbitrary: io s n)
  case Nil
  then show ?case by (simp add: io_adds_refl)
next
  case (Cons c cs)
  obtain io1 where io1: "canon_char blocking (t_lflags (y_termios t)) (t_iflags (y_termios t)) c io = Some (0, io1)"
    "line_io t io1 (fst (edit_char t c s))" "io_adds io io1 (snd (edit_char t c s)) (queued t c)"
    "y_bufsize (io_tty io1) \<le> y_bufsize (io_tty io) + 1"
    using canon_char_edit [OF Cons.prems(1)] Cons.prems(2) by fastforce
  obtain io' where io': "canon_loop blocking (t_lflags (y_termios t)) (t_iflags (y_termios t)) cs (n + 1) io1
      = Some (0, n + 1 + length cs, io')"
    "line_io t io' (fst (edit t cs (fst (edit_char t c s))))"
    "io_adds io1 io' (snd (edit t cs (fst (edit_char t c s)))) (queued_all t cs)" "y_bufsize (io_tty io') \<le> TTY_BUF_SIZE"
    using Cons.IH [OF io1(2), of "n + 1"] io1(4) Cons.prems(2) by auto
  show ?case
    using io1(1) io'(1,2,4) io_adds_trans [OF io1(3) io'(3)] by (simp add: case_prod_beta Let_def)
qed

lemma tty_input_run:
  assumes t: "ttys st a = Some t" and canon: "lflag t ICANON" and h: "holds t ls p"
    and room: "y_bufsize t + length input \<le> TTY_BUF_SIZE" and e: "edit t input (ls, p) = ((ls', p'), es)"
  shows "\<exists>t' ev. tty_input cur a input blocking waits [] st =
      map_option (\<lambda>k. (int (length input), st\<lparr>ttys := (ttys st)(a \<mapsto> t'), ks := k, tevents := tevents st @ map (Pair a) ev\<rparr>))
        (if y_fg_group t = 0 then Some (ks st)
         else send_queue cur (y_fg_group t) (queued_all t input) [1..<NUM_SIGS] (ks st)) \<and>
    same_cfg t t' \<and> holds t' ls' p' \<and> echoes ev = es"
proof -
  let ?io = "\<lparr>io_tty = t, io_events = [], io_queue = 0, io_waits = waits, io_wakes = []\<rparr>"
  have "line_io t ?io (ls, p)" using h by (simp add: line_io_def)
  then obtain io' where io': "canon_loop blocking (t_lflags (y_termios t)) (t_iflags (y_termios t)) input 0 ?io = Some (0, length input, io')"
    "line_io t io' (ls', p')" "io_adds ?io io' es (queued_all t input)" "y_bufsize (io_tty io') \<le> TTY_BUF_SIZE"
    using canon_loop_edit [of t ?io "(ls, p)" input blocking 0] room e by auto
  have cfg: "same_cfg t (io_tty io')" "holds (io_tty io') ls' p'" using io'(2) by (simp_all add: line_io_def)
  have adds: "echoes (io_events io') = es" "io_queue io' = queued_all t input" using io'(3) by (auto simp: io_adds_def)
  have n: "(if length input > 0 then int (length input) else 0) = int (length input)" by simp
  have "tty_input cur a input blocking waits [] st =
      map_option (\<lambda>k. (int (length input), st\<lparr>ttys := (ttys st)(a \<mapsto> io_tty io'), ks := k, tevents := tevents st @ map (Pair a) (io_events io')\<rparr>))
        (if y_fg_group t = 0 then Some (ks st)
         else send_queue cur (y_fg_group t) (queued_all t input) [1..<NUM_SIGS] (ks st))"
    using t canon io'(1,4) adds(2) same_cfgD(2) [OF cfg(1)] by (simp add: tty_input_def Let_def n del: length_greater_0_conv)
  then show ?thesis using cfg adds(1) by blast
qed

lemma tty_input_gen:
  assumes "ttys st a = Some t" and "lflag t ICANON" and "holds t ls p" and "y_bufsize t + length input \<le> TTY_BUF_SIZE"
    and "(if y_fg_group t = 0 then Some (ks st)
          else send_queue cur (y_fg_group t) (queued_all t input) [1..<NUM_SIGS] (ks st)) = Some k"
    and "edit t input (ls, p) = ((ls', p'), es)"
  shows "\<exists>t' ev. tty_input cur a input blocking waits [] st =
      Some (int (length input), st\<lparr>ttys := (ttys st)(a \<mapsto> t'), ks := k, tevents := tevents st @ map (Pair a) ev\<rparr>) \<and>
    same_cfg t t' \<and> holds t' ls' p' \<and> echoes ev = es"
  using tty_input_run [OF assms(1-4,6), of cur blocking waits] unfolding assms(5) by simp

text \<open>
  C5. In canonical mode \<^verbatim>\<open>tty_input\<close> implements the editing of lines. With room for the input, and nobody
  else working on the terminal, it takes every character; the buffer then holds the edited lines, the driver
  was given exactly the specified echo, and the signals that were typed are sent to the foreground
  process group.
\<close>

theorem tty_input_refines:
  assumes t: "ttys st a = Some t" and canon: "lflag t ICANON" and h: "holds t ls p"
    and room: "y_bufsize t + length input \<le> TTY_BUF_SIZE"
    and sent: "(if y_fg_group t = 0 then Some (ks st)
                else send_queue cur (y_fg_group t) (queued_all t input) [1..<NUM_SIGS] (ks st)) = Some k"
    and e: "edit t input (ls, p) = ((ls', p'), es)"
  shows "\<exists>t' ev. tty_input cur a input blocking waits [] st =
      Some (int (length input), st\<lparr>ttys := (ttys st)(a \<mapsto> t'), ks := k, tevents := tevents st @ map (Pair a) ev\<rparr>) \<and>
    same_cfg t t' \<and> holds t' ls' p' \<and> echoes ev = es"
  by (rule tty_input_gen [OF assms])

subsection \<open>Reading lines\<close>

lemma read_content:
  assumes "n \<le> y_bufsize t"
  obtains t' where "tty_read_into_buf n t = Some (map fst (take n (content t)), t')" "same_cfg t t'" "content t' = drop n (content t)"
proof
  let ?m = "y_bufsize t - n"
  let ?t = "t\<lparr>y_bufsize := ?m, y_buf := (\<lambda>i. if i < ?m then y_buf t (i + n) else y_buf t i),
    y_flag := (\<lambda>i. if i < ?m then y_flag t (i + n) else y_flag t i)\<rparr>"
  have "map fst (take n (content t)) = map (y_buf t) [0..<n]"
    using assms by (simp add: content_def take_map take_upt)
  then show "tty_read_into_buf n t = Some (map fst (take n (content t)), ?t)"
    using assms by (simp add: tty_read_into_buf_def Let_def)
  show "same_cfg t ?t" by (rule same_cfg_upd(3)) simp
  show "content ?t = drop n (content t)"
    by (rule nth_equalityI) (auto simp: content_def add.commute)
qed

lemma content_nth: "i < y_bufsize t \<Longrightarrow> content t ! i = (y_buf t i, y_flag t i)"
  by (simp add: content_def)

lemma content_hd: "content t = x # xs \<Longrightarrow> 0 < y_bufsize t \<and> y_buf t 0 = fst x \<and> y_flag t 0 = snd x"
  by (metis content_length content_nth fst_conv length_greater_0_conv list.discI nth_Cons_0 snd_conv)

lemma canon_size_first:
  assumes "holds t (l # ls) p"
  shows "tty_canon_size t = Some (length l)" "length l \<le> y_bufsize t" "y_buf t (length l - 1) = last l" "l \<noteq> []"
proof -
  have c: "content t = plain (butlast l) @ (last l, True) # concat (map mark ls) @ plain p" and "l \<noteq> []"
    using assms by (auto simp: holds_def mark_def)
  then have len: "length l \<le> y_bufsize t" "length (butlast l) < y_bufsize t"
    using content_length [of t] by (simp_all add: less_Suc_eq_le)
  have at: "content t ! (length l - 1) = (last l, True)" using c by (simp add: nth_append)
  have below: "\<not> snd (content t ! i)" if "i < length l - 1" for i
    using c that by (simp add: nth_append plain_def)
  have "find (y_flag t) [0..<y_bufsize t] = Some (length l - 1)"
    unfolding find_Some_iff using len \<open>l \<noteq> []\<close> at below by (intro exI [of _ "length l - 1"]) (auto simp: content_nth)
  then show "tty_canon_size t = Some (length l)" using \<open>l \<noteq> []\<close> by (simp add: tty_canon_size_def)
  show "length l \<le> y_bufsize t" "l \<noteq> []" by fact+
  show "y_buf t (length l - 1) = last l" using at len(2) by (simp add: content_nth)
qed

text \<open>The characters of a line that are read: the mark of an end of file is not one of them.\<close>

definition line_text :: "byte list \<Rightarrow> byte list" where
  "line_text l = (if last l = 0 then butlast l else l)"

text \<open>The lines left after reading \<open>n\<close> characters of the first one.\<close>

definition lines_left :: "nat \<Rightarrow> byte list \<Rightarrow> byte list list \<Rightarrow> byte list list" where
  "lines_left n l ls =
     (if n < length (line_text l) then drop n l # ls
      else if last l \<noteq> 0 \<and> ls \<noteq> [] \<and> hd ls = [0] then tl ls else ls)"

definition may_read :: "nat \<Rightarrow> nat \<Rightarrow> tty \<Rightarrow> tstate \<Rightarrow> bool" where
  "may_read cur a t st \<longleftrightarrow>
     ttys st a = Some t \<and> tty_dead a st = Some False \<and> \<not> (y_driver t = Pty_master \<and> y_packet_mode t) \<and>
     (\<exists>p g. cur_group cur (ks st) = Some (p, g) \<and>
        (tg_tty g = Some a \<longrightarrow> y_fg_group t = 0 \<or> tg_pgid g = y_fg_group t))"

lemma read_foreground:
  assumes "may_read cur a t st" and "0 < n"
  shows "tty_read cur nonblock a n ws st =
    (case read_wait nonblock a t n ws st of
       None \<Rightarrow> None
     | Some (Inl err, st2) \<Rightarrow> Some (err, [], st2)
     | Some (Inr m, st2) \<Rightarrow> map_option (\<lambda>(out, st3). (int (length out), out, st3)) (take_input a m st2))"
proof -
  have t: "ttys st a = Some t" "tty_dead a st = Some False" and np: "(y_driver t = Pty_master \<and> y_packet_mode t) = False"
    using assms(1) by (auto simp: may_read_def)
  obtain p g where g: "cur_group cur (ks st) = Some (p, g)" "tg_tty g = Some a \<longrightarrow> y_fg_group t = 0 \<or> tg_pgid g = y_fg_group t"
    using assms(1) by (auto simp: may_read_def)
  have "tty_signal_if_background cur a (tg_pgid g) SIGTTIN st = Some (0, st)"
    using t(1) g by (auto simp: tty_signal_if_background_def tty_is_current_def)
  then show ?thesis
    using t g(1) assms(2) np
    by (cases "y_driver t = Pty_master"; cases "read_wait nonblock a t n ws st") (auto simp: tty_read_def Let_def split: sum.split)
qed

lemma take_input_content:
  assumes t: "ttys st a = Some t" and n: "n \<le> y_bufsize t"
  obtains t' ev where "take_input a n st = Some (map fst (take n (content t)), st\<lparr>ttys := (ttys st)(a \<mapsto> t'), tevents := tevents st @ ev\<rparr>)"
    "same_cfg t t'"
    "content t' = (case drop n (content t) of (c, f) # xs \<Rightarrow> if c = 0 \<and> f then xs else (c, f) # xs | [] \<Rightarrow> [])"
proof -
  obtain t1 where t1: "tty_read_into_buf n t = Some (map fst (take n (content t)), t1)" "same_cfg t t1" "content t1 = drop n (content t)"
    by (rule read_content [OF n])
  have m: "min n (y_bufsize t) = n" using n by simp
  show ?thesis
  proof (cases "y_bufsize t1 > 0 \<and> y_buf t1 0 = 0 \<and> y_flag t1 0")
    case True
    then have "1 \<le> y_bufsize t1" by simp
    then obtain t2 where t2: "tty_read_into_buf 1 t1 = Some (map fst (take 1 (content t1)), t2)" "same_cfg t1 t2"
      "content t2 = drop 1 (content t1)"
      by (rule read_content)
    obtain xs where xs: "drop n (content t) = (0, True) # xs"
      using True t1(3) content_nth [of 0 t1] by (cases "content t1") (auto simp: content_def)
    have "same_cfg t t2" by (rule same_cfg_trans [OF t1(2) t2(2)])
    then show ?thesis
      using that [where t' = t2 and ev = "[(a, Notify_consumed), (a, Notify_consumed)]"] t t1 t2 True xs
      by (simp add: take_input_def m)
  next
    case False
    have "content t1 = (case drop n (content t) of (c, f) # xs \<Rightarrow> if c = 0 \<and> f then xs else (c, f) # xs | [] \<Rightarrow> [])"
      using False t1(3) content_hd [of t1] by (auto split: list.splits)
    then show ?thesis
      using that [where t' = t1 and ev = "[(a, Notify_consumed)]"] t t1 False by (simp add: take_input_def m)
  qed
qed

lemma mark_drop: "n < length l \<Longrightarrow> drop n (mark l) = mark (drop n l)"
  by (cases l rule: rev_cases) (simp_all add: plain_def drop_map)

lemma mark_fst: "l \<noteq> [] \<Longrightarrow> map fst (mark l) = l"
  by (simp add: mark_def plain_def comp_def)

lemma mark_length: "l \<noteq> [] \<Longrightarrow> length (mark l) = length l"
  by (simp add: mark_def)

lemma mark_Cons:
  "mark (c # l) = (if l = [] then [(c, True)] else (c, False) # mark l)"
  by (simp add: mark_def)

text \<open>What the buffer holds after a read of \<open>n\<close> characters.\<close>

lemma drop_lines:
  assumes "l \<noteq> []" and "[] \<notin> set ls" and m: "m = min n (length (line_text l))"
  shows "(case drop m (mark l @ concat (map mark ls) @ plain p) of
      (c, f) # xs \<Rightarrow> if c = 0 \<and> f then xs else (c, f) # xs | [] \<Rightarrow> []) = concat (map mark (lines_left n l ls)) @ plain p"
proof (cases "n < length (line_text l)")
  case True
  then have n: "n < length l" and mn: "m = n" using m by (auto simp: line_text_def split: if_splits)
  obtain c r where d: "drop n l = c # r" using n by (metis Cons_nth_drop_Suc)
  have last: "last l = last (drop n l)" using n by simp
  have "length l - n = Suc (length r)" using d by (metis length_Cons length_drop)
  then have "\<not> (c = 0 \<and> r = [])" using True d last n by (auto simp: line_text_def split: if_splits)
  then have "drop m (mark l) = mark (c # r)" "\<not> (r = [] \<and> c = 0)" using mark_drop [OF n] d mn by auto
  then show ?thesis using True n d by (simp add: lines_left_def mark_length assms(1) mn mark_Cons)
next
  case False
  then have mn: "m = length (line_text l)" using m by simp
  show ?thesis
  proof (cases "last l = 0")
    case True
    then have "drop m (mark l) = [(0, True)]" using assms(1) mn by (simp add: line_text_def mark_def)
    moreover have "m - length (mark l) = 0" using mn True by (simp add: line_text_def mark_length assms(1))
    ultimately show ?thesis using False True by (simp add: lines_left_def)
  next
    case nz: False
    then have "drop m (mark l @ concat (map mark ls) @ plain p) = concat (map mark ls) @ plain p"
      using mn assms(1) by (simp add: line_text_def mark_length)
    moreover have "(case concat (map mark ls) @ plain p of (c, f) # xs \<Rightarrow> if c = 0 \<and> f then xs else (c, f) # xs | [] \<Rightarrow> []) =
        concat (map mark (if ls \<noteq> [] \<and> hd ls = [0] then tl ls else ls)) @ plain p"
    proof (cases ls)
      case Nil
      then show ?thesis by (cases p) simp_all
    next
      case (Cons k ks)
      then obtain c r where k: "k = c # r" using assms(2) by (cases k) auto
      show ?thesis unfolding Cons k by (simp add: mark_Cons)
    qed
    ultimately show ?thesis using False nz by (simp add: lines_left_def)
  qed
qed

lemma tty_read_gen:
  assumes ok: "may_read cur a t st" and canon: "lflag t ICANON" and h: "holds t (l # ls) p" and n: "0 < n"
  shows "\<exists>t' ev. tty_read cur nonblock a n ws st =
      Some (int (length (take n (line_text l))), take n (line_text l), st\<lparr>ttys := (ttys st)(a \<mapsto> t'), tevents := tevents st @ ev\<rparr>) \<and>
    same_cfg t t' \<and> holds t' (lines_left n l ls) p"
proof -
  have t: "ttys st a = Some t" using ok by (simp add: may_read_def)
  note c = canon_size_first [OF h]
  let ?m = "min n (length (line_text l))"
  have lt: "(if last l = 0 then length l - 1 else length l) = length (line_text l)" by (simp add: line_text_def)
  have w: "read_wait nonblock a t n ws st = Some (Inr ?m, st)"
    using canon t c(1,3) lt by (simp add: read_wait_def canon_wait.simps)
  have "length (line_text l) \<le> length l" by (simp add: line_text_def)
  then have m: "?m \<le> y_bufsize t" using c(2) by simp
  obtain t' ev where t': "take_input a ?m st = Some (map fst (take ?m (content t)), st\<lparr>ttys := (ttys st)(a \<mapsto> t'), tevents := tevents st @ ev\<rparr>)"
    "same_cfg t t'"
    "content t' = (case drop ?m (content t) of (c, f) # xs \<Rightarrow> if c = 0 \<and> f then xs else (c, f) # xs | [] \<Rightarrow> [])"
    by (rule take_input_content [OF t m])
  have con: "content t = mark l @ concat (map mark ls) @ plain p" "[] \<notin> set ls" using h by (auto simp: holds_def)
  have "take ?m (content t) = take ?m (mark l)"
    using con(1) \<open>length (line_text l) \<le> length l\<close> by (simp add: mark_length c(4))
  then have "map fst (take ?m (content t)) = take ?m l" using mark_fst [OF c(4)] by (simp add: take_map [symmetric])
  moreover have "take (length (line_text l)) l = line_text l" by (simp add: line_text_def butlast_conv_take)
  ultimately have out: "map fst (take ?m (content t)) = take n (line_text l)" by (metis take_take)
  have left: "[] \<notin> set (lines_left n l ls)"
    using con(2) \<open>length (line_text l) \<le> length l\<close> by (auto simp: lines_left_def dest: list.set_sel(2) [rotated])
  have "holds t' (lines_left n l ls) p"
    using t'(3) drop_lines [OF c(4) con(2) refl, of n p] con(1) left by (simp add: holds_def)
  then show ?thesis
    using read_foreground [OF ok n, of nonblock ws] w t'(1,2) out by auto
qed

text \<open>
  C37. In canonical mode a read by a process that may read returns the characters of the first line in the
  buffer, as many as fit, and nothing of the lines behind it. Without the mark of an end of
  file the line includes its last character. A mark that follows the line alone is taken away too.
\<close>

theorem tty_read_line:
  assumes ok: "may_read cur a t st" and canon: "lflag t ICANON" and h: "holds t (l # ls) p" and n: "0 < n"
  shows "\<exists>t' ev. tty_read cur nonblock a n ws st =
      Some (int (length (take n (line_text l))), take n (line_text l), st\<lparr>ttys := (ttys st)(a \<mapsto> t'), tevents := tevents st @ ev\<rparr>) \<and>
    same_cfg t t' \<and> holds t' (lines_left n l ls) p"
  by (rule tty_read_gen [OF assms])

subsection \<open>Typing and reading\<close>

definition ordinary :: "tty \<Rightarrow> byte \<Rightarrow> bool" where
  "ordinary t c \<longleftrightarrow> translated t c = c \<and> \<not> (iflag t IGNCR \<and> c = 13) \<and> c \<noteq> 0 \<and> c \<noteq> 10 \<and>
     \<not> is_cc t VERASE c \<and> \<not> is_cc t VKILL c \<and> \<not> is_cc t VEOF c \<and> \<not> is_cc t VEOL c \<and> input_signal t c = None"

definition ends_line :: "tty \<Rightarrow> byte \<Rightarrow> bool" where
  "ends_line t c \<longleftrightarrow> translated t c = 10 \<and> \<not> is_cc t VERASE 10 \<and> \<not> is_cc t VKILL 10 \<and> \<not> is_cc t VEOF 10"

lemma edit_ordinary:
  "list_all (ordinary t) cs \<Longrightarrow> edit t cs (ls, p) = ((ls, p @ cs), concat (map (char_echo t) cs))"
  "list_all (ordinary t) cs \<Longrightarrow> queued_all t cs = 0"
  by (induction cs arbitrary: p) (simp_all add: ordinary_def Let_def queued_def typed_signal_def)

lemma edit_line:
  assumes "ends_line t c"
  shows "edit_char t c (ls, p) = ((ls @ [p @ [10]], []), if lflag t ECHO then [[13, 10]] else [])" "queued t c = 0"
  using assms by (simp_all add: ends_line_def Let_def queued_def typed_signal_def)

lemma edit_append: "edit t (cs @ ds) s = (let (s1, e1) = edit t cs s; (s2, e2) = edit t ds s1 in (s2, e1 @ e2))"
  by (induction cs arbitrary: s) (simp_all add: case_prod_beta Let_def)

lemma queued_append: "queued_all t (cs @ ds) = queued_all t cs OR queued_all t ds"
  by (induction cs) (simp_all add: or.assoc)

lemma send_nothing: "send_queue cur g 0 sigs k = Some k"
  by (induction sigs) simp_all

lemma half_closed_same:
  assumes "ttys st a = Some t" and "same_cfg t t'" and "ttys st' = (ttys st)(a \<mapsto> t')"
  shows "pty_is_half_closed_master a st' = pty_is_half_closed_master a st" "tty_dead a st' = tty_dead a st"
  using assms(1,3) same_cfgD(5-11) [OF assms(2)]
  by (auto simp: tty_dead_def pty_is_half_closed_master_def split: option.split)

lemma may_read_same:
  assumes "may_read cur a t st" and "same_cfg t t'" and "ttys st' = (ttys st)(a \<mapsto> t')" and "ks st' = ks st"
  shows "may_read cur a t' st'"
  using assms(1,3,4) same_cfgD [OF assms(2)] half_closed_same(2) [OF _ assms(2,3)] by (simp add: may_read_def)

text \<open>
  A line typed in canonical mode into an empty buffer is read as it was typed, with the newline at its
  end, and the buffer is empty again.
\<close>

theorem tty_typed_line_read:
  assumes ok: "may_read cur a t st" and canon: "lflag t ICANON" and empty: "y_bufsize t = 0"
    and cs: "list_all (ordinary t) cs" and nl: "ends_line t c" and room: "length cs < TTY_BUF_SIZE"
  shows "\<exists>st1 st2 t2. tty_input typist a (cs @ [c]) blocking waits [] st = Some (int (length cs) + 1, st1) \<and>
    tty_read cur nonblock a (length cs + 1) ws st1 = Some (int (length cs) + 1, cs @ [10], st2) \<and>
    ttys st2 = (ttys st)(a \<mapsto> t2) \<and> same_cfg t t2 \<and> y_bufsize t2 = 0 \<and> ks st2 = ks st"
proof -
  have t: "ttys st a = Some t" using ok by (simp add: may_read_def)
  have h: "holds t [] []" using empty by (simp add: holds_def content_def)
  obtain es where e: "edit t (cs @ [c]) ([], []) = (([cs @ [10]], []), es)"
    by (simp add: edit_append edit_ordinary(1) [OF cs] edit_line(1) [OF nl] del: edit_char.simps)
  have "queued_all t (cs @ [c]) = 0" by (simp add: queued_append edit_ordinary(2) [OF cs] edit_line(2) [OF nl])
  then have sent: "(if y_fg_group t = 0 then Some (ks st)
      else send_queue typist (y_fg_group t) (queued_all t (cs @ [c])) [1..<NUM_SIGS] (ks st)) = Some (ks st)"
    by (simp add: send_nothing)
  have "y_bufsize t + length (cs @ [c]) \<le> TTY_BUF_SIZE" using room empty by simp
  then obtain t1 ev where i: "tty_input typist a (cs @ [c]) blocking waits [] st =
      Some (int (length (cs @ [c])), st\<lparr>ttys := (ttys st)(a \<mapsto> t1), ks := ks st, tevents := tevents st @ map (Pair a) ev\<rparr>)"
    "same_cfg t t1" "holds t1 [cs @ [10]] []"
    using tty_input_gen [OF t canon h _ sent e, of blocking waits] by blast
  let ?st = "st\<lparr>ttys := (ttys st)(a \<mapsto> t1), ks := ks st, tevents := tevents st @ map (Pair a) ev\<rparr>"
  have ok1: "may_read cur a t1 ?st" by (rule may_read_same [OF ok i(2)]) simp_all
  have canon1: "lflag t1 ICANON" using canon same_cfgD(1) [OF i(2)] by simp
  obtain t2 ev2 where r: "tty_read cur nonblock a (length cs + 1) ws ?st = Some (int (length cs) + 1, cs @ [10],
      ?st\<lparr>ttys := (ttys ?st)(a \<mapsto> t2), tevents := tevents ?st @ ev2\<rparr>)" "same_cfg t1 t2" "holds t2 [] []"
    using tty_read_gen [OF ok1 canon1 i(3), of "length cs + 1" nonblock ws] by (auto simp: line_text_def lines_left_def)
  show ?thesis
    using i(1) r(1) same_cfg_trans [OF i(2) r(2)] holds_length [OF r(3)] by fastforce
qed

text \<open>
  C38. An end of file typed behind a complete line is lost: the read that returns the line takes the mark
  away as well, so the next read finds nothing and does not return the 0 that reports the end of file.
\<close>

theorem tty_read_loses_eof:
  assumes ok: "may_read cur a t st" and canon: "lflag t ICANON" and h: "holds t [l, [0]] []" and l: "last l \<noteq> 0"
    and n: "length l \<le> n"
  shows "\<exists>st'. tty_read cur True a n ws st = Some (int (length l), l, st') \<and>
    tty_read cur True a n ws st' = Some (EAGAIN, [], st')"
proof -
  have t: "ttys st a = Some t" and live: "pty_is_half_closed_master a st = Some False"
    using ok by (auto simp: may_read_def tty_dead_def split: if_splits)
  have "l \<noteq> []" using h by (auto simp: holds_def)
  then have n0: "0 < n" using n by (cases l) auto
  obtain t1 ev where r: "tty_read cur True a n ws st =
      Some (int (length l), l, st\<lparr>ttys := (ttys st)(a \<mapsto> t1), tevents := tevents st @ ev\<rparr>)"
    "same_cfg t t1" "holds t1 [] []"
    using tty_read_gen [OF ok canon h n0, of True ws] l n by (auto simp: line_text_def lines_left_def)
  let ?st = "st\<lparr>ttys := (ttys st)(a \<mapsto> t1), tevents := tevents st @ ev\<rparr>"
  have ok1: "may_read cur a t1 ?st" by (rule may_read_same [OF ok r(2)]) simp_all
  have canon1: "lflag t1 ICANON" using canon same_cfgD(1) [OF r(2)] by simp
  have "tty_canon_size t1 = None" using holds_length [OF r(3)] by (simp add: tty_canon_size_def)
  moreover have "pty_is_half_closed_master a ?st = Some False" using half_closed_same(1) [OF t r(2)] live by simp
  ultimately have "tty_read cur True a n ws ?st = Some (EAGAIN, [], ?st)"
    using read_foreground [OF ok1 n0, of True ws] canon1 by (simp add: read_wait_def canon_wait.simps)
  then show ?thesis using r(1) by blast
qed

text \<open>
  C39. A timed read does not end when its time is over. With the terminal in raw mode and fewer characters in
  the buffer than \<^verbatim>\<open>VMIN\<close>, no number that the waits return, the host's code for an expired timer included,
  makes the read return as long as nothing is typed.
\<close>

theorem tty_read_timeout_ignored:
  assumes ok: "may_read cur a t st" and raw: "\<not> lflag t ICANON" and few: "y_bufsize t < unat (t_cc (y_termios t) VMIN)"
    and n: "0 < n"
  shows "tty_read cur False a n (map (\<lambda>r. (r, \<lambda>st. st)) results) st = None"
proof -
  have t: "ttys st a = Some t" and d: "pty_is_half_closed_master a st = Some False"
    using ok by (auto simp: may_read_def tty_dead_def split: if_splits)
  have "raw_wait False a (unat (t_cc (y_termios t) VMIN)) (map (\<lambda>r. (r, \<lambda>st. st)) results) st = None"
    using t d few by (induction results) (simp_all add: raw_wait.simps)
  then show ?thesis
    using read_foreground [OF ok n] raw by (simp add: read_wait_def)
qed

subsection \<open>Raw mode\<close>

definition bytes :: "tty \<Rightarrow> byte list" where
  "bytes t = map (y_buf t) [0..<y_bufsize t]"

text \<open>The terminal with characters added to its buffer, their flags left as they were.\<close>

definition raw_put :: "byte list \<Rightarrow> tty \<Rightarrow> tty" where
  "raw_put xs t =
     t\<lparr>y_buf := (\<lambda>i. if y_bufsize t \<le> i \<and> i < y_bufsize t + length xs then xs ! (i - y_bufsize t) else y_buf t i),
       y_bufsize := y_bufsize t + length xs\<rparr>"

lemma raw_put_Nil [simp]: "raw_put [] t = t"
  by (cases t) (auto simp: raw_put_def fun_eq_iff)

lemma raw_put_simps [simp]: "y_bufsize (raw_put xs t) = y_bufsize t + length xs"
  "y_flag (raw_put xs t) = y_flag t" "y_termios (raw_put xs t) = y_termios t" "y_fg_group (raw_put xs t) = y_fg_group t"
  by (simp_all add: raw_put_def)

lemma raw_put_cfg: "same_cfg t (raw_put xs t)"
  by (cases t) (simp add: same_cfg_def raw_put_def)

lemma raw_put_Cons:
  "raw_put (x # xs) t = raw_put xs (t\<lparr>y_buf := (y_buf t)(y_bufsize t := x), y_bufsize := y_bufsize t + 1\<rparr>)"
  by (cases t) (auto simp: raw_put_def fun_eq_iff nth_Cons')

lemma raw_put_append: "raw_put (xs @ ys) t = raw_put ys (raw_put xs t)"
  by (induction xs arbitrary: t) (simp_all add: raw_put_Cons)

lemma bytes_raw_put: "bytes (raw_put xs t) = bytes t @ xs"
  by (rule nth_equalityI) (auto simp: bytes_def raw_put_def nth_append)

lemma raw_loop_fill:
  assumes "\<not> lflag (io_tty io) ISIG" and "y_bufsize (io_tty io) \<le> TTY_BUF_SIZE"
    and "k = min (length input) (TTY_BUF_SIZE - y_bufsize (io_tty io))" and "blocking \<Longrightarrow> k = length input"
  shows "raw_loop blocking input n io =
    Some (if k < length input then EAGAIN else 0, n + k, io\<lparr>io_tty := raw_put (take k input) (io_tty io)\<rparr>)"
  using assms
proof (induction input arbitrary: n io k)
  case Nil
  then show ?case by simp
next
  case (Cons c cs)
  have sig: "tty_send_input_signal c io = (False, io)" using Cons.prems(1) by (simp add: tty_send_input_signal_def Let_def)
  show ?case
  proof (cases "y_bufsize (io_tty io) < TTY_BUF_SIZE")
    case False
    then have "k = 0" "\<not> blocking" using Cons.prems by auto
    then show ?thesis using False sig by (simp add: await_room.simps)
  next
    case True
    let ?t = "(io_tty io)\<lparr>y_buf := (y_buf (io_tty io))(y_bufsize (io_tty io) := c), y_bufsize := y_bufsize (io_tty io) + 1\<rparr>"
    have "k \<noteq> 0" using True Cons.prems(3) by simp
    then obtain j where j: "k = Suc j" using not0_implies_Suc by blast
    have "raw_loop blocking cs (n + 1) (io\<lparr>io_tty := ?t\<rparr>) =
        Some (if j < length cs then EAGAIN else 0, n + 1 + j, io\<lparr>io_tty := raw_put (take j cs) ?t\<rparr>)"
    proof (rule trans [OF Cons.IH])
      show "j = min (length cs) (TTY_BUF_SIZE - y_bufsize (io_tty (io\<lparr>io_tty := ?t\<rparr>)))"
        using Cons.prems(3) j True by (auto simp: min_def split: if_splits)
      show "j = length cs" if blocking using Cons.prems(4) [OF that] j by simp
    qed (use Cons.prems(1) True in simp_all)
    then show ?thesis using True sig j by (simp add: await_room.simps raw_put_Cons)
  qed
qed

lemma raw_input:
  assumes t: "ttys st a = Some t" and raw: "\<not> lflag t ICANON" "\<not> lflag t ISIG" and b: "y_bufsize t \<le> TTY_BUF_SIZE"
    and k: "k = min (length input) (TTY_BUF_SIZE - y_bufsize t)" "blocking \<Longrightarrow> k = length input"
  shows "\<exists>ev. tty_input cur a input blocking waits [] st =
      Some (if k = 0 \<and> input \<noteq> [] then EAGAIN else int k,
        st\<lparr>ttys := (ttys st)(a \<mapsto> raw_put (take k input) t), tevents := tevents st @ map (Pair a) ev\<rparr>) \<and> echoes ev = []"
proof -
  let ?io = "\<lparr>io_tty = t, io_events = [], io_queue = 0, io_waits = waits, io_wakes = []\<rparr>"
  let ?t = "raw_put (take k input) t"
  have run: "raw_loop blocking input 0 ?io = Some (if k < length input then EAGAIN else 0, k, ?io\<lparr>io_tty := ?t\<rparr>)"
    using raw_loop_fill [of ?io k input blocking 0] raw b k by simp
  have bound: "y_bufsize ?t \<le> TTY_BUF_SIZE" using b k(1) by simp
  have "k \<le> length input" using k(1) by simp
  then show ?thesis
    using run raw(1) t bound
    by (auto simp: tty_input_def Let_def send_nothing tty_input_wakeup_def intro!: exI [of _ "if y_bufsize ?t > 0 then [Notify_produced, Poll_wakeup 1] else []"])
qed

lemma bytes_content: "map fst (content t) = bytes t"
  by (simp add: bytes_def content_def)

lemma raw_read:
  assumes ok: "may_read cur a t st" and raw: "\<not> lflag t ICANON" and n: "0 < n"
    and min: "unat (t_cc (y_termios t) VMIN) \<le> y_bufsize t" and noflag: "\<And>i. i < y_bufsize t \<Longrightarrow> \<not> y_flag t i"
  shows "\<exists>t' ev. tty_read cur nonblock a n ws st = Some (int (length (take n (bytes t))), take n (bytes t),
      st\<lparr>ttys := (ttys st)(a \<mapsto> t'), tevents := tevents st @ ev\<rparr>) \<and> same_cfg t t' \<and> bytes t' = drop n (bytes t)"
proof -
  have t: "ttys st a = Some t" using ok by (simp add: may_read_def)
  let ?m = "min n (y_bufsize t)"
  have eq: "take_input a n st = take_input a ?m st" by (simp add: take_input_def t)
  obtain t' ev where t': "take_input a ?m st = Some (map fst (take ?m (content t)), st\<lparr>ttys := (ttys st)(a \<mapsto> t'), tevents := tevents st @ ev\<rparr>)"
    "same_cfg t t'"
    "content t' = (case drop ?m (content t) of (c, f) # xs \<Rightarrow> if c = 0 \<and> f then xs else (c, f) # xs | [] \<Rightarrow> [])"
    by (rule take_input_content [OF t, of ?m]) simp_all
  have "\<forall>x \<in> set (content t). \<not> snd x" using noflag by (auto simp: content_def)
  then have "\<forall>x \<in> set (drop ?m (content t)). \<not> snd x" by (meson in_set_dropD)
  then have "content t' = drop ?m (content t)" using t'(3) by (auto split: list.splits)
  then have "bytes t' = drop ?m (bytes t)" by (simp add: bytes_content [symmetric] drop_map)
  moreover have "length (bytes t) = y_bufsize t" by (simp add: bytes_def)
  ultimately have "bytes t' = drop n (bytes t)" "map fst (take ?m (content t)) = take n (bytes t)"
    by (simp_all add: bytes_content take_map [symmetric] min_def)
  then show ?thesis
    using read_foreground [OF ok n, of nonblock ws] raw min t t'(1,2) by (auto simp: read_wait_def raw_wait.simps eq)
qed

section \<open>Examples\<close>

definition demo_raw :: tty where
  "demo_raw =
     \<lparr>y_refcount = 0, y_driver = Device, y_hung_up = False, y_ever_opened = False, y_buf = (\<lambda>i. 0), y_flag = (\<lambda>i. False),
      y_bufsize = 0, y_packet_flags = 0, y_winsize = \<lparr>ws_row = 0, ws_col = 0, ws_xpixel = 0, ws_ypixel = 0\<rparr>,
      y_termios = \<lparr>t_iflags = 0, t_oflags = 0, t_cflags = 0, t_lflags = 0, t_line = 0, t_cc = (\<lambda>i. 0)\<rparr>,
      y_type = 0, y_num = 0, y_fg_group = 0, y_fds = [], y_other = None, y_perms = 0, y_uid = 0, y_gid = 0,
      y_locked = False, y_packet_mode = False\<rparr>"

definition demo_tty :: tty where
  "demo_tty = tty_alloc demo_raw Device 4 1"

definition demo_ks :: kstate where
  "demo_ks = empty_kstate\<lparr>tasks := [0 \<mapsto> zero_task],
     groups := [0 \<mapsto> \<lparr>tg_threads = [0], tg_leader = 0, tg_sid = 1, tg_pgid = 1, tg_in_session = None, tg_in_pgroup = None,
       tg_stopped = False, tg_tty = None, tg_doing_group_exit = False, tg_group_exit_code = 0\<rparr>]\<rparr>"

definition demo_tstate :: "tty \<Rightarrow> tstate" where
  "demo_tstate t = \<lparr>ttys = [0 \<mapsto> t], fd_tty = Map.empty, slots = (\<lambda>d n. Free), new_tty = 1, ks = demo_ks, tevents = []\<rparr>"

lemma demo_may_read:
  "y_driver t = Device \<Longrightarrow> \<not> y_hung_up t \<Longrightarrow> may_read 0 0 t (demo_tstate t)"
  by (simp add: may_read_def demo_tstate_def tty_dead_def pty_is_half_closed_master_def cur_group_def demo_ks_def
      empty_kstate_def zero_task_def)

lemma demo_tty_simps:
  "y_driver demo_tty = Device" "y_hung_up demo_tty = False" "y_bufsize demo_tty = 0" "y_fg_group demo_tty = 0"
  "t_lflags (y_termios demo_tty) = 0x827b" "t_iflags (y_termios demo_tty) = 0x500"
  by (simp_all add: demo_tty_def tty_alloc_def demo_raw_def)

lemma demo_cc: "t_cc (y_termios demo_tty) i =
    (if i < 19 then [3, 0x1c, 0x7f, 0x15, 4, 0, 1, 0, 0x11, 0x13, 0x1a, 0, 0x12, 0xf, 0x17, 0x16, 0, 0, 0] ! i else 0)"
  by (simp add: demo_tty_def tty_alloc_def)

text \<open>Typing \<^verbatim>\<open>ls\<close>, a character that is erased, and the return key.\<close>

theorem tty_input_refines_witness:
  "\<exists>t' ev. tty_input 0 0 [0x6c, 0x73, 0x78, 0x7f, 13] True [] [] (demo_tstate demo_tty) =
      Some (5, (demo_tstate demo_tty)\<lparr>ttys := (ttys (demo_tstate demo_tty))(0 \<mapsto> t'), ks := demo_ks, tevents := map (Pair 0) ev\<rparr>) \<and>
    holds t' [[0x6c, 0x73, 10]] [] \<and> echoes ev = [[0x6c], [0x73], [0x78], [8, 32, 8], [13, 10]]"
proof -
  have e: "edit demo_tty [0x6c, 0x73, 0x78, 0x7f, 13] ([], []) =
      (([[0x6c, 0x73, 10]], []), [[0x6c], [0x73], [0x78], [8, 32, 8], [13, 10]])"
    by (simp add: Let_def translated_def demo_tty_simps has_flag_def is_cc_def demo_cc char_echo_def should_echoctl_def
        erase_echo_def input_signal_def)
  show ?thesis
    using tty_input_refines [of "demo_tstate demo_tty" 0 demo_tty "[]" "[]" "[0x6c, 0x73, 0x78, 0x7f, 13]" 0 demo_ks, OF _ _ _ _ _ e,
      of True "[]"]
    by (auto simp: demo_tstate_def demo_tty_simps has_flag_def holds_def content_def)
qed

text \<open>A terminal whose buffer holds the given characters.\<close>

definition demo_filled :: "(byte \<times> bool) list \<Rightarrow> tty" where
  "demo_filled xs = demo_tty\<lparr>y_buf := (\<lambda>i. fst (xs ! i)), y_flag := (\<lambda>i. snd (xs ! i)), y_bufsize := length xs\<rparr>"

lemma demo_filled_simps:
  "content (demo_filled xs) = xs" "y_driver (demo_filled xs) = Device" "y_hung_up (demo_filled xs) = False"
  "y_termios (demo_filled xs) = y_termios demo_tty" "y_bufsize (demo_filled xs) = length xs"
  by (auto simp: demo_filled_def demo_tty_simps content_def intro: nth_equalityI)

theorem tty_read_line_witness:
  "\<exists>t' ev. tty_read 0 False 0 80 [] (demo_tstate (demo_filled [(0x6c, False), (0x73, False), (10, True), (0x78, False)])) =
      Some (3, [0x6c, 0x73, 10],
        (demo_tstate (demo_filled [(0x6c, False), (0x73, False), (10, True), (0x78, False)]))\<lparr>ttys := [0 \<mapsto> t'], tevents := ev\<rparr>) \<and>
    holds t' [] [0x78]"
proof -
  let ?t = "demo_filled [(0x6c, False), (0x73, False), (10, True), (0x78, False)]"
  have "may_read 0 0 ?t (demo_tstate ?t)" by (rule demo_may_read) (simp_all add: demo_filled_simps)
  moreover have "lflag ?t ICANON" by (simp add: demo_filled_simps demo_tty_simps has_flag_def)
  moreover have "holds ?t [[0x6c, 0x73, 10]] [0x78]" by (simp add: holds_def demo_filled_simps mark_Cons)
  ultimately show ?thesis
    using tty_read_line [of 0 0 ?t "demo_tstate ?t" "[0x6c, 0x73, 10]" "[]" "[0x78]" 80 False "[]"]
    by (auto simp: line_text_def lines_left_def demo_tstate_def)
qed

theorem tty_typed_line_read_witness:
  "\<exists>st1 st2. tty_input 0 0 [0x6c, 0x73, 13] True [] [] (demo_tstate demo_tty) = Some (3, st1) \<and>
    tty_read 0 False 0 3 [] st1 = Some (3, [0x6c, 0x73, 10], st2)"
proof -
  have "may_read 0 0 demo_tty (demo_tstate demo_tty)" by (rule demo_may_read) (simp_all add: demo_tty_simps)
  moreover have "list_all (ordinary demo_tty) [0x6c, 0x73]" "ends_line demo_tty 13"
    by (simp_all add: ordinary_def ends_line_def translated_def demo_tty_simps has_flag_def is_cc_def demo_cc input_signal_def)
  ultimately show ?thesis
    using tty_typed_line_read [of 0 0 demo_tty "demo_tstate demo_tty" "[0x6c, 0x73]" 13 0 True "[]" False "[]"]
    by (auto simp: demo_tty_simps has_flag_def numeral_3_eq_3)
qed

theorem tty_read_loses_eof_witness:
  "\<exists>st'. tty_read 0 True 0 80 [] (demo_tstate (demo_filled [(0x6c, False), (10, True), (0, True)])) = Some (2, [0x6c, 10], st') \<and>
    tty_read 0 True 0 80 [] st' = Some (EAGAIN, [], st')"
proof -
  let ?t = "demo_filled [(0x6c, False), (10, True), (0, True)]"
  have "may_read 0 0 ?t (demo_tstate ?t)" by (rule demo_may_read) (simp_all add: demo_filled_simps)
  moreover have "lflag ?t ICANON" by (simp add: demo_filled_simps demo_tty_simps has_flag_def)
  moreover have "holds ?t [[0x6c, 10], [0]] []" by (simp add: holds_def demo_filled_simps mark_Cons)
  ultimately show ?thesis
    using tty_read_loses_eof [of 0 0 ?t "demo_tstate ?t" "[0x6c, 10]" 80 "[]"] by simp
qed

text \<open>One character is there, two are wanted within a second, and 110 is the code of the expired timer on Linux.\<close>

theorem tty_read_timeout_ignored_witness:
  "\<exists>t. t_cc (y_termios t) VTIME = 10 \<and> y_bufsize t = 1 \<and>
    tty_read 0 False 0 80 [(110, \<lambda>st. st), (110, \<lambda>st. st)] (demo_tstate t) = None"
proof -
  let ?t = "(demo_filled [(0x6c, False)])\<lparr>y_termios := \<lparr>t_iflags = 0, t_oflags = 0, t_cflags = 0, t_lflags = 0, t_line = 0,
    t_cc = (\<lambda>i. if i = VMIN then 2 else if i = VTIME then 10 else 0)\<rparr>\<rparr>"
  have "may_read 0 0 ?t (demo_tstate ?t)" by (rule demo_may_read) (simp_all add: demo_filled_simps)
  then have "tty_read 0 False 0 80 [(110, \<lambda>st. st), (110, \<lambda>st. st)] (demo_tstate ?t) = None"
    using tty_read_timeout_ignored [of 0 0 ?t "demo_tstate ?t" 80 "[110, 110]"] by (simp add: demo_filled_simps)
  then show ?thesis by (intro exI [of _ ?t]) (simp add: demo_filled_simps)
qed

text \<open>
  The flag of a character typed in raw mode is the one left from a line that was read before. Here the second
  position once ended a line: a zero typed there is taken for an end of file and dropped.
\<close>

theorem tty_raw_zero_lost:
  assumes ok: "may_read cur a t st" and raw: "\<not> lflag t ICANON" "\<not> lflag t ISIG" and b: "y_bufsize t = 0"
    and stale: "y_flag t 1" and min: "unat (t_cc (y_termios t) VMIN) \<le> 2"
  shows "\<exists>st1 st2 t2. tty_input typist a [c, 0] blocking waits [] st = Some (2, st1) \<and>
    tty_read cur nonblock a 1 ws st1 = Some (1, [c], st2) \<and> ttys st2 a = Some t2 \<and> y_bufsize t2 = 0"
proof -
  have t: "ttys st a = Some t" using ok by (simp add: may_read_def)
  let ?t = "raw_put [c, 0] t"
  obtain ev where i: "tty_input typist a [c, 0] blocking waits [] st =
      Some (2, st\<lparr>ttys := (ttys st)(a \<mapsto> ?t), tevents := tevents st @ map (Pair a) ev\<rparr>)"
    using raw_input [OF t raw, of 2 "[c, 0]" blocking typist waits] b by auto
  let ?st = "st\<lparr>ttys := (ttys st)(a \<mapsto> ?t), tevents := tevents st @ map (Pair a) ev\<rparr>"
  have ok1: "may_read cur a ?t ?st" by (rule may_read_same [OF ok raw_put_cfg]) simp_all
  have con: "content ?t = [(c, y_flag t 0), (0, True)]" using b stale by (simp add: content_def raw_put_def upt_rec numeral_2_eq_2)
  have "ttys ?st a = Some ?t" "1 \<le> y_bufsize ?t" by simp_all
  then obtain t2 ev2 where r: "take_input a 1 ?st = Some (map fst (take 1 (content ?t)), ?st\<lparr>ttys := (ttys ?st)(a \<mapsto> t2), tevents := tevents ?st @ ev2\<rparr>)"
    "content t2 = (case drop 1 (content ?t) of (c, f) # xs \<Rightarrow> if c = 0 \<and> f then xs else (c, f) # xs | [] \<Rightarrow> [])"
    by (rule take_input_content)
  have "y_bufsize t2 = 0" using r(2) con content_length [of t2] by simp
  moreover have "tty_read cur nonblock a 1 ws ?st = Some (1, [c], ?st\<lparr>ttys := (ttys ?st)(a \<mapsto> t2), tevents := tevents ?st @ ev2\<rparr>)"
    using read_foreground [OF ok1, of 1 nonblock ws] raw(1) min b r(1) con
    by (simp add: read_wait_def raw_wait.simps)
  ultimately show ?thesis using i by fastforce
qed

end
