(* ===== verification/Pty.thy ===== *)
theory Pty
  imports Tty Path
begin

text \<open>
  The life of terminals, the job control calls and the pseudo-terminals: the rest of \<^verbatim>\<open>fs/tty.c\<close>,
  and \<^verbatim>\<open>fs/pty.c\<close> with the file system that lists them. The driver of the host terminal is
  represented by its initialization, an argument. \<^const>\<open>None\<close> is again an access outside an array, a bad
  pointer or a failed assertion.
\<close>

section \<open>Definitions\<close>

abbreviation (input) EROFS :: int where "EROFS \<equiv> - 30"

abbreviation (input) TTY_CONSOLE_MAJOR :: nat where "TTY_CONSOLE_MAJOR \<equiv> 4"
abbreviation (input) TTY_ALTERNATE_MAJOR :: nat where "TTY_ALTERNATE_MAJOR \<equiv> 5"
abbreviation (input) TTY_PSEUDO_MASTER_MAJOR :: nat where "TTY_PSEUDO_MASTER_MAJOR \<equiv> 128"
abbreviation (input) TTY_PSEUDO_SLAVE_MAJOR :: nat where "TTY_PSEUDO_SLAVE_MAJOR \<equiv> 136"
abbreviation (input) MAX_PTYS :: nat where "MAX_PTYS \<equiv> 4096"

text \<open>
  What a call gets from outside: which allocations succeed and the memory they return, the caller,
  the driver of the host terminal and the device that \<^verbatim>\<open>/dev/console\<close> stands for.
\<close>

record tty_env =
  ye_tty :: bool
  ye_slave :: bool
  ye_raw :: tty
  ye_raw_slave :: tty
  ye_cred :: cred
  ye_dev :: bool
  ye_dev_init :: "tty \<Rightarrow> int \<times> tty"
  ye_dev_limit :: nat
  ye_console :: "nat \<times> nat"

abbreviation set_tty :: "nat \<Rightarrow> tty \<Rightarrow> tstate \<Rightarrow> tstate" where
  "set_tty a t st \<equiv> st\<lparr>ttys := (ttys st)(a \<mapsto> t)\<rparr>"

abbreviation set_slot :: "tty_driver \<Rightarrow> nat \<Rightarrow> tty_slot \<Rightarrow> tstate \<Rightarrow> tstate" where
  "set_slot d n s st \<equiv> st\<lparr>slots := (slots st)(d := (slots st d)(n := s))\<rparr>"

abbreviation set_session :: "nat \<Rightarrow> nat \<Rightarrow> tstate \<Rightarrow> tstate" where
  "set_session a s st \<equiv> st\<lparr>ks := (ks st)\<lparr>tty_session := (tty_session (ks st))(a := s)\<rparr>\<rparr>"

text \<open>The object \<^verbatim>\<open>tty_alloc\<close> returns, in the store.\<close>

definition new_object :: "tty \<Rightarrow> tstate \<Rightarrow> tstate" where
  "new_object t st =
     set_session (new_tty st) 0 (st\<lparr>ttys := (ttys st)(new_tty st \<mapsto> t), new_tty := new_tty st + 1\<rparr>)"

subsection \<open>Pseudo-terminals\<close>

definition pty_slave_init_inode :: "tty_env \<Rightarrow> tty \<Rightarrow> tty" where
  "pty_slave_init_inode e t = t\<lparr>y_uid := euid (ye_cred e), y_gid := egid (ye_cred e), y_perms := 0x190\<rparr>"

text \<open>The result of the allocation of the slave is not tested.\<close>

definition pty_master_init :: "tty_env \<Rightarrow> nat \<Rightarrow> tstate \<Rightarrow> (int \<times> tstate) option" where
  "pty_master_init e a st =
     (case ttys st a of
        None \<Rightarrow> None
      | Some t \<Rightarrow>
          if \<not> ye_slave e then None
          else let t1 = t\<lparr>y_termios := (y_termios t)\<lparr>t_iflags := 0, t_oflags := 0, t_lflags := 0\<rparr>\<rparr>;
                   b = new_tty st;
                   s = tty_alloc (ye_raw_slave e) Pty_slave TTY_PSEUDO_SLAVE_MAJOR (y_num t);
                   s1 = pty_slave_init_inode e (s\<lparr>y_refcount := 1, y_other := Some a, y_locked := True\<rparr>)
               in Some (0, set_tty a (t1\<lparr>y_other := Some b\<rparr>)
                             (set_slot Pty_slave (y_num t) (Used b) (new_object s1 st))))"

definition tty_hangup :: "nat \<Rightarrow> tstate \<Rightarrow> tstate option" where
  "tty_hangup a st =
     (case ttys st a of
        None \<Rightarrow> None
      | Some t \<Rightarrow>
          Some ((set_tty a (t\<lparr>y_hung_up := True\<rparr>) st)
                  \<lparr>tevents := tevents st @ [(a, Notify_produced), (a, Poll_wakeup 1)]\<rparr>))"

definition pty_hangup_other :: "nat \<Rightarrow> tstate \<Rightarrow> (nat option \<times> tstate) option" where
  "pty_hangup_other a st =
     (case ttys st a of
        None \<Rightarrow> None
      | Some t \<Rightarrow>
          (case y_other t of
             None \<Rightarrow> Some (None, st)
           | Some b \<Rightarrow> map_option (Pair (Some b)) (tty_hangup b st)))"

definition pty_slave_cleanup :: "nat \<Rightarrow> tstate \<Rightarrow> tstate option" where
  "pty_slave_cleanup a st = map_option snd (pty_hangup_other a st)"

text \<open>\<^verbatim>\<open>tty_release\<close> with the cleanup of the driver as an argument.\<close>

definition tty_release0 :: "(nat \<Rightarrow> tstate \<Rightarrow> tstate option) \<Rightarrow> nat \<Rightarrow> tstate \<Rightarrow> tstate option" where
  "tty_release0 cleanup a st =
     (case ttys st a of
        None \<Rightarrow> None
      | Some t \<Rightarrow>
          let rc = w32 (y_refcount t + (2 ^ 32 - 1));
              st1 = set_tty a (t\<lparr>y_refcount := rc\<rparr>) st
          in if rc \<noteq> 0 then Some st1
             else map_option (\<lambda>st2. set_slot (y_driver t) (y_num t) Free (st2\<lparr>ttys := (ttys st2)(a := None)\<rparr>))
                    (cleanup a st1))"

text \<open>
  The cleanup of a slave or of the host terminal; the slave of a master is never a master. The cleanup
  of the host terminal changes nothing here.
\<close>

definition slave_cleanup :: "nat \<Rightarrow> tstate \<Rightarrow> tstate option" where
  "slave_cleanup a st =
     (case ttys st a of
        None \<Rightarrow> None
      | Some t \<Rightarrow>
          (case y_driver t of Pty_slave \<Rightarrow> pty_slave_cleanup a st | Device \<Rightarrow> Some st | Pty_master \<Rightarrow> None))"

definition pty_master_cleanup :: "nat \<Rightarrow> tstate \<Rightarrow> tstate option" where
  "pty_master_cleanup a st =
     (case pty_hangup_other a st of
        None \<Rightarrow> None
      | Some (None, st1) \<Rightarrow> None
      | Some (Some b, st1) \<Rightarrow>
          (case ttys st1 b of
             None \<Rightarrow> None
           | Some s \<Rightarrow> tty_release0 slave_cleanup b (set_tty b (s\<lparr>y_other := None\<rparr>) st1)))"

definition tty_release :: "nat \<Rightarrow> tstate \<Rightarrow> tstate option" where
  "tty_release a st =
     (case ttys st a of
        None \<Rightarrow> None
      | Some t \<Rightarrow> tty_release0 (if y_driver t = Pty_master then pty_master_cleanup else slave_cleanup) a st)"

definition pty_slave_open :: "tty \<Rightarrow> int" where
  "pty_slave_open t = (if y_other t = None then EIO else if y_locked t then EIO else 0)"

definition pty_slave_close :: "nat \<Rightarrow> tstate \<Rightarrow> tstate option" where
  "pty_slave_close a st =
     (case ttys st a of
        None \<Rightarrow> None
      | Some t \<Rightarrow>
          if w32 (y_refcount t + (2 ^ 32 - 1)) = (if tty_session (ks st) a \<noteq> 0 then 2 else 1)
          then map_option snd (pty_hangup_other a st) else Some st)"

subsection \<open>Opening and closing\<close>

definition tty_init :: "tty_env \<Rightarrow> tty_driver \<Rightarrow> nat \<Rightarrow> tstate \<Rightarrow> (int \<times> tstate) option" where
  "tty_init e driver a st =
     (case driver of
        Pty_master \<Rightarrow> pty_master_init e a st
      | Pty_slave \<Rightarrow> Some (EIO, st)
      | Device \<Rightarrow> map_option (\<lambda>t. let (err, t1) = ye_dev_init e t in (err, set_tty a t1 st)) (ttys st a))"

definition tty_limit :: "tty_env \<Rightarrow> tty_driver \<Rightarrow> nat" where
  "tty_limit e driver = (if driver = Device then ye_dev_limit e else MAX_PTYS)"

text \<open>The number is not compared with the size of the array.\<close>

definition tty_get :: "tty_env \<Rightarrow> tty_driver \<Rightarrow> nat \<Rightarrow> nat \<Rightarrow> tstate \<Rightarrow> ((int + nat) \<times> tstate) option" where
  "tty_get e driver type num st =
     (let bump = (\<lambda>a st. map_option (\<lambda>t. (Inr a, set_tty a (t\<lparr>y_refcount := w32 (y_refcount t + 1), y_ever_opened := True\<rparr>) st))
                           (ttys st a))
      in if num \<ge> tty_limit e driver then None
         else case slots st driver num of
                Used a \<Rightarrow> bump a st
              | _ \<Rightarrow>
                  if \<not> ye_tty e then Some (Inl ENOMEM, st)
                  else let a = new_tty st
                       in (case tty_init e driver a (new_object (tty_alloc (ye_raw e) driver type num) st) of
                             None \<Rightarrow> None
                           | Some (err, st1) \<Rightarrow>
                               if err < 0 then Some (Inl err, st1)
                               else bump a (set_slot driver num (Used a) st1)))"

definition tty_set_controlling :: "nat \<Rightarrow> nat \<Rightarrow> tstate \<Rightarrow> tstate option" where
  "tty_set_controlling g a st =
     (case (groups (ks st) g, ttys st a) of
        (Some G, Some t) \<Rightarrow>
          if tg_tty G \<noteq> None then Some st
          else Some (set_session a (tg_sid G)
                 ((set_tty a (t\<lparr>y_refcount := w32 (y_refcount t + 1), y_fg_group := tg_pgid G\<rparr>) st)
                    \<lparr>ks := upd_group g (\<lambda>G. G\<lparr>tg_tty := Some a\<rparr>) (ks st)\<rparr>))
      | _ \<Rightarrow> None)"

abbreviation (input) O_NOCTTY :: nat where "O_NOCTTY \<equiv> 256"

definition tty_open :: "nat \<Rightarrow> nat \<Rightarrow> nat \<Rightarrow> nat \<Rightarrow> tstate \<Rightarrow> (int \<times> tstate) option" where
  "tty_open cur a f flags st =
     (case ttys st a of
        None \<Rightarrow> None
      | Some t \<Rightarrow>
          let st1 = (set_tty a (t\<lparr>y_fds := f # y_fds t\<rparr>) st)\<lparr>fd_tty := (fd_tty st)(f \<mapsto> a)\<rparr>
          in if flags AND O_NOCTTY \<noteq> 0 then Some (0, st1)
             else if tty_session (ks st) a \<noteq> 0 then Some (0, st1)
             else case cur_group cur (ks st) of
                    None \<Rightarrow> None
                  | Some (p, G) \<Rightarrow>
                      if tg_sid G = tk_pid p
                      then map_option (Pair 0) (tty_set_controlling (tk_group p) a st1)
                      else Some (0, st1))"

text \<open>Lines 194 to 204: the open function of the driver, then \<^verbatim>\<open>tty_open\<close>.\<close>

definition driver_open :: "nat \<Rightarrow> nat \<Rightarrow> nat \<Rightarrow> nat \<Rightarrow> tstate \<Rightarrow> (int \<times> tstate) option" where
  "driver_open cur a f flags st =
     (case ttys st a of
        None \<Rightarrow> None
      | Some t \<Rightarrow>
          let err = (case y_driver t of Pty_master \<Rightarrow> EIO | Pty_slave \<Rightarrow> pty_slave_open t | Device \<Rightarrow> 0)
          in if err < 0 then map_option (Pair err) (tty_release a st) else tty_open cur a f flags st)"

text \<open>With all slots taken the mark is stored behind the array.\<close>

definition pty_reserve_next :: "tstate \<Rightarrow> (nat \<times> tstate) option" where
  "pty_reserve_next st =
     map_option (\<lambda>n. (n, set_slot Pty_slave n Reserved st)) (find (\<lambda>n. slots st Pty_slave n = Free) [0..<MAX_PTYS])"

definition ptmx_open :: "tty_env \<Rightarrow> nat \<Rightarrow> nat \<Rightarrow> nat \<Rightarrow> tstate \<Rightarrow> (int \<times> tstate) option" where
  "ptmx_open e cur f flags st =
     (case pty_reserve_next st of
        None \<Rightarrow> None
      | Some (n, st1) \<Rightarrow>
          if n = MAX_PTYS then Some (ENOSPC, st1)
          else (case tty_get e Pty_master TTY_PSEUDO_MASTER_MAJOR n st1 of
                  None \<Rightarrow> None
                | Some (Inl err, st2) \<Rightarrow> Some (err, st2)
                | Some (Inr a, st2) \<Rightarrow> tty_open cur a f flags st2))"

definition alternate_open :: "tty_env \<Rightarrow> nat \<Rightarrow> nat \<Rightarrow> nat \<Rightarrow> nat \<Rightarrow> tstate \<Rightarrow> (int \<times> tstate) option" where
  "alternate_open e cur minor f flags st =
     (if minor = 0 then
        (case cur_group cur (ks st) of
           None \<Rightarrow> None
         | Some (p, G) \<Rightarrow>
             (case tg_tty G of
                None \<Rightarrow> Some (ENXIO, st)
              | Some a \<Rightarrow>
                  (case ttys st a of
                     None \<Rightarrow> None
                   | Some t \<Rightarrow> driver_open cur a f flags (set_tty a (t\<lparr>y_refcount := w32 (y_refcount t + 1)\<rparr>) st))))
      else if minor = 2 then ptmx_open e cur f flags st
      else Some (ENXIO, st))"

definition major_open :: "tty_env \<Rightarrow> nat \<Rightarrow> nat \<Rightarrow> nat \<Rightarrow> nat \<Rightarrow> nat \<Rightarrow> tstate \<Rightarrow> (int \<times> tstate) option" where
  "major_open e cur major minor f flags st =
     (case (if major = TTY_PSEUDO_MASTER_MAJOR then Some Pty_master
            else if major = TTY_PSEUDO_SLAVE_MAJOR then Some Pty_slave
            else if major = TTY_CONSOLE_MAJOR \<and> ye_dev e then Some Device else None) of
        None \<Rightarrow> None
      | Some driver \<Rightarrow>
          (case tty_get e driver major minor st of
             None \<Rightarrow> None
           | Some (Inl err, st1) \<Rightarrow> Some (err, st1)
           | Some (Inr a, st1) \<Rightarrow> driver_open cur a f flags st1))"

text \<open>A console that is itself \<^verbatim>\<open>/dev/console\<close> recurses without end.\<close>

definition tty_device_open ::
  "tty_env \<Rightarrow> nat \<Rightarrow> nat \<Rightarrow> nat \<Rightarrow> nat \<Rightarrow> nat \<Rightarrow> tstate \<Rightarrow> (int \<times> tstate) option" where
  "tty_device_open e cur major minor f flags st =
     (let (major', minor') = (if major = TTY_ALTERNATE_MAJOR \<and> minor = 1 then ye_console e else (major, minor))
      in if major' = TTY_ALTERNATE_MAJOR
         then (if minor' = 1 then None else alternate_open e cur minor' f flags st)
         else major_open e cur major' minor' f flags st)"

definition tty_close :: "nat \<Rightarrow> tstate \<Rightarrow> (int \<times> tstate) option" where
  "tty_close f st =
     (case fd_tty st f of
        None \<Rightarrow> Some (0, st)
      | Some a \<Rightarrow>
          (case ttys st a of
             None \<Rightarrow> None
           | Some t \<Rightarrow>
               let st1 = set_tty a (t\<lparr>y_fds := remove1 f (y_fds t)\<rparr>) st
               in case (if y_driver t = Pty_slave then pty_slave_close a st1 else Some st1) of
                    None \<Rightarrow> None
                  | Some st2 \<Rightarrow> map_option (Pair 0) (tty_release a st2)))"

subsection \<open>Writing to the other side\<close>

text \<open>
  Echo is a write to the driver that does not block: for a pseudo-terminal it is input of the other
  side. A master has no echo of its own.
\<close>

fun feed_echo :: "nat \<Rightarrow> nat option \<Rightarrow> tty_event list \<Rightarrow> tstate \<Rightarrow> tstate option" where
  "feed_echo cur other [] st = Some st"
| "feed_echo cur other (Echo data # evs) st =
     (case other of
        None \<Rightarrow> None
      | Some b \<Rightarrow>
          (case tty_input cur b data False [] [] st of
             None \<Rightarrow> None
           | Some (r, st1) \<Rightarrow> feed_echo cur other evs st1))"
| "feed_echo cur other (ev # evs) st = feed_echo cur other evs st"

definition pty_input ::
  "nat \<Rightarrow> nat \<Rightarrow> byte list \<Rightarrow> bool \<Rightarrow> (nat \<times> (tty \<Rightarrow> tty)) list \<Rightarrow> (tty \<Rightarrow> tty) list \<Rightarrow>
   tstate \<Rightarrow> (int \<times> tstate) option" where
  "pty_input cur a input blocking waits wakes st =
     (case (ttys st a, tty_input cur a input blocking waits wakes st) of
        (Some t, Some (r, st1)) \<Rightarrow>
          map_option (Pair r) (feed_echo cur (y_other t) (map snd (drop (length (tevents st)) (tevents st1))) st1)
      | _ \<Rightarrow> None)"

definition pty_write ::
  "nat \<Rightarrow> (nat \<times> (tty \<Rightarrow> tty)) list \<Rightarrow> (tty \<Rightarrow> tty) list \<Rightarrow> nat \<Rightarrow> byte list \<Rightarrow> bool \<Rightarrow>
   tstate \<Rightarrow> (int \<times> tstate) option" where
  "pty_write cur waits wakes a buf blocking st =
     (case ttys st a of
        None \<Rightarrow> None
      | Some t \<Rightarrow> (case y_other t of None \<Rightarrow> None | Some b \<Rightarrow> pty_input cur b buf blocking waits wakes st))"

subsection \<open>Control calls\<close>

abbreviation (input) TCGETS :: nat where "TCGETS \<equiv> 0x5401"
abbreviation (input) TCSETS :: nat where "TCSETS \<equiv> 0x5402"
abbreviation (input) TCSETSW :: nat where "TCSETSW \<equiv> 0x5403"
abbreviation (input) TCSETSF :: nat where "TCSETSF \<equiv> 0x5404"
abbreviation (input) TCFLSH :: nat where "TCFLSH \<equiv> 0x540b"
abbreviation (input) TIOCSCTTY :: nat where "TIOCSCTTY \<equiv> 0x540e"
abbreviation (input) TIOCGPGRP :: nat where "TIOCGPGRP \<equiv> 0x540f"
abbreviation (input) TIOCSPGRP :: nat where "TIOCSPGRP \<equiv> 0x5410"
abbreviation (input) TIOCGWINSZ :: nat where "TIOCGWINSZ \<equiv> 0x5413"
abbreviation (input) TIOCSWINSZ :: nat where "TIOCSWINSZ \<equiv> 0x5414"
abbreviation (input) FIONREAD :: nat where "FIONREAD \<equiv> 0x541b"
abbreviation (input) TIOCPKT :: nat where "TIOCPKT \<equiv> 0x5420"
abbreviation (input) TIOCSPTLCK :: nat where "TIOCSPTLCK \<equiv> 0x40045431"
abbreviation (input) TIOCGPTN :: nat where "TIOCGPTN \<equiv> 0x80045430"
abbreviation (input) TIOCGPKT :: nat where "TIOCGPKT \<equiv> 0x80045438"

text \<open>The argument: a number, or a buffer with what it holds before and after the call.\<close>

datatype ioctl_arg = Arg_int nat | Arg_dword nat | Arg_termios termios | Arg_winsize winsize

definition tty_ioctl_size :: "nat \<Rightarrow> int" where
  "tty_ioctl_size cmd =
     (if cmd \<in> {TCGETS, TCSETS, TCSETSF, TCSETSW} then 36
      else if cmd \<in> {TIOCGWINSZ, TIOCSWINSZ} then 8
      else if cmd \<in> {TIOCGPGRP, TIOCSPGRP, TIOCSPTLCK, TIOCGPTN, TIOCPKT, TIOCGPKT, FIONREAD} then 4
      else if cmd \<in> {TCFLSH, TIOCSCTTY} then 0
      else - 1)"

text \<open>Taking the terminal away from the groups of a session.\<close>

fun steal_tty :: "nat \<Rightarrow> nat list \<Rightarrow> tstate \<Rightarrow> tstate option" where
  "steal_tty a [] st = Some st"
| "steal_tty a (g # gs) st =
     (case (groups (ks st) g, ttys st a) of
        (Some G, Some t) \<Rightarrow>
          steal_tty a gs
            (if tg_tty G = Some a
             then (set_tty a (t\<lparr>y_refcount := w32 (y_refcount t + (2 ^ 32 - 1))\<rparr>) st)
                    \<lparr>ks := upd_group g (\<lambda>G. G\<lparr>tg_tty := None\<rparr>) (ks st)\<rparr>
             else st)
      | _ \<Rightarrow> None)"

definition tiocsctty :: "nat \<Rightarrow> nat \<Rightarrow> nat \<Rightarrow> tstate \<Rightarrow> (int \<times> tstate) option" where
  "tiocsctty cur a force st =
     (case cur_group cur (ks st) of
        None \<Rightarrow> None
      | Some (p, G) \<Rightarrow>
          let session = tty_session (ks st) a
          in if tg_sid G = tk_pid p \<and> tg_sid G = session then Some (0, st)
             else if tg_tty G \<noteq> None then Some (EPERM, st)
             else case (if session = 0 then Some (Inr st)
                        else if w32 force = 1 \<and> tk_euid p = 0 then
                          (case pid_get session (ks st) of
                             Some (Some i) \<Rightarrow> map_option Inr (steal_tty a (p_session (pids (ks st) i)) st)
                           | _ \<Rightarrow> None)
                        else Some (Inl EPERM)) of
                    None \<Rightarrow> None
                  | Some (Inl err) \<Rightarrow> Some (err, st)
                  | Some (Inr st1) \<Rightarrow> map_option (Pair 0) (tty_set_controlling (tk_group p) a st1))"

definition get_slave_side_tty :: "nat \<Rightarrow> tty \<Rightarrow> nat option" where
  "get_slave_side_tty a t = (if y_type t = TTY_PSEUDO_MASTER_MAJOR then y_other t else Some a)"

definition tiocgpgrp :: "nat \<Rightarrow> nat \<Rightarrow> tstate \<Rightarrow> (int + nat) option" where
  "tiocgpgrp cur a st =
     (case ttys st a of
        None \<Rightarrow> None
      | Some t \<Rightarrow>
          (case get_slave_side_tty a t of
             None \<Rightarrow> None
           | Some b \<Rightarrow>
               (case (ttys st b, if b = a then tty_is_current cur a st else Some True) of
                  (Some s, Some current) \<Rightarrow>
                    Some (if b = a \<and> (\<not> current \<or> y_fg_group s = 0) then Inl ENOTTY else Inr (y_fg_group s))
                | _ \<Rightarrow> None)))"

definition tty_set_winsize :: "nat \<Rightarrow> nat \<Rightarrow> winsize \<Rightarrow> tstate \<Rightarrow> tstate option" where
  "tty_set_winsize cur a ws st =
     (case ttys st a of
        None \<Rightarrow> None
      | Some t \<Rightarrow>
          let st1 = set_tty a (t\<lparr>y_winsize := ws\<rparr>) st
          in if y_fg_group t = 0 then Some st1
             else map_option (\<lambda>(err, k). st1\<lparr>ks := k\<rparr>) (send_group_signal cur (y_fg_group t) SIGWINCH SIGINFO_NIL (ks st1)))"

text \<open>The calls that act on the slave even when they are made on the master.\<close>

definition tty_mode_ioctl ::
  "nat \<Rightarrow> nat \<Rightarrow> nat \<Rightarrow> ioctl_arg \<Rightarrow> tstate \<Rightarrow> (int \<times> ioctl_arg \<times> tstate) option" where
  "tty_mode_ioctl cur in_tty cmd arg st =
     (case (case ttys st in_tty of
              None \<Rightarrow> None
            | Some t \<Rightarrow> if y_driver t = Pty_master then y_other t else Some in_tty) of
        None \<Rightarrow> None
      | Some a \<Rightarrow>
          (case ttys st a of
             None \<Rightarrow> None
           | Some t \<Rightarrow>
               if cmd = TCGETS then Some (0, Arg_termios (y_termios t), st)
               else if cmd \<in> {TCSETSF, TCSETSW, TCSETS} then
                 (case arg of
                    Arg_termios new \<Rightarrow>
                      let t1 = (if cmd = TCSETSF then t\<lparr>y_bufsize := 0\<rparr> else t);
                          ev = (if cmd = TCSETSF then [(a, Notify_consumed)] else [])
                      in Some (0, arg, (set_tty a (t1\<lparr>y_termios := new\<rparr>) st)\<lparr>tevents := tevents st @ ev\<rparr>)
                  | _ \<Rightarrow> None)
               else if cmd = TIOCGWINSZ then Some (0, Arg_winsize (y_winsize t), st)
               else if cmd = TIOCSWINSZ then
                 (case arg of
                    Arg_winsize ws \<Rightarrow> map_option (\<lambda>st1. (0, arg, st1)) (tty_set_winsize cur a ws st)
                  | _ \<Rightarrow> None)
               else Some (ENOTTY, arg, st)))"

definition pty_master_ioctl :: "nat \<Rightarrow> nat \<Rightarrow> ioctl_arg \<Rightarrow> tstate \<Rightarrow> (int \<times> ioctl_arg \<times> tstate) option" where
  "pty_master_ioctl a cmd arg st =
     (case ttys st a of
        None \<Rightarrow> None
      | Some t \<Rightarrow>
          if cmd = TIOCSPTLCK \<or> cmd = TIOCGPTN then
            (case y_other t of
               None \<Rightarrow> None
             | Some b \<Rightarrow>
                 (case (ttys st b, arg) of
                    (Some s, Arg_dword v) \<Rightarrow>
                      if cmd = TIOCSPTLCK then Some (0, arg, set_tty b (s\<lparr>y_locked := (v \<noteq> 0)\<rparr>) st)
                      else Some (0, Arg_dword (y_num s), st)
                  | _ \<Rightarrow> None))
          else if cmd = TIOCPKT then
            (case arg of
               Arg_dword v \<Rightarrow> Some (0, arg, set_tty a (t\<lparr>y_packet_mode := (v \<noteq> 0)\<rparr>) st)
             | _ \<Rightarrow> None)
          else if cmd = TIOCGPKT then Some (0, Arg_dword (if y_packet_mode t then 1 else 0), st)
          else Some (ENOTTY, arg, st))"

definition tty_ioctl :: "nat \<Rightarrow> nat \<Rightarrow> nat \<Rightarrow> ioctl_arg \<Rightarrow> tstate \<Rightarrow> (int \<times> ioctl_arg \<times> tstate) option" where
  "tty_ioctl cur a cmd arg st =
     (case ttys st a of
        None \<Rightarrow> None
      | Some t \<Rightarrow>
          if y_hung_up t then Some (if cmd = TIOCSPGRP then ENOTTY else EIO, arg, st)
          else if cmd = TCFLSH then
            (case arg of
               Arg_int v \<Rightarrow>
                 if v = 0 \<or> v = 2 then
                   Some (0, arg, (set_tty a (t\<lparr>y_bufsize := 0\<rparr>) st)\<lparr>tevents := tevents st @ [(a, Notify_consumed)]\<rparr>)
                 else Some (if v = 1 then 0 else EINVAL, arg, st)
             | _ \<Rightarrow> None)
          else if cmd = TIOCSCTTY then
            (case arg of Arg_int v \<Rightarrow> map_option (\<lambda>(err, st1). (err, arg, st1)) (tiocsctty cur a v st) | _ \<Rightarrow> None)
          else if cmd = TIOCGPGRP then
            (case tiocgpgrp cur a st of
               None \<Rightarrow> None
             | Some (Inl err) \<Rightarrow> Some (err, arg, st)
             | Some (Inr fg) \<Rightarrow> Some (0, Arg_dword fg, st))
          else if cmd = TIOCSPGRP then
            (case (cur_group cur (ks st), tty_is_current cur a st, arg) of
               (Some (p, G), Some current, Arg_dword v) \<Rightarrow>
                 if \<not> current \<or> tg_sid G \<noteq> tty_session (ks st) a then Some (ENOTTY, arg, st)
                 else Some (0, arg, set_tty a (t\<lparr>y_fg_group := v\<rparr>) st)
             | _ \<Rightarrow> None)
          else if cmd = FIONREAD then Some (0, Arg_dword (y_bufsize t), st)
          else (case tty_mode_ioctl cur a cmd arg st of
                  None \<Rightarrow> None
                | Some (err, arg1, st1) \<Rightarrow>
                    if err = ENOTTY \<and> y_driver t = Pty_master then pty_master_ioctl a cmd arg1 st1
                    else Some (err, arg1, st1)))"

subsection \<open>The file system of the pseudo-terminals\<close>

definition isdigit :: "char \<Rightarrow> bool" where
  "isdigit c \<longleftrightarrow> 48 \<le> (of_char c :: nat) \<and> (of_char c :: nat) \<le> 57"

text \<open>The number 4096 passes the test, and the entry behind the array is read.\<close>

definition devpts_pty_exists :: "int \<Rightarrow> tstate \<Rightarrow> bool option" where
  "devpts_pty_exists n st =
     (if n < 0 \<or> n > int MAX_PTYS then Some False
      else if n = int MAX_PTYS then None
      else Some (slots st Pty_slave (nat n) \<noteq> Free))"

text \<open>\<^verbatim>\<open>atol\<close> of digits; a number that is too large is the largest one, which is above \<^verbatim>\<open>INT_MAX\<close>.\<close>

definition atol :: "string \<Rightarrow> int" where
  "atol s = min (2 ^ 63 - 1) (foldl (\<lambda>n c. 10 * n + (int (of_char c) - 48)) 0 s)"

definition devpts_get_pty_num :: "string \<Rightarrow> tstate \<Rightarrow> int option" where
  "devpts_get_pty_num path st =
     (if path = [] then Some (- 1)
      else if hd path \<noteq> slash \<or> tl path = [] \<or> slash \<in> set (tl path) then Some ENOENT
      else if \<not> list_all isdigit (tl path) then Some ENOENT
      else if atol (tl path) > 2 ^ 31 - 1 then Some ENOENT
      else map_option (\<lambda>ex. if ex then atol (tl path) else ENOENT) (devpts_pty_exists (atol (tl path)) st))"

definition pty_of :: "int \<Rightarrow> tstate \<Rightarrow> (nat \<times> tty) option" where
  "pty_of n st =
     (if n < 0 \<or> n \<ge> int MAX_PTYS then None
      else case slots st Pty_slave (nat n) of Used a \<Rightarrow> map_option (Pair a) (ttys st a) | _ \<Rightarrow> None)"

definition devpts_stat_num :: "int \<Rightarrow> statbuf \<Rightarrow> tstate \<Rightarrow> statbuf option" where
  "devpts_stat_num n stat st =
     (if n = - 1 then Some (stat\<lparr>st_mode := 0x4000 OR 0x1ed, st_inode := 1\<rparr>)
      else map_option (\<lambda>(a, t). stat\<lparr>st_mode := 0x2000 OR y_perms t, st_uid := y_uid t, st_gid := y_gid t,
                                 st_inode := nat n + 3, st_rdev := TTY_PSEUDO_SLAVE_MAJOR * 2 ^ 16 + nat n\<rparr>)
             (pty_of n st))"

definition devpts_setattr_num :: "int \<Rightarrow> attr \<Rightarrow> tstate \<Rightarrow> (int \<times> tstate) option" where
  "devpts_setattr_num n at st =
     (if n = - 1 then Some (EROFS, st)
      else case at of
             Attr_size v \<Rightarrow> Some (EINVAL, st)
           | _ \<Rightarrow>
               map_option (\<lambda>(a, t). (0, set_tty a (case at of Attr_uid v \<Rightarrow> t\<lparr>y_uid := v\<rparr> | Attr_gid v \<Rightarrow> t\<lparr>y_gid := v\<rparr>
                                                   | Attr_mode v \<Rightarrow> t\<lparr>y_perms := v\<rparr> | Attr_size v \<Rightarrow> t) st))
                 (pty_of n st))"

text \<open>The result of the change is not returned.\<close>

definition devpts_setattr :: "string \<Rightarrow> attr \<Rightarrow> tstate \<Rightarrow> (int \<times> tstate) option" where
  "devpts_setattr path at st =
     (case devpts_get_pty_num path st of
        None \<Rightarrow> None
      | Some n \<Rightarrow>
          if n = ENOENT then Some (ENOENT, st)
          else map_option (\<lambda>(err, st1). (0, st1)) (devpts_setattr_num n at st))"

definition devpts_stat :: "string \<Rightarrow> statbuf \<Rightarrow> tstate \<Rightarrow> (int \<times> statbuf) option" where
  "devpts_stat path stat st =
     (case devpts_get_pty_num path st of
        None \<Rightarrow> None
      | Some n \<Rightarrow> if n = ENOENT then Some (ENOENT, stat) else map_option (Pair 0) (devpts_stat_num n stat st))"

text \<open>\<^verbatim>\<open>sprintf\<close> of a number that is not negative\<close>

fun decimal :: "nat \<Rightarrow> string" where
  "decimal n = (if n < 10 then [] else decimal (n div 10)) @ [char_of (48 + n mod 10)]"

declare decimal.simps [simp del]

text \<open>The loop of \<^verbatim>\<open>devpts_readdir\<close>: the first terminal from a number on.\<close>

definition devpts_next :: "int \<Rightarrow> tstate \<Rightarrow> nat option" where
  "devpts_next n st = find (\<lambda>i. slots st Pty_slave i \<noteq> Free) [nat n..<MAX_PTYS]"

text \<open>The entry, when there is one, and the new offset.\<close>

definition devpts_readdir :: "nat \<Rightarrow> tstate \<Rightarrow> ((nat \<times> string) option \<times> nat)" where
  "devpts_readdir offset st =
     (case devpts_next (s32 (int offset)) st of
        None \<Rightarrow> (None, offset)
      | Some n \<Rightarrow> (Some (n + 3, decimal n), n + 1))"

section \<open>Writing to a master\<close>

definition pty_pair :: "nat \<Rightarrow> tty \<Rightarrow> nat \<Rightarrow> tty \<Rightarrow> tstate \<Rightarrow> bool" where
  "pty_pair a m b s st \<longleftrightarrow> ttys st a = Some m \<and> ttys st b = Some s \<and> a \<noteq> b \<and> y_driver m = Pty_master \<and>
     y_driver s = Pty_slave \<and> y_other m = Some b \<and> y_other s = Some a"

lemma feed_echo_raw:
  assumes "ttys st b = Some m" and "\<not> lflag m ICANON" "\<not> lflag m ISIG"
    and "y_bufsize m + length (concat (echoes evs)) \<le> TTY_BUF_SIZE"
  shows "\<exists>ev. feed_echo cur (Some b) evs st =
    Some (st\<lparr>ttys := (ttys st)(b \<mapsto> raw_put (concat (echoes evs)) m), tevents := tevents st @ ev\<rparr>)"
  using assms
proof (induction evs arbitrary: st m)
  case Nil
  then show ?case by (cases st) (auto simp: fun_upd_idem intro: exI [of _ "[]"])
next
  case (Cons e evs)
  show ?case
  proof (cases e)
    case (Echo d)
    have len: "length d = min (length d) (TTY_BUF_SIZE - y_bufsize m)" using Cons.prems(4) Echo by simp
    obtain ev1 where i: "\<exists>r. tty_input cur b d False [] [] st =
        Some (r, st\<lparr>ttys := (ttys st)(b \<mapsto> raw_put d m), tevents := tevents st @ map (Pair b) ev1\<rparr>)"
      using raw_input [OF Cons.prems(1-3) _ len, of False cur "[]"] Cons.prems(4) by auto
    let ?st = "st\<lparr>ttys := (ttys st)(b \<mapsto> raw_put d m), tevents := tevents st @ map (Pair b) ev1\<rparr>"
    have "ttys ?st b = Some (raw_put d m)" "\<not> lflag (raw_put d m) ICANON" "\<not> lflag (raw_put d m) ISIG"
      "y_bufsize (raw_put d m) + length (concat (echoes evs)) \<le> TTY_BUF_SIZE"
      using Cons.prems(2-4) Echo by simp_all
    from Cons.IH [OF this] obtain ev2 where "feed_echo cur (Some b) evs ?st =
        Some (?st\<lparr>ttys := (ttys ?st)(b \<mapsto> raw_put (concat (echoes evs)) (raw_put d m)), tevents := tevents ?st @ ev2\<rparr>)"
      by blast
    then have "feed_echo cur (Some b) (e # evs) st =
        Some (st\<lparr>ttys := (ttys st)(b \<mapsto> raw_put (concat (echoes (e # evs))) m), tevents := tevents st @ (map (Pair b) ev1 @ ev2)\<rparr>)"
      using i unfolding Echo by (elim exE) (simp add: raw_put_append)
    then show ?thesis by blast
  qed (use Cons.IH [OF Cons.prems(1-3)] Cons.prems(4) in auto)
qed

text \<open>
  A write that does not block reports every byte as written, although the other side took only those for
  which its buffer had room.
\<close>

theorem tty_write_loses_bytes:
  assumes pair: "pty_pair a m b s st" and live: "tty_dead a st = Some False" and out: "\<not> has_flag (t_oflags (y_termios m)) OPOST"
    and raw: "\<not> lflag s ICANON" "\<not> lflag s ISIG" and room: "y_bufsize s < TTY_BUF_SIZE"
    and long: "TTY_BUF_SIZE < y_bufsize s + length buf"
  shows "\<exists>st' s'. tty_write (pty_write cur waits []) memory True a buf st = Some (int (length buf), st') \<and>
    ttys st' b = Some s' \<and> bytes s' = bytes s @ take (TTY_BUF_SIZE - y_bufsize s) buf"
proof -
  have p: "ttys st a = Some m" "ttys st b = Some s" "y_other m = Some b" "y_other s = Some a"
    using pair by (simp_all add: pty_pair_def)
  let ?k = "TTY_BUF_SIZE - y_bufsize s"
  have k: "?k = min (length buf) (TTY_BUF_SIZE - y_bufsize s)" "?k \<noteq> 0" using long room by simp_all
  obtain ev where i: "tty_input cur b buf False waits [] st =
      Some (int ?k, st\<lparr>ttys := (ttys st)(b \<mapsto> raw_put (take ?k buf) s), tevents := tevents st @ map (Pair b) ev\<rparr>)" "echoes ev = []"
    using raw_input [OF p(2) raw _ k(1), of False cur waits] k(2) room by auto
  have none: "feed_echo cur o' ev st' = Some st'" for o' st'
    using i(2) by (induction ev rule: echoes.induct) auto
  have "pty_write cur waits [] a buf False st =
      Some (int ?k, st\<lparr>ttys := (ttys st)(b \<mapsto> raw_put (take ?k buf) s), tevents := tevents st @ map (Pair b) ev\<rparr>)"
    using p i(1) none by (simp add: pty_write_def pty_input_def comp_def)
  then have "tty_write (pty_write cur waits []) memory True a buf st =
      Some (int (length buf), st\<lparr>ttys := (ttys st)(b \<mapsto> raw_put (take ?k buf) s), tevents := tevents st @ map (Pair b) ev\<rparr>)"
    using p(1) live out by (simp add: tty_write_def Let_def)
  then show ?thesis by (simp add: bytes_raw_put)
qed

lemma may_read_both:
  assumes ok: "may_read cur a t st" and t': "ttys st' a = Some t'" "same_cfg t t'" and k: "ks st' = ks st"
    and all: "\<And>x. rel_option same_cfg (ttys st x) (ttys st' x)"
  shows "may_read cur a t' st'"
proof -
  have t: "ttys st a = Some t" using ok by (simp add: may_read_def)
  have "pty_is_half_closed_master a st' = pty_is_half_closed_master a st"
  proof (cases "y_other t")
    case None
    then show ?thesis using t t'(1) same_cfgD [OF t'(2)] by (simp add: pty_is_half_closed_master_def)
  next
    case (Some b)
    then show ?thesis
      using all [of b] t t'(1) same_cfgD [OF t'(2)]
      by (cases "ttys st b"; cases "ttys st' b") (simp_all add: pty_is_half_closed_master_def same_cfgD)
  qed
  then have "tty_dead a st' = tty_dead a st" using t t'(1) same_cfgD [OF t'(2)] by (simp add: tty_dead_def)
  then show ?thesis using ok t'(1) k same_cfgD [OF t'(2)] by (simp add: may_read_def)
qed

text \<open>A master as \<^verbatim>\<open>pty_master_init\<close> leaves it, with nothing in its buffer.\<close>

definition idle_master :: "tty \<Rightarrow> bool" where
  "idle_master m \<longleftrightarrow> t_lflags (y_termios m) = 0 \<and> t_oflags (y_termios m) = 0 \<and> y_bufsize m = 0 \<and>
     t_cc (y_termios m) VMIN = 1 \<and> (\<forall>i. \<not> y_flag m i)"

text \<open>
  C40. A line written to the master of a pseudo-terminal, whose slave is in canonical mode, reaches a reader of
  the slave as it was typed, and a reader of the master gets exactly the echo of the line.
\<close>

theorem pty_line_and_echo:
  assumes pair: "pty_pair a m b s st" and m: "idle_master m" and canon: "lflag s ICANON" and empty: "y_bufsize s = 0"
    and rd: "may_read cur b s st" and wr: "may_read writer a m st"
    and cs: "list_all (ordinary s) cs" and nl: "ends_line s c" and room: "length cs < TTY_BUF_SIZE"
    and echo: "echo = concat (concat (map (char_echo s) cs)) @ (if lflag s ECHO then [13, 10] else [])"
    and er: "echo \<noteq> []" "length echo \<le> TTY_BUF_SIZE"
  shows "\<exists>st1 st2 st3. tty_write (pty_write writer waits []) memory nonblock a (cs @ [c]) st = Some (int (length cs) + 1, st1) \<and>
    tty_read cur nonblock b (length cs + 1) ws st1 = Some (int (length cs) + 1, cs @ [10], st2) \<and>
    tty_read writer nonblock a (length echo) ws st1 = Some (int (length echo), echo, st3)"
proof -
  have p: "ttys st a = Some m" "ttys st b = Some s" "a \<noteq> b" "y_other m = Some b" "y_other s = Some a"
    using pair by (simp_all add: pty_pair_def)
  have h: "holds s [] []" using empty by (simp add: holds_def content_def)
  let ?es = "concat (map (char_echo s) cs) @ (if lflag s ECHO then [[13, 10]] else [])"
  have es: "concat ?es = echo" by (simp add: echo)
  have e: "edit s (cs @ [c]) ([], []) = (([cs @ [10]], []), ?es)"
    by (simp add: edit_append edit_ordinary(1) [OF cs] edit_line(1) [OF nl] del: edit_char.simps)
  have "queued_all s (cs @ [c]) = 0" by (simp add: queued_append edit_ordinary(2) [OF cs] edit_line(2) [OF nl])
  then have sent: "(if y_fg_group s = 0 then Some (ks st)
      else send_queue writer (y_fg_group s) (queued_all s (cs @ [c])) [1..<NUM_SIGS] (ks st)) = Some (ks st)"
    by (simp add: send_nothing)
  have "y_bufsize s + length (cs @ [c]) \<le> TTY_BUF_SIZE" using room empty by simp
  then obtain s1 ev where i: "tty_input writer b (cs @ [c]) (\<not> nonblock) waits [] st =
      Some (int (length (cs @ [c])), st\<lparr>ttys := (ttys st)(b \<mapsto> s1), ks := ks st, tevents := tevents st @ map (Pair b) ev\<rparr>)"
    "same_cfg s s1" "holds s1 [cs @ [10]] []" "echoes ev = ?es"
    using tty_input_gen [OF p(2) canon h _ sent e, of "\<not> nonblock" waits] by blast
  let ?st = "st\<lparr>ttys := (ttys st)(b \<mapsto> s1), ks := ks st, tevents := tevents st @ map (Pair b) ev\<rparr>"
  have "ttys ?st a = Some m" "\<not> lflag m ICANON" "\<not> lflag m ISIG" "y_bufsize m + length (concat (echoes ev)) \<le> TTY_BUF_SIZE"
    using p(1,3) m er(2) i(4) es by (simp_all add: idle_master_def)
  from feed_echo_raw [OF this] obtain ev2 where
    f: "feed_echo writer (Some a) ev ?st = Some (?st\<lparr>ttys := (ttys ?st)(a \<mapsto> raw_put echo m), tevents := tevents ?st @ ev2\<rparr>)"
    using i(4) es by metis
  define st1 where "st1 = ?st\<lparr>ttys := (ttys ?st)(a \<mapsto> raw_put echo m), tevents := tevents ?st @ ev2\<rparr>"
  have st1: "ttys st1 a = Some (raw_put echo m)" "ttys st1 b = Some s1" "ks st1 = ks st"
    and all: "\<And>x. rel_option same_cfg (ttys st x) (ttys st1 x)"
    using p(1-3) i(2) raw_put_cfg [of m echo] by (auto simp: st1_def option.rel_refl)
  have "pty_write writer waits [] a (cs @ [c]) (\<not> nonblock) st = Some (int (length cs) + 1, st1)"
    using p i(1) f by (simp add: pty_write_def pty_input_def comp_def st1_def)
  moreover have "tty_dead a st = Some False" using wr by (simp add: may_read_def)
  ultimately have w: "tty_write (pty_write writer waits []) memory nonblock a (cs @ [c]) st = Some (int (length cs) + 1, st1)"
    using p(1) m by (simp add: tty_write_def idle_master_def)
  have "lflag s1 ICANON" using canon same_cfgD(1) [OF i(2)] by simp
  then have r: "\<exists>st2. tty_read cur nonblock b (length cs + 1) ws st1 = Some (int (length cs) + 1, cs @ [10], st2)"
    using tty_read_gen [OF may_read_both [OF rd st1(2) i(2) st1(3) all] _ i(3), of "length cs + 1" nonblock ws]
    by (auto simp: line_text_def)
  have all_bytes: "bytes (raw_put echo m) = echo" using m by (simp add: bytes_raw_put) (simp add: bytes_def idle_master_def)
  have "\<exists>st3. tty_read writer nonblock a (length echo) ws st1 = Some (int (length echo), echo, st3)"
    using raw_read [OF may_read_both [OF wr st1(1) raw_put_cfg st1(3) all], of "length echo" nonblock ws] m er(1) all_bytes
    by (cases echo) (auto simp: idle_master_def)
  then show ?thesis using w r by blast
qed

section \<open>Opening and closing pseudo-terminals\<close>

subsection \<open>The invariant\<close>

definition pty_links :: "(nat \<Rightarrow> tty option) \<Rightarrow> nat \<Rightarrow> tty \<Rightarrow> bool" where
  "pty_links T a t \<longleftrightarrow> (y_driver t = Pty_master \<longrightarrow> y_other t \<noteq> None) \<and>
     (\<forall>b. y_other t = Some b \<longrightarrow> (\<exists>s. T b = Some s \<and> y_other s = Some a \<and> y_num s = y_num t \<and>
        y_driver s = (if y_driver t = Pty_master then Pty_slave else Pty_master)))"

definition pty_count :: "tty \<Rightarrow> bool" where
  "pty_count t \<longleftrightarrow> distinct (y_fds t) \<and> y_refcount t < 2 ^ 32 \<and>
     y_refcount t = length (y_fds t) + (if y_driver t = Pty_slave \<and> y_other t \<noteq> None then 1 else 0)"

text \<open>
  Every terminal is a master or a slave in its slot, masters and slaves refer to each other, and the
  reference count is the number of descriptors, with the reference of the master to its slave.
\<close>

definition pty_ok :: "tstate \<Rightarrow> bool" where
  "pty_ok st \<longleftrightarrow>
     (\<forall>a t. ttys st a = Some t \<longrightarrow> a < new_tty st \<and> y_driver t \<noteq> Device \<and> y_num t < MAX_PTYS \<and>
        slots st (y_driver t) (y_num t) = Used a \<and> pty_count t \<and> pty_links (ttys st) a t) \<and>
     (\<forall>d n. case slots st d n of Used a \<Rightarrow> \<exists>t. ttys st a = Some t \<and> y_driver t = d \<and> y_num t = n
            | Reserved \<Rightarrow> d = Pty_slave | Free \<Rightarrow> True) \<and>
     (\<forall>f a. fd_tty st f = Some a \<longleftrightarrow> (\<exists>t. ttys st a = Some t \<and> f \<in> set (y_fds t)))"

definition pty_held :: "tstate \<Rightarrow> bool" where
  "pty_held st \<longleftrightarrow> (\<forall>a t. ttys st a = Some t \<longrightarrow> 0 < y_refcount t)"

lemma pty_okD:
  assumes "pty_ok st" and "ttys st a = Some t"
  shows "a < new_tty st" "y_driver t \<noteq> Device" "y_num t < MAX_PTYS" "slots st (y_driver t) (y_num t) = Used a"
    "pty_count t" "pty_links (ttys st) a t"
  using assms by (auto simp: pty_ok_def)

lemma pty_ok_slot:
  assumes "pty_ok st" and "slots st d n = Used a"
  obtains t where "ttys st a = Some t" "y_driver t = d" "y_num t = n"
proof -
  have "case slots st d n of Used a \<Rightarrow> \<exists>t. ttys st a = Some t \<and> y_driver t = d \<and> y_num t = n | Reserved \<Rightarrow> d = Pty_slave | Free \<Rightarrow> True"
    using assms(1) unfolding pty_ok_def by blast
  then show ?thesis using assms(2) that by auto
qed

lemma pty_ok_reserved: "pty_ok st \<Longrightarrow> slots st d n = Reserved \<Longrightarrow> d = Pty_slave"
  unfolding pty_ok_def by (elim conjE allE [of _ d] allE [of _ n]) simp

lemma pty_ok_fds: "pty_ok st \<Longrightarrow> fd_tty st f = Some a \<longleftrightarrow> (\<exists>t. ttys st a = Some t \<and> f \<in> set (y_fds t))"
  unfolding pty_ok_def by blast

text \<open>The fields the invariant is about.\<close>

definition same_core :: "tty \<Rightarrow> tty \<Rightarrow> bool" where
  "same_core t t' \<longleftrightarrow> y_driver t' = y_driver t \<and> y_num t' = y_num t \<and> y_other t' = y_other t \<and>
     y_refcount t' = y_refcount t \<and> y_fds t' = y_fds t"

lemma same_core_refl [simp]: "same_core t t"
  by (simp add: same_core_def)

lemma pty_links_core:
  assumes "\<And>x. rel_option same_core (T x) (T' x)" and "same_core t t'"
  shows "pty_links T' a t' \<longleftrightarrow> pty_links T a t"
proof -
  have "(\<exists>s. T' b = Some s \<and> y_other s = Some a \<and> y_num s = n \<and> y_driver s = d) \<longleftrightarrow>
      (\<exists>s. T b = Some s \<and> y_other s = Some a \<and> y_num s = n \<and> y_driver s = d)" for b n d
    using assms(1) [of b] by (cases "T b"; cases "T' b") (auto simp: same_core_def)
  then show ?thesis using assms(2) by (simp add: pty_links_def same_core_def)
qed

lemma pty_ok_core:
  assumes core: "\<And>x. rel_option same_core (ttys st x) (ttys st' x)"
    and eq: "slots st' = slots st" "new_tty st' = new_tty st" "fd_tty st' = fd_tty st" and ok: "pty_ok st"
  shows "pty_ok st'"
proof -
  have bwd: "\<exists>t. ttys st a = Some t \<and> same_core t t'" if "ttys st' a = Some t'" for a t'
    using core [of a] that by (cases "ttys st a") auto
  have fwd: "\<exists>t'. ttys st' a = Some t' \<and> same_core t t'" if "ttys st a = Some t" for a t
    using core [of a] that by (cases "ttys st' a") auto
  have each: "a < new_tty st' \<and> y_driver t \<noteq> Device \<and> y_num t < MAX_PTYS \<and>
      slots st' (y_driver t) (y_num t) = Used a \<and> pty_count t \<and> pty_links (ttys st') a t" if t: "ttys st' a = Some t" for a t
  proof -
    obtain u where u: "ttys st a = Some u" "same_core u t" using bwd [OF t] by blast
    have "pty_count t \<longleftrightarrow> pty_count u" using u(2) by (simp add: pty_count_def same_core_def)
    then show ?thesis
      using pty_okD [OF ok u(1)] pty_links_core [where a = a, OF core u(2)] u(2) eq by (simp add: same_core_def)
  qed
  have "\<exists>t. ttys st' a = Some t \<and> y_driver t = d \<and> y_num t = n" if "slots st' d n = Used a" for d n a
  proof -
    have "slots st d n = Used a" using that eq(1) by simp
    then obtain t where "ttys st a = Some t" "y_driver t = d" "y_num t = n" by (rule pty_ok_slot [OF ok])
    then show ?thesis using fwd [of a t] by (auto simp: same_core_def)
  qed
  moreover have "slots st' d n = Reserved \<Longrightarrow> d = Pty_slave" for d n
    using pty_ok_reserved [OF ok] eq(1) by simp
  moreover have "fd_tty st' f = Some a \<longleftrightarrow> (\<exists>t. ttys st' a = Some t \<and> f \<in> set (y_fds t))" for f a
    using pty_ok_fds [OF ok, of f a] eq(3) core [of a] by (cases "ttys st a"; cases "ttys st' a") (auto simp: same_core_def)
  ultimately show ?thesis using each unfolding pty_ok_def by (auto split: tty_slot.split)
qed

lemma hangup_core:
  assumes "ttys st b = Some s"
  shows "tty_hangup b st = Some (st\<lparr>ttys := (ttys st)(b \<mapsto> s\<lparr>y_hung_up := True\<rparr>), tevents := tevents st @ [(b, Notify_produced), (b, Poll_wakeup 1)]\<rparr>)"
  using assms by (simp add: tty_hangup_def)

lemma pty_linkD:
  assumes "pty_ok st" and "ttys st a = Some t" and "y_other t = Some b"
  obtains s where "ttys st b = Some s" "y_other s = Some a" "y_num s = y_num t"
    "y_driver s = (if y_driver t = Pty_master then Pty_slave else Pty_master)"
  using pty_okD(6) [OF assms(1,2)] assms(3) by (auto simp: pty_links_def)

subsection \<open>Changes that keep it\<close>

lemma pty_ok_slots_iff:
  "(\<forall>d n. case S d n of Used a \<Rightarrow> \<exists>t. T a = Some t \<and> y_driver t = d \<and> y_num t = n
            | Reserved \<Rightarrow> d = Pty_slave | Free \<Rightarrow> True) \<longleftrightarrow>
   (\<forall>d n a. S d n = Used a \<longrightarrow> (\<exists>t. T a = Some t \<and> y_driver t = d \<and> y_num t = n)) \<and>
   (\<forall>d n. S d n = Reserved \<longrightarrow> d = Pty_slave)"
proof -
  have "(case S d n of Used a \<Rightarrow> \<exists>t. T a = Some t \<and> y_driver t = d \<and> y_num t = n | Reserved \<Rightarrow> d = Pty_slave | Free \<Rightarrow> True) \<longleftrightarrow>
     (\<forall>a. S d n = Used a \<longrightarrow> (\<exists>t. T a = Some t \<and> y_driver t = d \<and> y_num t = n)) \<and> (S d n = Reserved \<longrightarrow> d = Pty_slave)" for d n
    by (cases "S d n") auto
  then show ?thesis by blast
qed

lemma pty_okI:
  assumes "\<And>a t. ttys st a = Some t \<Longrightarrow> a < new_tty st \<and> y_driver t \<noteq> Device \<and> y_num t < MAX_PTYS \<and>
        slots st (y_driver t) (y_num t) = Used a \<and> pty_count t \<and> pty_links (ttys st) a t"
    and "\<And>d n a. slots st d n = Used a \<Longrightarrow> \<exists>t. ttys st a = Some t \<and> y_driver t = d \<and> y_num t = n"
    and "\<And>d n. slots st d n = Reserved \<Longrightarrow> d = Pty_slave"
    and "\<And>f a. fd_tty st f = Some a \<longleftrightarrow> (\<exists>t. ttys st a = Some t \<and> f \<in> set (y_fds t))"
  shows "pty_ok st"
  unfolding pty_ok_def pty_ok_slots_iff using assms by blast

text \<open>The descriptors of one terminal change.\<close>

lemma pty_ok_fd:
  assumes ok: "pty_ok st" and t: "ttys st a = Some t"
    and t': "y_driver t' = y_driver t" "y_num t' = y_num t" "y_other t' = y_other t" "pty_count t'"
    and st': "ttys st' = (ttys st)(a \<mapsto> t')" "slots st' = slots st" "new_tty st' = new_tty st"
    and fd: "\<And>f x. fd_tty st' f = Some x \<longleftrightarrow> (if x = a then f \<in> set (y_fds t') else fd_tty st f = Some x)"
  shows "pty_ok st'"
proof (rule pty_okI)
  fix x u assume u: "ttys st' x = Some u"
  obtain v where v: "ttys st x = Some v" "y_driver u = y_driver v" "y_num u = y_num v" "y_other u = y_other v"
    using u t t' st'(1) by (cases "x = a") auto
  have link: "(\<exists>s. ttys st b = Some s \<and> y_other s = Some x \<and> y_num s = n \<and> y_driver s = d) \<Longrightarrow>
      (\<exists>s. ttys st' b = Some s \<and> y_other s = Some x \<and> y_num s = n \<and> y_driver s = d)" for b n d
    using t t' st'(1) by (cases "b = a") auto
  have "pty_links (ttys st') x u" using pty_okD(6) [OF ok v(1)] v(2-4) link by (auto simp: pty_links_def)
  moreover have "pty_count u" using u t'(4) pty_okD(5) [OF ok v(1)] v(1) st'(1) by (cases "x = a") auto
  ultimately show "x < new_tty st' \<and> y_driver u \<noteq> Device \<and> y_num u < MAX_PTYS \<and>
      slots st' (y_driver u) (y_num u) = Used x \<and> pty_count u \<and> pty_links (ttys st') x u"
    using pty_okD [OF ok v(1)] v(2-4) st'(2,3) by simp
next
  fix d n x assume "slots st' d n = Used x"
  then have "slots st d n = Used x" using st'(2) by simp
  then obtain v where "ttys st x = Some v" "y_driver v = d" "y_num v = n" by (rule pty_ok_slot [OF ok])
  then show "\<exists>u. ttys st' x = Some u \<and> y_driver u = d \<and> y_num u = n" using t t' st'(1) by (cases "x = a") auto
next
  show "slots st' d n = Reserved \<Longrightarrow> d = Pty_slave" for d n using pty_ok_reserved [OF ok] st'(2) by simp
  show "fd_tty st' f = Some x \<longleftrightarrow> (\<exists>u. ttys st' x = Some u \<and> f \<in> set (y_fds u))" for f x
    using fd [of f x] pty_ok_fds [OF ok, of f x] st'(1) by (cases "x = a") auto
qed

text \<open>A terminal without descriptors and without another side is freed.\<close>

lemma pty_ok_free:
  assumes ok: "pty_ok st" and t: "ttys st a = Some t" "y_other t = None" "y_fds t = []"
    and st': "ttys st' = (ttys st)(a := None)" "slots st' = (slots st)(y_driver t := (slots st (y_driver t))(y_num t := Free))"
      "new_tty st' = new_tty st" "fd_tty st' = fd_tty st"
  shows "pty_ok st'"
proof (rule pty_okI)
  fix x u assume u': "ttys st' x = Some u"
  then have u: "ttys st x = Some u" and xa: "x \<noteq> a" using st'(1) by (auto split: if_splits)
  note o = pty_okD [OF ok u]
  have na: "y_other u \<noteq> Some a" using o(6) t(1,2) by (auto simp: pty_links_def)
  have "pty_links (ttys st') x u" using o(6) na st'(1) by (auto simp: pty_links_def)
  moreover have "slots st' (y_driver u) (y_num u) = Used x"
    using o(4) pty_okD(4) [OF ok t(1)] xa st'(2) by (auto simp: fun_upd_def)
  ultimately show "x < new_tty st' \<and> y_driver u \<noteq> Device \<and> y_num u < MAX_PTYS \<and>
      slots st' (y_driver u) (y_num u) = Used x \<and> pty_count u \<and> pty_links (ttys st') x u"
    using o st'(3) by simp
next
  fix d n x assume s: "slots st' d n = Used x"
  then have "slots st d n = Used x" and ne: "\<not> (d = y_driver t \<and> n = y_num t)" using st'(2) by (auto split: if_splits)
  then obtain v where "ttys st x = Some v" "y_driver v = d" "y_num v = n" using pty_ok_slot [OF ok] by blast
  then show "\<exists>u. ttys st' x = Some u \<and> y_driver u = d \<and> y_num u = n" using t(1) ne st'(1) by (cases "x = a") auto
next
  show "slots st' d n = Reserved \<Longrightarrow> d = Pty_slave" for d n
    using pty_ok_reserved [OF ok, of d n] st'(2) by (auto split: if_splits)
  show "fd_tty st' f = Some x \<longleftrightarrow> (\<exists>u. ttys st' x = Some u \<and> f \<in> set (y_fds u))" for f x
    using pty_ok_fds [OF ok, of f x] st'(1,4) t(1,3) by (cases "x = a") auto
qed

text \<open>A master without descriptors is freed, and its slave loses the other side and the reference.\<close>

lemma pty_ok_unlink:
  assumes ok: "pty_ok st" and t: "ttys st a = Some t" "y_driver t = Pty_master" "y_other t = Some b" "y_fds t = []"
    and s: "ttys st b = Some s"
    and s': "y_driver s' = y_driver s" "y_num s' = y_num s" "y_other s' = None" "y_fds s' = y_fds s" "y_refcount s' = length (y_fds s)"
    and st': "ttys st' = ((ttys st)(b \<mapsto> s'))(a := None)" "slots st' = (slots st)(Pty_master := (slots st Pty_master)(y_num t := Free))"
      "new_tty st' = new_tty st" "fd_tty st' = fd_tty st"
  shows "pty_ok st'"
proof (rule pty_okI)
  obtain s0 where "ttys st b = Some s0" "y_other s0 = Some a" "y_num s0 = y_num t" "y_driver s0 = Pty_slave"
    using pty_linkD [OF ok t(1,3)] t(2) by auto
  then have sl: "y_other s = Some a" "y_num s = y_num t" "y_driver s = Pty_slave" using s by simp_all
  then have ab: "a \<noteq> b" using t(1,2) s by auto
  fix x u assume u': "ttys st' x = Some u"
  have xa: "x \<noteq> a" using u' st'(1) by (auto split: if_splits)
  show "x < new_tty st' \<and> y_driver u \<noteq> Device \<and> y_num u < MAX_PTYS \<and>
      slots st' (y_driver u) (y_num u) = Used x \<and> pty_count u \<and> pty_links (ttys st') x u"
  proof (cases "x = b")
    case True
    then have u: "u = s'" using u' st'(1) xa by simp
    note o = pty_okD [OF ok s]
    have "pty_count s'" using o(5) s' sl by (auto simp: pty_count_def)
    moreover have "pty_links (ttys st') x s'" using s'(1,3) sl(3) by (simp add: pty_links_def)
    ultimately show ?thesis using o s' sl(3) st'(2,3) True u by simp
  next
    case False
    then have u: "ttys st x = Some u" using u' st'(1) xa by simp
    note o = pty_okD [OF ok u]
    have na: "y_other u \<noteq> Some a" "y_other u \<noteq> Some b" using o(6) t(1,3) s sl(1) False xa by (auto simp: pty_links_def)
    have "pty_links (ttys st') x u" using o(6) na st'(1) by (auto simp: pty_links_def)
    moreover have "slots st' (y_driver u) (y_num u) = Used x"
      using o(4) pty_okD(4) [OF ok t(1)] xa st'(2) t(2) by (auto simp: fun_upd_def)
    ultimately show ?thesis using o st'(3) by simp
  qed
next
  fix d n x assume sx: "slots st' d n = Used x"
  then have "slots st d n = Used x" and ne: "\<not> (d = Pty_master \<and> n = y_num t)" using st'(2) by (auto split: if_splits)
  then obtain v where "ttys st x = Some v" "y_driver v = d" "y_num v = n" using pty_ok_slot [OF ok] by blast
  then show "\<exists>u. ttys st' x = Some u \<and> y_driver u = d \<and> y_num u = n"
    using t(1,2) ne st'(1) s s'(1,2) by (cases "x = a"; cases "x = b") auto
next
  show "slots st' d n = Reserved \<Longrightarrow> d = Pty_slave" for d n
    using pty_ok_reserved [OF ok, of d n] st'(2) by (auto split: if_splits)
  show "fd_tty st' f = Some x \<longleftrightarrow> (\<exists>u. ttys st' x = Some u \<and> f \<in> set (y_fds u))" for f x
    using pty_ok_fds [OF ok, of f x] st'(1,4) t(1,4) s s'(4) by (cases "x = a"; cases "x = b") auto
qed

text \<open>A new pair.\<close>

lemma pty_ok_fresh: "pty_ok st \<Longrightarrow> new_tty st \<le> a \<Longrightarrow> ttys st a = None"
  by (cases "ttys st a") (auto dest: pty_okD(1))

lemma pty_ok_new:
  assumes ok: "pty_ok st" and n: "n < MAX_PTYS" "slots st Pty_master n = Free" "\<And>x. slots st Pty_slave n \<noteq> Used x"
    and f: "fd_tty st f = None" and ab: "new_tty st \<le> a" "new_tty st \<le> b" "a \<noteq> b"
    and m: "y_driver m = Pty_master" "y_num m = n" "y_other m = Some b" "y_fds m = [f]" "y_refcount m = 1"
    and s: "y_driver s = Pty_slave" "y_num s = n" "y_other s = Some a" "y_fds s = []" "y_refcount s = 1"
    and st': "ttys st' = (ttys st)(b \<mapsto> s, a \<mapsto> m)" "fd_tty st' = (fd_tty st)(f \<mapsto> a)" "a < new_tty st'" "b < new_tty st'"
      "new_tty st \<le> new_tty st'"
      "slots st' = (slots st)(Pty_slave := (slots st Pty_slave)(n := Used b), Pty_master := (slots st Pty_master)(n := Used a))"
  shows "pty_ok st'"
proof (rule pty_okI)
  have fresh: "ttys st a = None" "ttys st b = None"
    using pty_ok_fresh [OF ok] ab by simp_all
  fix x u assume u': "ttys st' x = Some u"
  show "x < new_tty st' \<and> y_driver u \<noteq> Device \<and> y_num u < MAX_PTYS \<and>
      slots st' (y_driver u) (y_num u) = Used x \<and> pty_count u \<and> pty_links (ttys st') x u"
  proof (cases "x = a \<or> x = b")
    case True
    then show ?thesis using u' st' m s n(1) ab(3) by (auto simp: pty_count_def pty_links_def split: if_splits)
  next
    case False
    then have u: "ttys st x = Some u" using u' st'(1) by simp
    note o = pty_okD [OF ok u]
    have "pty_links (ttys st') x u" using o(6) fresh st'(1) by (fastforce simp: pty_links_def)
    moreover have "slots st' (y_driver u) (y_num u) = Used x"
      using o(4) n(2) n(3) [of x] st'(6) by (auto simp: fun_upd_def)
    ultimately show ?thesis using o st'(5) by simp
  qed
next
  have fresh: "ttys st a = None" "ttys st b = None"
    using pty_ok_fresh [OF ok] ab by simp_all
  fix d k x assume sx: "slots st' d k = Used x"
  show "\<exists>u. ttys st' x = Some u \<and> y_driver u = d \<and> y_num u = k"
  proof (cases "k = n \<and> d \<noteq> Device")
    case True
    then show ?thesis using sx st'(1,6) m s ab(3) by (cases d) auto
  next
    case False
    then have "slots st d k = Used x" using sx st'(6) by (cases d) (auto split: if_splits)
    then obtain v where v: "ttys st x = Some v" "y_driver v = d" "y_num v = k" by (rule pty_ok_slot [OF ok])
    then show ?thesis using st'(1) fresh by auto
  qed
next
  have fresh: "ttys st a = None" "ttys st b = None"
    using pty_ok_fresh [OF ok] ab by simp_all
  show "slots st' d k = Reserved \<Longrightarrow> d = Pty_slave" for d k
    using pty_ok_reserved [OF ok, of d k] st'(6) by (auto split: if_splits)
  show "fd_tty st' g = Some x \<longleftrightarrow> (\<exists>u. ttys st' x = Some u \<and> g \<in> set (y_fds u))" for g x
    using pty_ok_fds [OF ok, of g x] pty_ok_fds [OF ok, of f x] st'(1,2) fresh f m(4) s(4) ab(3)
    by (cases "x = a"; cases "x = b"; cases "g = f") auto
qed

lemma pty_ok_reserve:
  assumes "pty_ok st" and "slots st Pty_slave n = Free"
  shows "pty_ok (set_slot Pty_slave n Reserved st)"
proof (rule pty_okI)
  fix x u assume u: "ttys (set_slot Pty_slave n Reserved st) x = Some u"
  then show "x < new_tty (set_slot Pty_slave n Reserved st) \<and> y_driver u \<noteq> Device \<and> y_num u < MAX_PTYS \<and>
      slots (set_slot Pty_slave n Reserved st) (y_driver u) (y_num u) = Used x \<and> pty_count u \<and>
      pty_links (ttys (set_slot Pty_slave n Reserved st)) x u"
    using pty_okD [OF assms(1), of x u] assms(2) by auto
next
  show "\<exists>u. ttys (set_slot Pty_slave n Reserved st) x = Some u \<and> y_driver u = d \<and> y_num u = k"
    if "slots (set_slot Pty_slave n Reserved st) d k = Used x" for d k x
    using that pty_ok_slot [OF assms(1), of d k x] by (auto split: if_splits)
  show "d = Pty_slave" if "slots (set_slot Pty_slave n Reserved st) d k = Reserved" for d k
    using that pty_ok_reserved [OF assms(1), of d k] by (auto split: if_splits)
  show "fd_tty (set_slot Pty_slave n Reserved st) f = Some x \<longleftrightarrow>
      (\<exists>u. ttys (set_slot Pty_slave n Reserved st) x = Some u \<and> f \<in> set (y_fds u))" for f x
    using pty_ok_fds [OF assms(1), of f x] by simp
qed

lemma master_slot_free:
  assumes ok: "pty_ok st" and n: "\<And>x. slots st Pty_slave n \<noteq> Used x"
  shows "slots st Pty_master n = Free"
proof (cases "slots st Pty_master n")
  case (Used a)
  then obtain t where t: "ttys st a = Some t" "y_driver t = Pty_master" "y_num t = n" by (rule pty_ok_slot [OF ok])
  then obtain b where b: "y_other t = Some b" using pty_okD(6) [OF ok t(1)] by (auto simp: pty_links_def)
  obtain s where "ttys st b = Some s" "y_num s = n" "y_driver s = Pty_slave"
    using pty_linkD [OF ok t(1) b] t(2,3) by auto
  then show ?thesis using pty_okD(4) [OF ok, of b s] n [of b] by simp
qed (use pty_ok_reserved [OF ok] in auto)

subsection \<open>The calls\<close>

lemma w32_dec: "0 < n \<Longrightarrow> n < 2 ^ 32 \<Longrightarrow> w32 (n + (2 ^ 32 - 1)) = n - 1"
  by (simp add: w32_def mod_if)

lemma ptmx_open_ok:
  assumes ok: "pty_ok st" "pty_held st" and f: "fd_tty st f = None" and fl: "flags AND O_NOCTTY \<noteq> 0"
    and run: "ptmx_open e cur f flags st = Some (r, st')"
  shows "pty_ok st' \<and> pty_held st'"
proof -
  obtain n where find: "find (\<lambda>n. slots st Pty_slave n = Free) [0..<MAX_PTYS] = Some n"
    using run by (cases "find (\<lambda>n. slots st Pty_slave n = Free) [0..<MAX_PTYS]") (auto simp: ptmx_open_def pty_reserve_next_def)
  then have n: "slots st Pty_slave n = Free" "n < MAX_PTYS" by (auto simp: find_Some_iff)
  let ?st1 = "set_slot Pty_slave n Reserved st"
  have ok1: "pty_ok ?st1" by (rule pty_ok_reserve [OF ok(1) n(1)])
  have free: "slots ?st1 Pty_master n = Free" by (rule master_slot_free [OF ok1]) simp
  have res: "pty_reserve_next st = Some (n, ?st1)" using find by (simp add: pty_reserve_next_def)
  show ?thesis
  proof (cases "ye_tty e")
    case False
    then have "st' = ?st1" using run res n(2) free by (simp add: ptmx_open_def tty_get_def tty_limit_def)
    then show ?thesis using ok1 ok(2) by (simp add: pty_held_def)
  next
    case True
    let ?a = "new_tty st" and ?b = "Suc (new_tty st)"
    have sl: "ye_slave e"
      using run res n(2) free True
      by (auto simp: ptmx_open_def tty_get_def tty_limit_def tty_init_def pty_master_init_def new_object_def Let_def split: if_splits)
    obtain m s where ms: "y_driver m = Pty_master" "y_num m = n" "y_other m = Some ?b" "y_fds m = [f]" "y_refcount m = 1"
        "y_driver s = Pty_slave" "y_num s = n" "y_other s = Some ?a" "y_fds s = []" "y_refcount s = 1"
        "ttys st' = (ttys st)(?b \<mapsto> s, ?a \<mapsto> m)" "fd_tty st' = (fd_tty st)(f \<mapsto> ?a)" "new_tty st' = new_tty st + 2"
        "slots st' = (slots st)(Pty_slave := (slots st Pty_slave)(n := Used ?b), Pty_master := (slots st Pty_master)(n := Used ?a))"
    proof -
      let ?s = "pty_slave_init_inode e ((tty_alloc (ye_raw_slave e) Pty_slave TTY_PSEUDO_SLAVE_MAJOR n)
        \<lparr>y_refcount := 1, y_other := Some ?a, y_locked := True\<rparr>)"
      let ?t = "tty_alloc (ye_raw e) Pty_master TTY_PSEUDO_MASTER_MAJOR n"
      let ?m = "?t\<lparr>y_termios := (y_termios ?t)\<lparr>t_iflags := 0, t_oflags := 0, t_lflags := 0\<rparr>, y_other := Some ?b,
        y_refcount := 1, y_ever_opened := True, y_fds := [f]\<rparr>"
      have num: "y_num ?t = n" "y_fds ?t = []" "y_refcount ?t = 0" by (simp_all add: tty_alloc_def)
      have "ttys st' = (ttys st)(?b \<mapsto> ?s, ?a \<mapsto> ?m) \<and> fd_tty st' = (fd_tty st)(f \<mapsto> ?a) \<and> new_tty st' = new_tty st + 2 \<and>
          slots st' = (slots st)(Pty_slave := (slots st Pty_slave)(n := Used ?b), Pty_master := (slots st Pty_master)(n := Used ?a))"
        using run res n(2) free True sl fl num
        by (auto simp: ptmx_open_def tty_get_def tty_limit_def tty_init_def pty_master_init_def new_object_def tty_open_def Let_def
            w32_def fun_upd_twist)
      then show ?thesis
        by (intro that [of ?m ?s]) (auto simp: tty_alloc_def pty_slave_init_inode_def)
    qed
    have "pty_ok st'"
      using ms n(1) free by (intro pty_ok_new [OF ok(1) n(2) _ _ f, of ?a ?b m s]) auto
    moreover have "pty_held st'" using ok(2) ms(5,10,11) by (auto simp: pty_held_def)
    ultimately show ?thesis by simp
  qed
qed

lemma slave_open_ok:
  assumes ok: "pty_ok st" "pty_held st" and f: "fd_tty st f = None" and fl: "flags AND O_NOCTTY \<noteq> 0"
    and b: "slots st Pty_slave n = Used b" and few: "\<And>s. ttys st b = Some s \<Longrightarrow> y_refcount s < 2 ^ 32 - 1"
  shows "\<exists>r st'. tty_device_open e cur TTY_PSEUDO_SLAVE_MAJOR n f flags st = Some (r, st') \<and> pty_ok st' \<and> pty_held st'"
proof -
  obtain s where s: "ttys st b = Some s" "y_driver s = Pty_slave" "y_num s = n" by (rule pty_ok_slot [OF ok(1) b])
  note o = pty_okD [OF ok(1) s(1)]
  have rc: "0 < y_refcount s" "y_refcount s < 2 ^ 32 - 1" using ok(2) s(1) few by (auto simp: pty_held_def)
  have w: "w32 (y_refcount s + 1) = y_refcount s + 1" using rc(2) by (simp add: w32_def)
  let ?s1 = "s\<lparr>y_refcount := y_refcount s + 1, y_ever_opened := True\<rparr>"
  let ?st1 = "set_tty b ?s1 st"
  have get: "tty_device_open e cur TTY_PSEUDO_SLAVE_MAJOR n f flags st = driver_open cur b f flags ?st1"
    using o(3) s b w by (simp add: tty_device_open_def major_open_def tty_get_def tty_limit_def)
  show ?thesis
  proof (cases "pty_slave_open s < 0")
    case True
    let ?s2 = "?s1\<lparr>y_refcount := y_refcount s\<rparr>"
    have "w32 (y_refcount s + 1 + (2 ^ 32 - 1)) = y_refcount s" using w32_dec [of "y_refcount s + 1"] rc(2) by simp
    then have "tty_release b ?st1 = Some (set_tty b ?s2 st)"
      using s(2) rc(1) by (simp add: tty_release_def tty_release0_def Let_def)
    moreover have "pty_slave_open ?s1 = pty_slave_open s" by (simp add: pty_slave_open_def)
    ultimately have run: "driver_open cur b f flags ?st1 = Some (pty_slave_open s, set_tty b ?s2 st)"
      using True s(2) by (simp add: driver_open_def)
    have "pty_ok (set_tty b ?s2 st)"
      by (rule pty_ok_core [OF _ _ _ _ ok(1)]) (use s(1) in \<open>auto simp: same_core_def option.rel_refl\<close>)
    moreover have "pty_held (set_tty b ?s2 st)" using ok(2) rc(1) by (auto simp: pty_held_def)
    ultimately show ?thesis using get run by auto
  next
    case False
    let ?s2 = "?s1\<lparr>y_fds := f # y_fds s\<rparr>"
    let ?st2 = "(set_tty b ?s2 st)\<lparr>fd_tty := (fd_tty st)(f \<mapsto> b)\<rparr>"
    have "pty_slave_open ?s1 = pty_slave_open s" by (simp add: pty_slave_open_def)
    then have run: "driver_open cur b f flags ?st1 = Some (0, ?st2)"
      using False s(2) fl by (simp add: driver_open_def tty_open_def Let_def)
    have fds: "fd_tty st g = Some b \<longleftrightarrow> g \<in> set (y_fds s)" for g using pty_ok_fds [OF ok(1), of g b] s(1) by auto
    then have nf: "f \<notin> set (y_fds s)" using f by force
    have "pty_count ?s2" using o(5) nf rc(2) by (simp add: pty_count_def)
    then have "pty_ok ?st2"
      using fds f by (intro pty_ok_fd [OF ok(1) s(1), of ?s2]) (auto split: if_splits)
    moreover have "pty_held ?st2" using ok(2) by (auto simp: pty_held_def)
    ultimately show ?thesis using get run by auto
  qed
qed

text \<open>Closing: first the descriptor and its reference go.\<close>

lemma close_fd_ok:
  assumes ok: "pty_ok st" "pty_held st" and f: "fd_tty st f = Some a" and t: "ttys st a = Some t"
  shows "pty_ok ((set_tty a (t\<lparr>y_fds := remove1 f (y_fds t), y_refcount := y_refcount t - 1\<rparr>) st)\<lparr>fd_tty := (fd_tty st)(f := None)\<rparr>)"
    "f \<in> set (y_fds t)" "w32 (y_refcount t + (2 ^ 32 - 1)) = y_refcount t - 1"
proof -
  have fds: "fd_tty st g = Some a \<longleftrightarrow> g \<in> set (y_fds t)" for g using pty_ok_fds [OF ok(1), of g a] t by auto
  then show ft: "f \<in> set (y_fds t)" using f by blast
  have fx: "fd_tty st f = Some x \<longleftrightarrow> x = a" for x using f by auto
  note c = pty_okD(5) [OF ok(1) t]
  have pos: "0 < y_refcount t" using ok(2) t by (simp add: pty_held_def)
  then show "w32 (y_refcount t + (2 ^ 32 - 1)) = y_refcount t - 1" using c by (intro w32_dec) (auto simp: pty_count_def)
  have "0 < length (y_fds t)" using ft by (cases "y_fds t") auto
  then have "pty_count (t\<lparr>y_fds := remove1 f (y_fds t), y_refcount := y_refcount t - 1\<rparr>)"
    using c ft by (auto simp: pty_count_def length_remove1)
  moreover have "distinct (y_fds t)" using c by (simp add: pty_count_def)
  ultimately show "pty_ok ((set_tty a (t\<lparr>y_fds := remove1 f (y_fds t), y_refcount := y_refcount t - 1\<rparr>) st)\<lparr>fd_tty := (fd_tty st)(f := None)\<rparr>)"
    using fds fx by (intro pty_ok_fd [OF ok(1) t, of "t\<lparr>y_fds := remove1 f (y_fds t), y_refcount := y_refcount t - 1\<rparr>"]) auto
qed

lemma slave_close_core:
  assumes ok: "pty_ok st" and t: "ttys st a = Some t" "y_driver t = Pty_slave"
    and t1: "y_other t1 = y_other t" "y_refcount t1 = y_refcount t"
    and last: "w32 (y_refcount t + (2 ^ 32 - 1)) = y_refcount t - 1"
  obtains st2 where "pty_slave_close a (set_tty a t1 st) = Some st2" "ttys st2 a = Some t1"
    "\<And>x. x \<noteq> a \<Longrightarrow> rel_option same_core (ttys st x) (ttys st2 x)"
    "slots st2 = slots st" "new_tty st2 = new_tty st" "fd_tty st2 = fd_tty st"
    "y_refcount t = 1 \<Longrightarrow> st2 = set_tty a t1 st"
proof (cases "y_refcount t - 1 = (if tty_session (ks st) a \<noteq> 0 then 2 else 1) \<and> y_other t \<noteq> None")
  case False
  then show ?thesis
    using t1 last by (intro that [of "set_tty a t1 st"]) (auto simp: pty_slave_close_def pty_hangup_other_def option.rel_refl)
next
  case True
  then obtain m where m: "y_other t = Some m" by auto
  obtain mt where mt: "ttys st m = Some mt" "y_driver mt = Pty_master" using pty_linkD [OF ok t(1) m] t(2) by auto
  have ne: "m \<noteq> a" using mt t by auto
  let ?st2 = "(set_tty m (mt\<lparr>y_hung_up := True\<rparr>) (set_tty a t1 st))\<lparr>tevents := tevents st @ [(m, Notify_produced), (m, Poll_wakeup 1)]\<rparr>"
  have "pty_slave_close a (set_tty a t1 st) = Some ?st2"
    using True t1 m last mt(1) ne by (simp add: pty_slave_close_def pty_hangup_other_def tty_hangup_def)
  moreover have "y_refcount t \<noteq> 1" using True by (auto split: if_splits)
  ultimately show ?thesis
    using mt(1) ne by (intro that [of ?st2]) (auto simp: same_core_def option.rel_refl)
qed

lemma close_slave_ok:
  assumes ok: "pty_ok st" "pty_held st" and f: "fd_tty st f = Some a" and t: "ttys st a = Some t" "y_driver t = Pty_slave"
  shows "\<exists>st1. tty_close f st = Some (0, st1) \<and> pty_ok (st1\<lparr>fd_tty := (fd_tty st1)(f := None)\<rparr>) \<and> pty_held st1"
proof -
  let ?t1 = "t\<lparr>y_fds := remove1 f (y_fds t)\<rparr>"
  let ?t2 = "t\<lparr>y_fds := remove1 f (y_fds t), y_refcount := y_refcount t - 1\<rparr>"
  note A = close_fd_ok [OF ok f t(1)]
  let ?A = "(set_tty a ?t2 st)\<lparr>fd_tty := (fd_tty st)(f := None)\<rparr>"
  obtain st2 where st2: "pty_slave_close a (set_tty a ?t1 st) = Some st2" "ttys st2 a = Some ?t1"
    "\<And>x. x \<noteq> a \<Longrightarrow> rel_option same_core (ttys st x) (ttys st2 x)"
    "slots st2 = slots st" "new_tty st2 = new_tty st" "fd_tty st2 = fd_tty st" "y_refcount t = 1 \<Longrightarrow> st2 = set_tty a ?t1 st"
    by (rule slave_close_core [OF ok(1) t, of ?t1]) (simp_all add: A(3) [simplified])
  have close: "tty_close f st = map_option (Pair 0) (tty_release a st2)" using f t st2(1) by (simp add: tty_close_def)
  have held: "0 < y_refcount u" if "ttys st2 x = Some u" "x \<noteq> a" for x u
    using st2(3) [OF that(2)] that(1) ok(2) by (cases "ttys st x") (auto simp: pty_held_def same_core_def)
  show ?thesis
  proof (cases "y_refcount t = 1")
    case False
    let ?st3 = "set_tty a ?t2 st2"
    have pos: "y_refcount t - 1 \<noteq> 0" using False ok(2) t(1) by (force simp: pty_held_def)
    have run: "tty_release a st2 = Some ?st3"
      using st2(2) t(2) pos A(3) by (simp add: tty_release_def tty_release0_def Let_def)
    have "pty_ok (?st3\<lparr>fd_tty := (fd_tty ?st3)(f := None)\<rparr>)"
      by (rule pty_ok_core [OF _ _ _ _ A(1)]) (use st2(3-6) in auto)
    moreover have "pty_held ?st3" using held pos by (auto simp: pty_held_def)
    ultimately show ?thesis using close run by auto
  next
    case True
    have c: "y_refcount t = length (y_fds t) + (if y_other t \<noteq> None then 1 else 0)"
      using pty_okD(5) [OF ok(1) t(1)] t(2) by (simp add: pty_count_def)
    have "0 < length (y_fds t)" using A(2) by (cases "y_fds t") auto
    then have o: "y_other t = None" "length (y_fds t) = 1" using c True by (cases "y_other t"; simp)+
    then have e: "remove1 f (y_fds t) = []" using A(2) by (cases "y_fds t") auto
    let ?st3 = "set_slot Pty_slave (y_num t) Free (st\<lparr>ttys := (ttys st)(a := None)\<rparr>)"
    have run: "tty_release a st2 = Some ?st3"
      using st2(7) [OF True] t o(1) A(3) True
      by (simp add: tty_release_def tty_release0_def Let_def slave_cleanup_def pty_slave_cleanup_def pty_hangup_other_def)
    have "pty_ok (?st3\<lparr>fd_tty := (fd_tty ?st3)(f := None)\<rparr>)"
      by (rule pty_ok_free [OF A(1), of a ?t2]) (use o e t in simp_all)
    moreover have "pty_held ?st3" using ok(2) by (auto simp: pty_held_def)
    ultimately show ?thesis using close run by auto
  qed
qed

lemma close_master_ok:
  assumes ok: "pty_ok st" "pty_held st" and f: "fd_tty st f = Some a" and t: "ttys st a = Some t" "y_driver t = Pty_master"
  shows "\<exists>st1. tty_close f st = Some (0, st1) \<and> pty_ok (st1\<lparr>fd_tty := (fd_tty st1)(f := None)\<rparr>) \<and> pty_held st1"
proof -
  let ?t1 = "t\<lparr>y_fds := remove1 f (y_fds t)\<rparr>"
  let ?t2 = "t\<lparr>y_fds := remove1 f (y_fds t), y_refcount := y_refcount t - 1\<rparr>"
  note A = close_fd_ok [OF ok f t(1)]
  let ?A = "(set_tty a ?t2 st)\<lparr>fd_tty := (fd_tty st)(f := None)\<rparr>"
  have close: "tty_close f st = map_option (Pair 0) (tty_release a (set_tty a ?t1 st))" using f t by (simp add: tty_close_def)
  show ?thesis
  proof (cases "y_refcount t = 1")
    case False
    have pos: "y_refcount t - 1 \<noteq> 0" using False ok(2) t(1) by (force simp: pty_held_def)
    have run: "tty_release a (set_tty a ?t1 st) = Some (set_tty a ?t2 st)"
      using t(2) pos A(3) by (simp add: tty_release_def tty_release0_def Let_def)
    moreover have "pty_held (set_tty a ?t2 st)" using ok(2) pos by (auto simp: pty_held_def)
    ultimately show ?thesis using close A(1) by auto
  next
    case True
    have c: "y_refcount t = length (y_fds t)" using pty_okD(5) [OF ok(1) t(1)] t(2) by (simp add: pty_count_def)
    then have e: "remove1 f (y_fds t) = []" using A(2) True by (cases "y_fds t") auto
    obtain b where b: "y_other t = Some b" using pty_okD(6) [OF ok(1) t(1)] t(2) by (auto simp: pty_links_def)
    obtain s where s: "ttys st b = Some s" "y_other s = Some a" "y_num s = y_num t" "y_driver s = Pty_slave"
      using pty_linkD [OF ok(1) t(1) b] t(2) by auto
    have ab: "a \<noteq> b" using t s by auto
    have cs: "y_refcount s = length (y_fds s) + 1" "y_refcount s < 2 ^ 32"
      using pty_okD(5) [OF ok(1) s(1)] s(2,4) by (simp_all add: pty_count_def)
    have ws: "w32 (y_refcount s + (2 ^ 32 - 1)) = length (y_fds s)" using w32_dec [of "y_refcount s"] cs by simp
    let ?s = "s\<lparr>y_hung_up := True, y_other := None, y_refcount := length (y_fds s)\<rparr>"
    let ?ev = "tevents st @ [(b, Notify_produced), (b, Poll_wakeup 1)]"
    define U where "U = (set_slot Pty_master (y_num t) Free (st\<lparr>ttys := ((ttys st)(b \<mapsto> ?s))(a := None), tevents := ?ev\<rparr>))
      \<lparr>fd_tty := (fd_tty st)(f := None)\<rparr>"
    have okU: "pty_ok U"
      by (rule pty_ok_unlink [OF A(1), of a ?t2 b s ?s]) (use ab t b s e in \<open>auto simp: U_def fun_upd_twist\<close>)
    have held: "0 < y_refcount u" if "ttys st x = Some u" for x u using ok(2) that by (auto simp: pty_held_def)
    show ?thesis
    proof (cases "y_fds s = []")
      case no: False
      let ?st3 = "set_slot Pty_master (y_num t) Free (st\<lparr>ttys := ((ttys st)(b \<mapsto> ?s))(a := None), tevents := ?ev\<rparr>)"
      have "tty_release a (set_tty a ?t1 st) = Some ?st3"
        using t b s ab A(3) True ws no
        by (auto simp: tty_release_def tty_release0_def pty_master_cleanup_def pty_hangup_other_def tty_hangup_def Let_def fun_upd_twist)
      moreover have "pty_held ?st3" using held no by (auto simp: pty_held_def)
      ultimately show ?thesis using close okU by (auto simp: U_def)
    next
      case yes: True
      let ?st3 = "set_slot Pty_master (y_num t) Free (set_slot Pty_slave (y_num t) Free
        (st\<lparr>ttys := ((ttys st)(b := None))(a := None), tevents := ?ev\<rparr>))"
      have run: "tty_release a (set_tty a ?t1 st) = Some ?st3"
        using t b s ab A(3) True ws yes
        by (auto simp: tty_release_def tty_release0_def pty_master_cleanup_def pty_hangup_other_def tty_hangup_def
            slave_cleanup_def pty_slave_cleanup_def Let_def fun_upd_twist)
      have "pty_ok (?st3\<lparr>fd_tty := (fd_tty ?st3)(f := None)\<rparr>)"
        by (rule pty_ok_free [OF okU, of b ?s]) (use ab yes s in \<open>auto simp: U_def fun_upd_twist\<close>)
      moreover have "pty_held ?st3" using held by (auto simp: pty_held_def)
      ultimately show ?thesis using close run by auto
    qed
  qed
qed

lemma close_ok:
  assumes "pty_ok st" "pty_held st" and "fd_tty st f = Some a"
  shows "\<exists>st1. tty_close f st = Some (0, st1) \<and> pty_ok (st1\<lparr>fd_tty := (fd_tty st1)(f := None)\<rparr>) \<and> pty_held st1"
proof -
  obtain t where t: "ttys st a = Some t" using pty_ok_fds [OF assms(1), of f a] assms(3) by auto
  then show ?thesis
    using close_slave_ok [OF assms t] close_master_ok [OF assms t] pty_okD(2) [OF assms(1) t] by (cases "y_driver t") auto
qed

lemma unlock_ok:
  assumes ok: "pty_ok st" "pty_held st" and run: "tty_ioctl cur a TIOCSPTLCK arg st = Some (r, arg', st')"
  shows "pty_ok st' \<and> pty_held st'"
proof -
  have "st' = st \<or> (\<exists>b s v. ttys st b = Some s \<and> st' = set_tty b (s\<lparr>y_locked := v\<rparr>) st)"
    using run by (auto simp: tty_ioctl_def tty_mode_ioctl_def pty_master_ioctl_def split: option.splits if_splits ioctl_arg.splits) blast+
  then show ?thesis
  proof (elim disjE exE conjE)
    fix b s v assume b: "ttys st b = Some s" "st' = set_tty b (s\<lparr>y_locked := v\<rparr>) st"
    have "pty_ok st'" by (rule pty_ok_core [OF _ _ _ _ ok(1)]) (use b in \<open>auto simp: same_core_def option.rel_refl\<close>)
    then show ?thesis using b ok(2) by (auto simp: pty_held_def)
  qed (use ok in simp)
qed

subsection \<open>Sequences of calls\<close>

text \<open>
  Calls in any order, with new descriptors that do not ask for a controlling terminal: opening
  \<^verbatim>\<open>/dev/ptmx\<close>, opening a slave that exists, unlocking it, and closing a descriptor.
\<close>

inductive pty_step :: "tstate \<Rightarrow> tstate \<Rightarrow> bool" where
  ptmx: "fd_tty st f = None \<Longrightarrow> flags AND O_NOCTTY \<noteq> 0 \<Longrightarrow> ptmx_open e cur f flags st = Some (r, st') \<Longrightarrow> pty_step st st'"
| slave: "fd_tty st f = None \<Longrightarrow> flags AND O_NOCTTY \<noteq> 0 \<Longrightarrow> slots st Pty_slave n = Used b \<Longrightarrow>
    (\<And>s. ttys st b = Some s \<Longrightarrow> y_refcount s < 2 ^ 32 - 1) \<Longrightarrow>
    tty_device_open e cur TTY_PSEUDO_SLAVE_MAJOR n f flags st = Some (r, st') \<Longrightarrow> pty_step st st'"
| unlock: "tty_ioctl cur a TIOCSPTLCK arg st = Some (r, arg', st') \<Longrightarrow> pty_step st st'"
| close: "fd_tty st f = Some a \<Longrightarrow> tty_close f st = Some (r, st1) \<Longrightarrow> pty_step st (st1\<lparr>fd_tty := (fd_tty st1)(f := None)\<rparr>)"

definition empty_tstate :: tstate where
  "empty_tstate = \<lparr>ttys = Map.empty, fd_tty = Map.empty, slots = (\<lambda>d n. Free), new_tty = 0, ks = empty_kstate, tevents = []\<rparr>"

lemma pty_reach_ok:
  assumes "pty_step\<^sup>*\<^sup>* empty_tstate st"
  shows "pty_ok st \<and> pty_held st"
  using assms
proof (induction rule: rtranclp_induct)
  case base
  then show ?case by (simp add: empty_tstate_def pty_ok_def pty_held_def)
next
  case (step st st')
  then have ok: "pty_ok st" "pty_held st" by simp_all
  from step.hyps(2) show ?case
  proof cases
    case ptmx
    then show ?thesis using ptmx_open_ok [OF ok] by blast
  next
    case (slave f flags n b e cur r)
    then show ?thesis using slave_open_ok [OF ok slave(1-4), of e cur] by auto
  next
    case unlock
    then show ?thesis using unlock_ok [OF ok] by blast
  next
    case (close f a r st1)
    then show ?thesis using close_ok [OF ok close(2)] by (auto simp: pty_held_def)
  qed
qed

lemma all_freed:
  assumes ok: "pty_ok st" "pty_held st" and none: "\<forall>f. fd_tty st f = None"
  shows "ttys st = Map.empty"
proof -
  have held: "0 < y_refcount t" if "ttys st x = Some t" for x t using ok(2) that by (auto simp: pty_held_def)
  have nofd: "y_fds t = []" if "ttys st x = Some t" for x t
    using pty_ok_fds [OF ok(1), of _ x] none that by (cases "y_fds t") auto
  have nomaster: "y_driver t \<noteq> Pty_master" if t: "ttys st x = Some t" for x t
    using pty_okD(5) [OF ok(1) t] held [OF t] nofd [OF t] by (auto simp: pty_count_def)
  have False if t: "ttys st x = Some t" for x t
  proof -
    have d: "y_driver t = Pty_slave" using nomaster [OF t] pty_okD(2) [OF ok(1) t] by (cases "y_driver t") auto
    have "y_other t = None"
    proof (cases "y_other t")
      case (Some b)
      obtain s where s: "ttys st b = Some s" "y_driver s = Pty_master" using pty_linkD [OF ok(1) t Some] d by auto
      then show ?thesis using nomaster by blast
    qed
    then show False using pty_okD(5) [OF ok(1) t] held [OF t] nofd [OF t] by (auto simp: pty_count_def)
  qed
  then show ?thesis by (meson not_None_eq ext)
qed


section \<open>The names of the slaves\<close>

lemma decimal_digits: "list_all isdigit (decimal n)" "decimal n \<noteq> []"
proof -
  have "48 + k mod 10 < 256" for k :: nat using mod_less_divisor [of 10 k] by simp
  then show "list_all isdigit (decimal n)"
    by (induction n rule: decimal.induct) (subst decimal.simps, auto simp: isdigit_def)
  show "decimal n \<noteq> []" by (subst decimal.simps) simp
qed

lemma decimal_value: "foldl (\<lambda>n c. 10 * n + (int (of_char c) - 48)) 0 (decimal n) = int n"
proof (induction n rule: decimal.induct)
  case (1 n)
  have k: "48 + n mod 10 < 256" using mod_less_divisor [of 10 n] by simp
  have "10 * int (n div 10) + int (n mod 10) = int n" by presburger
  then show ?case using 1 k by (subst decimal.simps) (auto simp: zmod_int)
qed

lemma slash_no_digit: "\<not> isdigit slash"
  by (simp add: isdigit_def)

lemma devpts_lookup_decimal:
  assumes "n < MAX_PTYS" and "slots st Pty_slave n \<noteq> Free"
  shows "devpts_get_pty_num (slash # decimal n) st = Some (int n)"
proof -
  have a: "atol (decimal n) = int n" using assms(1) by (simp add: atol_def decimal_value)
  have "slash \<notin> set (decimal n)" using decimal_digits(1) [of n] slash_no_digit by (auto simp: list_all_iff)
  then show ?thesis
    using a assms decimal_digits [of n] by (simp add: devpts_get_pty_num_def devpts_pty_exists_def)
qed

text \<open>
  Every name that reading the directory returns is found by the lookup, and stands for the terminal
  of the number in the entry.
\<close>

theorem devpts_listed_found:
  assumes "devpts_readdir offset st = (Some (ino, name), offset')"
  shows "\<exists>n. n < MAX_PTYS \<and> slots st Pty_slave n \<noteq> Free \<and> ino = n + 3 \<and> offset' = n + 1 \<and>
    devpts_get_pty_num (slash # name) st = Some (int n)"
proof -
  obtain n where n: "devpts_next (s32 (int offset)) st = Some n" "ino = n + 3" "name = decimal n" "offset' = n + 1"
    using assms by (auto simp: devpts_readdir_def split: option.splits)
  then have "n < MAX_PTYS" "slots st Pty_slave n \<noteq> Free" by (auto simp: devpts_next_def find_Some_iff)
  then show ?thesis using n devpts_lookup_decimal by blast
qed

text \<open>The name of the first number that does not exist makes the lookup read behind the array.\<close>

theorem devpts_name_behind_array: "devpts_get_pty_num ''/4096'' st = None"
  by (simp add: devpts_get_pty_num_def isdigit_def atol_def devpts_pty_exists_def)

text \<open>
  Opening \<^verbatim>\<open>/dev/ptmx\<close> without memory leaves the number reserved for ever, and the status of the file with
  that name is read through the pointer 1. With no number left the mark is stored behind the array.
\<close>

theorem ptmx_open_failures:
  "\<not> ye_tty e \<Longrightarrow> pty_ok st \<Longrightarrow> slots st Pty_slave 0 = Free \<Longrightarrow>
     \<exists>st'. ptmx_open e cur f flags st = Some (ENOMEM, st') \<and> devpts_stat (slash # decimal 0) buf st' = None"
  "\<forall>n < MAX_PTYS. slots st Pty_slave n \<noteq> Free \<Longrightarrow> ptmx_open e cur f flags st = None"
proof -
  assume e: "\<not> ye_tty e" and ok: "pty_ok st" and free: "slots st Pty_slave 0 = Free"
  let ?st = "set_slot Pty_slave 0 Reserved st"
  have "find (\<lambda>n. slots st Pty_slave n = Free) [0..<MAX_PTYS] = Some 0"
    unfolding find_Some_iff using free by (intro exI [of _ 0]) simp
  moreover have "slots ?st Pty_master 0 = Free" by (rule master_slot_free [OF pty_ok_reserve [OF ok free]]) simp
  ultimately have "ptmx_open e cur f flags st = Some (ENOMEM, ?st)"
    using e by (simp add: ptmx_open_def pty_reserve_next_def tty_get_def tty_limit_def)
  moreover have "devpts_get_pty_num (slash # decimal 0) ?st = Some (int 0)" by (rule devpts_lookup_decimal) simp_all
  then have "devpts_stat (slash # decimal 0) buf ?st = None" by (simp add: devpts_stat_def devpts_stat_num_def pty_of_def)
  ultimately show "\<exists>st'. ptmx_open e cur f flags st = Some (ENOMEM, st') \<and> devpts_stat (slash # decimal 0) buf st' = None" by blast
next
  assume "\<forall>n < MAX_PTYS. slots st Pty_slave n \<noteq> Free"
  then have "find (\<lambda>n. slots st Pty_slave n = Free) [0..<MAX_PTYS] = None" by (simp add: find_None_iff)
  then show "ptmx_open e cur f flags st = None" by (simp add: ptmx_open_def pty_reserve_next_def)
qed

section \<open>Examples\<close>

definition demo_env :: tty_env where
  "demo_env = \<lparr>ye_tty = True, ye_slave = True, ye_raw = demo_raw, ye_raw_slave = demo_raw, ye_cred = \<lparr>euid = 0, egid = 0\<rparr>,
     ye_dev = False, ye_dev_init = (\<lambda>t. (0, t)), ye_dev_limit = 0, ye_console = (4, 1)\<rparr>"

lemma demo_ptmx:
  "\<exists>st'. ptmx_open demo_env 0 7 O_NOCTTY empty_tstate = Some (0, st') \<and> fd_tty st' = [7 \<mapsto> 0] \<and> slots st' Pty_slave 0 = Used 1"
proof -
  have "find (\<lambda>n. slots empty_tstate Pty_slave n = Free) [0..<MAX_PTYS] = Some 0"
    unfolding find_Some_iff by (intro exI [of _ 0]) (simp add: empty_tstate_def)
  then show ?thesis
    by (simp add: ptmx_open_def pty_reserve_next_def tty_get_def tty_limit_def tty_init_def pty_master_init_def new_object_def
        tty_open_def Let_def demo_env_def empty_tstate_def tty_alloc_def)
qed


text \<open>A pair whose slave has been opened, with no characters in it.\<close>

definition demo_master :: tty where
  "demo_master = demo_raw\<lparr>y_driver := Pty_master, y_type := TTY_PSEUDO_MASTER_MAJOR, y_refcount := 1, y_other := Some 1,
     y_termios := (y_termios demo_tty)\<lparr>t_iflags := 0, t_oflags := 0, t_lflags := 0\<rparr>\<rparr>"

definition demo_slave :: tty where
  "demo_slave = demo_tty\<lparr>y_driver := Pty_slave, y_refcount := 2, y_ever_opened := True, y_other := Some 0\<rparr>"

definition demo_pair :: "tty \<Rightarrow> tstate" where
  "demo_pair s = (demo_tstate demo_master)\<lparr>ttys := [0 \<mapsto> demo_master, 1 \<mapsto> s]\<rparr>"

lemma demo_pair_ok:
  assumes "y_driver s = Pty_slave" "y_refcount s = 2" "y_other s = Some 0" "\<not> y_hung_up s"
  shows "pty_pair 0 demo_master 1 s (demo_pair s)" "may_read 0 1 s (demo_pair s)" "may_read 0 0 demo_master (demo_pair s)"
    "tty_dead 0 (demo_pair s) = Some False" "idle_master demo_master"
  using assms
  by (simp_all add: pty_pair_def may_read_def demo_pair_def demo_tstate_def demo_master_def demo_raw_def tty_dead_def
      pty_is_half_closed_master_def cur_group_def demo_ks_def empty_kstate_def zero_task_def idle_master_def demo_cc)

theorem pty_line_and_echo_witness:
  "\<exists>st1 st2 st3. tty_write (pty_write 0 [] []) True False 0 [0x6c, 0x73, 13] (demo_pair demo_slave) = Some (3, st1) \<and>
    tty_read 0 False 1 3 [] st1 = Some (3, [0x6c, 0x73, 10], st2) \<and>
    tty_read 0 False 0 4 [] st1 = Some (4, [0x6c, 0x73, 13, 10], st3)"
proof -
  have f: "y_termios demo_slave = y_termios demo_tty" "y_bufsize demo_slave = 0" by (simp_all add: demo_slave_def demo_tty_simps)
  have s: "y_driver demo_slave = Pty_slave" "y_refcount demo_slave = 2" "y_other demo_slave = Some 0" "\<not> y_hung_up demo_slave"
    by (simp_all add: demo_slave_def demo_tty_simps)
  note p = demo_pair_ok [OF s]
  have "list_all (ordinary demo_slave) [0x6c, 0x73]" "ends_line demo_slave 13" "lflag demo_slave ICANON"
    and e: "concat (concat (map (char_echo demo_slave) [0x6c, 0x73])) @ (if lflag demo_slave ECHO then [13, 10] else []) =
      [0x6c, 0x73, 13, 10]"
    by (simp_all add: ordinary_def ends_line_def translated_def f demo_tty_simps has_flag_def is_cc_def demo_cc input_signal_def
        char_echo_def should_echoctl_def)
  then show ?thesis
    using pty_line_and_echo [OF p(1,5) _ f(2) p(2,3) _ _ _ e [symmetric], of 13 "[]" True False "[]"]
    by (simp add: numeral_3_eq_3 numeral_eq_Suc)
qed

theorem tty_write_loses_bytes_witness:
  "\<exists>s st' s'. tty_write (pty_write 0 [] []) True True 0 [0x61, 0x62, 0x63] (demo_pair s) = Some (3, st') \<and>
    ttys st' 1 = Some s' \<and> bytes s' = bytes s @ [0x61]"
proof -
  let ?s = "demo_slave\<lparr>y_bufsize := 4095, y_termios := y_termios demo_master\<rparr>"
  have s: "y_driver ?s = Pty_slave" "y_refcount ?s = 2" "y_other ?s = Some 0" "\<not> y_hung_up ?s"
    by (simp_all add: demo_slave_def demo_tty_simps)
  note p = demo_pair_ok [OF s]
  have "\<not> has_flag (t_oflags (y_termios demo_master)) OPOST" "\<not> lflag ?s ICANON" "\<not> lflag ?s ISIG"
    by (simp_all add: demo_master_def)
  then show ?thesis
    using tty_write_loses_bytes [OF p(1,4), of "[0x61, 0x62, 0x63]" 0 "[]" True] by (intro exI [of _ ?s]) simp
qed

end
