(* ===== verification/Spec2Isabelle.thy ===== *)
theory Spec2Isabelle
  imports Prelude Fifo Log Memory Memory_Inv Memory_Cow User_Mem Float80 Float80_Props Vec Mmx Tlb Mount Path Vfs Tmpfs Flock Fd Futex Task Signal Lifecycle Tty Pty
begin

text \<open>
  This library models parts of iSH, a program that runs Linux binaries for x86 on iOS: the kernel
  emulation under \<^verbatim>\<open>kernel/\<close> and \<^verbatim>\<open>fs/\<close>, and the arithmetic and memory access of the processor
  emulation under \<^verbatim>\<open>emu/\<close>.

  \<^bold>\<open>Conventions.\<close> A C structure is a record, a function a HOL function of the same name. Unsigned
  integers are natural numbers with the reduction written out (\<open>w32\<close>, \<open>w64\<close>) or words, signed ones are
  integers (\<open>s32\<close>, \<open>s64\<close>). Macros for constants, and one-line instances of a macro, are abbreviations. Error numbers are negative integers, as in the code. The outer value
  \<^const>\<open>None\<close> of a function stands for undefined behaviour, a failed assertion or a use of a
  freed object, so that a theorem whose conclusion is \<^const>\<open>Some\<close> also shows that these do not occur.
  Failing allocations and the results of the host are arguments or fields of the state. Locks are
  not modelled as objects: a call runs alone, except where it gives up its lock and the steps
  between are explicit (\<open>Futex\<close>, and the waits of \<open>Flock\<close>, \<open>Signal\<close>, \<open>Lifecycle\<close> and \<open>Tty\<close>). Where a function
  returns with a lock held or gives one back twice, the result or the list of events says so.

  \<^bold>\<open>Theories and sources.\<close>
  \<^item> \<open>Prelude\<close>: error numbers, reductions, copies between byte lists.
  \<^item> \<open>Fifo\<close> (\<^verbatim>\<open>util/fifo.c\<close>): the ring buffer; reading and writing are shown to be those of a queue,
    and reading the last bytes is shown to leave the buffer when they wrap around.
  \<^item> \<open>Log\<close> (\<^verbatim>\<open>kernel/log.c\<close>): the log of the kernel over it; it keeps the most recent complete lines.
  \<^item> \<open>Memory\<close>, \<open>Memory_Inv\<close>, \<open>Memory_Cow\<close> (\<^verbatim>\<open>kernel/memory.c\<close>, \<^verbatim>\<open>kernel/memory.h\<close>, \<^verbatim>\<open>emu/mmu.h\<close>): page
    table, mapped objects with reference counts and host mappings. The counts stay exact, mapping
    and unmapping change exactly the pages they name, and after a copy-on-write copy of an address
    space neither side sees the writes of the other.
  \<^item> \<open>User_Mem\<close> (\<^verbatim>\<open>kernel/user.c\<close>): copies to and from guest memory in pieces of pages.
  \<^item> \<open>Tlb\<close> (\<^verbatim>\<open>emu/tlb.h\<close>, \<^verbatim>\<open>emu/tlb.c\<close>): the cache of translations; the locale \<open>mmu\<close> is what it needs
    of guest memory and is interpreted on \<open>Memory\<close>. Accesses through it equal those of a page walk.
  \<^item> \<open>Float80\<close>, \<open>Float80_Props\<close> (\<^verbatim>\<open>emu/float80.c\<close>): extended precision arithmetic on its bit fields;
    multiplication is rounded correctly and conversions round-trip.
  \<^item> \<open>Vec\<close>, \<open>Mmx\<close> (\<^verbatim>\<open>emu/vec.c\<close>, \<^verbatim>\<open>emu/mmx.c\<close>): vector instructions on a store of registers, so
    that two operands may be the same register; the locale \<open>fields\<close> holds the laws of lanes.
  \<^item> \<open>Mount\<close>, \<open>Path\<close>, \<open>Vfs\<close> (\<^verbatim>\<open>fs/mount.c\<close>, \<^verbatim>\<open>fs/path.c\<close>, \<^verbatim>\<open>fs/generic.c\<close>, \<^verbatim>\<open>fs/stat.c\<close>, \<^verbatim>\<open>fs/inode.c\<close>): the table of mounts
    as a transition system, the normalization of paths, the table of inodes and the generic
    operations. The operations of the file systems are an argument, a record of functions.
    A path without links is normalized to its resolved components, the lookup finds the longest
    mount point, and failing calls give their references back.
  \<^item> \<open>Tmpfs\<close> (\<^verbatim>\<open>fs/tmp.c\<close>): the temporary file system as a store of inodes and entries with their
    reference counts. Making directories and files, and writing, implement a map from paths to
    nodes; directories are read completely; a read behind the end of a file leaves its buffer.
  \<^item> \<open>Flock\<close> (\<^verbatim>\<open>fs/lock.c\<close>): record locks; a granted request changes what its owner holds on the
    requested range and nothing else.
  \<^item> \<open>Fd\<close> (\<^verbatim>\<open>fs/fd.c\<close>, \<^verbatim>\<open>util/bits.h\<close>): open files and their tables over \<open>Flock\<close>. Sequences of calls
    keep the reference counts exact; \<^verbatim>\<open>dup2\<close> to -1, a limit of \<^verbatim>\<open>2^32\<close> and the waiting lock requests
    are shown to go wrong.
  \<^item> \<open>Futex\<close> (\<^verbatim>\<open>kernel/futex.c\<close>): the table of futexes as a transition system of interleaved calls; no
    waiter is lost and wakes come in order.
  \<^item> \<open>Task\<close> (\<^verbatim>\<open>kernel/task.h\<close>, \<^verbatim>\<open>kernel/task.c\<close>, \<^verbatim>\<open>kernel/group.c\<close>, \<^verbatim>\<open>tgroup_copy\<close> of \<^verbatim>\<open>kernel/fork.c\<close>): the table
    of process numbers, tasks, thread groups, process groups and sessions as a store of objects. A
    new task gets a free number in range; the lists of groups have each group once; \<^verbatim>\<open>setpgid\<close> to another
    process group enters the wrong list.
  \<^item> \<open>Signal\<close> (\<^verbatim>\<open>kernel/signal.h\<close>, \<^verbatim>\<open>kernel/signal.c\<close>): sending, queueing, delivery and return from
    handlers over \<open>Task\<close>. Pending signals are those queued, frames lie where they should, a return
    restores the interrupted registers; the locale \<open>signal_frame\<close> carries a relation that deliveries
    keep over every sending call and is interpreted on those of the two theories; \<^verbatim>\<open>SIGKILL\<close> in the mask of an action, \<^verbatim>\<open>sigtimedwait\<close> and \<^verbatim>\<open>pause\<close>
    are shown to go wrong.
  \<^item> \<open>Lifecycle\<close> (\<^verbatim>\<open>kernel/fork.c\<close>, \<^verbatim>\<open>kernel/exit.c\<close>, \<^verbatim>\<open>construct_task\<close> of \<^verbatim>\<open>kernel/init.c\<close>): clone, exit and
    wait over both, as a transition system. In every reachable state the lists of process groups and
    sessions agree with the numbers of the groups; a clone that fails late leaves a group with a
    freed leader. On top of it this theory shows whom a signal to a process group reaches.
  \<^item> \<open>Tty\<close> (\<^verbatim>\<open>fs/tty.c\<close>, \<^verbatim>\<open>fs/tty.h\<close>): the line discipline over \<open>Signal\<close>. Typing implements the editing of
    lines with its echo and signals, and reading returns line by line; an end of file behind a line
    is lost, timed reads do not end, and raw input takes over old flags. This theory shows whom a typed
    interrupt reaches.
  \<^item> \<open>Pty\<close> (the rest of \<^verbatim>\<open>fs/tty.c\<close>, \<^verbatim>\<open>fs/pty.c\<close>): opening, closing and control calls of terminals, and
    pseudo-terminals. Sequences of calls, as a transition system, keep the counts of masters and slaves
    exact and free them in the end; what is written to a master is read from its slave and its echo from the
    master.

  \<^bold>\<open>Bounds.\<close> No function runs on fuel. Loops are recursive functions with a termination proof; those
  that may not end are partial functions, whose value is then \<^const>\<open>None\<close>: the loops over pages of
  \<open>User_Mem\<close>, the loops of \<^verbatim>\<open>f80_log2\<close>, \<^verbatim>\<open>mount_param_flag\<close>, the search for a process number in \<open>Task\<close> and
  the loop of \<^verbatim>\<open>pause\<close>. Calls that sleep and then look again (\<^verbatim>\<open>sigtimedwait\<close>, \<^verbatim>\<open>wait\<close>, reads and writes of terminals) take the list of
  what each sleep returns and of what others did meanwhile; its end means that the call still
  sleeps. In \<open>Fd\<close> tables
  and limits are at most \<open>2 ^ 30\<close> entries, an array of 8 GiB, which keeps the addition of 1 to a
  number inside \<^verbatim>\<open>int\<close>; a pseudo-terminal has fewer than \<open>2 ^ 32 - 1\<close> references; in \<open>Futex\<close> fewer than \<open>2 ^ 31\<close> threads wait, which keeps the counts
  inside 32 bits.

  \<^bold>\<open>Not modelled.\<close> System calls that only copy arguments around a modelled operation (most of
  \<^verbatim>\<open>kernel/fs.c\<close>, \<^verbatim>\<open>sys_mount\<close>); of processes the loading of programs, identities, tracing, \<^verbatim>\<open>vfork\<close>,
  \<^verbatim>\<open>do_exit_group\<close>, \<^verbatim>\<open>halt_system\<close> and resource usage, of signals the byte layout of the frames and the
  wait for a tracer; time and polling, which wait on the host, and the stack of the floating-point
  unit; of terminals the driver of the host terminal, the numbers lent to a driver of the application
  (\<^verbatim>\<open>pty_open_fake\<close>), and what others do to the far side of a pseudo-terminal while an echo is written; the file systems behind
  the generic operations other than \<open>Tmpfs\<close>; sockets and the database of the fake file system, which are calls of the
  host; the instruction decoder, a macro file, and the translator, whose files here are stubs;
  the application, tools, tests and vendored code. The fields of \<^verbatim>\<open>struct fd\<close> that belong to
  those parts are left out of \<open>Fd\<close>.
\<close>

section \<open>Properties that span components\<close>


lemma boot2_kill: "\<exists>st'. do_kill 0 (- 2) 15 0 boot2 = Some (0, st')"
  by (simp add: do_kill_def kill_group_def kill_task_def send_signal_def task_sighand_def signal_action_def
      signal_is_blockable_def default_action_def deliver_signal_unlocked_def sig_mask_def pid_get_def pid_empty_def
      boot2_def boot1_def boot_group_def boot_sighand_def zero_task_def Let_def)


text \<open>Sending to the leaders of a list of groups, without the test of permissions of \<^verbatim>\<open>kill\<close>.\<close>

lemma send_leaders_others:
  assumes "send_leaders cur gs s info st = Some st'" "\<And>g k. g \<in> set gs \<Longrightarrow> groups st g = Some k \<Longrightarrow> tg_leader k \<noteq> u"
  shows "tasks st' u = tasks st u"
  using assms
proof (induction gs arbitrary: st)
  case (Cons g gs)
  obtain k st1 where k: "groups st g = Some k" "send_signal cur (tg_leader k) s info st = Some st1"
      "send_leaders cur gs s info st1 = Some st'"
    using Cons.prems(1) by (auto split: option.splits)
  have "tg_leader k' \<noteq> u" if "g' \<in> set gs" "groups st1 g' = Some k'" for g' k'
  proof -
    have "map_option tg_leader (groups st g') = Some (tg_leader k')"
      using leaders.send [OF k(2)] that(2) by (metis option.map(2) same_leaders_def)
    then show ?thesis using Cons.prems(2) that(1) by auto
  qed
  then have "tasks st' u = tasks st1 u" by (rule Cons.IH [OF k(3)])
  then show ?case using send_signal_others [OF k(2), of u] Cons.prems(2) [of g k] k(1) by simp
qed simp

lemma send_leaders_pending:
  assumes "send_leaders cur gs s info st = Some st'" "g \<in> set gs" "groups st g = Some k" "takes (tg_leader k) s st" "s \<noteq> 0"
  shows "has_pending (tg_leader k) s st'"
  using assms
proof (induction gs arbitrary: st k)
  case (Cons x xs)
  obtain y st1 where y: "groups st x = Some y" "send_signal cur (tg_leader y) s info st = Some st1"
      "send_leaders cur xs s info st1 = Some st'"
    using Cons.prems(1) by (auto split: option.splits)
  note ks = sending.send [OF y(2)]
  show ?case
  proof (cases "x = g")
    case True
    then have "has_pending (tg_leader k) s st1" using send_signal_pending [OF y(2)] y(1) Cons.prems(3-5) by simp
    then show ?thesis using sent_pending sending.send_all [OF y(3)] by blast
  next
    case False
    have "map_option tg_leader (groups st1 g) = Some (tg_leader k)"
      using ks Cons.prems(3) by (simp add: sent_def same_leaders_def)
    then obtain k' where k': "groups st1 g = Some k'" "tg_leader k' = tg_leader k" by auto
    show ?thesis
      using Cons.IH [OF y(3) _ k'(1) _ Cons.prems(5)] False Cons.prems(2,4) k'(2) sent_takes [OF ks] by simp
  qed
qed simp

lemma one_bit: "push_bit i 1 AND push_bit j (1 :: u64) = 0 \<longleftrightarrow> i \<noteq> j" if "i < 64" "j < 64" for i j :: nat
proof
  assume "push_bit i 1 AND push_bit j (1 :: u64) = 0"
  then have "\<not> Bit_Operations.bit (push_bit i 1 AND push_bit j (1 :: u64)) i" by simp
  then show "i \<noteq> j" using that by (auto simp: bit_simps)
next
  assume "i \<noteq> j"
  then show "push_bit i 1 AND push_bit j (1 :: u64) = 0" by (intro bit_word_eqI) (auto simp: bit_simps)
qed

lemma send_queue_one:
  assumes "distinct sigs" "\<forall>q \<in> set sigs. 1 \<le> q \<and> q < NUM_SIGS" "1 \<le> s" "s < NUM_SIGS"
  shows "send_queue cur p (push_bit (s - 1) 1) sigs k =
    (if s \<in> set sigs then map_option snd (send_group_signal cur p s SIGINFO_NIL k) else Some k)"
  using assms
proof (induction sigs arbitrary: k)
  case (Cons q qs)
  have bit: "push_bit (s - 1) 1 AND push_bit (q - 1) (1 :: u64) = 0 \<longleftrightarrow> s \<noteq> q"
    using one_bit [of "s - 1" "q - 1"] Cons.prems(2-4) by auto
  show ?case
    using Cons bit by (cases "s = q") (auto split: option.split)
qed simp


lemma boot2_interrupt: "\<exists>k. send_group_signal 0 2 SIGINT SIGINFO_NIL boot2 = Some (0, k)"
  by (simp add: send_group_signal_def send_signal_def task_sighand_def signal_action_def
      signal_is_blockable_def default_action_def deliver_signal_unlocked_def sig_mask_def pid_get_def pid_empty_def
      boot2_def boot1_def boot_group_def boot_sighand_def zero_task_def Let_def)

definition demo_foreground :: tstate where
  "demo_foreground = (demo_tstate (demo_tty\<lparr>y_fg_group := 2\<rparr>))\<lparr>ks := boot2\<rparr>"


end
